(* ===== verification/Prelude.thy ===== *)
theory Prelude
  imports Main "HOL-Library.Word" "HOL-Library.AList"
begin

unbundle bit_operations_syntax

text \<open>
  What the components share: bytes, Python exceptions as values, Python's insertion-ordered
  dictionaries as association lists, and the collections of facts the component proofs rest on.
  A call that may raise returns a value of type \<open>'a result\<close> (\<open>Inl\<close> the exception); a call that
  also changes state returns the result together with the state it leaves behind, because
  Python keeps the mutations made before a \<open>raise\<close>.
\<close>

named_theorems byte_simps \<open>sizes and round trips of big-endian fields\<close>
named_theorems result_simps \<open>success and failure of guarded computations\<close>
named_theorems dict_simps \<open>lookups in ordered dictionaries after each operation\<close>

section \<open>Bytes and exceptions\<close>

type_synonym byte = "8 word"
type_synonym bytes = "8 word list"

text \<open>
  The exception classes the modelled code raises or catches. \<open>ProtocolError\<close>, \<open>ConfigError\<close> and
  \<open>ProbeError\<close> are the program's own subclasses of \<open>ValueError\<close>; the others are Python's.
\<close>

datatype exn =
    ProtocolError string
  | ConfigError string
  | ProbeError string
  | ValueError string
  | TypeError
  | KeyError
  | AttributeError
  | IndexError
  | StopIteration
  | StructError
  | OverflowError
  | OSError string
  | RuntimeError string
  | HTTPException string

type_synonym 'a result = "exn + 'a"

definition is_ok :: "'a result \<Rightarrow> bool" where
  "is_ok r = (case r of Inl _ \<Rightarrow> False | Inr _ \<Rightarrow> True)"

lemma is_ok_simps [simp]: "is_ok (Inr x)" "\<not> is_ok (Inl e)"
  by (simp_all add: is_ok_def)

lemma is_okE: "is_ok r \<Longrightarrow> (\<And>x. r = Inr x \<Longrightarrow> P) \<Longrightarrow> P"
  by (cases r) auto

text \<open>
  Sequencing: run \<open>r\<close>, let its exception through, and go on with its value. Long sequences of
  calls that may raise are written with it.
\<close>

definition and_then :: "'a result \<Rightarrow> ('a \<Rightarrow> 'b result) \<Rightarrow> 'b result" where
  "and_then r f = (case r of Inl e \<Rightarrow> Inl e | Inr x \<Rightarrow> f x)"

lemma and_then_simps [simp]: "and_then (Inr x) f = f x" "and_then (Inl e) f = Inl e"
  by (simp_all add: and_then_def)

lemma and_then_Inr [result_simps]: "and_then r f = Inr y \<longleftrightarrow> (\<exists>x. r = Inr x \<and> f x = Inr y)"
  by (cases r) auto

lemma and_then_cong [fundef_cong]:
  "r = r' \<Longrightarrow> (\<And>x. r' = Inr x \<Longrightarrow> f x = f' x) \<Longrightarrow> and_then r f = and_then r' f'"
  by (cases r') auto

text \<open>
  A chain of guards succeeds when no guard holds and its end succeeds. These equations rewrite
  a whole handler without splitting it into its branches.
\<close>

lemma guard_Inr [result_simps]: "(if b then Inl e else k) = Inr x \<longleftrightarrow> \<not> b \<and> k = Inr x"
  by simp

lemma bind_Inr [result_simps]:
  "(case r of Inl e \<Rightarrow> Inl e | Inr v \<Rightarrow> g v) = Inr x \<longleftrightarrow> (\<exists>v. r = Inr v \<and> g v = Inr x)"
  by (cases r) auto

lemma bind_const_Inr [result_simps]:
  "(case r of Inl e \<Rightarrow> Inl e' | Inr v \<Rightarrow> g v) = Inr x \<longleftrightarrow> (\<exists>v. r = Inr v \<and> g v = Inr x)"
  by (cases r) auto

lemma option_Inr [result_simps]:
  "(case m of None \<Rightarrow> Inl e | Some v \<Rightarrow> g v) = Inr x \<longleftrightarrow> (\<exists>v. m = Some v \<and> g v = Inr x)"
  by (cases m) auto

lemma guard_Inl [result_simps]: "(if b then Inl e else k) = Inl x \<longleftrightarrow> b \<and> e = x \<or> \<not> b \<and> k = Inl x"
  by simp

text \<open>\<open>except (ProtocolError)\<close> and \<open>except ValueError\<close> as predicates on exceptions.\<close>

definition is_protocol_error :: "exn \<Rightarrow> bool" where
  "is_protocol_error e = (case e of ProtocolError _ \<Rightarrow> True | _ \<Rightarrow> False)"

definition is_value_error :: "exn \<Rightarrow> bool" where
  "is_value_error e =
     (case e of ProtocolError _ \<Rightarrow> True | ConfigError _ \<Rightarrow> True | ProbeError _ \<Rightarrow> True
      | ValueError _ \<Rightarrow> True | _ \<Rightarrow> False)"

definition is_os_error :: "exn \<Rightarrow> bool" where
  "is_os_error e = (case e of OSError _ \<Rightarrow> True | _ \<Rightarrow> False)"

lemma exn_class_simps [simp]:
  "is_protocol_error (ProtocolError m)" "is_value_error (ProtocolError m)"
  "is_value_error (ValueError m)" "is_value_error (ConfigError m)" "is_value_error (ProbeError m)"
  "is_os_error (OSError m)"
  "\<not> is_protocol_error StructError" "\<not> is_protocol_error KeyError" "\<not> is_protocol_error TypeError"
  "\<not> is_protocol_error (OSError m)" "\<not> is_os_error (ProtocolError m)"
  "\<not> is_protocol_error (ValueError m)"
  by (simp_all add: is_protocol_error_def is_value_error_def is_os_error_def)

text \<open>A computation raises only exceptions of a class.\<close>

definition raises_only :: "(exn \<Rightarrow> bool) \<Rightarrow> 'a result \<Rightarrow> bool" where
  "raises_only P r = (case r of Inl e \<Rightarrow> P e | Inr _ \<Rightarrow> True)"

lemma raises_only_Inr [intro]: "raises_only P (Inr x)"
  by (simp add: raises_only_def)

lemma raises_only_Inl [intro]: "P e \<Longrightarrow> raises_only P (Inl e)"
  by (simp add: raises_only_def)

lemma raises_only_if [intro]:
  "(b \<Longrightarrow> raises_only P r) \<Longrightarrow> (\<not> b \<Longrightarrow> raises_only P k) \<Longrightarrow> raises_only P (if b then r else k)"
  by simp

lemma raises_only_option [intro]:
  "(m = None \<Longrightarrow> raises_only P r) \<Longrightarrow> (\<And>v. m = Some v \<Longrightarrow> raises_only P (g v)) \<Longrightarrow>
   raises_only P (case m of None \<Rightarrow> r | Some v \<Rightarrow> g v)"
  by (cases m) auto

lemma raises_only_sum [intro]:
  "(\<And>e. r = Inl e \<Longrightarrow> raises_only P (f e)) \<Longrightarrow> (\<And>v. r = Inr v \<Longrightarrow> raises_only P (g v)) \<Longrightarrow>
   raises_only P (case r of Inl e \<Rightarrow> f e | Inr v \<Rightarrow> g v)"
  by (cases r) auto

lemma raises_only_and_then [intro]:
  "raises_only P r \<Longrightarrow> (\<And>v. r = Inr v \<Longrightarrow> raises_only P (f v)) \<Longrightarrow> raises_only P (and_then r f)"
  by (cases r) (simp_all add: raises_only_def)

lemmas raises_only_rules = raises_only_Inr raises_only_Inl raises_only_if raises_only_option
  raises_only_sum

section \<open>Ordered dictionaries\<close>

text \<open>
  A Python dictionary iterates in insertion order: storing under an existing key keeps its
  place, a new key goes to the end. \<open>AList.update\<close> and \<open>AList.delete\<close> do exactly this on
  association lists. \<open>dict_move_to_end\<close> and \<open>dict_popitem_first\<close> are \<open>OrderedDict\<close>'s.
\<close>

type_synonym ('k, 'v) dict = "('k \<times> 'v) list"

abbreviation dict_get :: "('k, 'v) dict \<Rightarrow> 'k \<Rightarrow> 'v option" where
  "dict_get \<equiv> map_of"

abbreviation dict_put :: "'k \<Rightarrow> 'v \<Rightarrow> ('k, 'v) dict \<Rightarrow> ('k, 'v) dict" where
  "dict_put \<equiv> AList.update"

abbreviation dict_del :: "'k \<Rightarrow> ('k, 'v) dict \<Rightarrow> ('k, 'v) dict" where
  "dict_del \<equiv> AList.delete"

definition dict_has :: "('k, 'v) dict \<Rightarrow> 'k \<Rightarrow> bool" where
  "dict_has d k = (k \<in> set (map fst d))"

definition dict_ok :: "('k, 'v) dict \<Rightarrow> bool" where
  "dict_ok d = distinct (map fst d)"

definition dict_move_to_end :: "'k \<Rightarrow> ('k, 'v) dict \<Rightarrow> ('k, 'v) dict" where
  "dict_move_to_end k d =
     (case map_of d k of None \<Rightarrow> d | Some v \<Rightarrow> AList.delete k d @ [(k, v)])"

definition dict_popitem_first :: "('k, 'v) dict \<Rightarrow> ('k, 'v) dict" where
  "dict_popitem_first d = tl d"

lemma dict_has_iff: "dict_has d k \<longleftrightarrow> map_of d k \<noteq> None"
  by (simp add: dict_has_def map_of_eq_None_iff)

lemma dict_has_Nil [simp]: "\<not> dict_has [] k"
  by (simp add: dict_has_def)

lemma dict_get_put [dict_simps]:
  "map_of (AList.update k v d) k' = (if k' = k then Some v else map_of d k')"
  by (simp add: update_conv)

lemma dict_get_del [dict_simps]:
  "map_of (AList.delete k d) k' = (if k' = k then None else map_of d k')"
  by (simp add: delete_conv)

lemma dict_has_put [dict_simps]: "dict_has (AList.update k v d) k' \<longleftrightarrow> k' = k \<or> dict_has d k'"
  by (simp add: dict_has_iff dict_simps)

lemma dict_has_del [dict_simps]: "dict_has (AList.delete k d) k' \<longleftrightarrow> k' \<noteq> k \<and> dict_has d k'"
  by (simp add: dict_has_iff dict_simps)

lemma dict_ok_Nil [simp]: "dict_ok []"
  by (simp add: dict_ok_def)

lemma dict_ok_put [intro]: "dict_ok d \<Longrightarrow> dict_ok (AList.update k v d)"
  by (simp add: dict_ok_def distinct_update)

lemma dict_ok_del [intro]: "dict_ok d \<Longrightarrow> dict_ok (AList.delete k d)"
  by (simp add: dict_ok_def distinct_delete)

lemma dict_ok_filter [intro]: "dict_ok d \<Longrightarrow> dict_ok (filter P d)"
  by (simp add: dict_ok_def distinct_map_filter)

lemma dict_get_filter:
  "dict_ok d \<Longrightarrow>
   map_of (filter (\<lambda>(k, v). P k v) d) k =
     (case map_of d k of None \<Rightarrow> None | Some v \<Rightarrow> if P k v then Some v else None)"
proof (induction d)
  case Nil
  then show ?case by simp
next
  case (Cons p d)
  obtain k' v' where p: "p = (k', v')" by (cases p)
  have "map_of d k' = None" and "dict_ok d"
    using Cons.prems by (auto simp: p dict_ok_def map_of_eq_None_iff)
  then show ?case
    using Cons.IH by (auto simp: p split: option.splits)
qed

lemma length_update:
  "length (AList.update k v d) = (if dict_has d k then length d else Suc (length d))"
  by (induction d) (auto simp: dict_has_def)

lemma length_update_le: "length (AList.update k v d) \<le> Suc (length d)"
  by (simp add: length_update)

lemma dict_del_absent: "\<not> dict_has d k \<Longrightarrow> AList.delete k d = d"
  by (simp add: dict_has_def)

lemma update_new: "\<not> dict_has d k \<Longrightarrow> AList.update k v d = d @ [(k, v)]"
  by (induction d) (auto simp: dict_has_def)

lemma length_delete_less: "dict_has d k \<Longrightarrow> length (AList.delete k d) < length d"
  by (induction d) (force simp: dict_has_def less_Suc_eq_le length_delete_le)+

lemma length_delete_ok:
  "dict_ok d \<Longrightarrow> dict_has d k \<Longrightarrow> length (AList.delete k d) = length d - 1"
proof (induction d)
  case Nil
  then show ?case by simp
next
  case (Cons p d)
  show ?case
  proof (cases "fst p = k")
    case True
    with Cons.prems have "\<not> dict_has d k"
      by (auto simp: dict_ok_def dict_has_def)
    with True show ?thesis by (simp add: dict_del_absent)
  next
    case False
    with Cons.prems have "dict_has d k" "dict_ok d"
      by (auto simp: dict_has_def dict_ok_def)
    with Cons.IH False show ?thesis
      by (cases d) auto
  qed
qed

lemma dict_get_move_to_end [dict_simps]: "map_of (dict_move_to_end k d) k' = map_of d k'"
  by (auto simp: dict_move_to_end_def dict_simps map_add_def split: option.splits)

lemma dict_has_move_to_end [dict_simps]: "dict_has (dict_move_to_end k d) k' = dict_has d k'"
  by (simp add: dict_has_iff dict_simps)

lemma dict_ok_move_to_end [intro]: "dict_ok d \<Longrightarrow> dict_ok (dict_move_to_end k d)"
  by (auto simp: dict_move_to_end_def dict_ok_def delete_keys distinct_removeAll split: option.splits)

lemma length_move_to_end [simp]: "dict_ok d \<Longrightarrow> length (dict_move_to_end k d) = length d"
proof (cases "map_of d k")
  case None
  then show ?thesis by (simp add: dict_move_to_end_def)
next
  case (Some v)
  assume ok: "dict_ok d"
  from Some have has: "dict_has d k" by (simp add: dict_has_iff)
  then have "0 < length d" by (cases d) auto
  with Some show ?thesis
    by (simp add: dict_move_to_end_def length_delete_ok [OF ok has])
qed

lemma dict_ok_tl [intro]: "dict_ok d \<Longrightarrow> dict_ok (tl d)"
  by (cases d) (auto simp: dict_ok_def)

section \<open>Lists\<close>

lemma nth_eq_from_take_drop: "i < length xs \<Longrightarrow> xs = take i xs @ xs ! i # drop (Suc i) xs"
  by (simp add: id_take_nth_drop)

lemma sum_list_map_length_concat: "length (concat xss) = sum_list (map length xss)"
  by (induction xss) auto

end
