(* ===== verification/Py_Struct.thy ===== *)
theory Py_Struct
  imports Prelude
begin

text \<open>
  Python's \<open>struct\<close> module in network byte order (\<open>!\<close>), as far as the program uses it:
  unsigned integers of 1, 2, 4 and 8 bytes and byte strings of a fixed length. A format is a
  list of fields; packing and unpacking are defined once for every format and the round trips
  are proved once, so that the frame header, the acknowledgement body, the probe header and the
  IPv4/UDP headers are instances. The locale \<open>packed_record\<close> is the interface between this
  theory and a record that is carried by a format.
\<close>

section \<open>Big-endian integers\<close>

fun be_bytes :: "nat \<Rightarrow> nat \<Rightarrow> bytes" where
  "be_bytes 0 v = []"
| "be_bytes (Suc n) v = be_bytes n (v div 256) @ [word_of_nat v]"

definition be_nat :: "bytes \<Rightarrow> nat" where
  "be_nat bs = foldl (\<lambda>acc b. acc * 256 + unat b) 0 bs"

lemma length_be_bytes [simp, byte_simps]: "length (be_bytes n v) = n"
  by (induction n arbitrary: v) auto

lemma unat_byte_less [simp]: "unat (b :: byte) < 256"
  using unsigned_less [of b] by simp

lemma be_nat_Nil [simp]: "be_nat [] = 0"
  by (simp add: be_nat_def)

lemma be_nat_snoc [simp]: "be_nat (bs @ [b]) = be_nat bs * 256 + unat b"
  by (simp add: be_nat_def)

lemma be_nat_less: "be_nat bs < 256 ^ length bs"
proof (induction bs rule: rev_induct)
  case Nil
  then show ?case by simp
next
  case (snoc b bs)
  have "be_nat bs * 256 + unat b < be_nat bs * 256 + 256" by simp
  also have "\<dots> = Suc (be_nat bs) * 256" by simp
  also have "\<dots> \<le> 256 ^ length bs * 256"
    using snoc.IH by (intro mult_le_mono1) simp
  finally show ?case by (simp add: mult.commute)
qed

lemma be_nat_be_bytes: "v < 256 ^ n \<Longrightarrow> be_nat (be_bytes n v) = v"
proof (induction n arbitrary: v)
  case 0
  then show ?case by simp
next
  case (Suc n)
  from Suc.prems have "v div 256 < 256 ^ n"
    by (simp add: less_mult_imp_div_less mult.commute)
  then have "be_nat (be_bytes n (v div 256)) = v div 256" by (rule Suc.IH)
  then show ?case by (simp add: unat_of_nat)
qed

lemma byte_256_zero: "(256 :: byte) = 0"
  using word_exp_length_eq_0 [where 'a = 8] by simp

lemma be_bytes_be_nat: "be_bytes (length bs) (be_nat bs) = bs"
proof (induction bs rule: rev_induct)
  case Nil
  then show ?case by simp
next
  case (snoc b bs)
  have "(be_nat bs * 256 + unat b) div 256 = be_nat bs"
    by (simp add: div_mult_self3)
  moreover have "(word_of_nat (be_nat bs * 256 + unat b) :: byte) = b"
    by (simp add: byte_256_zero)
  ultimately show ?case using snoc.IH by simp
qed

lemma be_bytes_inj: "u < 256 ^ n \<Longrightarrow> v < 256 ^ n \<Longrightarrow> be_bytes n u = be_bytes n v \<Longrightarrow> u = v"
  by (metis be_nat_be_bytes)

section \<open>Formats\<close>

datatype sfield = FStr nat | FUInt nat

datatype sval = VBytes bytes | VInt int

fun field_size :: "sfield \<Rightarrow> nat" where
  "field_size (FStr n) = n"
| "field_size (FUInt n) = n"

definition calcsize :: "sfield list \<Rightarrow> nat" where
  "calcsize fs = sum_list (map field_size fs)"

text \<open>
  \<open>'\<close>\<open>s'\<close> truncates or pads its argument with zero bytes; an integer that does not fit its
  field, a value of the wrong type and a wrong number of values raise \<open>struct.error\<close>.
\<close>

fun pack_field :: "sfield \<Rightarrow> sval \<Rightarrow> bytes result" where
  "pack_field (FStr n) (VBytes b) = Inr (take n (b @ replicate n 0))"
| "pack_field (FUInt n) (VInt i) =
     (if 0 \<le> i \<and> i < 256 ^ n then Inr (be_bytes n (nat i)) else Inl StructError)"
| "pack_field _ _ = Inl StructError"

fun struct_pack :: "sfield list \<Rightarrow> sval list \<Rightarrow> bytes result" where
  "struct_pack [] [] = Inr []"
| "struct_pack (f # fs) (v # vs) =
     (case pack_field f v of Inl e \<Rightarrow> Inl e
      | Inr b \<Rightarrow> (case struct_pack fs vs of Inl e \<Rightarrow> Inl e | Inr bs \<Rightarrow> Inr (b @ bs)))"
| "struct_pack _ _ = Inl StructError"

fun unpack_fields :: "sfield list \<Rightarrow> bytes \<Rightarrow> sval list" where
  "unpack_fields [] bs = []"
| "unpack_fields (FStr n # fs) bs = VBytes (take n bs) # unpack_fields fs (drop n bs)"
| "unpack_fields (FUInt n # fs) bs =
     VInt (int (be_nat (take n bs))) # unpack_fields fs (drop n bs)"

definition struct_unpack :: "sfield list \<Rightarrow> bytes \<Rightarrow> sval list result" where
  "struct_unpack fs bs =
     (if length bs = calcsize fs then Inr (unpack_fields fs bs) else Inl StructError)"

definition struct_unpack_from :: "sfield list \<Rightarrow> bytes \<Rightarrow> sval list result" where
  "struct_unpack_from fs bs =
     (if length bs < calcsize fs then Inl StructError else Inr (unpack_fields fs bs))"

text \<open>The components of an unpacked tuple; the format fixes which of the two they are.\<close>

fun as_bytes :: "sval \<Rightarrow> bytes" where
  "as_bytes (VBytes b) = b"
| "as_bytes (VInt i) = []"

fun as_int :: "sval \<Rightarrow> int" where
  "as_int (VInt i) = i"
| "as_int (VBytes b) = 0"

text \<open>A value fits a field when packing it loses nothing.\<close>

fun fits :: "sfield \<Rightarrow> sval \<Rightarrow> bool" where
  "fits (FStr n) (VBytes b) \<longleftrightarrow> length b = n"
| "fits (FUInt n) (VInt i) \<longleftrightarrow> 0 \<le> i \<and> i < 256 ^ n"
| "fits _ _ \<longleftrightarrow> False"

lemma calcsize_simps [simp, byte_simps]:
  "calcsize [] = 0" "calcsize (f # fs) = field_size f + calcsize fs"
  by (simp_all add: calcsize_def)

lemma fits_FStr [simp]: "fits (FStr n) v \<longleftrightarrow> (\<exists>b. v = VBytes b \<and> length b = n)"
  by (cases v) auto

lemma fits_FUInt [simp]: "fits (FUInt n) v \<longleftrightarrow> (\<exists>i. v = VInt i \<and> 0 \<le> i \<and> i < 256 ^ n)"
  by (cases v) auto

lemma pack_field_fits: "fits f v \<Longrightarrow> \<exists>b. pack_field f v = Inr b \<and> length b = field_size f"
  by (cases f) auto

lemma struct_pack_fits:
  "list_all2 fits fs vs \<Longrightarrow> \<exists>bs. struct_pack fs vs = Inr bs \<and> length bs = calcsize fs"
proof (induction rule: list_all2_induct)
  case Nil
  then show ?case by simp
next
  case (Cons f fs v vs)
  then show ?case
    using pack_field_fits [of f v] by auto
qed

lemma pack_field_length: "pack_field f v = Inr b \<Longrightarrow> length b = field_size f"
  by (induction f v rule: pack_field.induct) (auto split: if_splits)

lemma struct_pack_length: "struct_pack fs vs = Inr bs \<Longrightarrow> length bs = calcsize fs"
proof (induction fs vs arbitrary: bs rule: struct_pack.induct)
  case (2 f fs v vs)
  then show ?case
    by (auto split: sum.splits dest: pack_field_length)
qed auto

lemma unpack_struct_pack:
  "list_all2 fits fs vs \<Longrightarrow> struct_pack fs vs = Inr bs \<Longrightarrow> unpack_fields fs (bs @ rest) = vs"
proof (induction arbitrary: bs rule: list_all2_induct)
  case Nil
  then show ?case by simp
next
  case (Cons f fs v vs)
  from Cons.prems obtain b bs' where b: "pack_field f v = Inr b"
    and bs': "struct_pack fs vs = Inr bs'" and bs: "bs = b @ bs'"
    by (auto split: sum.splits)
  have IH: "unpack_fields fs (bs' @ rest) = vs"
    by (rule Cons.IH [OF bs'])
  show ?case
  proof (cases f)
    case (FStr n)
    with Cons.hyps b obtain s where "v = VBytes s" "length s = n" "b = s" by auto
    with FStr IH bs show ?thesis by simp
  next
    case (FUInt n)
    with Cons.hyps b obtain i where i: "v = VInt i" "0 \<le> i" "i < 256 ^ n" "b = be_bytes n (nat i)"
      by auto
    then have "nat i < 256 ^ n" by (simp add: nat_less_iff)
    with i FUInt IH bs show ?thesis by (simp add: be_nat_be_bytes)
  qed
qed

lemma struct_pack_unpack:
  "calcsize fs \<le> length bs \<Longrightarrow> struct_pack fs (unpack_fields fs bs) = Inr (take (calcsize fs) bs)"
proof (induction fs arbitrary: bs)
  case Nil
  then show ?case by simp
next
  case (Cons f fs)
  have rest: "struct_pack fs (unpack_fields fs (drop (field_size f) bs))
      = Inr (take (calcsize fs) (drop (field_size f) bs))"
    using Cons.prems by (intro Cons.IH) simp
  show ?case
  proof (cases f)
    case (FStr n)
    then show ?thesis using rest Cons.prems by (simp add: take_add)
  next
    case (FUInt n)
    have len: "length (take n bs) = n" using Cons.prems FUInt by simp
    have "int (be_nat (take n bs)) < 256 ^ n"
      using be_nat_less [of "take n bs"] unfolding len
      by (metis of_nat_less_iff of_nat_numeral of_nat_power)
    moreover have "be_bytes n (be_nat (take n bs)) = take n bs"
      using be_bytes_be_nat [of "take n bs"] len by simp
    ultimately show ?thesis using FUInt rest by (simp add: take_add)
  qed
qed

lemma unpack_fields_fits: "calcsize fs \<le> length bs \<Longrightarrow> list_all2 fits fs (unpack_fields fs bs)"
proof (induction fs arbitrary: bs)
  case Nil
  then show ?case by simp
next
  case (Cons f fs)
  have rest: "list_all2 fits fs (unpack_fields fs (drop (field_size f) bs))"
    using Cons.prems by (intro Cons.IH) simp
  show ?case
  proof (cases f)
    case (FStr n)
    then show ?thesis using rest Cons.prems by simp
  next
    case (FUInt n)
    have "int (be_nat (take n bs)) < 256 ^ n"
      using be_nat_less [of "take n bs"] Cons.prems FUInt
      by (metis calcsize_simps(2) field_size.simps(2) length_take min_absorb2 add_leD1
          of_nat_less_iff of_nat_numeral of_nat_power)
    then show ?thesis using FUInt rest by simp
  qed
qed

section \<open>Records carried by a format\<close>

text \<open>
  The interface of a fixed-size header: the format, the record's values in the order of the
  format, the record rebuilt from an unpacked tuple, and the records whose fields fit.
\<close>

locale packed_record =
  fixes fmt :: "sfield list"
    and to_vals :: "'r \<Rightarrow> sval list"
    and of_vals :: "sval list \<Rightarrow> 'r"
    and valid :: "'r \<Rightarrow> bool"
  assumes valid_iff_fits: "valid r \<longleftrightarrow> list_all2 fits fmt (to_vals r)"
    and of_to: "valid r \<Longrightarrow> of_vals (to_vals r) = r"
    and to_of: "list_all2 fits fmt vs \<Longrightarrow> to_vals (of_vals vs) = vs"
begin

lemma pack_total: "valid r \<Longrightarrow> \<exists>bs. struct_pack fmt (to_vals r) = Inr bs \<and> length bs = calcsize fmt"
  by (simp add: valid_iff_fits struct_pack_fits)

lemma parse_pack:
  "valid r \<Longrightarrow> struct_pack fmt (to_vals r) = Inr bs \<Longrightarrow> of_vals (unpack_fields fmt (bs @ rest)) = r"
  using unpack_struct_pack [of fmt "to_vals r" bs rest] by (simp add: valid_iff_fits of_to)

lemma parse_valid: "calcsize fmt \<le> length bs \<Longrightarrow> valid (of_vals (unpack_fields fmt bs))"
  by (simp add: valid_iff_fits to_of unpack_fields_fits)

lemma pack_parse:
  "calcsize fmt \<le> length bs \<Longrightarrow>
   struct_pack fmt (to_vals (of_vals (unpack_fields fmt bs))) = Inr (take (calcsize fmt) bs)"
  by (simp add: to_of unpack_fields_fits struct_pack_unpack)

lemma pack_prefix_free:
  assumes "valid r" "valid r'" "struct_pack fmt (to_vals r) = Inr bs"
    and "struct_pack fmt (to_vals r') = Inr bs'" and "bs @ rest = bs' @ rest'"
  shows "r = r' \<and> rest = rest'"
proof
  show "r = r'"
    using parse_pack [OF assms(1,3), of rest] parse_pack [OF assms(2,4), of rest'] assms(5)
    by simp
  show "rest = rest'"
    using assms(5) struct_pack_length [OF assms(3)] struct_pack_length [OF assms(4)] by simp
qed

end

end
