(* ===== verification/Frame_Codec.thy ===== *)
theory Frame_Codec
  imports Py_Struct
begin

text \<open>
  The protocol-v3 frame codec of \<open>h3ntun/protocol.py\<close>: constants, \<open>Frame\<close> and \<open>FrameCodec\<close>
  (key derivation, nonce, \<open>encode\<close>, \<open>decode\<close> and the acknowledgement body). Frame fields are
  Python integers (\<open>int\<close>); the 64-bit limits are the checks of the code and of \<open>struct\<close>.

  The cryptographic primitives (ChaCha20-Poly1305 and HKDF of the \<open>cryptography\<close> package,
  BLAKE2s) are not under src/: they are the fields of a record \<open>crypto\<close> that every definition
  takes, and what the code relies on is stated by \<open>aead_ok\<close> (decryption inverts encryption, the
  tag adds 16 bytes), \<open>aead_canonical\<close> (only genuine ciphertexts decrypt: for a fixed key, nonce,
  plaintext and associated data there is one ciphertext with a valid tag) and \<open>digest_ok\<close> (the
  digest has the requested size). The clock is an argument.
\<close>

section \<open>Constants\<close>

definition ascii :: "string \<Rightarrow> bytes" where
  "ascii s = map of_char s"

definition MAGIC :: bytes where "MAGIC = ascii ''H3TN''"
definition VERSION :: int where "VERSION = 3"

definition DATA_UP :: int where "DATA_UP = 1"
definition DATA_DOWN :: int where "DATA_DOWN = 2"
definition PING :: int where "PING = 3"
definition PONG :: int where "PONG = 4"
definition ACK_UP :: int where "ACK_UP = 5"
definition ACK_DOWN :: int where "ACK_DOWN = 6"

definition FLAG_PARITY :: int where "FLAG_PARITY = 1"
definition VALID_FLAGS :: int where "VALID_FLAGS = FLAG_PARITY"
definition VALID_KINDS :: "int list" where
  "VALID_KINDS = [DATA_UP, DATA_DOWN, PING, PONG, ACK_UP, ACK_DOWN]"

definition MAX_FRAGMENT_PAYLOAD :: nat where "MAX_FRAGMENT_PAYLOAD = 1391"
definition MAX_MESSAGE_SIZE :: nat where "MAX_MESSAGE_SIZE = 60000"
definition MAX_FRAGMENTS :: nat where "MAX_FRAGMENTS = 256"

definition AAD :: "sfield list" where
  "AAD = [FStr 4, FUInt 1, FUInt 1, FUInt 1, FStr 16, FUInt 8, FUInt 8, FUInt 8, FUInt 8,
          FUInt 4, FUInt 2, FUInt 2, FUInt 2]"
definition AEAD_TAG_SIZE :: nat where "AEAD_TAG_SIZE = 16"
definition FRAME_OVERHEAD :: nat where "FRAME_OVERHEAD = calcsize AAD + AEAD_TAG_SIZE"
definition ACK_BODY :: "sfield list" where "ACK_BODY = [FUInt 8, FUInt 8]"

lemmas kind_defs = DATA_UP_def DATA_DOWN_def PING_def PONG_def ACK_UP_def ACK_DOWN_def
lemmas const_defs = kind_defs VALID_KINDS_def FLAG_PARITY_def VALID_FLAGS_def VERSION_def
  MAX_FRAGMENT_PAYLOAD_def MAX_MESSAGE_SIZE_def MAX_FRAGMENTS_def AEAD_TAG_SIZE_def

lemma calcsize_AAD [simp, byte_simps]: "calcsize AAD = 65"
  by (simp add: AAD_def)

lemma FRAME_OVERHEAD_eq [simp, byte_simps]: "FRAME_OVERHEAD = 81"
  by (simp add: FRAME_OVERHEAD_def AEAD_TAG_SIZE_def)

lemma calcsize_ACK [simp, byte_simps]: "calcsize ACK_BODY = 16"
  by (simp add: ACK_BODY_def)

lemma length_MAGIC [simp]: "length MAGIC = 4"
  by (simp add: MAGIC_def ascii_def)

section \<open>Frames and their header\<close>

record frame =
  fr_kind :: int
  fr_flags :: int
  fr_tunnel_id :: bytes
  fr_session_id :: int
  fr_sequence :: int
  fr_timestamp_ms :: int
  fr_message_id :: int
  fr_message_len :: int
  fr_fragment_index :: int
  fr_fragment_count :: int
  fr_payload :: bytes

definition is_parity :: "frame \<Rightarrow> bool" where
  "is_parity f \<longleftrightarrow> (fr_flags f AND FLAG_PARITY) \<noteq> 0"

text \<open>The tuple that \<open>_AAD.pack\<close> takes and \<open>_AAD.unpack_from\<close> returns.\<close>

record header =
  h_magic :: bytes
  h_version :: int
  h_kind :: int
  h_flags :: int
  h_tunnel_id :: bytes
  h_session_id :: int
  h_sequence :: int
  h_timestamp_ms :: int
  h_message_id :: int
  h_message_len :: int
  h_fragment_index :: int
  h_fragment_count :: int
  h_payload_len :: int

definition header_vals :: "header \<Rightarrow> sval list" where
  "header_vals h =
     [VBytes (h_magic h), VInt (h_version h), VInt (h_kind h), VInt (h_flags h),
      VBytes (h_tunnel_id h), VInt (h_session_id h), VInt (h_sequence h),
      VInt (h_timestamp_ms h), VInt (h_message_id h), VInt (h_message_len h),
      VInt (h_fragment_index h), VInt (h_fragment_count h), VInt (h_payload_len h)]"

definition header_of_vals :: "sval list \<Rightarrow> header" where
  "header_of_vals vs =
     \<lparr>h_magic = as_bytes (vs ! 0), h_version = as_int (vs ! 1), h_kind = as_int (vs ! 2),
      h_flags = as_int (vs ! 3), h_tunnel_id = as_bytes (vs ! 4),
      h_session_id = as_int (vs ! 5), h_sequence = as_int (vs ! 6),
      h_timestamp_ms = as_int (vs ! 7), h_message_id = as_int (vs ! 8),
      h_message_len = as_int (vs ! 9), h_fragment_index = as_int (vs ! 10),
      h_fragment_count = as_int (vs ! 11), h_payload_len = as_int (vs ! 12)\<rparr>"

definition header_valid :: "header \<Rightarrow> bool" where
  "header_valid h \<longleftrightarrow>
     length (h_magic h) = 4 \<and> length (h_tunnel_id h) = 16 \<and>
     0 \<le> h_version h \<and> h_version h < 2 ^ 8 \<and> 0 \<le> h_kind h \<and> h_kind h < 2 ^ 8 \<and>
     0 \<le> h_flags h \<and> h_flags h < 2 ^ 8 \<and>
     0 \<le> h_session_id h \<and> h_session_id h < 2 ^ 64 \<and>
     0 \<le> h_sequence h \<and> h_sequence h < 2 ^ 64 \<and>
     0 \<le> h_timestamp_ms h \<and> h_timestamp_ms h < 2 ^ 64 \<and>
     0 \<le> h_message_id h \<and> h_message_id h < 2 ^ 64 \<and>
     0 \<le> h_message_len h \<and> h_message_len h < 2 ^ 32 \<and>
     0 \<le> h_fragment_index h \<and> h_fragment_index h < 2 ^ 16 \<and>
     0 \<le> h_fragment_count h \<and> h_fragment_count h < 2 ^ 16 \<and>
     0 \<le> h_payload_len h \<and> h_payload_len h < 2 ^ 16"

interpretation hdr: packed_record AAD header_vals header_of_vals header_valid
proof unfold_locales
  fix h :: header
  show "header_valid h = list_all2 fits AAD (header_vals h)"
    by (auto simp: header_valid_def header_vals_def AAD_def)
  show "header_of_vals (header_vals h) = h"
    by (simp add: header_of_vals_def header_vals_def)
next
  fix vs
  assume "list_all2 fits AAD vs"
  then show "header_vals (header_of_vals vs) = vs"
    by (auto simp: AAD_def list_all2_Cons1 header_of_vals_def header_vals_def)
qed

section \<open>The primitives the codec is built on\<close>

record crypto =
  hkdf_sha256 :: "nat \<Rightarrow> bytes \<Rightarrow> bytes \<Rightarrow> bytes \<Rightarrow> bytes"
    \<comment> \<open>output length, salt, info, input key material\<close>
  blake2s :: "nat \<Rightarrow> bytes \<Rightarrow> bytes \<Rightarrow> bytes"
    \<comment> \<open>digest size, personalisation, data\<close>
  aead_encrypt :: "bytes \<Rightarrow> bytes \<Rightarrow> bytes \<Rightarrow> bytes \<Rightarrow> bytes"
    \<comment> \<open>key, nonce, plaintext, associated data\<close>
  aead_decrypt :: "bytes \<Rightarrow> bytes \<Rightarrow> bytes \<Rightarrow> bytes \<Rightarrow> bytes option"
    \<comment> \<open>key, nonce, ciphertext with tag, associated data; \<open>None\<close> is \<open>InvalidTag\<close>\<close>

definition aead_ok :: "crypto \<Rightarrow> bool" where
  "aead_ok X \<longleftrightarrow>
     (\<forall>k n p a. aead_decrypt X k n (aead_encrypt X k n p a) a = Some p) \<and>
     (\<forall>k n p a. length (aead_encrypt X k n p a) = length p + AEAD_TAG_SIZE)"

definition aead_canonical :: "crypto \<Rightarrow> bool" where
  "aead_canonical X \<longleftrightarrow>
     (\<forall>k n c a p. aead_decrypt X k n c a = Some p \<longrightarrow> c = aead_encrypt X k n p a)"

definition digest_ok :: "crypto \<Rightarrow> bool" where
  "digest_ok X \<longleftrightarrow> (\<forall>n person data. 1 \<le> n \<and> n \<le> 32 \<longrightarrow> length (blake2s X n person data) = n)"

lemma aead_okD:
  "aead_ok X \<Longrightarrow> aead_decrypt X k n (aead_encrypt X k n p a) a = Some p"
  "aead_ok X \<Longrightarrow> length (aead_encrypt X k n p a) = length p + 16"
  by (auto simp: aead_ok_def AEAD_TAG_SIZE_def)

section \<open>The codec\<close>

record codec =
  cd_tunnel_id :: bytes
  cd_session_id :: int
  cd_max_clock_skew_ms :: int
  cd_key :: bytes

definition FrameCodec_init ::
  "crypto \<Rightarrow> bytes \<Rightarrow> bytes \<Rightarrow> int \<Rightarrow> int option \<Rightarrow> bytes \<Rightarrow> codec result" where
  "FrameCodec_init X tunnel_id secret max_clock_skew_seconds session_id token =
     (if length tunnel_id \<noteq> 16 then Inl (ValueError ''tunnel_id must be exactly 16 bytes'')
      else if length secret < 32
        then Inl (ValueError ''shared secret must be at least 32 bytes'')
      else let sid = (case session_id of None \<Rightarrow> int (be_nat token) | Some s \<Rightarrow> s) in
        if \<not> (0 \<le> sid \<and> sid \<le> 0xFFFFFFFFFFFFFFFF)
          then Inl (ValueError ''session_id must fit in 64 bits'')
        else if \<not> max_clock_skew_seconds > 0
          then Inl (ValueError ''max_clock_skew_seconds must be positive'')
        else Inr \<lparr>cd_tunnel_id = tunnel_id, cd_session_id = sid,
                  cd_max_clock_skew_ms = max_clock_skew_seconds * 1000,
                  cd_key = hkdf_sha256 X 32 tunnel_id
                             (ascii ''h3ntun-wire-v3-chacha20poly1305'') secret\<rparr>)"

definition codec_ok :: "codec \<Rightarrow> bool" where
  "codec_ok c \<longleftrightarrow> length (cd_tunnel_id c) = 16 \<and> 0 \<le> cd_session_id c \<and>
     cd_session_id c < 2 ^ 64 \<and> 0 < cd_max_clock_skew_ms c"

text \<open>\<open>_nonce\<close>: a 4-byte digest of the frame's context and the 8-byte sequence number.\<close>

definition nonce :: "crypto \<Rightarrow> int \<Rightarrow> int \<Rightarrow> int \<Rightarrow> int \<Rightarrow> int \<Rightarrow> bytes result" where
  "nonce X session_id sequence kind flags fragment_index =
     (if \<not> (0 \<le> sequence \<and> sequence \<le> 0xFFFFFFFFFFFFFFFF)
        then Inl (ProtocolError ''sequence must fit in 64 bits'')
      else case struct_pack [FUInt 8, FUInt 1, FUInt 1, FUInt 2]
                  [VInt session_id, VInt kind, VInt flags, VInt fragment_index] of
        Inl e \<Rightarrow> Inl e
      | Inr context \<Rightarrow>
          (case struct_pack [FUInt 8] [VInt sequence] of
             Inl e \<Rightarrow> Inl e
           | Inr s \<Rightarrow> Inr (blake2s X 4 (ascii ''h3ntun'') context @ s)))"

definition is_data_kind :: "int \<Rightarrow> bool" where
  "is_data_kind k \<longleftrightarrow> k \<in> set [DATA_UP, DATA_DOWN]"

text \<open>\<open>FrameCodec.encode\<close>; the optional arguments are options and \<open>clock_ms\<close> is the wall clock.\<close>

definition encode ::
  "crypto \<Rightarrow> codec \<Rightarrow> int \<Rightarrow> int \<Rightarrow> int \<Rightarrow> bytes \<Rightarrow> int option \<Rightarrow> int \<Rightarrow> int option \<Rightarrow> int \<Rightarrow> int \<Rightarrow> int
     \<Rightarrow> bytes result" where
  "encode X c clock_ms kind sequence payload timestamp_ms message_id message_len
     fragment_index fragment_count flags =
     (if kind \<notin> set VALID_KINDS then Inl (ProtocolError ''unknown frame kind'')
      else if (flags AND NOT VALID_FLAGS) \<noteq> 0 then Inl (ProtocolError ''unknown frame flags'')
      else if length payload > MAX_FRAGMENT_PAYLOAD
        then Inl (ProtocolError ''fragment exceeds 1391 bytes'')
      else if \<not> (0 \<le> message_id \<and> message_id \<le> 0xFFFFFFFFFFFFFFFF)
        then Inl (ProtocolError ''message_id must fit in 64 bits'')
      else let mlen = (case message_len of None \<Rightarrow> int (length payload) | Some l \<Rightarrow> l) in
      if \<not> (0 \<le> mlen \<and> mlen \<le> int MAX_MESSAGE_SIZE)
        then Inl (ProtocolError ''message exceeds 60000 bytes'')
      else if \<not> (1 \<le> fragment_count \<and> fragment_count \<le> int MAX_FRAGMENTS)
        then Inl (ProtocolError ''invalid fragment count'')
      else if (flags AND FLAG_PARITY) \<noteq> 0 \<and>
              (fragment_count < 2 \<or> fragment_index \<noteq> fragment_count)
        then Inl (ProtocolError ''invalid parity fragment index'')
      else if (flags AND FLAG_PARITY) = 0 \<and>
              \<not> (0 \<le> fragment_index \<and> fragment_index < fragment_count)
        then Inl (ProtocolError ''invalid fragment index'')
      else if \<not> is_data_kind kind \<and>
              (flags \<noteq> 0 \<or> message_id \<noteq> 0 \<or> fragment_index \<noteq> 0 \<or> fragment_count \<noteq> 1 \<or>
               mlen \<noteq> int (length payload))
        then Inl (ProtocolError ''control frames cannot be fragmented'')
      else let ts = (case timestamp_ms of None \<Rightarrow> clock_ms | Some t \<Rightarrow> t) in
        (case struct_pack AAD
           (header_vals \<lparr>h_magic = MAGIC, h_version = VERSION, h_kind = kind, h_flags = flags,
              h_tunnel_id = cd_tunnel_id c, h_session_id = cd_session_id c,
              h_sequence = sequence, h_timestamp_ms = ts, h_message_id = message_id,
              h_message_len = mlen, h_fragment_index = fragment_index,
              h_fragment_count = fragment_count, h_payload_len = int (length payload)\<rparr>) of
           Inl e \<Rightarrow> Inl e
         | Inr aad \<Rightarrow>
             (case nonce X (cd_session_id c) sequence kind flags fragment_index of
                Inl e \<Rightarrow> Inl e
              | Inr n \<Rightarrow> Inr (aad @ aead_encrypt X (cd_key c) n payload aad))))"

definition decode :: "crypto \<Rightarrow> codec \<Rightarrow> bytes \<Rightarrow> int \<Rightarrow> frame result" where
  "decode X c packet now_ms =
     (if length packet < FRAME_OVERHEAD
        then Inl (ProtocolError ''packet is shorter than the frame header'')
      else case struct_unpack_from AAD packet of
        Inl _ \<Rightarrow> Inl (ProtocolError ''invalid frame header'')
      | Inr vs \<Rightarrow>
      (let h = header_of_vals vs in
      if h_magic h \<noteq> MAGIC \<or> h_version h \<noteq> VERSION
        then Inl (ProtocolError ''bad magic or protocol version'')
      else if h_tunnel_id h \<noteq> cd_tunnel_id c then Inl (ProtocolError ''unexpected tunnel id'')
      else if h_kind h \<notin> set VALID_KINDS then Inl (ProtocolError ''unknown frame kind'')
      else if (h_flags h AND NOT VALID_FLAGS) \<noteq> 0
        then Inl (ProtocolError ''unknown frame flags'')
      else if h_payload_len h > int MAX_FRAGMENT_PAYLOAD
        then Inl (ProtocolError ''invalid fragment length'')
      else if int (length packet) \<noteq> int (calcsize AAD) + h_payload_len h + int AEAD_TAG_SIZE
        then Inl (ProtocolError ''invalid encrypted payload length'')
      else if h_message_len h > int MAX_MESSAGE_SIZE
        then Inl (ProtocolError ''invalid message length'')
      else if \<not> (1 \<le> h_fragment_count h \<and> h_fragment_count h \<le> int MAX_FRAGMENTS)
        then Inl (ProtocolError ''invalid fragment count'')
      else if (h_flags h AND FLAG_PARITY) \<noteq> 0 \<and>
              (h_fragment_count h < 2 \<or> h_fragment_index h \<noteq> h_fragment_count h)
        then Inl (ProtocolError ''invalid parity metadata'')
      else if (h_flags h AND FLAG_PARITY) = 0 \<and> h_fragment_index h \<ge> h_fragment_count h
        then Inl (ProtocolError ''invalid fragment metadata'')
      else if \<not> is_data_kind (h_kind h) \<and>
              (h_flags h \<noteq> 0 \<or> h_message_id h \<noteq> 0 \<or> h_fragment_index h \<noteq> 0 \<or>
               h_fragment_count h \<noteq> 1 \<or> h_message_len h \<noteq> h_payload_len h)
        then Inl (ProtocolError ''invalid control frame metadata'')
      else let aad = take (calcsize AAD) packet; encrypted = drop (calcsize AAD) packet in
        (case nonce X (h_session_id h) (h_sequence h) (h_kind h) (h_flags h)
                (h_fragment_index h) of
           Inl e \<Rightarrow> Inl e
         | Inr n \<Rightarrow>
         (case aead_decrypt X (cd_key c) n encrypted aad of
            None \<Rightarrow> Inl (ProtocolError ''authentication failed'')
          | Some payload \<Rightarrow>
              if int (length payload) \<noteq> h_payload_len h
                then Inl (ProtocolError ''decrypted payload length mismatch'')
              else if \<bar>now_ms - h_timestamp_ms h\<bar> > cd_max_clock_skew_ms c
                then Inl (ProtocolError ''frame timestamp is outside the accepted window'')
              else Inr \<lparr>fr_kind = h_kind h, fr_flags = h_flags h, fr_tunnel_id = h_tunnel_id h,
                        fr_session_id = h_session_id h, fr_sequence = h_sequence h,
                        fr_timestamp_ms = h_timestamp_ms h, fr_message_id = h_message_id h,
                        fr_message_len = h_message_len h,
                        fr_fragment_index = h_fragment_index h,
                        fr_fragment_count = h_fragment_count h, fr_payload = payload\<rparr>))))"

definition is_ack_kind :: "int \<Rightarrow> bool" where
  "is_ack_kind k \<longleftrightarrow> k \<in> set [ACK_UP, ACK_DOWN]"

definition encode_ack ::
  "crypto \<Rightarrow> codec \<Rightarrow> int \<Rightarrow> int \<Rightarrow> int \<Rightarrow> int \<Rightarrow> int \<Rightarrow> bytes result" where
  "encode_ack X c clock_ms kind sequence acknowledged_session message_id =
     (if \<not> is_ack_kind kind then Inl (ProtocolError ''invalid acknowledgement kind'')
      else case struct_pack ACK_BODY [VInt acknowledged_session, VInt message_id] of
        Inl e \<Rightarrow> Inl e
      | Inr body \<Rightarrow> encode X c clock_ms kind sequence body None 0 None 0 1 0)"

definition decode_ack :: "frame \<Rightarrow> (int \<times> int) result" where
  "decode_ack f =
     (if \<not> is_ack_kind (fr_kind f) \<or> length (fr_payload f) \<noteq> calcsize ACK_BODY
        then Inl (ProtocolError ''invalid acknowledgement payload'')
      else case struct_unpack ACK_BODY (fr_payload f) of
        Inl e \<Rightarrow> Inl e
      | Inr vs \<Rightarrow> Inr (as_int (vs ! 0), as_int (vs ! 1)))"

section \<open>What the checks of encode and decode amount to\<close>

lemma and_not_one_int: "(x :: int) AND NOT 1 = 2 * (x div 2)"
proof (rule bit_eqI)
  fix n
  show "bit (x AND NOT 1) n = bit (2 * (x div 2)) n"
    by (cases n) (simp_all add: bit_and_iff bit_not_iff bit_1_iff bit_double_iff flip: bit_Suc
        del: not_one_eq)
qed

lemma valid_flags_iff [simp]: "(x AND NOT VALID_FLAGS) = 0 \<longleftrightarrow> x = 0 \<or> x = 1"
  unfolding VALID_FLAGS_def FLAG_PARITY_def and_not_one_int by presburger

text \<open>The metadata a frame may carry on the wire, apart from the widths of its fields.\<close>

definition wire_ok :: "frame \<Rightarrow> bool" where
  "wire_ok f \<longleftrightarrow>
     fr_kind f \<in> set VALID_KINDS \<and> (fr_flags f = 0 \<or> fr_flags f = 1) \<and>
     length (fr_payload f) \<le> MAX_FRAGMENT_PAYLOAD \<and>
     fr_message_len f \<le> int MAX_MESSAGE_SIZE \<and>
     1 \<le> fr_fragment_count f \<and> fr_fragment_count f \<le> int MAX_FRAGMENTS \<and>
     (if fr_flags f = 1 then 2 \<le> fr_fragment_count f \<and> fr_fragment_index f = fr_fragment_count f
      else fr_fragment_index f < fr_fragment_count f) \<and>
     (is_data_kind (fr_kind f) \<or>
      fr_flags f = 0 \<and> fr_message_id f = 0 \<and> fr_fragment_index f = 0 \<and>
      fr_fragment_count f = 1 \<and> fr_message_len f = int (length (fr_payload f)))"

definition header_of_frame :: "frame \<Rightarrow> header" where
  "header_of_frame f =
     \<lparr>h_magic = MAGIC, h_version = VERSION, h_kind = fr_kind f, h_flags = fr_flags f,
      h_tunnel_id = fr_tunnel_id f, h_session_id = fr_session_id f,
      h_sequence = fr_sequence f, h_timestamp_ms = fr_timestamp_ms f,
      h_message_id = fr_message_id f, h_message_len = fr_message_len f,
      h_fragment_index = fr_fragment_index f, h_fragment_count = fr_fragment_count f,
      h_payload_len = int (length (fr_payload f))\<rparr>"

text \<open>A frame that can be on the wire: its metadata is allowed and every field fits.\<close>

definition frame_ok :: "frame \<Rightarrow> bool" where
  "frame_ok f \<longleftrightarrow> wire_ok f \<and> header_valid (header_of_frame f)"

text \<open>The packet that carries a frame under a key.\<close>

definition header_bytes :: "frame \<Rightarrow> bytes" where
  "header_bytes f =
     (case struct_pack AAD (header_vals (header_of_frame f)) of Inl _ \<Rightarrow> [] | Inr b \<Rightarrow> b)"

definition context_bytes :: "frame \<Rightarrow> bytes" where
  "context_bytes f = be_bytes 8 (nat (fr_session_id f)) @ be_bytes 1 (nat (fr_kind f)) @
     be_bytes 1 (nat (fr_flags f)) @ be_bytes 2 (nat (fr_fragment_index f))"

definition frame_nonce :: "crypto \<Rightarrow> frame \<Rightarrow> bytes" where
  "frame_nonce X f =
     blake2s X 4 (ascii ''h3ntun'') (context_bytes f) @ be_bytes 8 (nat (fr_sequence f))"

definition seal :: "crypto \<Rightarrow> bytes \<Rightarrow> frame \<Rightarrow> bytes" where
  "seal X k f = header_bytes f @
     aead_encrypt X k (frame_nonce X f) (fr_payload f) (header_bytes f)"

lemma frame_okD:
  assumes "frame_ok f"
  shows "wire_ok f" "header_valid (header_of_frame f)"
  using assms by (simp_all add: frame_ok_def)

lemma header_bytes_ok:
  assumes "header_valid (header_of_frame f)"
  shows "struct_pack AAD (header_vals (header_of_frame f)) = Inr (header_bytes f)"
    and "length (header_bytes f) = 65"
proof -
  obtain bs where bs: "struct_pack AAD (header_vals (header_of_frame f)) = Inr bs" "length bs = 65"
    using hdr.pack_total [OF assms] by auto
  then show "struct_pack AAD (header_vals (header_of_frame f)) = Inr (header_bytes f)"
    and "length (header_bytes f) = 65"
    by (simp_all add: header_bytes_def)
qed

lemma parse_header_bytes:
  "header_valid (header_of_frame f) \<Longrightarrow>
   header_of_vals (unpack_fields AAD (header_bytes f @ rest)) = header_of_frame f"
  by (rule hdr.parse_pack) (simp_all add: header_bytes_ok)

lemma nonce_ok:
  assumes "header_valid (header_of_frame f)"
  shows "nonce X (fr_session_id f) (fr_sequence f) (fr_kind f) (fr_flags f) (fr_fragment_index f)
    = Inr (frame_nonce X f)"
  using assms
  by (simp add: nonce_def frame_nonce_def context_bytes_def header_valid_def header_of_frame_def)

lemma header_pack_valid:
  assumes "struct_pack AAD (header_vals h) = Inr bs" "length (h_magic h) = 4"
    and "length (h_tunnel_id h) = 16"
  shows "header_valid h"
  using assms
  by (simp add: AAD_def header_vals_def header_valid_def split: sum.splits if_splits)

lemma is_parity_iff: "fr_flags f = 0 \<or> fr_flags f = 1 \<Longrightarrow> is_parity f \<longleftrightarrow> fr_flags f = 1"
  by (auto simp: is_parity_def FLAG_PARITY_def)

section \<open>encode and decode as relations between frames and packets\<close>

text \<open>The frame that a call of \<open>encode\<close> describes.\<close>

definition arg_frame ::
  "codec \<Rightarrow> int \<Rightarrow> int \<Rightarrow> int \<Rightarrow> bytes \<Rightarrow> int option \<Rightarrow> int \<Rightarrow> int option \<Rightarrow> int \<Rightarrow> int \<Rightarrow> int \<Rightarrow> frame"
where
  "arg_frame c clock_ms kind sequence payload timestamp_ms message_id message_len
     fragment_index fragment_count flags =
     \<lparr>fr_kind = kind, fr_flags = flags, fr_tunnel_id = cd_tunnel_id c,
      fr_session_id = cd_session_id c, fr_sequence = sequence,
      fr_timestamp_ms = (case timestamp_ms of None \<Rightarrow> clock_ms | Some t \<Rightarrow> t),
      fr_message_id = message_id,
      fr_message_len = (case message_len of None \<Rightarrow> int (length payload) | Some l \<Rightarrow> l),
      fr_fragment_index = fragment_index, fr_fragment_count = fragment_count,
      fr_payload = payload\<rparr>"

lemma encode_iff:
  assumes c: "codec_ok c"
    and f_def: "f = arg_frame c clock_ms kind sequence payload timestamp_ms message_id message_len
       fragment_index fragment_count flags"
  shows "encode X c clock_ms kind sequence payload timestamp_ms message_id message_len
       fragment_index fragment_count flags = Inr pkt
     \<longleftrightarrow> frame_ok f \<and> pkt = seal X (cd_key c) f" (is "?enc = Inr pkt \<longleftrightarrow> _")
proof -
  have hf: "header_of_frame f = \<lparr>h_magic = MAGIC, h_version = VERSION, h_kind = kind,
      h_flags = flags, h_tunnel_id = cd_tunnel_id c, h_session_id = cd_session_id c,
      h_sequence = sequence,
      h_timestamp_ms = (case timestamp_ms of None \<Rightarrow> clock_ms | Some t \<Rightarrow> t),
      h_message_id = message_id,
      h_message_len = (case message_len of None \<Rightarrow> int (length payload) | Some l \<Rightarrow> l),
      h_fragment_index = fragment_index, h_fragment_count = fragment_count,
      h_payload_len = int (length payload)\<rparr>"
    by (simp add: header_of_frame_def f_def arg_frame_def)
  let ?ranges = "0 \<le> message_id \<and> message_id \<le> 0xFFFFFFFFFFFFFFFF \<and> 0 \<le> fr_message_len f \<and>
    (fr_flags f = 1 \<or> 0 \<le> fragment_index)"
  have "?enc = Inr pkt \<longleftrightarrow> wire_ok f \<and> ?ranges \<and>
     (\<exists>aad. struct_pack AAD (header_vals (header_of_frame f)) = Inr aad \<and>
       (\<exists>n. nonce X (cd_session_id c) sequence kind flags fragment_index = Inr n \<and>
         aad @ aead_encrypt X (cd_key c) n payload aad = pkt))"
    unfolding encode_def Let_def result_simps hf [symmetric]
    by (auto simp: wire_ok_def f_def arg_frame_def FLAG_PARITY_def)
  also have "\<dots> \<longleftrightarrow> frame_ok f \<and> pkt = seal X (cd_key c) f"
  proof (cases "header_valid (header_of_frame f)")
    case True
    then have "?ranges" by (auto simp: header_valid_def header_of_frame_def f_def arg_frame_def)
    with True show ?thesis
      using header_bytes_ok(1) [OF True] nonce_ok [OF True, of X]
      by (auto simp: frame_ok_def seal_def f_def arg_frame_def)
  next
    case False
    then have "struct_pack AAD (header_vals (header_of_frame f)) \<noteq> Inr aad" for aad
      using c header_pack_valid [of "header_of_frame f" aad] by (auto simp: hf codec_ok_def)
    with False show ?thesis by (simp add: frame_ok_def)
  qed
  finally show ?thesis .
qed

text \<open>\<open>decode\<close> accepts a packet as a frame exactly in these cases.\<close>

definition opens :: "crypto \<Rightarrow> bytes \<Rightarrow> bytes \<Rightarrow> frame \<Rightarrow> bool" where
  "opens X k pkt f \<longleftrightarrow>
     (\<exists>ct. pkt = header_bytes f @ ct \<and> length ct = length (fr_payload f) + 16 \<and>
        aead_decrypt X k (frame_nonce X f) ct (header_bytes f) = Some (fr_payload f))"

definition fresh :: "codec \<Rightarrow> int \<Rightarrow> frame \<Rightarrow> bool" where
  "fresh c now_ms f \<longleftrightarrow> \<bar>now_ms - fr_timestamp_ms f\<bar> \<le> cd_max_clock_skew_ms c"

text \<open>The frame that \<open>decode\<close> builds from the unpacked header and the plaintext.\<close>

definition frame_of_header :: "header \<Rightarrow> bytes \<Rightarrow> frame" where
  "frame_of_header h p =
     \<lparr>fr_kind = h_kind h, fr_flags = h_flags h, fr_tunnel_id = h_tunnel_id h,
      fr_session_id = h_session_id h, fr_sequence = h_sequence h,
      fr_timestamp_ms = h_timestamp_ms h, fr_message_id = h_message_id h,
      fr_message_len = h_message_len h, fr_fragment_index = h_fragment_index h,
      fr_fragment_count = h_fragment_count h, fr_payload = p\<rparr>"

lemma frame_of_header_of_frame [simp]: "frame_of_header (header_of_frame f) (fr_payload f) = f"
  by (simp add: frame_of_header_def header_of_frame_def)

lemma header_of_frame_of_header:
  "h_magic h = MAGIC \<Longrightarrow> h_version h = VERSION \<Longrightarrow> h_payload_len h = int (length p) \<Longrightarrow>
   header_of_frame (frame_of_header h p) = h"
  by (simp add: frame_of_header_def header_of_frame_def)

lemma parity_flag_iff: "x = 0 \<or> x = 1 \<Longrightarrow> (x AND FLAG_PARITY) \<noteq> 0 \<longleftrightarrow> x = 1"
  by (auto simp: FLAG_PARITY_def)

lemma wire_ok_frame_of_header:
  assumes "h_payload_len h = int (length p)"
  shows "wire_ok (frame_of_header h p) \<longleftrightarrow>
     h_kind h \<in> set VALID_KINDS \<and> (h_flags h AND NOT VALID_FLAGS) = 0 \<and>
     \<not> h_payload_len h > int MAX_FRAGMENT_PAYLOAD \<and> \<not> h_message_len h > int MAX_MESSAGE_SIZE \<and>
     (1 \<le> h_fragment_count h \<and> h_fragment_count h \<le> int MAX_FRAGMENTS) \<and>
     \<not> ((h_flags h AND FLAG_PARITY) \<noteq> 0 \<and>
        (h_fragment_count h < 2 \<or> h_fragment_index h \<noteq> h_fragment_count h)) \<and>
     \<not> ((h_flags h AND FLAG_PARITY) = 0 \<and> h_fragment_index h \<ge> h_fragment_count h) \<and>
     \<not> (\<not> is_data_kind (h_kind h) \<and>
        (h_flags h \<noteq> 0 \<or> h_message_id h \<noteq> 0 \<or> h_fragment_index h \<noteq> 0 \<or>
         h_fragment_count h \<noteq> 1 \<or> h_message_len h \<noteq> h_payload_len h))"
proof (cases "h_flags h = 0 \<or> h_flags h = 1")
  case True
  with parity_flag_iff [OF this] assms show ?thesis
    by (auto simp: wire_ok_def frame_of_header_def)
qed (simp add: wire_ok_def frame_of_header_def)

lemma decode_iff_header:
  assumes h: "h = header_of_vals (unpack_fields AAD pkt)"
  shows "decode X c pkt now_ms = Inr f \<longleftrightarrow>
     (\<exists>p n. f = frame_of_header h p \<and> h_magic h = MAGIC \<and> h_version h = VERSION \<and>
       h_tunnel_id h = cd_tunnel_id c \<and> length pkt = 81 + length p \<and>
       h_payload_len h = int (length p) \<and> wire_ok f \<and> fresh c now_ms f \<and>
       nonce X (h_session_id h) (h_sequence h) (h_kind h) (h_flags h) (h_fragment_index h) = Inr n \<and>
       aead_decrypt X (cd_key c) n (drop 65 pkt) (take 65 pkt) = Some p)"
  (is "?dec \<longleftrightarrow> ?rhs")
proof (cases "length pkt < 81")
  case True
  then show ?thesis by (auto simp: decode_def)
next
  case False
  then have up: "struct_unpack_from AAD pkt = Inr (unpack_fields AAD pkt)"
    by (simp add: struct_unpack_from_def)
  note chain = decode_def up sum.case Let_def result_simps h [symmetric]
    frame_of_header_def [symmetric] calcsize_AAD
  show ?thesis
  proof
    assume "?dec"
    then show "?rhs"
      unfolding chain
    proof (elim conjE exE, goal_cases)
      case (1 n p)
      have f: "f = frame_of_header h p" and len: "h_payload_len h = int (length p)"
        using 1 by simp_all
      have "wire_ok f"
        unfolding f wire_ok_frame_of_header [OF len] using 1 by simp
      moreover have "fresh c now_ms f"
        using 1 by (simp add: f fresh_def frame_of_header_def)
      ultimately show "?rhs"
        using 1 by (intro exI [of _ p] exI [of _ n]) (simp add: f len AEAD_TAG_SIZE_def)
    qed
  next
    assume "?rhs"
    then obtain p n where f: "f = frame_of_header h p" and len: "h_payload_len h = int (length p)"
      and w: "wire_ok (frame_of_header h p)" and fr: "fresh c now_ms (frame_of_header h p)"
      and rest: "h_magic h = MAGIC" "h_version h = VERSION" "h_tunnel_id h = cd_tunnel_id c"
        "length pkt = 81 + length p"
        "nonce X (h_session_id h) (h_sequence h) (h_kind h) (h_flags h) (h_fragment_index h) = Inr n"
        "aead_decrypt X (cd_key c) n (drop 65 pkt) (take 65 pkt) = Some p"
      by blast
    have fr': "\<not> cd_max_clock_skew_ms c < \<bar>now_ms - h_timestamp_ms h\<bar>"
      using fr by (simp add: fresh_def frame_of_header_def)
    show "?dec"
      using w fr' rest len unfolding chain wire_ok_frame_of_header [OF len]
      by (simp add: f AEAD_TAG_SIZE_def)
  qed
qed

theorem decode_iff:
  "decode X c pkt now_ms = Inr f \<longleftrightarrow>
     frame_ok f \<and> fr_tunnel_id f = cd_tunnel_id c \<and> opens X (cd_key c) pkt f \<and> fresh c now_ms f"
  (is "?dec \<longleftrightarrow> ?rhs")
proof
  define h where "h = header_of_vals (unpack_fields AAD pkt)"
  note D = decode_iff_header [OF h_def, of X c now_ms f]
  {
    assume "?dec"
    then obtain p n where f: "f = frame_of_header h p"
      and hd: "h_magic h = MAGIC" "h_version h = VERSION" "h_tunnel_id h = cd_tunnel_id c"
      and len: "length pkt = 81 + length p" "h_payload_len h = int (length p)"
      and ok: "wire_ok f" "fresh c now_ms f"
      and n: "nonce X (h_session_id h) (h_sequence h) (h_kind h) (h_flags h) (h_fragment_index h) = Inr n"
      and dec: "aead_decrypt X (cd_key c) n (drop 65 pkt) (take 65 pkt) = Some p"
      unfolding D by blast
    have hf: "header_of_frame f = h"
      unfolding f using hd(1,2) len(2) by (rule header_of_frame_of_header)
    have valid: "header_valid h"
      using hdr.parse_valid [of pkt] len(1) by (simp add: h_def)
    have hb: "header_bytes f = take 65 pkt"
      using hdr.pack_parse [of pkt] len(1) by (simp add: header_bytes_def hf h_def)
    have "frame_nonce X f = n"
      using nonce_ok [of f X] valid n by (simp add: hf) (simp add: f frame_of_header_def)
    then have "opens X (cd_key c) pkt f"
      using dec len(1) unfolding opens_def hb
      by (intro exI [of _ "drop 65 pkt"]) (simp add: f frame_of_header_def)
    then show "?rhs"
      using ok valid hd(3) by (simp add: frame_ok_def hf) (simp add: f frame_of_header_def)
  next
    assume rhs: "?rhs"
    then have v: "header_valid (header_of_frame f)" and w: "wire_ok f"
      by (simp_all add: frame_ok_def)
    from rhs obtain ct where ct: "pkt = header_bytes f @ ct" "length ct = length (fr_payload f) + 16"
      "aead_decrypt X (cd_key c) (frame_nonce X f) ct (header_bytes f) = Some (fr_payload f)"
      by (auto simp: opens_def)
    have hf: "h = header_of_frame f"
      using parse_header_bytes [OF v, of ct] by (simp add: h_def ct)
    show "?dec"
      unfolding D using rhs w nonce_ok [OF v, of X] ct header_bytes_ok(2) [OF v]
      by (intro exI [of _ "fr_payload f"] exI [of _ "frame_nonce X f"])
        (simp add: hf, simp add: header_of_frame_def)
  }
qed

lemma opens_seal: "aead_ok X \<Longrightarrow> opens X k (seal X k f) f"
  by (auto simp: opens_def seal_def aead_okD)

lemma opens_canonical: "aead_canonical X \<Longrightarrow> opens X k pkt f \<Longrightarrow> pkt = seal X k f"
  by (auto simp: opens_def seal_def aead_canonical_def)

lemma length_seal:
  "aead_ok X \<Longrightarrow> header_valid (header_of_frame f) \<Longrightarrow>
   length (seal X k f) = FRAME_OVERHEAD + length (fr_payload f)"
  by (simp add: seal_def aead_okD header_bytes_ok)

section \<open>A concrete instance of the primitives\<close>

text \<open>
  A stand-in for the primitives that satisfies every law named above, for the witnesses: the
  ciphertext is the plaintext followed by a 16-byte checksum of key, nonce, plaintext and
  associated data, and decryption checks the checksum.
\<close>

definition demo_tag :: "bytes \<Rightarrow> bytes \<Rightarrow> bytes \<Rightarrow> bytes \<Rightarrow> bytes" where
  "demo_tag k n p a = replicate 16 (sum_list k + sum_list n + sum_list p + sum_list a)"

definition demo_crypto :: crypto where
  "demo_crypto =
     \<lparr>hkdf_sha256 = (\<lambda>len salt info secret. take len (secret @ replicate len 0)),
      blake2s = (\<lambda>size person data. replicate size (sum_list person + sum_list data)),
      aead_encrypt = (\<lambda>k n p a. p @ demo_tag k n p a),
      aead_decrypt = (\<lambda>k n c a.
         let p = take (length c - 16) c in if c = p @ demo_tag k n p a then Some p else None)\<rparr>"

definition demo_tunnel :: bytes where "demo_tunnel = replicate 16 7"

definition demo_codec :: codec where
  "demo_codec = \<lparr>cd_tunnel_id = demo_tunnel, cd_session_id = 1234,
     cd_max_clock_skew_ms = 600000, cd_key = replicate 32 9\<rparr>"

lemma demo_aead_ok: "aead_ok demo_crypto"
  by (simp add: aead_ok_def demo_crypto_def demo_tag_def AEAD_TAG_SIZE_def Let_def)

lemma demo_aead_canonical: "aead_canonical demo_crypto"
  by (simp add: aead_canonical_def demo_crypto_def demo_tag_def Let_def)

lemma demo_digest_ok: "digest_ok demo_crypto"
  by (simp add: digest_ok_def demo_crypto_def)

lemma demo_codec_ok: "codec_ok demo_codec"
  by (simp add: codec_ok_def demo_codec_def demo_tunnel_def)

section \<open>Properties\<close>

text \<open>
  C1. Round trip: a packet that \<open>encode\<close> produces is decoded by every peer that shares the tunnel
  id and the derived key, within its clock window, to the frame the arguments describe.
\<close>

theorem encode_decode_roundtrip:
  assumes "aead_ok X" "codec_ok c" "cd_tunnel_id r = cd_tunnel_id c" "cd_key r = cd_key c"
    and "encode X c clock_ms kind sequence payload timestamp_ms message_id message_len
           fragment_index fragment_count flags = Inr pkt"
    and "fresh r now_ms (arg_frame c clock_ms kind sequence payload timestamp_ms message_id
           message_len fragment_index fragment_count flags)"
  shows "decode X r pkt now_ms =
    Inr (arg_frame c clock_ms kind sequence payload timestamp_ms message_id message_len
           fragment_index fragment_count flags)"
  using assms(3-6) encode_iff [OF assms(2) refl, of X]
  by (auto simp: decode_iff opens_seal [OF assms(1)] arg_frame_def)

definition demo_packet :: bytes where
  "demo_packet = (case encode demo_crypto demo_codec 50 DATA_UP 7 [1, 2, 3] None 9 None 0 1 0 of
     Inl _ \<Rightarrow> [] | Inr p \<Rightarrow> p)"

definition demo_frame :: frame where
  "demo_frame = arg_frame demo_codec 50 DATA_UP 7 [1, 2, 3] None 9 None 0 1 0"

lemma demo_frame_ok: "frame_ok demo_frame"
  by (simp add: frame_ok_def wire_ok_def header_valid_def header_of_frame_def demo_frame_def
      arg_frame_def demo_codec_def demo_tunnel_def is_data_kind_def const_defs)

lemma demo_packet_encoded:
  "encode demo_crypto demo_codec 50 DATA_UP 7 [1, 2, 3] None 9 None 0 1 0 = Inr demo_packet"
proof -
  have "encode demo_crypto demo_codec 50 DATA_UP 7 [1, 2, 3] None 9 None 0 1 0 =
      Inr (seal demo_crypto (cd_key demo_codec) demo_frame)"
    using demo_frame_ok by (simp add: encode_iff [OF demo_codec_ok refl] flip: demo_frame_def)
  then show ?thesis by (simp add: demo_packet_def)
qed

theorem encode_decode_roundtrip_witness:
  "decode demo_crypto demo_codec demo_packet 60 = Inr demo_frame"
  unfolding demo_frame_def
  by (rule encode_decode_roundtrip [OF demo_aead_ok demo_codec_ok refl refl demo_packet_encoded])
    (simp add: fresh_def arg_frame_def demo_codec_def)

text \<open>
  C2. Authenticity and canonicity: a codec accepts exactly the packets that are the encoding,
  under its key, of a well-formed frame of its tunnel whose timestamp is in the window. Header
  bytes, ciphertext and tag are all determined by the frame, so no other packet is accepted.
\<close>

theorem decode_accepts_exactly_sealed_frames:
  assumes "aead_ok X" "aead_canonical X"
  shows "decode X c pkt now_ms = Inr f \<longleftrightarrow>
    frame_ok f \<and> fr_tunnel_id f = cd_tunnel_id c \<and> fresh c now_ms f \<and> pkt = seal X (cd_key c) f"
  using opens_seal [OF assms(1)] opens_canonical [OF assms(2)] by (auto simp: decode_iff)

theorem decode_accepts_exactly_sealed_frames_witness:
  "decode demo_crypto demo_codec (seal demo_crypto (cd_key demo_codec) demo_frame) 60
     = Inr demo_frame"
  using demo_frame_ok
  by (simp add: decode_accepts_exactly_sealed_frames [OF demo_aead_ok demo_aead_canonical])
     (simp add: demo_frame_def arg_frame_def fresh_def demo_codec_def)

lemma nonce_of_parsed:
  "header_valid h \<Longrightarrow>
   \<exists>n. nonce X (h_session_id h) (h_sequence h) (h_kind h) (h_flags h) (h_fragment_index h) = Inr n"
  by (simp add: nonce_def header_valid_def)

lemma decode_raises: "raises_only is_protocol_error (decode X c pkt now_ms)"
proof (cases "length pkt < 81")
  case True
  then show ?thesis by (auto simp: decode_def)
next
  case False
  then have up: "struct_unpack_from AAD pkt = Inr (unpack_fields AAD pkt)"
    by (simp add: struct_unpack_from_def)
  define h where "h = header_of_vals (unpack_fields AAD pkt)"
  have "header_valid h"
    using False unfolding h_def by (intro hdr.parse_valid) simp
  then obtain n where n: "nonce X (h_session_id h) (h_sequence h) (h_kind h) (h_flags h)
      (h_fragment_index h) = Inr n"
    using nonce_of_parsed by blast
  show ?thesis
    unfolding decode_def up sum.case Let_def h_def [symmetric] n
    by (intro raises_only_rules) simp_all
qed

text \<open>
  \<open>decode\<close> raises nothing but \<open>ProtocolError\<close>, whatever the packet: the receive loops, which
  catch only that class around it, never lose a thread to a malformed datagram.
\<close>

theorem decode_raises_only_protocol_errors: "raises_only is_protocol_error (decode X c pkt now_ms)"
  by (rule decode_raises)

text \<open>
  C3. Size: every packet \<open>encode\<close> produces carries 81 bytes of overhead and, with the 28 bytes of
  the IPv4 and UDP headers, fits a 1500-byte MTU.
\<close>

theorem encode_fits_mtu:
  assumes "aead_ok X" "codec_ok c"
    and "encode X c clock_ms kind sequence payload timestamp_ms message_id message_len
           fragment_index fragment_count flags = Inr pkt"
  shows "length pkt = FRAME_OVERHEAD + length payload \<and> length pkt + 28 \<le> 1500"
proof -
  let ?f = "arg_frame c clock_ms kind sequence payload timestamp_ms message_id message_len
    fragment_index fragment_count flags"
  from assms(3) have ok: "frame_ok ?f" and pkt: "pkt = seal X (cd_key c) ?f"
    by (simp_all add: encode_iff [OF assms(2) refl])
  then have "length pkt = FRAME_OVERHEAD + length payload"
    using length_seal [OF assms(1), of ?f] by (simp add: frame_ok_def) (simp add: arg_frame_def)
  moreover have "length payload \<le> 1391"
    using ok by (simp add: frame_ok_def wire_ok_def arg_frame_def MAX_FRAGMENT_PAYLOAD_def)
  ultimately show ?thesis by simp
qed

theorem encode_fits_mtu_witness: "length demo_packet = 84"
  using encode_fits_mtu [OF demo_aead_ok demo_codec_ok demo_packet_encoded] by simp

text \<open>What the nonce's digest is taken of: the session, the kind, the flags and the index of a frame.\<close>

definition nonce_context :: "int \<Rightarrow> int \<Rightarrow> int \<Rightarrow> int \<Rightarrow> bytes" where
  "nonce_context sid kind flags index =
     be_bytes 8 (nat sid) @ be_bytes 1 (nat kind) @ be_bytes 1 (nat flags) @ be_bytes 2 (nat index)"

lemma nonce_context_inj:
  assumes "0 \<le> s" "s < 2 ^ 64" "0 \<le> k" "k < 256" "0 \<le> fl" "fl < 256" "0 \<le> i" "i < 2 ^ 16"
    and "0 \<le> s'" "s' < 2 ^ 64" "0 \<le> k'" "k' < 256" "0 \<le> fl'" "fl' < 256" "0 \<le> i'" "i' < 2 ^ 16"
  shows "nonce_context s k fl i = nonce_context s' k' fl' i' \<longleftrightarrow> s = s' \<and> k = k' \<and> fl = fl' \<and> i = i'"
proof -
  have inj: "be_bytes n (nat u) = be_bytes n (nat v) \<longleftrightarrow> u = v"
    if "0 \<le> u" "u < 256 ^ n" "0 \<le> v" "v < 256 ^ n" for n u v
    using that be_bytes_inj [of "nat u" n "nat v"] by (auto simp: nat_less_iff eq_nat_nat_iff)
  have "be_bytes 8 (nat s) = be_bytes 8 (nat s') \<longleftrightarrow> s = s'" "be_bytes 1 (nat k) = be_bytes 1 (nat k') \<longleftrightarrow> k = k'"
    "be_bytes 1 (nat fl) = be_bytes 1 (nat fl') \<longleftrightarrow> fl = fl'" "be_bytes 2 (nat i) = be_bytes 2 (nat i') \<longleftrightarrow> i = i'"
    by (rule inj; use assms in simp)+
  then show ?thesis
    by (simp only: nonce_context_def append_eq_append_conv length_be_bytes simp_thms)
qed

text \<open>A packet of \<open>encode\<close> is its header followed by the payload, sealed under the nonce of digest and sequence.\<close>

lemma encode_nonce:
  assumes "codec_ok c"
    and "encode X c clock kind q payload ts mid mlen idx cnt flags = Inr pkt"
  shows "pkt = take 65 pkt @ aead_encrypt X (cd_key c)
       (blake2s X 4 (ascii ''h3ntun'') (nonce_context (cd_session_id c) kind flags idx) @ be_bytes 8 (nat q))
       payload (take 65 pkt)"
    "0 \<le> q \<and> q < 2 ^ 64 \<and> 0 \<le> cd_session_id c \<and> cd_session_id c < 2 ^ 64 \<and> 0 \<le> kind \<and> kind < 256 \<and>
     0 \<le> flags \<and> flags < 256 \<and> 0 \<le> idx \<and> idx < 2 ^ 16"
proof -
  let ?f = "arg_frame c clock kind q payload ts mid mlen idx cnt flags"
  have ok: "frame_ok ?f" and pkt: "pkt = seal X (cd_key c) ?f"
    using assms by (simp_all add: encode_iff [OF assms(1) refl])
  have v: "header_valid (header_of_frame ?f)" using ok by (simp add: frame_ok_def)
  have "take 65 pkt = header_bytes ?f" by (simp add: pkt seal_def header_bytes_ok [OF v])
  then show "pkt = take 65 pkt @ aead_encrypt X (cd_key c)
       (blake2s X 4 (ascii ''h3ntun'') (nonce_context (cd_session_id c) kind flags idx) @ be_bytes 8 (nat q))
       payload (take 65 pkt)"
    by (simp add: pkt seal_def frame_nonce_def context_bytes_def nonce_context_def) (simp add: arg_frame_def)
  show "0 \<le> q \<and> q < 2 ^ 64 \<and> 0 \<le> cd_session_id c \<and> cd_session_id c < 2 ^ 64 \<and> 0 \<le> kind \<and> kind < 256 \<and>
     0 \<le> flags \<and> flags < 256 \<and> 0 \<le> idx \<and> idx < 2 ^ 16"
    using v by (simp add: header_valid_def header_of_frame_def arg_frame_def)
qed

text \<open>
  C4. Nonces: the nonce under which \<open>encode\<close> seals a payload is a 4-byte digest of the frame's session, kind,
  flags and index followed by the sequence number. So two packets, of any two codecs, are sealed under the same
  nonce exactly when they have the same sequence number and these digests are equal; the digests are taken
  of equal bytes only when session, kind, flags and index are all equal. The key is the same for every session of a tunnel:
  between two sessions that meet at a sequence number, only the digest keeps the nonces apart.
\<close>

theorem encoded_nonces_equal_iff:
  assumes "digest_ok X" "codec_ok c" "codec_ok c'"
    and "encode X c clock kind q payload ts mid mlen idx cnt flags = Inr pkt"
    and "encode X c' clock' kind' q' payload' ts' mid' mlen' idx' cnt' flags' = Inr pkt'"
  shows "let context = nonce_context (cd_session_id c) kind flags idx;
             context' = nonce_context (cd_session_id c') kind' flags' idx';
             digest = blake2s X 4 (ascii ''h3ntun'') context;
             digest' = blake2s X 4 (ascii ''h3ntun'') context';
             n = digest @ be_bytes 8 (nat q);
             n' = digest' @ be_bytes 8 (nat q') in
    pkt = take 65 pkt @ aead_encrypt X (cd_key c) n payload (take 65 pkt) \<and>
    pkt' = take 65 pkt' @ aead_encrypt X (cd_key c') n' payload' (take 65 pkt') \<and>
    (n = n' \<longleftrightarrow> q = q' \<and> digest = digest') \<and>
    (context = context' \<longleftrightarrow> cd_session_id c = cd_session_id c' \<and> kind = kind' \<and> flags = flags' \<and> idx = idx')"
  unfolding Let_def
proof (intro conjI)
  let ?d = "blake2s X 4 (ascii ''h3ntun'') (nonce_context (cd_session_id c) kind flags idx)"
  let ?d' = "blake2s X 4 (ascii ''h3ntun'') (nonce_context (cd_session_id c') kind' flags' idx')"
  note e = encode_nonce [OF assms(2,4)] and e' = encode_nonce [OF assms(3,5)]
  show "pkt = take 65 pkt @ aead_encrypt X (cd_key c) (?d @ be_bytes 8 (nat q)) payload (take 65 pkt)" by (rule e(1))
  show "pkt' = take 65 pkt' @ aead_encrypt X (cd_key c') (?d' @ be_bytes 8 (nat q')) payload' (take 65 pkt')"
    by (rule e'(1))
  have "be_bytes 8 (nat q) = be_bytes 8 (nat q') \<longleftrightarrow> q = q'"
    using e(2) e'(2) be_bytes_inj [of "nat q" 8 "nat q'"] by (auto simp: nat_less_iff eq_nat_nat_iff)
  then show "?d @ be_bytes 8 (nat q) = ?d' @ be_bytes 8 (nat q') \<longleftrightarrow> q = q' \<and> ?d = ?d'"
    using assms(1) by (auto simp: digest_ok_def)
  show "nonce_context (cd_session_id c) kind flags idx = nonce_context (cd_session_id c') kind' flags' idx' \<longleftrightarrow>
       cd_session_id c = cd_session_id c' \<and> kind = kind' \<and> flags = flags' \<and> idx = idx'"
    using e(2) e'(2) by (intro nonce_context_inj) simp_all
qed

lemma demo_collision:
  "blake2s demo_crypto 4 p (nonce_context 1 DATA_DOWN 0 0) = blake2s demo_crypto 4 p (nonce_context 2 DATA_UP 0 0)"
proof -
  have "sum_list (nonce_context 1 DATA_DOWN 0 0) = sum_list (nonce_context 2 DATA_UP 0 0)" by code_simp
  then show ?thesis by (simp add: demo_crypto_def)
qed

theorem encoded_nonces_equal_iff_witness:
  "\<exists>pkt pkt' n.
    encode demo_crypto (demo_codec\<lparr>cd_session_id := 1\<rparr>) 50 DATA_DOWN 7 [1, 2] None 9 None 0 1 0 = Inr pkt \<and>
    encode demo_crypto (demo_codec\<lparr>cd_session_id := 2\<rparr>) 50 DATA_UP 7 [3] None 9 None 0 1 0 = Inr pkt' \<and>
    pkt = take 65 pkt @ aead_encrypt demo_crypto (cd_key demo_codec) n [1, 2] (take 65 pkt) \<and>
    pkt' = take 65 pkt' @ aead_encrypt demo_crypto (cd_key demo_codec) n [3] (take 65 pkt')"
proof -
  let ?c = "\<lambda>s. demo_codec\<lparr>cd_session_id := s\<rparr>"
  have c: "codec_ok (?c 1)" "codec_ok (?c 2)" using demo_codec_ok by (simp_all add: codec_ok_def)
  obtain pkt pkt' where e: "encode demo_crypto (?c 1) 50 DATA_DOWN 7 [1, 2] None 9 None 0 1 0 = Inr pkt"
    "encode demo_crypto (?c 2) 50 DATA_UP 7 [3] None 9 None 0 1 0 = Inr pkt'"
    unfolding encode_iff [OF c(1) refl] encode_iff [OF c(2) refl]
    by (simp add: frame_ok_def wire_ok_def header_valid_def header_of_frame_def arg_frame_def demo_codec_def
        demo_tunnel_def is_data_kind_def const_defs)
  then show ?thesis
    using encoded_nonces_equal_iff [OF demo_digest_ok c e]
    by (auto simp: Let_def demo_collision)
qed

text \<open>
  Acknowledgements: what \<open>encode_ack\<close> sends is decoded to an acknowledgement frame from which
  \<open>decode_ack\<close> reads back the acknowledged session and message.
\<close>

theorem ack_roundtrip:
  assumes "aead_ok X" "codec_ok c" "cd_tunnel_id r = cd_tunnel_id c" "cd_key r = cd_key c"
    and "encode_ack X c clock_ms kind sequence s m = Inr pkt"
    and "\<bar>now_ms - clock_ms\<bar> \<le> cd_max_clock_skew_ms r"
  shows "\<exists>f. decode X r pkt now_ms = Inr f \<and> fr_kind f = kind \<and>
    fr_session_id f = cd_session_id c \<and> fr_sequence f = sequence \<and> decode_ack f = Inr (s, m)"
proof -
  from assms(5) obtain body where kind: "is_ack_kind kind"
    and body: "struct_pack ACK_BODY [VInt s, VInt m] = Inr body"
    and enc: "encode X c clock_ms kind sequence body None 0 None 0 1 0 = Inr pkt"
    unfolding encode_ack_def result_simps by auto
  let ?f = "arg_frame c clock_ms kind sequence body None 0 None 0 1 0"
  have dec: "decode X r pkt now_ms = Inr ?f"
    using assms(3,4,6) enc encode_iff [OF assms(2) refl, of X]
    by (auto simp: decode_iff opens_seal [OF assms(1)] arg_frame_def fresh_def)
  from body have fits: "list_all2 fits ACK_BODY [VInt s, VInt m]"
    by (simp add: ACK_BODY_def split: if_splits sum.splits)
  have len: "length body = 16"
    using struct_pack_length [OF body] by simp
  have "unpack_fields ACK_BODY body = [VInt s, VInt m]"
    using unpack_struct_pack [OF fits body, of "[]"] by simp
  with len kind have "decode_ack ?f = Inr (s, m)"
    by (simp add: decode_ack_def arg_frame_def struct_unpack_def)
  with dec show ?thesis by (intro exI [of _ ?f]) (simp add: arg_frame_def)
qed

theorem ack_roundtrip_witness:
  "\<exists>pkt f. encode_ack demo_crypto demo_codec 50 ACK_UP 3 55 99 = Inr pkt \<and>
     decode demo_crypto demo_codec pkt 60 = Inr f \<and> decode_ack f = Inr (55, 99)"
proof -
  obtain body where body: "struct_pack ACK_BODY [VInt 55, VInt 99] = Inr body" "length body = 16"
    using struct_pack_fits [of ACK_BODY "[VInt 55, VInt 99]"] by (auto simp: ACK_BODY_def)
  have "frame_ok (arg_frame demo_codec 50 ACK_UP 3 body None 0 None 0 1 0)"
    by (simp add: frame_ok_def wire_ok_def header_valid_def header_of_frame_def arg_frame_def
        demo_codec_def demo_tunnel_def is_data_kind_def const_defs body)
  then obtain pkt where pkt: "encode_ack demo_crypto demo_codec 50 ACK_UP 3 55 99 = Inr pkt"
    by (simp add: encode_ack_def is_ack_kind_def body encode_iff [OF demo_codec_ok refl])
  moreover have "\<bar>60 - 50\<bar> \<le> cd_max_clock_skew_ms demo_codec" by (simp add: demo_codec_def)
  ultimately show ?thesis
    using ack_roundtrip [OF demo_aead_ok demo_codec_ok refl refl pkt] by blast
qed

end
