(* ===== verification/Py_Json.thy ===== *)
theory Py_Json
  imports Complex_Main Prelude
begin

text \<open>
  The values \<open>json.loads\<close> builds, and the conversions of Python the program applies to them:
  \<open>int(x)\<close> on a value, \<open>int(s, base)\<close> on text with its optional sign, prefix and underscores,
  \<open>format(n, 'x')\<close>, subscripting and iteration. The text layer of JSON itself
  (\<open>json.dumps\<close> followed by \<open>json.loads\<close> gives the value back) is Python's. Strings are
  strings of 8-bit characters; the interpreter's limit on the length of decimal literals is not
  modelled.
\<close>

section \<open>Values\<close>

datatype pyfloat = Fin rat | PosInf | NegInf | NaN

datatype json =
    JNull
  | JBool bool
  | JInt int
  | JFloat pyfloat
  | JStr string
  | JArr "json list"
  | JObj "(string \<times> json) list"

text \<open>\<open>x[key]\<close> for a string key: a missing key of a dictionary is a \<open>KeyError\<close>, anything that is
  not a dictionary a \<open>TypeError\<close>.\<close>

fun subscript :: "json \<Rightarrow> string \<Rightarrow> json result" where
  "subscript (JObj d) k = (case map_of d k of None \<Rightarrow> Inl KeyError | Some v \<Rightarrow> Inr v)"
| "subscript _ k = Inl TypeError"

text \<open>\<open>x.get(key, default)\<close>: only dictionaries have the method.\<close>

fun get_default :: "json \<Rightarrow> string \<Rightarrow> json \<Rightarrow> json result" where
  "get_default (JObj d) k v = Inr (case map_of d k of None \<Rightarrow> v | Some u \<Rightarrow> u)"
| "get_default _ k v = Inl AttributeError"

text \<open>Iteration: over a string its characters, over a dictionary its keys.\<close>

fun iterate :: "json \<Rightarrow> json list result" where
  "iterate (JArr xs) = Inr xs"
| "iterate (JStr s) = Inr (map (\<lambda>c. JStr [c]) s)"
| "iterate (JObj d) = Inr (map (\<lambda>(k, _). JStr k) d)"
| "iterate _ = Inl TypeError"

section \<open>Integers and text\<close>

text \<open>The characters \<open>int\<close> and \<open>float\<close> skip at both ends of a text.\<close>

definition whitespace :: "char list" where
  "whitespace = [CHR '' '', CHR 0x09, CHR 0x0A, CHR 0x0B, CHR 0x0C, CHR 0x0D, CHR 0x85, CHR 0xA0]"

definition lstrip :: "string \<Rightarrow> string" where
  "lstrip s = dropWhile (\<lambda>c. c \<in> set whitespace) s"

definition strip :: "string \<Rightarrow> string" where
  "strip s = rev (lstrip (rev (lstrip s)))"

definition digit_val :: "nat \<Rightarrow> char \<Rightarrow> nat option" where
  "digit_val base c =
     (let n = (of_char c :: nat);
          v = (if 48 \<le> n \<and> n \<le> 57 then Some (n - 48)
               else if 97 \<le> n \<and> n \<le> 122 then Some (n - 87)
               else if 65 \<le> n \<and> n \<le> 90 then Some (n - 55) else None)
      in case v of None \<Rightarrow> None | Some d \<Rightarrow> if d < base then Some d else None)"

text \<open>The digits after the first, single underscores allowed between digits.\<close>

fun parse_digits :: "nat \<Rightarrow> string \<Rightarrow> nat \<Rightarrow> nat option" where
  "parse_digits base [] acc = Some acc"
| "parse_digits base (c # cs) acc =
     (if c = CHR ''_'' then
        (case cs of [] \<Rightarrow> None
         | d # ds \<Rightarrow> (case digit_val base d of None \<Rightarrow> None
                     | Some v \<Rightarrow> parse_digits base ds (acc * base + v)))
      else (case digit_val base c of None \<Rightarrow> None
            | Some v \<Rightarrow> parse_digits base cs (acc * base + v)))"

definition parse_nat :: "nat \<Rightarrow> string \<Rightarrow> nat option" where
  "parse_nat base s =
     (case s of [] \<Rightarrow> None
      | c # cs \<Rightarrow> (case digit_val base c of None \<Rightarrow> None | Some v \<Rightarrow> parse_digits base cs v))"

definition drop_prefix :: "nat \<Rightarrow> string \<Rightarrow> string" where
  "drop_prefix base s =
     (if base = 16 \<and> (take 2 s = ''0x'' \<or> take 2 s = ''0X'')
      then (case drop 2 s of [] \<Rightarrow> [] | c # cs \<Rightarrow> if c = CHR ''_'' then cs else c # cs)
      else s)"

text \<open>\<open>int(s, base)\<close> for base 10 and 16.\<close>

definition int_of_text :: "nat \<Rightarrow> string \<Rightarrow> int result" where
  "int_of_text base s =
     (let t = strip s;
          neg = (take 1 t = ''-'');
          u = (if take 1 t = ''-'' \<or> take 1 t = ''+'' then drop 1 t else t)
      in case parse_nat base (drop_prefix base u) of
           None \<Rightarrow> Inl (ValueError ''invalid literal for int()'')
         | Some n \<Rightarrow> Inr (if neg then - int n else int n))"

definition truncate_rat :: "rat \<Rightarrow> int" where
  "truncate_rat r = (if r < 0 then \<lceil>r\<rceil> else \<lfloor>r\<rfloor>)"

fun py_int :: "json \<Rightarrow> int result" where
  "py_int (JInt i) = Inr i"
| "py_int (JBool b) = Inr (if b then 1 else 0)"
| "py_int (JFloat (Fin r)) = Inr (truncate_rat r)"
| "py_int (JFloat NaN) = Inl (ValueError ''cannot convert float NaN to integer'')"
| "py_int (JFloat PosInf) = Inl OverflowError"
| "py_int (JFloat NegInf) = Inl OverflowError"
| "py_int (JStr s) = int_of_text 10 s"
| "py_int _ = Inl TypeError"

fun py_ints :: "json list \<Rightarrow> int list result" where
  "py_ints [] = Inr []"
| "py_ints (x # xs) =
     (case py_int x of Inl e \<Rightarrow> Inl e
      | Inr i \<Rightarrow> (case py_ints xs of Inl e \<Rightarrow> Inl e | Inr is \<Rightarrow> Inr (i # is)))"

text \<open>Digits of a number, most significant first; \<open>format(n, 'x')\<close> and \<open>str(n)\<close>.\<close>

definition digit_char :: "nat \<Rightarrow> char" where
  "digit_char d = (if d < 10 then char_of (48 + d) else char_of (87 + d))"

fun digits :: "nat \<Rightarrow> nat \<Rightarrow> string" where
  "digits base n =
     (if base < 2 \<or> n < base then [digit_char n] else digits base (n div base) @ [digit_char (n mod base)])"

declare digits.simps [simp del]

definition format_hex :: "int \<Rightarrow> string" where
  "format_hex i = (if i < 0 then CHR ''-'' # digits 16 (nat (- i)) else digits 16 (nat i))"

definition str_int :: "int \<Rightarrow> string" where
  "str_int i = (if i < 0 then CHR ''-'' # digits 10 (nat (- i)) else digits 10 (nat i))"

text \<open>
  \<open>int(str(x), 16)\<close>. The text of a float, of \<open>True\<close>, \<open>False\<close> and \<open>None\<close> and of a container
  always holds a character that is no hexadecimal digit.
\<close>

fun int16_of_str :: "json \<Rightarrow> int result" where
  "int16_of_str (JStr s) = int_of_text 16 s"
| "int16_of_str (JInt i) = int_of_text 16 (str_int i)"
| "int16_of_str _ = Inl (ValueError ''invalid literal for int() with base 16'')"

lemma digit_val_char:
  assumes "d < base" "base = 10 \<or> base = 16"
  shows "digit_val base (digit_char d) = Some d"
  using assms by (auto simp: digit_val_def digit_char_def Let_def)

lemma digit_char_props:
  assumes "d < 16"
  shows "digit_char d \<noteq> CHR ''_''" "digit_char d \<notin> set whitespace"
    "digit_char d \<noteq> CHR ''-''" "digit_char d \<noteq> CHR ''+''" "digit_char d \<noteq> CHR ''x''"
    "digit_char d \<noteq> CHR ''X''"
proof -
  have "list_all (\<lambda>d. digit_char d \<noteq> CHR ''_'' \<and> digit_char d \<notin> set whitespace \<and>
    digit_char d \<noteq> CHR ''-'' \<and> digit_char d \<noteq> CHR ''+'' \<and> digit_char d \<noteq> CHR ''x'' \<and>
    digit_char d \<noteq> CHR ''X'') [0..<16]"
    by code_simp
  then have "digit_char d \<noteq> CHR ''_'' \<and> digit_char d \<notin> set whitespace \<and>
    digit_char d \<noteq> CHR ''-'' \<and> digit_char d \<noteq> CHR ''+'' \<and> digit_char d \<noteq> CHR ''x'' \<and>
    digit_char d \<noteq> CHR ''X''"
    using assms by (simp only: list_all_iff set_upt) simp
  then show "digit_char d \<noteq> CHR ''_''" "digit_char d \<notin> set whitespace"
    "digit_char d \<noteq> CHR ''-''" "digit_char d \<noteq> CHR ''+''" "digit_char d \<noteq> CHR ''x''"
    "digit_char d \<noteq> CHR ''X''"
    by blast+
qed

lemma digits_set:
  assumes "base = 10 \<or> base = 16"
  shows "set (digits base n) \<subseteq> digit_char ` {..<base}"
  using assms
proof (induction base n rule: digits.induct)
  case (1 base n)
  then show ?case by (subst digits.simps) auto
qed

lemma digits_nonempty [simp]: "digits base n \<noteq> []"
  by (subst digits.simps) simp

lemma parse_digits_snoc:
  "set cs \<subseteq> digit_char ` {..<base} \<Longrightarrow> base = 10 \<or> base = 16 \<Longrightarrow> d < base \<Longrightarrow>
   parse_digits base (cs @ [digit_char d]) acc =
     (case parse_digits base cs acc of None \<Rightarrow> None | Some a \<Rightarrow> Some (a * base + d))"
proof (induction cs arbitrary: acc)
  case Nil
  then show ?case using digit_char_props [of d] by (auto simp: digit_val_char)
next
  case (Cons c cs)
  then obtain k where k: "c = digit_char k" "k < base" by auto
  with Cons show ?case using digit_char_props [of k] by (auto simp: digit_val_char)
qed

lemma parse_nat_digits:
  assumes "base = 10 \<or> base = 16"
  shows "parse_nat base (digits base n) = Some n"
  using assms
proof (induction base n rule: digits.induct)
  case (1 base n)
  show ?case
  proof (cases "n < base")
    case True
    with "1.prems" show ?thesis
      by (subst digits.simps) (auto simp: parse_nat_def digit_val_char)
  next
    case False
    then have IH: "parse_nat base (digits base (n div base)) = Some (n div base)"
      using "1.IH" "1.prems" by auto
    obtain c cs where dg: "digits base (n div base) = c # cs"
      by (cases "digits base (n div base)") auto
    have sub: "set cs \<subseteq> digit_char ` {..<base}"
      using digits_set [OF "1.prems", of "n div base"] dg by auto
    obtain v where v: "digit_val base c = Some v" "parse_digits base cs v = Some (n div base)"
      using IH by (auto simp: parse_nat_def dg split: option.splits)
    have "n mod base < base" using "1.prems" by auto
    then have "parse_nat base (digits base (n div base) @ [digit_char (n mod base)]) = Some n"
      using parse_digits_snoc [OF sub "1.prems", of "n mod base" v] v
      by (simp add: parse_nat_def dg)
    with False "1.prems" show ?thesis by (subst digits.simps) auto
  qed
qed

lemma lstrip_id: "\<forall>c \<in> set s. c \<notin> set whitespace \<Longrightarrow> lstrip s = s"
  by (cases s) (auto simp: lstrip_def)

lemma strip_id: "\<forall>c \<in> set s. c \<notin> set whitespace \<Longrightarrow> strip s = s"
  by (simp add: strip_def lstrip_id)

lemma strip_digits:
  assumes "base = 10 \<or> base = 16"
  shows "strip (digits base n) = digits base n"
proof -
  have "\<forall>c \<in> set (digits base n). c \<notin> set whitespace"
    using digits_set [OF assms, of n] digit_char_props(2) assms by fastforce
  then show ?thesis
    by (rule strip_id)
qed

lemma int_of_text_format_hex:
  assumes "0 \<le> i"
  shows "int_of_text 16 (format_hex i) = Inr i"
proof -
  let ?d = "digits 16 (nat i)"
  have set: "set ?d \<subseteq> digit_char ` {..<16}" by (rule digits_set) simp
  have hd: "take 1 ?d \<noteq> ''-''" "take 1 ?d \<noteq> ''+''"
    using set digit_char_props(3,4) by (cases ?d; fastforce)+
  have "take 2 ?d \<noteq> ''0x''" "take 2 ?d \<noteq> ''0X''"
    using set digit_char_props(5,6)
    by (cases ?d; cases "tl ?d"; fastforce)+
  then have "drop_prefix 16 ?d = ?d" by (simp add: drop_prefix_def)
  with hd assms show ?thesis
    by (simp add: int_of_text_def format_hex_def strip_digits parse_nat_digits Let_def)
qed

lemma py_ints_JInt [simp]: "py_ints (map JInt xs) = Inr xs"
  by (induction xs) auto

section \<open>Rounding\<close>

text \<open>Python's \<open>round(x, 3)\<close>: to the nearest thousandth, ties to the even one.\<close>

definition round_half_even :: "rat \<Rightarrow> int" where
  "round_half_even r =
     (let f = \<lfloor>r\<rfloor>; d = r - of_int f in
      if d < 1 / 2 then f else if d > 1 / 2 then f + 1 else if even f then f else f + 1)"

definition round3 :: "rat \<Rightarrow> rat" where
  "round3 r = of_int (round_half_even (r * 1000)) / 1000"

end
