(* ===== verification/Replay_Window.thy ===== *)
theory Replay_Window
  imports Py_Json
begin

text \<open>
  The session-aware replay window, \<open>ReplayWindow\<close> in \<open>h3ntun/protocol.py\<close>. The state is the
  object's fields; the bitmap is a Python integer whose bit \<open>d\<close> says that the sequence number
  \<open>highest - d\<close> of the current session was accepted. \<open>accept\<close> holds the lock for its whole body,
  so it is one step. The contract that the agents rely on is the locale \<open>replay_filter\<close>; its
  lemmas about runs are proved there and interpreted on this window, and later on the persistent
  one. The reference the bitmap implements is \<open>spec_accept\<close>, a window kept as a set.
\<close>

section \<open>The window\<close>

record window =
  w_size :: nat
  w_session_id :: "int option"
  w_retired_sessions :: "int set"
  w_highest :: int
  w_bitmap :: int

definition ReplayWindow_init :: "int \<Rightarrow> window result" where
  "ReplayWindow_init sz =
     (if sz < 64 then Inl (ValueError ''replay window must be at least 64'')
      else Inr \<lparr>w_size = nat sz, w_session_id = None, w_retired_sessions = {},
                w_highest = -1, w_bitmap = 0\<rparr>)"

definition select_session :: "window \<Rightarrow> int \<Rightarrow> bool \<times> window" where
  "select_session w session_id =
     (case w_session_id w of
        None \<Rightarrow> (True, w\<lparr>w_session_id := Some session_id\<rparr>)
      | Some cur \<Rightarrow>
          if session_id = cur then (True, w)
          else if session_id \<in> w_retired_sessions w then (False, w)
          else (True, w\<lparr>w_retired_sessions := insert cur (w_retired_sessions w),
                        w_session_id := Some session_id, w_highest := -1, w_bitmap := 0\<rparr>))"

definition accept_locked :: "window \<Rightarrow> int \<Rightarrow> int \<Rightarrow> bool \<times> window" where
  "accept_locked w0 sequence session_id =
     (if sequence < 0 then (False, w0)
      else case select_session w0 session_id of
        (False, w) \<Rightarrow> (False, w)
      | (True, w) \<Rightarrow>
          if w_highest w < 0 then (True, w\<lparr>w_highest := sequence, w_bitmap := 1\<rparr>)
          else if sequence > w_highest w then
            (let shift = nat (sequence - w_highest w) in
             (True, w\<lparr>w_bitmap :=
                        (if shift \<ge> w_size w then 1
                         else (push_bit shift (w_bitmap w) OR 1) AND (push_bit (w_size w) 1 - 1)),
                      w_highest := sequence\<rparr>))
          else (let distance = nat (w_highest w - sequence) in
            if distance \<ge> w_size w then (False, w)
            else (let mask = push_bit distance 1 in
              if w_bitmap w AND mask \<noteq> 0 then (False, w)
              else (True, w\<lparr>w_bitmap := w_bitmap w OR mask\<rparr>))))"

text \<open>\<open>ReplayWindow.accept\<close> is \<open>_accept_locked\<close> under the lock.\<close>

definition accept :: "window \<Rightarrow> int \<Rightarrow> int \<Rightarrow> bool \<times> window" where
  "accept w sequence session_id = accept_locked w sequence session_id"

definition snapshot :: "window \<Rightarrow> json" where
  "snapshot w = JObj
     [(''size'', JInt (int (w_size w))),
      (''session_id'', case w_session_id w of None \<Rightarrow> JNull | Some s \<Rightarrow> JInt s),
      (''retired_sessions'', JArr (map JInt (sorted_list_of_set (w_retired_sessions w)))),
      (''highest'', JInt (w_highest w)),
      (''bitmap'', JStr (format_hex (w_bitmap w)))]"

text \<open>The \<open>try\<close> block of \<open>restore\<close>: size, session id as stored, retired sessions, highest, bitmap.\<close>

definition parse_state :: "json \<Rightarrow> (int \<times> json \<times> int set \<times> int \<times> int) result" where
  "parse_state state =
     and_then (subscript state ''size'') (\<lambda>jsize.
     and_then (py_int jsize) (\<lambda>sz.
     and_then (subscript state ''session_id'') (\<lambda>session_id.
     and_then (subscript state ''retired_sessions'') (\<lambda>jretired.
     and_then (iterate jretired) (\<lambda>items.
     and_then (py_ints items) (\<lambda>retired.
     and_then (subscript state ''highest'') (\<lambda>jhighest.
     and_then (py_int jhighest) (\<lambda>highest.
     and_then (subscript state ''bitmap'') (\<lambda>jbitmap.
     and_then (int16_of_str jbitmap) (\<lambda>bitmap.
       Inr (sz, session_id, set retired, highest, bitmap)))))))))))"

definition is_restore_error :: "exn \<Rightarrow> bool" where
  "is_restore_error e \<longleftrightarrow> e = KeyError \<or> e = TypeError \<or> is_value_error e"

definition restore :: "window \<Rightarrow> json \<Rightarrow> window result" where
  "restore w state =
     (case parse_state state of
        Inl e \<Rightarrow> Inl (if is_restore_error e then ProtocolError ''invalid replay state'' else e)
      | Inr (sz, jsession, retired, highest, bitmap) \<Rightarrow>
          if sz \<noteq> int (w_size w)
            then Inl (ProtocolError ''replay state window size mismatch'')
          else case (if jsession = JNull then Inr None
                     else case py_int jsession of Inl e \<Rightarrow> Inl e | Inr s \<Rightarrow> Inr (Some s)) of
            Inl e \<Rightarrow> Inl e
          | Inr session_id \<Rightarrow>
              if highest < -1 \<or> bitmap < 0 \<or> bitmap \<ge> 2 ^ w_size w
                then Inl (ProtocolError ''invalid replay state values'')
              else Inr (w\<lparr>w_session_id := session_id, w_retired_sessions := retired,
                          w_highest := highest, w_bitmap := bitmap\<rparr>))"

section \<open>The contract of a replay filter\<close>

text \<open>A sequence of accept calls \<open>(session, sequence)\<close>: the decisions and the final state.\<close>

fun run_accept :: "('w \<Rightarrow> int \<Rightarrow> int \<Rightarrow> bool \<times> 'w) \<Rightarrow> 'w \<Rightarrow> (int \<times> int) list \<Rightarrow> bool list \<times> 'w" where
  "run_accept acc w [] = ([], w)"
| "run_accept acc w ((s, q) # ps) =
     (let (b, w') = acc w q s; (bs, w'') = run_accept acc w' ps in (b # bs, w''))"

definition accepted :: "('w \<Rightarrow> int \<Rightarrow> int \<Rightarrow> bool \<times> 'w) \<Rightarrow> 'w \<Rightarrow> (int \<times> int) list \<Rightarrow> (int \<times> int) list" where
  "accepted acc w ps = map snd (filter fst (zip (fst (run_accept acc w ps)) ps))"

lemma accepted_Nil [simp]: "accepted acc w [] = []"
  by (simp add: accepted_def)

lemma accepted_Cons [simp]:
  "accepted acc w ((s, q) # ps) =
     (if fst (acc w q s) then [(s, q)] else []) @ accepted acc (snd (acc w q s)) ps"
  by (simp add: accepted_def split_beta Let_def)

lemma run_accept_final_Cons [simp]:
  "snd (run_accept acc w ((s, q) # ps)) = snd (run_accept acc (snd (acc w q s)) ps)"
  by (simp add: split_beta Let_def)

declare run_accept.simps(2) [simp del]

text \<open>
  What a replay filter promises: it accepts a pair exactly when the pair is not blocked, an
  accepted pair is blocked from then on, and nothing that is blocked is ever released.
\<close>

locale replay_filter =
  fixes acc :: "'w \<Rightarrow> int \<Rightarrow> int \<Rightarrow> bool \<times> 'w"
    and blocked :: "'w \<Rightarrow> int \<times> int \<Rightarrow> bool"
    and ok :: "'w \<Rightarrow> bool"
  assumes accept_iff: "ok w \<Longrightarrow> fst (acc w q s) \<longleftrightarrow> \<not> blocked w (s, q)"
    and accept_blocks: "ok w \<Longrightarrow> blocked (snd (acc w q s)) (s, q)"
    and accept_mono: "ok w \<Longrightarrow> blocked w p \<Longrightarrow> blocked (snd (acc w q s)) p"
    and accept_ok: "ok w \<Longrightarrow> ok (snd (acc w q s))"
begin

lemma run_ok: "ok w \<Longrightarrow> ok (snd (run_accept acc w ps))"
  by (induction ps arbitrary: w) (auto simp: accept_ok)

lemma run_mono: "ok w \<Longrightarrow> blocked w p \<Longrightarrow> blocked (snd (run_accept acc w ps)) p"
  by (induction ps arbitrary: w) (auto simp: accept_ok accept_mono)

lemma run_blocks: "ok w \<Longrightarrow> p \<in> set ps \<Longrightarrow> blocked (snd (run_accept acc w ps)) p"
proof (induction ps arbitrary: w)
  case Nil
  then show ?case by simp
next
  case (Cons r ps)
  obtain s q where r: "r = (s, q)" by (cases r)
  show ?case
  proof (cases "p = r")
    case True
    with Cons.prems show ?thesis
      by (simp add: r run_mono accept_ok accept_blocks)
  next
    case False
    with Cons show ?thesis by (simp add: r accept_ok)
  qed
qed

lemma accepted_not_blocked: "ok w \<Longrightarrow> p \<in> set (accepted acc w ps) \<Longrightarrow> \<not> blocked w p"
proof (induction ps arbitrary: w)
  case Nil
  then show ?case by simp
next
  case (Cons r ps)
  obtain s q where r: "r = (s, q)" by (cases r)
  show ?case
  proof
    assume b: "blocked w p"
    with Cons.prems have "p \<noteq> (s, q) \<or> \<not> fst (acc w q s)"
      by (auto simp: accept_iff)
    with Cons.prems(2) have "p \<in> set (accepted acc (snd (acc w q s)) ps)"
      by (auto simp: r split: if_splits)
    with Cons.IH Cons.prems(1) b show False
      by (meson accept_mono accept_ok)
  qed
qed

lemma accepted_distinct: "ok w \<Longrightarrow> distinct (accepted acc w ps)"
proof (induction ps arbitrary: w)
  case Nil
  then show ?case by simp
next
  case (Cons r ps)
  obtain s q where r: "r = (s, q)" by (cases r)
  have "(s, q) \<notin> set (accepted acc (snd (acc w q s)) ps)"
    using accepted_not_blocked accept_ok accept_blocks Cons.prems by blast
  with Cons show ?case by (simp add: r accept_ok)
qed

lemma accepted_after_run:
  "ok w \<Longrightarrow> set (accepted acc (snd (run_accept acc w ps)) qs) \<inter> set ps = {}"
  using accepted_not_blocked [OF run_ok] run_blocks by blast

end

section \<open>The reference window\<close>

text \<open>
  The same filter with a set of the accepted sequence numbers of the current session instead of
  a bitmap: a number is accepted when it is not negative, its session is not retired, and it is
  newer than everything seen or within \<open>sz\<close> of the newest and not seen.
\<close>

record spec_window =
  sw_session :: "int option"
  sw_retired :: "int set"
  sw_seen :: "int set"

definition spec_init :: spec_window where
  "spec_init = \<lparr>sw_session = None, sw_retired = {}, sw_seen = {}\<rparr>"

definition spec_seen :: "spec_window \<Rightarrow> int \<Rightarrow> int set" where
  "spec_seen a s = (if sw_session a = Some s then sw_seen a else {})"

definition spec_fresh :: "nat \<Rightarrow> int set \<Rightarrow> int \<Rightarrow> bool" where
  "spec_fresh sz seen q \<longleftrightarrow> (\<forall>x \<in> seen. x - q < int sz) \<and> q \<notin> seen"

definition spec_blocked :: "nat \<Rightarrow> spec_window \<Rightarrow> int \<times> int \<Rightarrow> bool" where
  "spec_blocked sz a p = (case p of (s, q) \<Rightarrow>
     q < 0 \<or> s \<in> sw_retired a \<or> \<not> spec_fresh sz (spec_seen a s) q)"

definition spec_accept :: "nat \<Rightarrow> spec_window \<Rightarrow> int \<Rightarrow> int \<Rightarrow> bool \<times> spec_window" where
  "spec_accept sz a q s =
     (if spec_blocked sz a (s, q) then (False, a)
      else (True, \<lparr>sw_session = Some s,
                   sw_retired = (case sw_session a of
                      Some cur \<Rightarrow> if cur = s then sw_retired a else insert cur (sw_retired a)
                    | None \<Rightarrow> sw_retired a),
                   sw_seen = insert q (spec_seen a s)\<rparr>))"

section \<open>The bitmap implements the reference window\<close>

definition bits_show :: "nat \<Rightarrow> int \<Rightarrow> int \<Rightarrow> int set \<Rightarrow> bool" where
  "bits_show sz bitmap highest seen \<longleftrightarrow> (\<forall>d < sz. bit bitmap d \<longleftrightarrow> highest - int d \<in> seen)"

definition newest :: "int set \<Rightarrow> int" where
  "newest seen = (if seen = {} then -1 else Max seen)"

definition win_rel :: "window \<Rightarrow> spec_window \<Rightarrow> bool" where
  "win_rel w a \<longleftrightarrow>
     0 < w_size w \<and> w_session_id w = sw_session a \<and> w_retired_sessions w = sw_retired a \<and>
     (case sw_session a of None \<Rightarrow> sw_retired a = {} \<and> sw_seen a = {}
      | Some s \<Rightarrow> s \<notin> sw_retired a) \<and>
     finite (sw_retired a) \<and> finite (sw_seen a) \<and> (\<forall>x \<in> sw_seen a. 0 \<le> x) \<and>
     w_highest w = newest (sw_seen a) \<and> 0 \<le> w_bitmap w \<and> w_bitmap w < 2 ^ w_size w \<and>
     (sw_seen a \<noteq> {} \<longrightarrow> bits_show (w_size w) (w_bitmap w) (w_highest w) (sw_seen a))"

lemma newest_empty [simp]: "newest {} = -1"
  by (simp add: newest_def)

lemma newest_insert:
  "finite seen \<Longrightarrow> \<forall>x \<in> seen. 0 \<le> x \<Longrightarrow> 0 \<le> q \<Longrightarrow> newest (insert q seen) = max q (newest seen)"
  by (auto simp: newest_def)

lemma newest_neg_iff: "finite seen \<Longrightarrow> \<forall>x \<in> seen. 0 \<le> x \<Longrightarrow> newest seen < 0 \<longleftrightarrow> seen = {}"
  by (force simp: newest_def)

lemma newest_ge: "finite seen \<Longrightarrow> x \<in> seen \<Longrightarrow> x \<le> newest seen"
  by (auto simp: newest_def)

lemma newest_in: "finite seen \<Longrightarrow> seen \<noteq> {} \<Longrightarrow> newest seen \<in> seen"
  by (simp add: newest_def)

lemma spec_fresh_iff:
  assumes "finite seen" "seen \<noteq> {}"
  shows "spec_fresh sz seen q \<longleftrightarrow> newest seen - q < int sz \<and> q \<notin> seen"
  using assms newest_in [OF assms] newest_ge [OF assms(1)] by (fastforce simp: spec_fresh_def)

lemma exp_minus_1_mask: "(2 :: int) ^ n - 1 = mask n"
  by (simp add: mask_eq_exp_minus_1)

lemma bit_exp_int: "bit ((2 :: int) ^ n) d \<longleftrightarrow> d = n"
  by (auto simp: bit_exp_iff)

lemma bit_mask_int: "bit (mask n :: int) d \<longleftrightarrow> d < n"
  by (simp add: bit_mask_iff)

lemmas window_bits = exp_minus_1_mask bit_exp_int bit_mask_int bit_and_iff bit_or_iff
  bit_push_bit_iff_int bit_1_iff

lemma shifted_bits:
  assumes "bits_show sz b h seen" "finite seen" "h = newest seen" "h < q" "k = nat (q - h)"
  shows "bits_show sz (if k \<ge> sz then 1 else (push_bit k b OR 1) AND (push_bit sz 1 - 1)) q
    (insert q seen)"
  unfolding bits_show_def
proof (intro allI impI)
  fix d
  assume d: "d < sz"
  have k: "int k = q - h" "0 < k" using assms(4,5) by auto
  have old: "q - int d \<notin> seen" if "d < k"
    using newest_ge [OF assms(2), of "q - int d"] that assms(3) k by fastforce
  have shift: "bit b (d - k) \<longleftrightarrow> q - int d \<in> seen" if "k \<le> d"
  proof -
    have "bit b (d - k) \<longleftrightarrow> h - int (d - k) \<in> seen"
      using assms(1) d by (simp add: bits_show_def)
    moreover have "h - int (d - k) = q - int d" using that k by simp
    ultimately show ?thesis by simp
  qed
  have eq: "q - int d = q \<longleftrightarrow> d = 0" by simp
  then show "bit (if k \<ge> sz then 1 else (push_bit k b OR 1) AND (push_bit sz 1 - 1)) d
      \<longleftrightarrow> q - int d \<in> insert q seen"
    using d old shift eq k(2)
    by (cases "k \<le> d")
      (auto simp: window_bits)
qed

lemma marked_bits:
  assumes "bits_show sz b h seen" "q \<le> h" "dst = nat (h - q)"
  shows "bits_show sz (b OR push_bit dst 1) h (insert q seen)"
  using assms by (auto simp: bits_show_def window_bits)

lemma one_bits: "0 < sz \<Longrightarrow> bits_show sz 1 q {q}"
  by (auto simp: bits_show_def bit_1_iff)

lemma and_mask_int_less: "x AND mask n < (2 :: int) ^ n"
  by (simp flip: take_bit_eq_mask)

lemma shifted_range:
  assumes "0 < sz" "0 \<le> (b :: int)"
  shows "0 \<le> (if k \<ge> sz then 1 else (push_bit k b OR 1) AND (push_bit sz 1 - 1))"
    and "(if k \<ge> sz then 1 else (push_bit k b OR 1) AND (push_bit sz 1 - 1)) < 2 ^ sz"
  using assms and_mask_int_less [of "push_bit k b OR 1" sz]
  by (simp_all add: exp_minus_1_mask one_less_power)

lemma marked_range:
  assumes "0 \<le> (b :: int)" "b < 2 ^ sz" "dst < sz"
  shows "0 \<le> b OR push_bit dst 1" "b OR push_bit dst 1 < 2 ^ sz"
proof -
  show "0 \<le> b OR push_bit dst 1" using assms by simp
  have "push_bit dst 1 < (2 :: int) ^ sz"
    using assms(3) by (simp add: push_bit_eq_mult power_strict_increasing)
  then show "b OR push_bit dst 1 < 2 ^ sz"
    using assms by (intro OR_upper) auto
qed


section \<open>Simulation\<close>

lemma accept_size [simp]: "w_size (snd (accept w q s)) = w_size w"
  by (simp add: accept_def accept_locked_def select_session_def Let_def split: option.splits)

text \<open>The decision on the current session, once it is selected.\<close>

lemma accept_current:
  assumes rel: "win_rel w a" and cur: "sw_session a = Some s" and q: "0 \<le> q"
  shows "fst (accept w q s) \<longleftrightarrow> spec_fresh (w_size w) (sw_seen a) q"
    and "spec_fresh (w_size w) (sw_seen a) q \<Longrightarrow>
      win_rel (snd (accept w q s)) (a\<lparr>sw_seen := insert q (sw_seen a)\<rparr>)"
    and "\<not> spec_fresh (w_size w) (sw_seen a) q \<Longrightarrow> snd (accept w q s) = w"
proof -
  let ?seen = "sw_seen a" and ?h = "w_highest w"
  have sel: "select_session w s = (True, w)"
    using rel cur by (simp add: win_rel_def select_session_def)
  have fin: "finite ?seen" and nn: "\<forall>x \<in> ?seen. 0 \<le> x" and h: "?h = newest ?seen"
    and sz: "0 < w_size w" and b: "0 \<le> w_bitmap w" "w_bitmap w < 2 ^ w_size w"
    and bits: "?seen \<noteq> {} \<Longrightarrow> bits_show (w_size w) (w_bitmap w) ?h ?seen"
    using rel by (auto simp: win_rel_def)
  note neg = newest_neg_iff [OF fin nn, folded h]
  note ins = newest_insert [OF fin nn q, folded h]
  have "(fst (accept w q s) \<longleftrightarrow> spec_fresh (w_size w) ?seen q) \<and>
    (spec_fresh (w_size w) ?seen q \<longrightarrow>
      win_rel (snd (accept w q s)) (a\<lparr>sw_seen := insert q ?seen\<rparr>)) \<and>
    (\<not> spec_fresh (w_size w) ?seen q \<longrightarrow> snd (accept w q s) = w)"
  proof (cases "?seen = {}")
    case True
    then show ?thesis
      using rel sel q neg ins one_bits [OF sz, of q] sz cur
      by (auto simp: accept_def accept_locked_def spec_fresh_def win_rel_def one_less_power)
  next
    case ne: False
    note fresh = spec_fresh_iff [OF fin ne, of "w_size w" q, folded h]
    show ?thesis
    proof (cases "?h < q")
      case True
      have notin: "q \<notin> ?seen" using True newest_ge [OF fin] h by force
      have fresh_q: "spec_fresh (w_size w) ?seen q"
        using True notin sz by (simp add: fresh)
      let ?w = "w\<lparr>w_bitmap := (if nat (q - ?h) \<ge> w_size w then 1
         else (push_bit (nat (q - ?h)) (w_bitmap w) OR 1) AND (push_bit (w_size w) 1 - 1)),
         w_highest := q\<rparr>"
      have acc: "accept w q s = (True, ?w)"
        using True ne neg q by (simp add: accept_def accept_locked_def sel Let_def)
      have "win_rel ?w (a\<lparr>sw_seen := insert q ?seen\<rparr>)"
        using rel shifted_bits [OF bits [OF ne] fin h True refl] True ins q cur
          shifted_range [OF sz b(1), of "nat (q - ?h)"]
        by (simp only: win_rel_def) simp
      with fresh_q acc show ?thesis by simp
    next
      case le: False
      let ?d = "nat (?h - q)"
      have d: "int ?d = ?h - q" using le by simp
      have bit: "bit (w_bitmap w) ?d \<longleftrightarrow> q \<in> ?seen" if "?d < w_size w"
        using bits [OF ne] that d by (simp add: bits_show_def)
      have mask: "w_bitmap w AND push_bit ?d 1 = 0 \<longleftrightarrow> \<not> bit (w_bitmap w) ?d"
        by (simp add: and_exp_eq_0_iff_not_bit)
      show ?thesis
      proof (cases "?d < w_size w \<and> q \<notin> ?seen")
        case True
        then have fresh_q: "spec_fresh (w_size w) ?seen q" using fresh d by simp
        let ?w = "w\<lparr>w_bitmap := w_bitmap w OR push_bit ?d 1\<rparr>"
        have acc: "accept w q s = (True, ?w)"
          using True le ne neg q bit mask by (simp add: accept_def accept_locked_def sel Let_def)
        have "win_rel ?w (a\<lparr>sw_seen := insert q ?seen\<rparr>)"
          using rel marked_bits [OF bits [OF ne], of q ?d] le ins q cur
            marked_range [OF b, of ?d] True
          by (simp only: win_rel_def) simp
        with fresh_q acc show ?thesis by simp
      next
        case False
        then have "\<not> spec_fresh (w_size w) ?seen q" using le by (auto simp: fresh nat_less_iff)
        moreover have "accept w q s = (False, w)"
          using False le ne neg q bit mask
          by (auto simp: accept_def accept_locked_def sel Let_def)
        ultimately show ?thesis by simp
      qed
    qed
  qed
  then show "fst (accept w q s) \<longleftrightarrow> spec_fresh (w_size w) (sw_seen a) q"
    and "spec_fresh (w_size w) (sw_seen a) q \<Longrightarrow>
      win_rel (snd (accept w q s)) (a\<lparr>sw_seen := insert q (sw_seen a)\<rparr>)"
    and "\<not> spec_fresh (w_size w) (sw_seen a) q \<Longrightarrow> snd (accept w q s) = w"
    by blast+
qed


definition spec_select :: "spec_window \<Rightarrow> int \<Rightarrow> spec_window" where
  "spec_select a s =
     \<lparr>sw_session = Some s,
      sw_retired = (case sw_session a of
         Some cur \<Rightarrow> if cur = s then sw_retired a else insert cur (sw_retired a)
       | None \<Rightarrow> sw_retired a),
      sw_seen = spec_seen a s\<rparr>"

lemma spec_accept_select:
  "spec_accept sz a q s =
     (if spec_blocked sz a (s, q) then (False, a)
      else (True, (spec_select a s)\<lparr>sw_seen := insert q (spec_seen a s)\<rparr>))"
  by (simp add: spec_accept_def spec_select_def)

lemma select_rel:
  assumes rel: "win_rel w a" and live: "s \<notin> sw_retired a"
  obtains w' where "select_session w s = (True, w')" "win_rel w' (spec_select a s)"
    "w_size w' = w_size w" "select_session w' s = (True, w')"
proof (cases "sw_session a")
  case None
  show ?thesis
  proof
    show "select_session w s = (True, w\<lparr>w_session_id := Some s\<rparr>)"
      using rel None by (simp add: select_session_def win_rel_def)
    show "win_rel (w\<lparr>w_session_id := Some s\<rparr>) (spec_select a s)"
      using rel None by (simp add: win_rel_def spec_select_def spec_seen_def)
  qed (simp_all add: select_session_def)
next
  case (Some cur)
  show ?thesis
  proof (cases "cur = s")
    case True
    then have "spec_select a s = a"
      using Some by (cases a) (simp add: spec_select_def spec_seen_def)
    moreover have "select_session w s = (True, w)"
      using rel Some True by (simp add: select_session_def win_rel_def)
    ultimately show ?thesis using that [of w] rel by simp
  next
    case False
    let ?w = "w\<lparr>w_retired_sessions := insert cur (w_retired_sessions w),
                w_session_id := Some s, w_highest := -1, w_bitmap := 0\<rparr>"
    show ?thesis
    proof
      show "select_session w s = (True, ?w)"
        using rel Some False live by (simp add: select_session_def win_rel_def)
      show "win_rel ?w (spec_select a s)"
        using rel Some False live by (auto simp: win_rel_def spec_select_def spec_seen_def)
    qed (simp_all add: select_session_def)
  qed
qed

lemma accept_after_select:
  "select_session w s = (True, w') \<Longrightarrow> select_session w' s = (True, w') \<Longrightarrow> 0 \<le> q \<Longrightarrow>
   accept w q s = accept w' q s"
  by (simp add: accept_def accept_locked_def)

lemma accept_step:
  assumes rel: "win_rel w a"
  shows "fst (accept w q s) = fst (spec_accept (w_size w) a q s) \<and>
    win_rel (snd (accept w q s)) (snd (spec_accept (w_size w) a q s))"
proof (cases "q < 0 \<or> s \<in> sw_retired a")
  case True
  have "accept w q s = (False, w)"
  proof (cases "q < 0")
    case False
    with True rel have "select_session w s = (False, w)"
      by (auto simp: select_session_def win_rel_def split: option.splits)
    with False show ?thesis by (simp add: accept_def accept_locked_def)
  qed (simp add: accept_def accept_locked_def)
  with True rel show ?thesis by (auto simp: spec_accept_def spec_blocked_def)
next
  case False
  then obtain w' where sel: "select_session w s = (True, w')" "select_session w' s = (True, w')"
    and rel': "win_rel w' (spec_select a s)" and sz: "w_size w' = w_size w"
    using select_rel [OF rel] by blast
  have acc: "accept w q s = accept w' q s"
    using False by (intro accept_after_select [OF sel]) simp
  have blk: "spec_blocked (w_size w) a (s, q) \<longleftrightarrow> \<not> spec_fresh (w_size w) (spec_seen a s) q"
    using False by (simp add: spec_blocked_def)
  have seen: "sw_seen (spec_select a s) = spec_seen a s" "sw_session (spec_select a s) = Some s"
    by (simp_all add: spec_select_def)
  have q: "0 \<le> q" using False by simp
  note cur = accept_current [OF rel' seen(2) q, unfolded seen sz]
  show ?thesis
  proof (cases "spec_fresh (w_size w) (spec_seen a s) q")
    case True
    with cur acc blk show ?thesis by (simp add: spec_accept_select)
  next
    case nf: False
    with cur acc have "accept w q s = (False, w')" by (simp add: prod_eq_iff)
    moreover have "sw_session a = Some s"
      using nf by (auto simp: spec_seen_def spec_fresh_def split: if_splits)
    moreover from this have "w' = w"
      using sel(1) rel by (simp add: select_session_def win_rel_def)
    ultimately show ?thesis
      using nf blk rel by (simp add: spec_accept_select)
  qed
qed

lemma win_rel_init: "ReplayWindow_init sz = Inr w \<Longrightarrow> win_rel w spec_init \<and> w_size w = nat sz"
  by (auto simp: ReplayWindow_init_def win_rel_def spec_init_def split: if_splits)

lemma run_simulation:
  assumes "win_rel w a"
  shows "fst (run_accept accept w ps) = fst (run_accept (spec_accept (w_size w)) a ps) \<and>
    win_rel (snd (run_accept accept w ps)) (snd (run_accept (spec_accept (w_size w)) a ps))"
  using assms
proof (induction ps arbitrary: w a)
  case Nil
  then show ?case by simp
next
  case (Cons p ps)
  obtain s q where p: "p = (s, q)" by (cases p)
  from accept_step [OF Cons.prems, of q s]
  have fst: "fst (accept w q s) = fst (spec_accept (w_size w) a q s)"
    and rel: "win_rel (snd (accept w q s)) (snd (spec_accept (w_size w) a q s))" by blast+
  from Cons.IH [OF rel] fst show ?case
    by (simp add: p run_accept.simps(2) split_beta Let_def)
qed


section \<open>The invariant and the contract\<close>

definition window_ok :: "window \<Rightarrow> bool" where
  "window_ok w \<longleftrightarrow>
     0 < w_size w \<and> finite (w_retired_sessions w) \<and>
     (case w_session_id w of None \<Rightarrow> w_retired_sessions w = {} \<and> w_highest w = -1
      | Some s \<Rightarrow> s \<notin> w_retired_sessions w) \<and>
     -1 \<le> w_highest w \<and> 0 \<le> w_bitmap w \<and> w_bitmap w < 2 ^ w_size w \<and>
     (0 \<le> w_highest w \<longrightarrow> bit (w_bitmap w) 0 \<and>
        (\<forall>d < w_size w. bit (w_bitmap w) d \<longrightarrow> int d \<le> w_highest w))"

text \<open>The numbers the bitmap shows, and what the window blocks.\<close>

definition abs_window :: "window \<Rightarrow> spec_window" where
  "abs_window w =
     \<lparr>sw_session = w_session_id w, sw_retired = w_retired_sessions w,
      sw_seen = (if w_highest w < 0 then {}
        else (\<lambda>d. w_highest w - int d) ` {d. d < w_size w \<and> bit (w_bitmap w) d})\<rparr>"

definition win_blocked :: "window \<Rightarrow> int \<times> int \<Rightarrow> bool" where
  "win_blocked w p = spec_blocked (w_size w) (abs_window w) p"

lemma abs_window_rel:
  assumes "window_ok w"
  shows "win_rel w (abs_window w)"
proof (cases "w_highest w < 0")
  case True
  with assms show ?thesis
    by (auto simp: win_rel_def window_ok_def abs_window_def split: option.splits)
next
  case False
  let ?seen = "(\<lambda>d. w_highest w - int d) ` {d. d < w_size w \<and> bit (w_bitmap w) d}"
  have zero: "w_highest w \<in> ?seen"
    using assms False by (intro image_eqI [of _ _ 0]) (auto simp: window_ok_def)
  have "newest ?seen = w_highest w"
    using zero by (auto simp: newest_def intro!: Max_eqI)
  moreover have "bits_show (w_size w) (w_bitmap w) (w_highest w) ?seen"
    by (auto simp: bits_show_def)
  ultimately show ?thesis
    using assms False zero
    by (auto simp: win_rel_def window_ok_def abs_window_def split: option.splits)
qed

lemma win_rel_ok:
  assumes "win_rel w a"
  shows "window_ok w"
proof -
  have fin: "finite (sw_seen a)" and nn: "\<forall>x \<in> sw_seen a. 0 \<le> x"
    and h: "w_highest w = newest (sw_seen a)"
    using assms by (auto simp: win_rel_def)
  have "bit (w_bitmap w) 0 \<and> (\<forall>d < w_size w. bit (w_bitmap w) d \<longrightarrow> int d \<le> w_highest w)"
    if "0 \<le> w_highest w"
  proof -
    have ne: "sw_seen a \<noteq> {}" using that newest_neg_iff [OF fin nn] h by auto
    then have "bits_show (w_size w) (w_bitmap w) (w_highest w) (sw_seen a)"
      and "0 < w_size w" using assms by (auto simp: win_rel_def)
    with nn newest_in [OF fin ne] h show ?thesis by (fastforce simp: bits_show_def)
  qed
  moreover have "-1 \<le> w_highest w"
    using newest_neg_iff [OF fin nn] h by (cases "sw_seen a = {}") auto
  ultimately show ?thesis
    using assms by (auto simp: win_rel_def window_ok_def split: option.splits)
qed

lemma rel_blocked:
  assumes "win_rel w a"
  shows "win_blocked w (s, q) = spec_blocked (w_size w) a (s, q)"
  using accept_step [OF assms, of q s] accept_step [OF abs_window_rel [OF win_rel_ok [OF assms]], of q s]
  by (auto simp: win_blocked_def spec_accept_def split: if_splits)

lemma spec_fresh_insert: "\<not> spec_fresh sz seen q \<Longrightarrow> \<not> spec_fresh sz (insert x seen) q"
  by (auto simp: spec_fresh_def)

lemma spec_accept_blocks: "spec_blocked sz (snd (spec_accept sz a q s)) (s, q)"
  by (simp add: spec_accept_def) (simp add: spec_blocked_def spec_seen_def spec_fresh_def)

lemma spec_accept_mono:
  assumes "spec_blocked sz a p"
  shows "spec_blocked sz (snd (spec_accept sz a q s)) p"
proof (cases "spec_blocked sz a (s, q)")
  case True
  with assms show ?thesis by (simp add: spec_accept_def)
next
  case False
  obtain t r where p: "p = (t, r)" by (cases p)
  consider "r < 0 \<or> t \<in> sw_retired a" | "\<not> spec_fresh sz (spec_seen a t) r"
    using assms by (auto simp: p spec_blocked_def)
  then show ?thesis
  proof cases
    case 1
    with False show ?thesis
      by (auto simp: p spec_accept_def spec_blocked_def split: option.splits)
  next
    case 2
    then have cur: "sw_session a = Some t"
      by (auto simp: spec_seen_def spec_fresh_def split: if_splits)
    show ?thesis
      using False 2 cur spec_fresh_insert [OF 2, of q]
      by (cases "s = t") (simp_all add: p spec_accept_def spec_blocked_def spec_seen_def)
  qed
qed

interpretation rw: replay_filter accept win_blocked window_ok
proof unfold_locales
  fix w q s p
  assume ok: "window_ok w"
  note step = accept_step [OF abs_window_rel [OF ok], of q s]
  show "fst (accept w q s) \<longleftrightarrow> \<not> win_blocked w (s, q)"
    using step by (simp add: win_blocked_def spec_accept_def)
  show "win_blocked (snd (accept w q s)) (s, q)"
    using rel_blocked [OF conjunct2 [OF step]] spec_accept_blocks by simp
  show "window_ok (snd (accept w q s))"
    using win_rel_ok [OF conjunct2 [OF step]] .
  assume "win_blocked w p"
  then show "win_blocked (snd (accept w q s)) p"
    using rel_blocked [OF conjunct2 [OF step], of "fst p" "snd p"]
      spec_accept_mono [of "w_size w" "abs_window w" p q s]
    by (simp add: win_blocked_def)
qed

lemma init_ok: "ReplayWindow_init sz = Inr w \<Longrightarrow> window_ok w"
  using win_rel_init win_rel_ok by blast

section \<open>Snapshots\<close>

lemma restore_snapshot:
  assumes "window_ok w" "w_size w0 = w_size w"
  shows "restore w0 (snapshot w) = Inr w"
proof -
  have fin: "finite (w_retired_sessions w)" and b: "0 \<le> w_bitmap w" "w_bitmap w < 2 ^ w_size w"
    and h: "-1 \<le> w_highest w"
    using assms(1) by (auto simp: window_ok_def)
  let ?js = "case w_session_id w of None \<Rightarrow> JNull | Some s \<Rightarrow> JInt s"
  have parse: "parse_state (snapshot w) = Inr (int (w_size w), ?js,
      w_retired_sessions w, w_highest w, w_bitmap w)"
    using fin b(1) by (simp add: parse_state_def snapshot_def int_of_text_format_hex)
  have sess: "(if ?js = JNull then Inr None
      else case py_int ?js of Inl e \<Rightarrow> Inl e | Inr s \<Rightarrow> Inr (Some s)) = Inr (w_session_id w)"
    by (cases "w_session_id w") simp_all
  show ?thesis
    unfolding restore_def parse sum.case prod.case sess
    using assms(2) b h by simp
qed


section \<open>Sessions\<close>

lemma accept_session:
  assumes "fst (accept w q s)"
  shows "w_session_id (snd (accept w q s)) = Some s"
  using assms
  by (auto simp: accept_def accept_locked_def select_session_def Let_def
      split: option.splits if_splits)

lemma accept_retires:
  assumes "fst (accept w q s)" "w_session_id w = Some cur" "cur \<noteq> s"
  shows "cur \<in> w_retired_sessions (snd (accept w q s))"
  using assms
  by (auto simp: accept_def accept_locked_def select_session_def Let_def split: if_splits)

lemma accept_retired_mono:
  "t \<in> w_retired_sessions w \<Longrightarrow> t \<in> w_retired_sessions (snd (accept w q s))"
  by (auto simp: accept_def accept_locked_def select_session_def Let_def split: option.splits)

lemma retired_never_accepted:
  assumes "window_ok w" "t \<in> w_retired_sessions w"
  shows "t \<notin> fst ` set (accepted accept w ps)"
proof
  assume "t \<in> fst ` set (accepted accept w ps)"
  then obtain q where "(t, q) \<in> set (accepted accept w ps)" by auto
  moreover have "win_blocked w (t, q)"
    using assms(2) by (simp add: win_blocked_def spec_blocked_def abs_window_def)
  ultimately show False using rw.accepted_not_blocked [OF assms(1)] by blast
qed

lemma left_session_never_accepted:
  assumes "window_ok w" "w_session_id w = Some s"
    and "accepted accept w ps = ys @ (t, r) # zs" "t \<noteq> s"
  shows "s \<notin> fst ` set zs"
  using assms
proof (induction ps arbitrary: w ys)
  case Nil
  then show ?case by simp
next
  case (Cons p ps)
  obtain u q where p: "p = (u, q)" by (cases p)
  let ?w = "snd (accept w q u)"
  have ok: "window_ok ?w" using Cons.prems(1) by (rule rw.accept_ok)
  show ?case
  proof (cases "fst (accept w q u)")
    case acc: True
    show ?thesis
    proof (cases "u = s")
      case True
      with acc Cons.prems(3,4) obtain ys' where "accepted accept ?w ps = ys' @ (t, r) # zs"
        by (cases ys) (auto simp: p)
      then show ?thesis
        using Cons.IH [OF ok] accept_session [OF acc] True Cons.prems(4) by blast
    next
      case False
      then have "s \<in> w_retired_sessions ?w"
        using accept_retires [OF acc Cons.prems(2)] by simp
      then have "s \<notin> fst ` set (accepted accept ?w ps)"
        using retired_never_accepted [OF ok] by simp
      moreover have "set zs \<subseteq> set (accepted accept ?w ps)"
        using Cons.prems(3) acc by (cases ys) (auto simp: p)
      ultimately show ?thesis by blast
    qed
  next
    case False
    then have "accepted accept ?w ps = ys @ (t, r) # zs"
      using Cons.prems(3) by (simp add: p)
    moreover have "?w = w"
      using False Cons.prems(1,2)
      by (auto simp: accept_def accept_locked_def select_session_def Let_def window_ok_def
          split: if_splits)
    ultimately show ?thesis using Cons.IH [OF Cons.prems(1,2)] Cons.prems(4) by simp
  qed
qed

lemma sessions_block_order:
  assumes "window_ok w" "accepted accept w ps = xs @ (s, q) # ys @ (t, r) # zs" "t \<noteq> s"
  shows "s \<notin> fst ` set zs"
  using assms
proof (induction ps arbitrary: w xs)
  case Nil
  then show ?case by simp
next
  case (Cons p ps)
  obtain u v where p: "p = (u, v)" by (cases p)
  let ?w = "snd (accept w v u)"
  have ok: "window_ok ?w" using Cons.prems(1) by (rule rw.accept_ok)
  consider "accepted accept ?w ps = ys @ (t, r) # zs" "fst (accept w v u)" "u = s"
    | xs' where "accepted accept ?w ps = xs' @ (s, q) # ys @ (t, r) # zs"
    using Cons.prems(2) by (cases xs) (auto simp: p split: if_splits)
  then show ?case
  proof cases
    case 1
    then show ?thesis
      using left_session_never_accepted [OF ok] accept_session Cons.prems(3) by blast
  next
    case 2
    then show ?thesis using Cons.IH [OF ok] Cons.prems(3) by blast
  qed
qed

section \<open>Properties\<close>

text \<open>
  C5. Refinement: from a new window, every sequence of \<open>accept\<close> calls gets exactly the decisions of
  the set-based reference window, at every size the constructor allows.
\<close>

theorem accept_refines_reference:
  assumes "ReplayWindow_init sz = Inr w"
  shows "fst (run_accept accept w ps) = fst (run_accept (spec_accept (nat sz)) spec_init ps)"
  using win_rel_init [OF assms] run_simulation by metis

definition demo_window :: window where
  "demo_window = \<lparr>w_size = 64, w_session_id = None, w_retired_sessions = {}, w_highest = -1,
     w_bitmap = 0\<rparr>"

lemma demo_window_init: "ReplayWindow_init 64 = Inr demo_window"
  by (simp add: ReplayWindow_init_def demo_window_def)

definition demo_calls :: "(int \<times> int) list" where
  "demo_calls = [(1, 10), (1, 10), (1, 74), (1, 10), (1, 11), (2, 5), (1, 80), (2, 5)]"

theorem accept_refines_reference_witness:
  "fst (run_accept accept demo_window demo_calls) =
     [True, False, True, False, True, True, False, False]"
proof -
  have "fst (run_accept (spec_accept (nat 64)) spec_init demo_calls) =
     [True, False, True, False, True, True, False, False]"
    by code_simp
  then show ?thesis
    using accept_refines_reference [OF demo_window_init] by simp
qed

text \<open>C6. Replay protection: no run of a new window accepts the same session and sequence twice.\<close>

theorem never_accepted_twice:
  assumes "ReplayWindow_init sz = Inr w"
  shows "distinct (accepted accept w ps)"
  by (rule rw.accepted_distinct [OF init_ok [OF assms]])

theorem never_accepted_twice_witness:
  "accepted accept demo_window demo_calls = [(1, 10), (1, 74), (1, 11), (2, 5)] \<and>
   distinct (accepted accept demo_window demo_calls)"
  using never_accepted_twice [OF demo_window_init, of demo_calls] by code_simp

text \<open>
  A session that was left never comes back: once a frame of another session is accepted
  after a frame of session \<open>s\<close>, no later frame of \<open>s\<close> is accepted.
\<close>

theorem left_session_is_dead:
  assumes "ReplayWindow_init sz = Inr w"
    and "accepted accept w ps = xs @ (s, q) # ys @ (t, r) # zs" and "t \<noteq> s"
  shows "s \<notin> fst ` set zs"
  by (rule sessions_block_order [OF init_ok [OF assms(1)] assms(2,3)])

theorem left_session_is_dead_witness:
  "(1 :: int) \<notin> fst ` set [(2 :: int, 6 :: int)]"
proof (rule left_session_is_dead [OF demo_window_init])
  show "accepted accept demo_window [(1, 10), (2, 5), (1, 80), (2, 6)] =
      [] @ (1, 10) # [] @ (2, 5) # [(2, 6)]"
    by code_simp
qed simp

text \<open>
  Snapshot round trip: restoring the snapshot of a window that satisfies its invariant, into
  any window of the same size, gives the window back (through the hexadecimal bitmap).
\<close>

theorem restore_snapshot_roundtrip:
  assumes "window_ok w" "w_size w0 = w_size w"
  shows "restore w0 (snapshot w) = Inr w"
  by (rule restore_snapshot [OF assms])

theorem restore_snapshot_roundtrip_witness:
  "restore demo_window (snapshot (snd (run_accept accept demo_window demo_calls))) =
     Inr (snd (run_accept accept demo_window demo_calls))"
proof (rule restore_snapshot_roundtrip)
  show "window_ok (snd (run_accept accept demo_window demo_calls))"
    by (rule rw.run_ok [OF init_ok [OF demo_window_init]])
  show "w_size demo_window = w_size (snd (run_accept accept demo_window demo_calls))"
    by code_simp
qed

text \<open>
  C7. Restart: a process that restores the snapshot taken after the calls \<open>ps\<close> accepts no pair
  of \<open>ps\<close> again, whatever arrives.
\<close>

theorem no_replay_across_restart:
  assumes "ReplayWindow_init sz = Inr w" "w_size w0 = w_size w"
    and "restore w0 (snapshot (snd (run_accept accept w ps))) = Inr w'"
  shows "set (accepted accept w' qs) \<inter> set ps = {}"
proof -
  let ?w = "snd (run_accept accept w ps)"
  have ok: "window_ok w" by (rule init_ok [OF assms(1)])
  have "w_size ?w = w_size w"
  proof (induction ps arbitrary: w)
    case (Cons p ps)
    then show ?case by (cases p) simp
  qed simp
  then have "w' = ?w"
    using restore_snapshot [OF rw.run_ok [OF ok], of w0] assms(2,3) by simp
  then show ?thesis using rw.accepted_after_run [OF ok] by simp
qed

theorem no_replay_across_restart_witness:
  "set (accepted accept (snd (run_accept accept demo_window demo_calls)) demo_calls) \<inter> set demo_calls = {}"
proof (rule no_replay_across_restart [OF demo_window_init refl])
  show "restore demo_window (snapshot (snd (run_accept accept demo_window demo_calls))) =
      Inr (snd (run_accept accept demo_window demo_calls))"
    by (rule restore_snapshot [OF rw.run_ok [OF init_ok [OF demo_window_init]]]) code_simp
qed

end
