(* ===== verification/Persistent_Replay.thy ===== *)
theory Persistent_Replay
  imports Replay_Window
begin

text \<open>
  \<open>PersistentReplayWindow\<close> of \<open>h3ntun/protocol.py\<close>: the replay window with a one-slot,
  coalescing queue of checkpoints and a writer thread. Every method and every iteration of the
  writer's loop runs under one condition variable, so it is one step; between \<open>Take\<close> and the
  completion of a write the writer holds a checkpoint and other threads run. The file system is
  the file at \<open>path\<close>, replaced atomically by \<open>os.replace\<close>; a write may fail at every system call.
  Times are the values of \<open>time.monotonic()\<close>, exact rationals here.
\<close>

section \<open>The file\<close>

text \<open>
  No file; one that cannot be read or is not JSON; one whose bytes are not UTF-8 (Python's
  \<open>UnicodeDecodeError\<close>, a \<open>ValueError\<close> that \<open>_load\<close> does not catch); or a JSON value.
\<close>

datatype checkpoint_file = Missing | Unreadable string | Undecodable string | Content json

definition envelope :: "string \<Rightarrow> json \<Rightarrow> json" where
  "envelope fingerprint state =
     JObj [(''format'', JInt 1), (''tunnel'', JStr fingerprint), (''window'', state)]"

text \<open>\<open>x == 1\<close> in Python: an integer, a boolean or a float.\<close>

fun eq_one :: "json \<Rightarrow> bool" where
  "eq_one (JInt i) = (i = 1)"
| "eq_one (JBool b) = b"
| "eq_one (JFloat (Fin r)) = (r = 1)"
| "eq_one _ = False"

definition load_state :: "string \<Rightarrow> window \<Rightarrow> checkpoint_file \<Rightarrow> window result" where
  "load_state fingerprint w f =
     (case f of
        Missing \<Rightarrow> Inl (OSError ''No such file or directory'')
      | Unreadable msg \<Rightarrow> Inl (ProtocolError (''cannot load replay state: '' @ msg))
      | Undecodable msg \<Rightarrow> Inl (ValueError msg)
      | Content env \<Rightarrow>
          and_then (get_default env ''format'' JNull) (\<lambda>fmt.
          and_then (get_default env ''tunnel'' JNull) (\<lambda>tunnel.
          if \<not> eq_one fmt \<or> tunnel \<noteq> JStr fingerprint
            then Inl (ProtocolError ''replay state belongs to a different tunnel or format'')
          else and_then (get_default env ''window'' (JObj [])) (\<lambda>state. restore w state))))"

text \<open>
  \<open>_write_snapshot\<close>: the system calls in order, any of which may raise \<open>OSError\<close>. The new
  content is in place once \<open>os.replace\<close> returns, also when the directory sync or the
  removal of the temporary name after it fails.
\<close>

datatype wcall = Mkdir | Mkstemp | WriteTemp | FsyncFile | Replace | FsyncDirectory | UnlinkTemp

definition write_snapshot :: "string \<Rightarrow> json \<Rightarrow> wcall option \<Rightarrow> checkpoint_file \<Rightarrow> bool \<times> checkpoint_file" where
  "write_snapshot fingerprint state failing f =
     (failing = None,
      if failing = None \<or> failing = Some FsyncDirectory \<or> failing = Some UnlinkTemp
      then Content (envelope fingerprint state) else f)"

section \<open>The object\<close>

text \<open>Where the writer thread is: in its waiting loop, between taking a checkpoint
  (generation, state, time queued, start of the write) and the end of the write, or gone.\<close>

datatype writer = Waiting | Writing int json rat rat | Exited

record pwindow =
  pw_window :: window
  pw_fingerprint :: string
  pw_interval_seconds :: rat
  pw_batch_frames :: int
  pw_pending :: "(int \<times> json \<times> rat) option"
  pw_inflight_since :: "rat option"
  pw_accepted_count :: int
  pw_persisted_count :: int
  pw_pending_frames :: int
  pw_coalesced :: int
  pw_checkpoints :: int
  pw_errors :: int
  pw_last_error :: "string option"
  pw_last_write_latency_ms :: "rat option"
  pw_stopping :: bool
  pw_last_attempt_at :: rat
  pw_retry_at :: rat
  pw_writer :: writer

definition PersistentReplayWindow_init ::
  "checkpoint_file \<Rightarrow> string \<Rightarrow> int \<Rightarrow> pyfloat \<Rightarrow> int \<Rightarrow> rat \<Rightarrow> pwindow result" where
  "PersistentReplayWindow_init f fingerprint sz interval_seconds batch_frames now =
     and_then (ReplayWindow_init sz) (\<lambda>w0.
     case interval_seconds of
       Fin i \<Rightarrow>
         if i \<le> 0 \<or> batch_frames < 1
           then Inl (ValueError ''checkpoint interval and batch size must be positive'')
         else and_then (if f = Missing then Inr w0 else load_state fingerprint w0 f) (\<lambda>w.
           Inr \<lparr>pw_window = w, pw_fingerprint = fingerprint, pw_interval_seconds = i,
                pw_batch_frames = batch_frames, pw_pending = None, pw_inflight_since = None,
                pw_accepted_count = 0, pw_persisted_count = 0, pw_pending_frames = 0,
                pw_coalesced = 0, pw_checkpoints = 0, pw_errors = 0, pw_last_error = None,
                pw_last_write_latency_ms = None, pw_stopping = False,
                pw_last_attempt_at = now, pw_retry_at = 0, pw_writer = Waiting\<rparr>)
     | _ \<Rightarrow> Inl (ValueError ''checkpoint interval and batch size must be positive''))"

text \<open>\<open>accept\<close>: the decision, the new state, and whether the writer is notified.\<close>

definition persistent_accept ::
  "rat \<Rightarrow> pwindow \<Rightarrow> int \<Rightarrow> int \<Rightarrow> bool result \<times> pwindow \<times> bool" where
  "persistent_accept now p sequence session_id =
     (if pw_stopping p
        then (Inl (ProtocolError ''replay checkpoint writer is closing''), p, False)
      else case accept_locked (pw_window p) sequence session_id of
        (False, w) \<Rightarrow> (Inr False, p\<lparr>pw_window := w\<rparr>, False)
      | (True, w) \<Rightarrow>
          (let count = pw_accepted_count p + 1;
               frames = pw_pending_frames p + 1;
               was_empty = (pw_pending p = None);
               coalesced = (if was_empty then pw_coalesced p else pw_coalesced p + 1);
               queued_at = (case pw_pending p of None \<Rightarrow> now | Some (_, _, t) \<Rightarrow> t)
           in (Inr True,
               p\<lparr>pw_window := w, pw_accepted_count := count, pw_pending_frames := frames,
                 pw_coalesced := coalesced, pw_pending := Some (count, snapshot w, queued_at)\<rparr>,
               was_empty \<or> frames \<ge> pw_batch_frames p)))"

text \<open>One pass through the writer's inner loop at time \<open>now\<close>.\<close>

datatype poll = Return | Take int json rat | WaitNotify | WaitTimeout rat

definition writer_ready :: "rat \<Rightarrow> pwindow \<Rightarrow> bool" where
  "writer_ready now p \<longleftrightarrow>
     pw_pending p \<noteq> None \<and> now \<ge> pw_retry_at p \<and>
     (pw_stopping p \<or> pw_pending_frames p \<ge> pw_batch_frames p \<or>
      now - pw_last_attempt_at p \<ge> pw_interval_seconds p)"

definition writer_poll :: "rat \<Rightarrow> pwindow \<Rightarrow> poll" where
  "writer_poll now p =
     (case pw_pending p of
        None \<Rightarrow> if pw_stopping p then Return else WaitNotify
      | Some (generation, state, queued_at) \<Rightarrow>
          if writer_ready now p then Take generation state queued_at
          else
            (let due_at = (if pw_stopping p \<or> pw_pending_frames p \<ge> pw_batch_frames p then now
                           else pw_last_attempt_at p + pw_interval_seconds p);
                 wait_until = max (pw_retry_at p) due_at
             in WaitTimeout (max (1 / 1000) (wait_until - now))))"

text \<open>What the loop does with each outcome; \<open>started\<close> is read after the lock is released.\<close>

definition writer_take :: "rat \<Rightarrow> rat \<Rightarrow> pwindow \<Rightarrow> pwindow" where
  "writer_take now started p =
     (case writer_poll now p of
        Take generation state queued_at \<Rightarrow>
          p\<lparr>pw_pending := None, pw_pending_frames := 0, pw_inflight_since := Some queued_at,
            pw_last_attempt_at := now, pw_writer := Writing generation state queued_at started\<rparr>
      | Return \<Rightarrow> p\<lparr>pw_writer := Exited\<rparr>
      | _ \<Rightarrow> p)"

definition writer_done :: "rat \<Rightarrow> bool \<Rightarrow> string \<Rightarrow> pwindow \<Rightarrow> pwindow" where
  "writer_done now success msg p =
     (case pw_writer p of
        Writing generation state queued_at started \<Rightarrow>
          if success then
            p\<lparr>pw_inflight_since := None, pw_persisted_count := generation,
              pw_checkpoints := pw_checkpoints p + 1, pw_last_error := None,
              pw_last_write_latency_ms := Some (round3 ((now - started) * 1000)),
              pw_writer := Waiting\<rparr>
          else
            p\<lparr>pw_inflight_since := None, pw_errors := pw_errors p + 1,
              pw_last_error := Some msg,
              pw_pending :=
                (case pw_pending p of
                   None \<Rightarrow> Some (generation, state, queued_at)
                 | Some (newer_generation, newer_state, newer_at) \<Rightarrow>
                     Some (newer_generation, newer_state, min queued_at newer_at)),
              pw_retry_at := now + pw_interval_seconds p, pw_writer := Waiting\<rparr>
      | _ \<Rightarrow> p)"

record pstats =
  st_queue_depth :: int
  st_inflight :: int
  st_lag_frames :: int
  st_lag_ms :: rat
  st_write_latency_ms :: "rat option"
  st_persistence_errors :: int
  st_checkpoints :: int
  st_snapshots_coalesced :: int
  st_last_error :: "string option"

definition stats :: "rat \<Rightarrow> pwindow \<Rightarrow> pstats" where
  "stats now p =
     (let outstanding =
        (case pw_pending p of None \<Rightarrow> [] | Some (_, _, t) \<Rightarrow> [t]) @
        (case pw_inflight_since p of None \<Rightarrow> [] | Some t \<Rightarrow> [t])
      in \<lparr>st_queue_depth = of_bool (pw_pending p \<noteq> None),
          st_inflight = of_bool (pw_inflight_since p \<noteq> None),
          st_lag_frames = pw_accepted_count p - pw_persisted_count p,
          st_lag_ms = (if outstanding = [] then 0
                       else round3 ((now - Min (set outstanding)) * 1000)),
          st_write_latency_ms = pw_last_write_latency_ms p,
          st_persistence_errors = pw_errors p, st_checkpoints = pw_checkpoints p,
          st_snapshots_coalesced = pw_coalesced p, st_last_error = pw_last_error p\<rparr>)"

text \<open>\<open>close\<close>: the stop request, and the value returned after the bounded join.\<close>

definition close_request :: "pwindow \<Rightarrow> pwindow" where
  "close_request p = p\<lparr>pw_stopping := True\<rparr>"

definition close_result :: "rat \<Rightarrow> pwindow \<Rightarrow> bool" where
  "close_result now p \<longleftrightarrow> pw_writer p = Exited \<and> st_lag_frames (stats now p) = 0"

section \<open>The persistent window is a replay filter\<close>

lemma accept_false_same:
  assumes "window_ok w" "\<not> fst (accept w q s)"
  shows "snd (accept w q s) = w"
proof (cases "w_session_id w")
  case None
  with assms show ?thesis
    by (simp add: accept_def accept_locked_def select_session_def window_ok_def split: if_splits)
next
  case (Some cur)
  show ?thesis
  proof (cases "s = cur")
    case True
    with Some assms show ?thesis
      by (simp add: accept_def accept_locked_def select_session_def Let_def split: if_splits)
  next
    case False
    with Some assms show ?thesis
      by (simp add: accept_def accept_locked_def select_session_def split: if_splits)
  qed
qed

definition persistent_decide :: "rat \<Rightarrow> pwindow \<Rightarrow> int \<Rightarrow> int \<Rightarrow> bool \<times> pwindow" where
  "persistent_decide now p q s =
     (case persistent_accept now p q s of (r, p', _) \<Rightarrow> (r = Inr True, p'))"

definition persistent_blocked :: "pwindow \<Rightarrow> int \<times> int \<Rightarrow> bool" where
  "persistent_blocked p x \<longleftrightarrow> pw_stopping p \<or> win_blocked (pw_window p) x"

definition persistent_ok :: "pwindow \<Rightarrow> bool" where
  "persistent_ok p \<longleftrightarrow> window_ok (pw_window p)"

lemma persistent_decide_fst:
  "fst (persistent_decide now p q s) \<longleftrightarrow> \<not> pw_stopping p \<and> fst (accept (pw_window p) q s)"
  by (simp add: persistent_decide_def persistent_accept_def accept_def Let_def split: prod.splits
      bool.splits)

lemma persistent_decide_window:
  "pw_window (snd (persistent_decide now p q s)) =
     (if pw_stopping p then pw_window p else snd (accept (pw_window p) q s))"
  by (simp add: persistent_decide_def persistent_accept_def accept_def Let_def split: prod.splits
      bool.splits)

lemma persistent_decide_stopping:
  "pw_stopping (snd (persistent_decide now p q s)) = pw_stopping p"
  by (simp add: persistent_decide_def persistent_accept_def Let_def split: prod.splits bool.splits)

interpretation prw: replay_filter "persistent_decide now" persistent_blocked persistent_ok for now
  by unfold_locales
    (auto simp: persistent_decide_fst persistent_decide_window persistent_decide_stopping
      persistent_blocked_def persistent_ok_def rw.accept_iff rw.accept_blocks rw.accept_mono
      rw.accept_ok)

section \<open>The system of object, writer and file\<close>

text \<open>
  The object, the file, and two histories that exist only for the proofs: the pairs accepted so
  far in this process, oldest first, and the window before the first and after each of them.
\<close>

record psys =
  sy_object :: pwindow
  sy_file :: checkpoint_file
  sy_accepted :: "(int \<times> int) list"
  sy_windows :: "window list"

definition psys_start :: "pwindow \<Rightarrow> checkpoint_file \<Rightarrow> psys" where
  "psys_start p f = \<lparr>sy_object = p, sy_file = f, sy_accepted = [], sy_windows = [pw_window p]\<rparr>"

inductive pstep :: "psys \<Rightarrow> psys \<Rightarrow> bool" where
  accepting: "persistent_accept now (sy_object y) q s = (Inr True, p, n) \<Longrightarrow>
    pstep y (y\<lparr>sy_object := p, sy_accepted := sy_accepted y @ [(s, q)],
               sy_windows := sy_windows y @ [pw_window p]\<rparr>)"
| rejecting: "persistent_accept now (sy_object y) q s = (r, p, n) \<Longrightarrow> r \<noteq> Inr True \<Longrightarrow>
    pstep y (y\<lparr>sy_object := p\<rparr>)"
| polling: "pw_writer (sy_object y) = Waiting \<Longrightarrow>
    pstep y (y\<lparr>sy_object := writer_take now started (sy_object y)\<rparr>)"
| writing: "pw_writer (sy_object y) = Writing g st t started \<Longrightarrow>
    write_snapshot (pw_fingerprint (sy_object y)) st failing (sy_file y) = (success, f) \<Longrightarrow>
    pstep y (y\<lparr>sy_object := writer_done now success msg (sy_object y), sy_file := f\<rparr>)"
| closing: "pstep y (y\<lparr>sy_object := close_request (sy_object y)\<rparr>)"

text \<open>
  A file a process may start from: none, or the checkpoint of a window of the same tunnel and size
  that satisfies the invariant.
\<close>

definition file_shows :: "string \<Rightarrow> checkpoint_file \<Rightarrow> window \<Rightarrow> bool" where
  "file_shows fp f w \<longleftrightarrow>
     f = Content (envelope fp (snapshot w)) \<or>
     f = Missing \<and> ReplayWindow_init (int (w_size w)) = Inr w"

inductive preach :: "psys \<Rightarrow> bool" where
  start: "PersistentReplayWindow_init f fp sz i b now = Inr p \<Longrightarrow>
    window_ok w \<Longrightarrow> file_shows fp f w \<Longrightarrow> preach (psys_start p f)"
| step: "preach y \<Longrightarrow> pstep y y' \<Longrightarrow> preach y'"

inductive_cases pstepE: "pstep y y'"

lemma load_state_envelope:
  "window_ok w \<Longrightarrow> w_size w0 = w_size w \<Longrightarrow>
   load_state fp w0 (Content (envelope fp (snapshot w))) = Inr w"
  by (simp add: load_state_def envelope_def restore_snapshot)

lemma restore_snapshot_size:
  "window_ok w \<Longrightarrow> restore w0 (snapshot w) = Inr w' \<Longrightarrow> w_size w0 = w_size w"
  by (simp add: restore_def parse_state_def snapshot_def window_ok_def int_of_text_format_hex
      result_simps split: if_splits)

lemma ReplayWindow_init_size:
  "ReplayWindow_init sz = Inr w \<Longrightarrow> int (w_size w) = sz"
  by (auto simp: ReplayWindow_init_def split: if_splits)

text \<open>Starting from a checkpoint gives the window of the checkpoint.\<close>

lemma init_from_file:
  assumes "PersistentReplayWindow_init f fp sz i b now = Inr p" "window_ok w" "file_shows fp f w"
    and "f \<noteq> Missing \<or> int (w_size w) = sz"
  shows "pw_window p = w" "pw_fingerprint p = fp" "pw_writer p = Waiting" "pw_pending p = None"
    "pw_inflight_since p = None" "pw_accepted_count p = 0" "pw_persisted_count p = 0"
    "pw_stopping p = False" "0 < pw_interval_seconds p"
proof -
  obtain i' where i: "i = Fin i'"
    using assms(1) by (cases i) (auto simp: PersistentReplayWindow_init_def result_simps)
  from assms(1) obtain w0 w' where w0: "ReplayWindow_init sz = Inr w0"
    and w': "(if f = Missing then Inr w0 else load_state fp w0 f) = Inr w'"
    and p: "p = \<lparr>pw_window = w', pw_fingerprint = fp, pw_interval_seconds = i',
                pw_batch_frames = b, pw_pending = None, pw_inflight_since = None,
                pw_accepted_count = 0, pw_persisted_count = 0, pw_pending_frames = 0,
                pw_coalesced = 0, pw_checkpoints = 0, pw_errors = 0, pw_last_error = None,
                pw_last_write_latency_ms = None, pw_stopping = False,
                pw_last_attempt_at = now, pw_retry_at = 0, pw_writer = Waiting\<rparr>" "0 < i'"
    unfolding PersistentReplayWindow_init_def i pyfloat.case result_simps by auto
  have "w' = w"
  proof (cases "f = Missing")
    case True
    then show ?thesis using assms(3,4) w0 w' by (auto simp: file_shows_def)
  next
    case False
    then have f: "f = Content (envelope fp (snapshot w))" using assms(3) by (simp add: file_shows_def)
    then have "restore w0 (snapshot w) = Inr w'"
      using w' by (simp add: load_state_def envelope_def)
    with restore_snapshot_size [OF assms(2) this] show ?thesis
      using restore_snapshot [OF assms(2), of w0] by simp
  qed
  with p show "pw_window p = w" "pw_fingerprint p = fp" "pw_writer p = Waiting"
    "pw_pending p = None" "pw_inflight_since p = None" "pw_accepted_count p = 0"
    "pw_persisted_count p = 0" "pw_stopping p = False" "0 < pw_interval_seconds p"
    by simp_all
qed


section \<open>The invariant of the system\<close>

definition pending_current :: "pwindow \<Rightarrow> bool" where
  "pending_current p \<longleftrightarrow>
     (\<forall>g st t. pw_pending p = Some (g, st, t) \<longrightarrow>
        g = pw_accepted_count p \<and> st = snapshot (pw_window p))"

definition writer_consistent :: "pwindow \<Rightarrow> window list \<Rightarrow> bool" where
  "writer_consistent p ws \<longleftrightarrow>
     (case pw_writer p of
        Waiting \<Rightarrow> pw_inflight_since p = None \<and>
          (pw_pending p = None \<longrightarrow> pw_persisted_count p = pw_accepted_count p)
      | Exited \<Rightarrow> pw_inflight_since p = None \<and> pw_stopping p \<and> pw_pending p = None \<and>
          pw_persisted_count p = pw_accepted_count p
      | Writing g st t started \<Rightarrow>
          pw_inflight_since p = Some t \<and> pw_persisted_count p \<le> g \<and> 0 \<le> g \<and>
          g \<le> pw_accepted_count p \<and> st = snapshot (ws ! nat g) \<and>
          (pw_pending p = None \<longrightarrow> g = pw_accepted_count p))"

text \<open>The file shows a window at least as new as the last checkpoint counted as durable.\<close>

definition file_current :: "string \<Rightarrow> checkpoint_file \<Rightarrow> int \<Rightarrow> window list \<Rightarrow> bool" where
  "file_current fp f persisted ws \<longleftrightarrow>
     (\<exists>d < length ws. persisted \<le> int d \<and> file_shows fp f (ws ! d))"

definition histories_ok :: "pwindow \<Rightarrow> (int \<times> int) list \<Rightarrow> window list \<Rightarrow> bool" where
  "histories_ok p xs ws \<longleftrightarrow>
     length ws = Suc (length xs) \<and> pw_accepted_count p = int (length xs) \<and>
     last ws = pw_window p \<and> (\<forall>w \<in> set ws. window_ok w \<and> w_size w = w_size (pw_window p)) \<and>
     (\<forall>d < length ws. \<forall>x \<in> set (take d xs). win_blocked (ws ! d) x)"

definition psys_inv :: "psys \<Rightarrow> bool" where
  "psys_inv y \<longleftrightarrow>
     histories_ok (sy_object y) (sy_accepted y) (sy_windows y) \<and>
     pending_current (sy_object y) \<and> writer_consistent (sy_object y) (sy_windows y) \<and>
     0 \<le> pw_persisted_count (sy_object y) \<and>
     pw_persisted_count (sy_object y) \<le> pw_accepted_count (sy_object y) \<and>
     file_current (pw_fingerprint (sy_object y)) (sy_file y) (pw_persisted_count (sy_object y))
       (sy_windows y)"

lemma psys_inv_start:
  assumes "PersistentReplayWindow_init f fp sz i b now = Inr p" "window_ok w" "file_shows fp f w"
    "f \<noteq> Missing \<or> int (w_size w) = sz"
  shows "psys_inv (psys_start p f)"
  using init_from_file [OF assms] assms(2,3)
  by (auto simp: psys_inv_def psys_start_def histories_ok_def pending_current_def
      writer_consistent_def file_current_def)

lemma persistent_accept_True:
  assumes "persistent_accept now p q s = (Inr True, p', n)"
  shows "fst (accept (pw_window p) q s)" "pw_window p' = snd (accept (pw_window p) q s)"
    "pw_accepted_count p' = pw_accepted_count p + 1" "pw_persisted_count p' = pw_persisted_count p"
    "pw_writer p' = pw_writer p" "pw_inflight_since p' = pw_inflight_since p"
    "\<not> pw_stopping p" "\<not> pw_stopping p'" "pw_fingerprint p' = pw_fingerprint p"
    "\<exists>t. pw_pending p' = Some (pw_accepted_count p + 1, snapshot (pw_window p'), t)"
proof -
  have ns: "\<not> pw_stopping p" using assms by (auto simp: persistent_accept_def)
  obtain b w where bw: "accept_locked (pw_window p) q s = (b, w)"
    by (cases "accept_locked (pw_window p) q s")
  have b: "b" using assms ns bw by (cases b) (simp_all add: persistent_accept_def)
  have p': "p' = p\<lparr>pw_window := w, pw_accepted_count := pw_accepted_count p + 1,
       pw_pending_frames := pw_pending_frames p + 1,
       pw_coalesced := (if pw_pending p = None then pw_coalesced p else pw_coalesced p + 1),
       pw_pending := Some (pw_accepted_count p + 1, snapshot w,
         case pw_pending p of None \<Rightarrow> now | Some (_, _, t) \<Rightarrow> t)\<rparr>"
    using assms ns b by (simp add: persistent_accept_def Let_def bw)
  show "fst (accept (pw_window p) q s)" "pw_window p' = snd (accept (pw_window p) q s)"
    "pw_accepted_count p' = pw_accepted_count p + 1" "pw_persisted_count p' = pw_persisted_count p"
    "pw_writer p' = pw_writer p" "pw_inflight_since p' = pw_inflight_since p"
    "\<not> pw_stopping p" "\<not> pw_stopping p'" "pw_fingerprint p' = pw_fingerprint p"
    "\<exists>t. pw_pending p' = Some (pw_accepted_count p + 1, snapshot (pw_window p'), t)"
    using ns b bw p' by (simp_all add: accept_def)
qed

lemma persistent_accept_other:
  assumes "persistent_accept now p q s = (r, p', n)" "r \<noteq> Inr True" "window_ok (pw_window p)"
  shows "p' = p"
proof (cases "pw_stopping p")
  case False
  obtain b w where bw: "accept_locked (pw_window p) q s = (b, w)" by (cases "accept_locked (pw_window p) q s")
  with False assms(1,2) have "\<not> b" "p' = p\<lparr>pw_window := w\<rparr>"
    by (auto simp: persistent_accept_def Let_def split: bool.splits)
  moreover have "w = pw_window p"
    using accept_false_same [OF assms(3), of q s] bw \<open>\<not> b\<close> by (simp add: accept_def)
  ultimately show ?thesis by simp
qed (use assms in \<open>simp add: persistent_accept_def\<close>)

lemma histories_last:
  assumes "histories_ok p xs ws"
  shows "ws ! length xs = pw_window p" "window_ok (pw_window p)"
proof -
  have len: "length ws = Suc (length xs)" and last: "last ws = pw_window p"
    using assms unfolding histories_ok_def by blast+
  from len have ne: "ws \<noteq> []" by (cases ws) simp_all
  have "last ws = ws ! length xs" using last_conv_nth [OF ne] len by simp
  then show "ws ! length xs = pw_window p" using last by (rule subst)
  have "\<forall>w \<in> set ws. window_ok w" using assms by (simp add: histories_ok_def)
  then have "window_ok (last ws)" using last_in_set [OF ne] by blast
  then show "window_ok (pw_window p)" unfolding last .
qed

lemma histories_accept:
  assumes h: "histories_ok p xs ws" and acc: "persistent_accept now p q s = (Inr True, p', n)"
  shows "histories_ok p' (xs @ [(s, q)]) (ws @ [pw_window p'])"
proof -
  note A = persistent_accept_True [OF acc]
  have ok: "window_ok (pw_window p)" by (rule histories_last [OF h])
  have ok': "window_ok (pw_window p')" using rw.accept_ok [OF ok] A(2) by simp
  have sz: "w_size (pw_window p') = w_size (pw_window p)" using A(2) by simp
  have len: "length ws = Suc (length xs)" using h by (simp add: histories_ok_def)
  have blk: "win_blocked (pw_window p') x" if "x \<in> set (xs @ [(s, q)])" for x
  proof (cases "x = (s, q)")
    case True
    then show ?thesis using rw.accept_blocks [OF ok] A(2) by simp
  next
    case False
    have "ws ! length xs = pw_window p"
      using histories_last [OF h] by simp
    moreover have "win_blocked (ws ! length xs) x"
      using h that False len by (simp add: histories_ok_def)
    ultimately show ?thesis using rw.accept_mono [OF ok] A(2) by simp
  qed
  have "win_blocked ((ws @ [pw_window p']) ! d) x"
    if "d < length (ws @ [pw_window p'])" "x \<in> set (take d (xs @ [(s, q)]))" for d x
  proof (cases "d < length ws")
    case True
    with that len h show ?thesis by (simp add: histories_ok_def nth_append)
  next
    case False
    with that len have "d = length ws" by simp
    with that(2) blk [of x] show ?thesis by (auto simp: nth_append dest: in_set_takeD)
  qed
  then show ?thesis
    using h A(3) ok' sz by (auto simp: histories_ok_def)
qed


lemma inv_accepting:
  assumes inv: "psys_inv y" and acc: "persistent_accept now (sy_object y) q s = (Inr True, p, n)"
  shows "psys_inv (y\<lparr>sy_object := p, sy_accepted := sy_accepted y @ [(s, q)],
               sy_windows := sy_windows y @ [pw_window p]\<rparr>)"
proof -
  note A = persistent_accept_True [OF acc]
  have len: "length (sy_windows y) = Suc (length (sy_accepted y))"
    "pw_accepted_count (sy_object y) = int (length (sy_accepted y))"
    using inv by (auto simp: psys_inv_def histories_ok_def)
  have "writer_consistent p (sy_windows y @ [pw_window p])"
    using inv A len
    by (auto simp: psys_inv_def writer_consistent_def nth_append split: writer.splits)
  moreover have "file_current (pw_fingerprint p) (sy_file y) (pw_persisted_count p)
      (sy_windows y @ [pw_window p])"
    using inv A(4,9) by (auto simp: psys_inv_def file_current_def nth_append intro!: less_SucI)
  moreover have "pending_current p"
    using A(3,10) by (auto simp: pending_current_def)
  ultimately show ?thesis
    using inv A(3,4) histories_accept [OF _ acc] by (auto simp: psys_inv_def)
qed

lemma writer_poll_Take:
  "writer_poll now p = Take g st t \<Longrightarrow> pw_pending p = Some (g, st, t) \<and> writer_ready now p"
  by (auto simp: writer_poll_def Let_def split: option.splits if_splits)

lemma writer_poll_Return: "writer_poll now p = Return \<longleftrightarrow> pw_stopping p \<and> pw_pending p = None"
  by (auto simp: writer_poll_def Let_def split: option.splits)

lemma inv_polling:
  assumes inv: "psys_inv y" and w: "pw_writer (sy_object y) = Waiting"
  shows "psys_inv (y\<lparr>sy_object := writer_take now started (sy_object y)\<rparr>)"
proof -
  let ?p = "sy_object y"
  have H: "histories_ok ?p (sy_accepted y) (sy_windows y)" using inv by (simp add: psys_inv_def)
  show ?thesis
  proof (cases "writer_poll now ?p")
    case (Take g st t)
    have pend: "pw_pending ?p = Some (g, st, t)" using writer_poll_Take [OF Take] by simp
    then have g: "g = pw_accepted_count ?p" "st = snapshot (pw_window ?p)"
      using inv by (auto simp: psys_inv_def pending_current_def)
    have "sy_windows y ! nat g = pw_window ?p"
      using H g(1) histories_last [OF H] by (simp add: histories_ok_def)
    then show ?thesis
      using inv w Take g
      by (auto simp: psys_inv_def writer_take_def histories_ok_def pending_current_def
          writer_consistent_def)
  next
    case Return
    then have "pw_stopping ?p" "pw_pending ?p = None" by (simp_all add: writer_poll_Return)
    then show ?thesis
      using inv w Return
      by (auto simp: psys_inv_def writer_take_def histories_ok_def pending_current_def
          writer_consistent_def)
  qed (use inv in \<open>simp_all add: writer_take_def\<close>)
qed

lemma inv_writing:
  assumes inv: "psys_inv y" and w: "pw_writer (sy_object y) = Writing g st t started"
    and wr: "write_snapshot (pw_fingerprint (sy_object y)) st failing (sy_file y) = (success, f)"
  shows "psys_inv (y\<lparr>sy_object := writer_done now success msg (sy_object y), sy_file := f\<rparr>)"
proof -
  let ?p = "sy_object y" and ?ws = "sy_windows y"
  have wc: "pw_persisted_count ?p \<le> g" "0 \<le> g" "g \<le> pw_accepted_count ?p"
    "st = snapshot (?ws ! nat g)" "pw_pending ?p = None \<Longrightarrow> g = pw_accepted_count ?p"
    using inv w by (auto simp: psys_inv_def writer_consistent_def)
  have H: "histories_ok ?p (sy_accepted y) ?ws" using inv by (simp add: psys_inv_def)
  then have g: "nat g < length ?ws" using wc(2,3) by (auto simp: histories_ok_def)
  have last: "?ws ! nat g = pw_window ?p" if "g = pw_accepted_count ?p"
    using H that histories_last [OF H] by (simp add: histories_ok_def)
  have new: "file_current (pw_fingerprint ?p) (Content (envelope (pw_fingerprint ?p) st)) m ?ws"
    if "m \<le> g" for m
    using that g wc(2,4) by (auto simp: file_current_def file_shows_def intro!: exI [of _ "nat g"])
  have old: "file_current (pw_fingerprint ?p) (sy_file y) (pw_persisted_count ?p) ?ws"
    using inv by (simp add: psys_inv_def)
  show ?thesis
  proof (cases success)
    case True
    then have "f = Content (envelope (pw_fingerprint ?p) st)"
      using wr by (auto simp: write_snapshot_def)
    then show ?thesis
      using inv w True wc new [of g] H
      by (auto simp: psys_inv_def writer_done_def histories_ok_def pending_current_def
          writer_consistent_def)
  next
    case False
    have "file_current (pw_fingerprint ?p) f (pw_persisted_count ?p) ?ws"
      using wr old new [OF wc(1)] by (auto simp: write_snapshot_def split: if_splits)
    then show ?thesis
      using inv w False wc last H
      by (auto simp: psys_inv_def writer_done_def histories_ok_def pending_current_def
          writer_consistent_def split: option.splits)
  qed
qed

lemma inv_step: "pstep y y' \<Longrightarrow> psys_inv y \<Longrightarrow> psys_inv y'"
proof (induction rule: pstep.induct)
  case (accepting now y q s p n)
  then show ?case by (intro inv_accepting)
next
  case (rejecting now y q s r p n)
  have "window_ok (pw_window (sy_object y))"
    using rejecting.prems histories_last by (auto simp: psys_inv_def)
  then have "p = sy_object y" using persistent_accept_other rejecting.hyps by blast
  with rejecting.prems show ?case by simp
next
  case (polling y now started)
  then show ?case by (intro inv_polling)
next
  case (writing y g st t started failing success f now msg)
  then show ?case by (intro inv_writing)
next
  case (closing y)
  then show ?case
    by (auto simp: psys_inv_def close_request_def histories_ok_def pending_current_def
        writer_consistent_def split: writer.splits)
qed

lemma reach_inv: "preach y \<Longrightarrow> psys_inv y"
proof (induction rule: preach.induct)
  case (step y y')
  then show ?case using inv_step by blast
next
  case (start f fp sz i b now p w)
  show ?case
  proof (cases "f = Missing")
    case True
    with start.hyps(1) have p: "ReplayWindow_init sz = Inr (pw_window p)" "pw_fingerprint p = fp"
      by (cases i; auto simp: PersistentReplayWindow_init_def result_simps)+
    have "int (w_size (pw_window p)) = sz"
      using p(1) by (simp add: ReplayWindow_init_size)
    moreover have "file_shows fp f (pw_window p)"
      using True p(1) calculation by (simp add: file_shows_def)
    ultimately show ?thesis
      using psys_inv_start [OF start.hyps(1) init_ok [OF p(1)]] by simp
  qed (use psys_inv_start start.hyps in blast)
qed


lemma reach_distinct: "preach y \<Longrightarrow> distinct (sy_accepted y)"
proof (induction rule: preach.induct)
  case (step y y')
  from step.hyps(2) step.IH reach_inv [OF step.hyps(1)] show ?case
  proof (induction rule: pstep.induct)
    case (accepting now y q s p n)
    have H: "histories_ok (sy_object y) (sy_accepted y) (sy_windows y)"
      using accepting.prems by (simp add: psys_inv_def)
    have "\<not> win_blocked (pw_window (sy_object y)) (s, q)"
      using persistent_accept_True(1) [OF accepting.hyps] rw.accept_iff [OF histories_last(2) [OF H]]
      by simp
    moreover have "\<forall>x \<in> set (sy_accepted y). win_blocked (pw_window (sy_object y)) x"
      using H histories_last(1) [OF H] unfolding histories_ok_def
      by (metis lessI order_refl take_all)
    ultimately show ?case using accepting.prems by auto
  qed simp_all
qed (simp add: psys_start_def)

lemma restart_window:
  assumes "preach y"
    and "PersistentReplayWindow_init (sy_file y) (pw_fingerprint (sy_object y))
           (int (w_size (pw_window (sy_object y)))) i b now = Inr p"
  obtains d where "d < length (sy_windows y)" "pw_persisted_count (sy_object y) \<le> int d"
    "pw_window p = sy_windows y ! d" "\<not> pw_stopping p" "window_ok (pw_window p)"
proof -
  have inv: "psys_inv y" using assms(1) by (rule reach_inv)
  then obtain d where d: "d < length (sy_windows y)" "pw_persisted_count (sy_object y) \<le> int d"
    "file_shows (pw_fingerprint (sy_object y)) (sy_file y) (sy_windows y ! d)"
    by (auto simp: psys_inv_def file_current_def)
  have ok: "window_ok (sy_windows y ! d)"
    and sz: "int (w_size (sy_windows y ! d)) = int (w_size (pw_window (sy_object y)))"
    using inv d(1) by (auto simp: psys_inv_def histories_ok_def)
  note I = init_from_file [OF assms(2) ok d(3)]
  show ?thesis using that d(1,2) I(1,8) sz ok by simp
qed

section \<open>Properties\<close>

text \<open>
  C8. Under every interleaving of receiving threads, writer, failing writes and shutdown, the
  persistent window accepts no session and sequence twice.
\<close>

theorem persistent_never_accepts_twice:
  assumes "preach y"
  shows "distinct (sy_accepted y)"
  by (rule reach_distinct [OF assms])

definition demo_object :: pwindow where
  "demo_object = (case PersistentReplayWindow_init Missing ''ab'' 64 (Fin (1/20)) 128 0 of
     Inr p \<Rightarrow> p)"

lemma demo_object_init:
  "PersistentReplayWindow_init Missing ''ab'' 64 (Fin (1/20)) 128 0 = Inr demo_object"
  by (simp add: demo_object_def PersistentReplayWindow_init_def demo_window_init)

definition demo_y0 :: psys where
  "demo_y0 = psys_start demo_object Missing"

definition demo_y1 :: psys where
  "demo_y1 = (let p = fst (snd (persistent_accept 1 (sy_object demo_y0) 10 7)) in
     demo_y0\<lparr>sy_object := p, sy_accepted := sy_accepted demo_y0 @ [(7, 10)],
              sy_windows := sy_windows demo_y0 @ [pw_window p]\<rparr>)"

definition demo_y2 :: psys where
  "demo_y2 = demo_y1\<lparr>sy_object := writer_take 2 2 (sy_object demo_y1)\<rparr>"

definition demo_y3 :: psys where
  "demo_y3 = demo_y2\<lparr>sy_object := writer_done 3 True [] (sy_object demo_y2),
     sy_file := Content (envelope ''ab'' (snapshot (pw_window (sy_object demo_y2))))\<rparr>"

definition demo_y4 :: psys where
  "demo_y4 = demo_y3\<lparr>sy_object := close_request (sy_object demo_y3)\<rparr>"

definition demo_y5 :: psys where
  "demo_y5 = demo_y4\<lparr>sy_object := writer_take 4 4 (sy_object demo_y4)\<rparr>"

lemma demo_y1_reach: "preach demo_y1"
proof -
  have r0: "preach demo_y0"
    unfolding demo_y0_def
    using preach.start [OF demo_object_init, of demo_window] demo_window_init init_ok
    by (simp add: file_shows_def demo_window_def)
  have "persistent_accept 1 (sy_object demo_y0) 10 7 =
      (Inr True, fst (snd (persistent_accept 1 (sy_object demo_y0) 10 7)), True)"
    by code_simp
  then show ?thesis unfolding demo_y1_def Let_def by (rule preach.step [OF r0 pstep.accepting])
qed

lemma demo_y3_reach: "preach demo_y3"
proof -
  have "pw_writer (sy_object demo_y1) = Waiting" by code_simp
  then have r2: "preach demo_y2"
    unfolding demo_y2_def by (rule preach.step [OF demo_y1_reach pstep.polling])
  have "pw_writer (sy_object demo_y2) =
      Writing 1 (snapshot (pw_window (sy_object demo_y2))) 1 2"
    "write_snapshot (pw_fingerprint (sy_object demo_y2))
       (snapshot (pw_window (sy_object demo_y2))) None (sy_file demo_y2) =
      (True, Content (envelope ''ab'' (snapshot (pw_window (sy_object demo_y2)))))"
    by code_simp+
  then show ?thesis unfolding demo_y3_def by (rule preach.step [OF r2 pstep.writing])
qed

lemma demo_y5_reach: "preach demo_y5"
proof -
  have r4: "preach demo_y4"
    unfolding demo_y4_def by (rule preach.step [OF demo_y3_reach pstep.closing])
  have "pw_writer (sy_object demo_y4) = Waiting" by code_simp
  then show ?thesis unfolding demo_y5_def by (rule preach.step [OF r4 pstep.polling])
qed

theorem persistent_never_accepts_twice_witness: "distinct (sy_accepted demo_y5)"
  by (rule persistent_never_accepts_twice [OF demo_y5_reach])

text \<open>
  C9. Crash recovery: a process started from whatever file a crash leaves behind never accepts a
  frame that was accepted before the last checkpoint counted as durable.
\<close>

theorem crash_keeps_durable_prefix:
  assumes "preach y"
    and "PersistentReplayWindow_init (sy_file y) (pw_fingerprint (sy_object y))
           (int (w_size (pw_window (sy_object y)))) i b now = Inr p"
  shows "set (accepted (persistent_decide t) p qs) \<inter>
    set (take (nat (pw_persisted_count (sy_object y))) (sy_accepted y)) = {}"
proof -
  obtain d where d: "d < length (sy_windows y)" "pw_persisted_count (sy_object y) \<le> int d"
    "pw_window p = sy_windows y ! d" "\<not> pw_stopping p" "window_ok (pw_window p)"
    by (rule restart_window [OF assms])
  have "win_blocked (pw_window p) x"
    if "x \<in> set (take (nat (pw_persisted_count (sy_object y))) (sy_accepted y))" for x
  proof -
    have "x \<in> set (take d (sy_accepted y))"
      using that subsetD [OF set_take_subset_set_take
          [of "nat (pw_persisted_count (sy_object y))" d "sy_accepted y"]] d(2)
      by (simp add: nat_le_iff)
    then show ?thesis
      using reach_inv [OF assms(1)] d(1,3) by (simp add: psys_inv_def histories_ok_def)
  qed
  then show ?thesis
    using prw.accepted_not_blocked [of p _ t qs] d(5)
    by (auto simp: persistent_ok_def persistent_blocked_def)
qed

definition demo_restarted :: pwindow where
  "demo_restarted = (case PersistentReplayWindow_init (sy_file demo_y5) ''ab'' 64
     (Fin (1/20)) 128 9 of Inr p \<Rightarrow> p)"

lemma demo_restarted_init:
  "PersistentReplayWindow_init (sy_file demo_y5) (pw_fingerprint (sy_object demo_y5))
     (int (w_size (pw_window (sy_object demo_y5)))) (Fin (1/20)) 128 9 = Inr demo_restarted"
  by code_simp

theorem crash_keeps_durable_prefix_witness:
  "set (accepted (persistent_decide 10) demo_restarted [(7, 10), (7, 11)]) \<inter> {(7, 10)} = {}"
proof -
  have "set (take (nat (pw_persisted_count (sy_object demo_y5))) (sy_accepted demo_y5))
      = {(7, 10)}"
    by code_simp
  then show ?thesis
    using crash_keeps_durable_prefix [OF demo_y5_reach demo_restarted_init] by metis
qed

text \<open>
  C10. Clean shutdown: when \<open>close\<close> returns true, a process started from the file continues with
  exactly the window that was closed, so nothing accepted before is accepted again.
\<close>

theorem clean_close_loses_nothing:
  assumes "preach y" "close_result t (sy_object y)"
    and "PersistentReplayWindow_init (sy_file y) (pw_fingerprint (sy_object y))
           (int (w_size (pw_window (sy_object y)))) i b now = Inr p"
  shows "pw_window p = pw_window (sy_object y)"
proof -
  obtain d where d: "d < length (sy_windows y)" "pw_persisted_count (sy_object y) \<le> int d"
    "pw_window p = sy_windows y ! d"
    by (rule restart_window [OF assms(1,3)])
  have H: "histories_ok (sy_object y) (sy_accepted y) (sy_windows y)"
    using reach_inv [OF assms(1)] by (simp add: psys_inv_def)
  have "pw_persisted_count (sy_object y) = int (length (sy_accepted y))"
    using assms(2) H by (simp add: close_result_def stats_def Let_def histories_ok_def)
  then have "d = length (sy_accepted y)" using d(1,2) H by (simp add: histories_ok_def)
  then show ?thesis using d(3) histories_last(1) [OF H] by simp
qed

theorem clean_close_loses_nothing_witness:
  "pw_window demo_restarted = pw_window (sy_object demo_y5)"
  by (rule clean_close_loses_nothing [OF demo_y5_reach _ demo_restarted_init, of 5]) code_simp

text \<open>
  No lost wakeups: while the writer sleeps without a timeout, the \<open>accept\<close> that queues a
  checkpoint notifies it; and a sleep with a timeout ends at a time when the writer takes the
  checkpoint, whatever else has not happened.
\<close>

theorem writer_never_oversleeps:
  "(writer_poll now p = WaitNotify \<longrightarrow> persistent_accept now' p q s = (Inr True, p', n) \<longrightarrow> n) \<and>
   (writer_poll now p = WaitTimeout d \<longrightarrow>
      (\<exists>g st t. pw_pending p = Some (g, st, t) \<and> writer_poll (now + d) p = Take g st t))"
proof (intro conjI impI)
  assume "writer_poll now p = WaitNotify" "persistent_accept now' p q s = (Inr True, p', n)"
  then show n
    by (auto simp: writer_poll_def persistent_accept_def Let_def split: option.splits if_splits
        prod.splits bool.splits)
next
  assume W: "writer_poll now p = WaitTimeout d"
  then obtain g st t where pend: "pw_pending p = Some (g, st, t)"
    by (cases "pw_pending p") (auto simp: writer_poll_def split: if_splits)
  let ?due = "if pw_stopping p \<or> pw_pending_frames p \<ge> pw_batch_frames p then now
    else pw_last_attempt_at p + pw_interval_seconds p"
  from W pend have "d = max (1 / 1000) (max (pw_retry_at p) ?due - now)"
    by (cases "writer_ready now p") (simp_all add: writer_poll_def Let_def)
  then have "pw_retry_at p \<le> now + d" "?due \<le> now + d" by linarith+
  then have "writer_ready (now + d) p"
    using pend by (auto simp: writer_ready_def split: if_splits)
  then show "\<exists>g st t. pw_pending p = Some (g, st, t) \<and> writer_poll (now + d) p = Take g st t"
    using pend by (simp add: writer_poll_def)
qed

theorem writer_never_oversleeps_witness:
  "\<exists>g st t. writer_poll (1 / 100 + 1 / 25) (sy_object demo_y1) = Take g st t"
proof -
  have "writer_poll (1 / 100) (sy_object demo_y1) = WaitTimeout (1 / 25)" by code_simp
  then show ?thesis using writer_never_oversleeps by blast
qed

text \<open>
  C11. Shutdown finishes: after the stop request a waiting writer that has nothing queued exits
  at once; one with a queued checkpoint, polled past its retry time, takes it, and when that
  write succeeds it exits. In both cases \<open>close\<close> then returns true.
\<close>

theorem stop_flushes_in_one_write:
  assumes "preach y" "pw_stopping (sy_object y)" "pw_writer (sy_object y) = Waiting"
    and "pw_retry_at (sy_object y) \<le> t1"
  shows "if pw_pending (sy_object y) = None
    then close_result t6 (writer_take t1 t2 (sy_object y))
    else close_result t6
      (writer_take t4 t5 (writer_done t3 True msg (writer_take t1 t2 (sy_object y))))"
proof (cases "pw_pending (sy_object y)")
  case None
  then have "pw_persisted_count (sy_object y) = pw_accepted_count (sy_object y)"
    using reach_inv [OF assms(1)] assms(3) by (simp add: psys_inv_def writer_consistent_def)
  then show ?thesis
    using None assms(2) by (simp add: writer_take_def writer_poll_def
        close_result_def stats_def Let_def)
next
  case (Some x)
  obtain g st q where x: "x = (g, st, q)" by (cases x)
  then have g: "g = pw_accepted_count (sy_object y)"
    using reach_inv [OF assms(1)] Some by (simp add: psys_inv_def pending_current_def)
  have "writer_poll t1 (sy_object y) = Take g st q"
    using Some x assms(2,4) by (simp add: writer_poll_def writer_ready_def)
  then show ?thesis
    using Some assms(2) g
    by (simp add: writer_take_def writer_done_def writer_poll_def
        close_result_def stats_def Let_def)
qed

theorem stop_flushes_in_one_write_witness:
  "\<exists>y. preach y \<and> pw_pending (sy_object y) \<noteq> None \<and>
     close_result 9 (writer_take 8 8 (writer_done 7 True [] (writer_take 6 6 (sy_object y))))"
proof -
  let ?y = "demo_y1\<lparr>sy_object := close_request (sy_object demo_y1)\<rparr>"
  have r: "preach ?y" by (rule preach.step [OF demo_y1_reach pstep.closing])
  have c: "pw_stopping (sy_object ?y)" "pw_writer (sy_object ?y) = Waiting"
    "pw_retry_at (sy_object ?y) \<le> 6" "pw_pending (sy_object ?y) \<noteq> None"
    by code_simp+
  show ?thesis
    using stop_flushes_in_one_write [OF r c(1-3), of 9 6 8 8 7 "[]"] c(4) r by auto
qed

end
