(* ===== verification/Fragmentation.thy ===== *)
theory Fragmentation
  imports Frame_Codec "HOL-Library.Multiset"
begin

text \<open>
  \<open>fragment_message\<close> of \<open>h3ntun/reliability.py\<close>: cutting a message into numbered data fragments
  and, with forward error correction, one parity fragment that is their exclusive or. Shown: the
  fragments carry the message, the limits, and that the parity and all pieces but one give the
  missing piece back.
\<close>


section \<open>Exclusive or of byte strings\<close>

text \<open>
  The loop \<open>for offset, value in enumerate(piece): acc[offset] ^= value\<close> over a bytearray, which
  raises \<open>IndexError\<close> past its end, and the loop over several pieces around it.
\<close>

fun xor_into :: "bytes \<Rightarrow> bytes \<Rightarrow> bytes result" where
  "xor_into acc [] = Inr acc"
| "xor_into [] (v # vs) = Inl IndexError"
| "xor_into (a # acc) (v # vs) = and_then (xor_into acc vs) (\<lambda>r. Inr ((a XOR v) # r))"

fun xor_pieces :: "bytes \<Rightarrow> bytes list \<Rightarrow> bytes result" where
  "xor_pieces acc [] = Inr acc"
| "xor_pieces acc (p # ps) = and_then (xor_into acc p) (\<lambda>r. xor_pieces r ps)"

text \<open>Byte \<open>i\<close> of a piece padded with zeros, and the sum of all pieces at one offset.\<close>

definition byte_at :: "bytes \<Rightarrow> nat \<Rightarrow> byte" where
  "byte_at p i = (if i < length p then p ! i else 0)"

definition xor_all :: "byte list \<Rightarrow> byte" where
  "xor_all xs = foldr (XOR) xs 0"

lemma xor_all_simps [simp]:
  "xor_all [] = 0" "xor_all (x # xs) = x XOR xor_all xs"
  "xor_all (xs @ ys) = xor_all xs XOR xor_all ys"
proof -
  show "xor_all [] = 0" "xor_all (x # xs) = x XOR xor_all xs" for x xs
    by (simp_all add: xor_all_def)
  then show "xor_all (xs @ ys) = xor_all xs XOR xor_all ys"
    by (induction xs) (simp_all add: xor.assoc)
qed

lemma xor_all_remove1: "x \<in> set xs \<Longrightarrow> xor_all xs = x XOR xor_all (remove1 x xs)"
  by (induction xs) (auto simp: xor.left_commute)

lemma xor_all_perm: "mset xs = mset ys \<Longrightarrow> xor_all xs = xor_all ys"
proof (induction xs arbitrary: ys)
  case Nil
  then show ?case by (cases ys) auto
next
  case (Cons x xs)
  then have "x \<in> set ys" by (metis list.set_intros(1) set_mset_mset)
  moreover have "mset xs = mset (remove1 x ys)" using Cons.prems by (metis mset_remove1 add_mset_remove_trivial mset.simps(2))
  ultimately show ?case using Cons.IH [of "remove1 x ys"] xor_all_remove1 [of x ys] by simp
qed

lemma byte_at_Cons [simp]: "byte_at (v # vs) (Suc i) = byte_at vs i" "byte_at (v # vs) 0 = v"
  by (simp_all add: byte_at_def)

lemma byte_at_Nil [simp]: "byte_at [] i = 0"
  by (simp add: byte_at_def)

lemma byte_at_nth: "i < length p \<Longrightarrow> byte_at p i = p ! i"
  by (simp add: byte_at_def)

lemma byte_at_take: "byte_at (take n p) i = (if i < n then byte_at p i else 0)"
  by (simp add: byte_at_def)

lemma byte_at_beyond: "length p \<le> i \<Longrightarrow> byte_at p i = 0"
  by (simp add: byte_at_def)

lemma xor_into_ok:
  assumes "length p \<le> length acc"
  obtains r where "xor_into acc p = Inr r" "length r = length acc"
    "\<And>i. byte_at r i = byte_at acc i XOR byte_at p i"
proof -
  have "\<exists>r. xor_into acc p = Inr r \<and> length r = length acc \<and>
      (\<forall>i. byte_at r i = byte_at acc i XOR byte_at p i)"
    using assms
  proof (induction acc p rule: xor_into.induct)
    case (3 a acc v vs)
    then obtain r where r: "xor_into acc vs = Inr r" "length r = length acc"
      "\<forall>i. byte_at r i = byte_at acc i XOR byte_at vs i" by auto
    have "byte_at ((a XOR v) # r) i = byte_at (a # acc) i XOR byte_at (v # vs) i" for i
      using r(3) by (cases i) simp_all
    then show ?case using r(1,2) by simp
  qed simp_all
  with that show thesis by blast
qed

lemma xor_into_fails: "length acc < length p \<Longrightarrow> xor_into acc p = Inl IndexError"
  by (induction acc p rule: xor_into.induct) simp_all

lemma xor_pieces_ok:
  assumes "\<And>p. p \<in> set ps \<Longrightarrow> length p \<le> length acc"
  obtains r where "xor_pieces acc ps = Inr r" "length r = length acc"
    "\<And>i. byte_at r i = byte_at acc i XOR xor_all (map (\<lambda>p. byte_at p i) ps)"
proof -
  have "\<exists>r. xor_pieces acc ps = Inr r \<and> length r = length acc \<and>
      (\<forall>i. byte_at r i = byte_at acc i XOR xor_all (map (\<lambda>p. byte_at p i) ps))"
    using assms
  proof (induction ps arbitrary: acc)
    case (Cons p ps)
    obtain r where r: "xor_into acc p = Inr r" "length r = length acc"
      "\<And>i. byte_at r i = byte_at acc i XOR byte_at p i"
      using xor_into_ok [of p acc] Cons.prems by auto
    then show ?case
      using Cons.IH [of r] Cons.prems by (auto simp: xor.assoc)
  qed simp
  with that show thesis by blast
qed

lemma bytes_eqI:
  "length a = length b \<Longrightarrow> (\<And>i. i < length a \<Longrightarrow> byte_at a i = byte_at b i) \<Longrightarrow> a = b"
  by (auto simp: byte_at_def intro: nth_equalityI)

section \<open>Fragments\<close>

record fragment_spec =
  fs_payload :: bytes
  fs_message_len :: int
  fs_fragment_index :: int
  fs_fragment_count :: int
  fs_flags :: int

text \<open>\<open>payload[index * size:(index + 1) * size]\<close>, and the number of such pieces. The code computes
  \<open>ceil(len / size)\<close> in floating point, which is exact for lengths up to 60000.\<close>

definition piece :: "nat \<Rightarrow> bytes \<Rightarrow> nat \<Rightarrow> bytes" where
  "piece sz payload i = take sz (drop (i * sz) payload)"

definition fragment_count :: "nat \<Rightarrow> bytes \<Rightarrow> nat" where
  "fragment_count sz payload = max 1 ((length payload + sz - 1) div sz)"

definition fragment_message :: "bytes \<Rightarrow> int \<Rightarrow> bool \<Rightarrow> fragment_spec list result" where
  "fragment_message payload fragment_payload_bytes fec_enabled =
     (if \<not> (256 \<le> fragment_payload_bytes \<and> fragment_payload_bytes \<le> int MAX_FRAGMENT_PAYLOAD)
        then Inl (ProtocolError ''fragment payload must be between 256 and 1391 bytes'')
      else if length payload > MAX_MESSAGE_SIZE
        then Inl (ProtocolError ''message exceeds 60000 bytes'')
      else
        (let sz = nat fragment_payload_bytes; count = fragment_count sz payload in
         if count > MAX_FRAGMENTS
           then Inl (ProtocolError ''message requires too many fragments'')
         else
           (let pieces = map (piece sz payload) [0..<count];
                result = map (\<lambda>(index, p). \<lparr>fs_payload = p,
                    fs_message_len = int (length payload), fs_fragment_index = int index,
                    fs_fragment_count = int count, fs_flags = 0\<rparr>) (enumerate 0 pieces)
            in if fec_enabled \<and> count > 1
               then and_then (xor_pieces (replicate sz 0) pieces) (\<lambda>parity.
                 Inr (result @ [\<lparr>fs_payload = parity, fs_message_len = int (length payload),
                   fs_fragment_index = int count, fs_fragment_count = int count,
                   fs_flags = FLAG_PARITY\<rparr>]))
               else Inr result)))"


section \<open>Cutting and joining\<close>

lemma concat_pieces: "concat (map (piece sz p) [0..<n]) = take (n * sz) p"
  proof (induction n)
  case (Suc n)
  have "take (Suc n * sz) p = take (n * sz) p @ take sz (drop (n * sz) p)"
    by (simp add: take_add add.commute [of sz])
  then show ?case using Suc by (simp add: piece_def)
qed simp

lemma length_piece: "length (piece sz p i) = min sz (length p - i * sz)"
  by (simp add: piece_def)

lemma length_piece_le [simp]: "length (piece sz p i) \<le> sz"
  by (simp add: length_piece)

lemma fragment_count_covers:
  assumes "0 < sz"
  shows "length p \<le> fragment_count sz p * sz"
proof -
  have "length p + sz - 1 < ((length p + sz - 1) div sz) * sz + sz"
    using assms by (metis div_mult_mod_eq add_less_cancel_left mod_less_divisor)
  then have "length p \<le> ((length p + sz - 1) div sz) * sz" using assms by linarith
  also have "\<dots> \<le> fragment_count sz p * sz" by (simp add: fragment_count_def)
  finally show ?thesis .
qed

lemma fragment_count_tight:
  assumes "0 < sz" "i < fragment_count sz p" "i \<noteq> 0"
  shows "i * sz < length p"
proof -
  have "i < (length p + sz - 1) div sz" using assms(2,3) by (simp add: fragment_count_def max_def split: if_splits)
  then have "Suc i * sz \<le> length p + sz - 1"
    using assms(1) by (metis Suc_leI less_eq_div_iff_mult_less_eq)
  then show ?thesis using assms(1) by simp
qed

lemma fragment_count_pos [simp]: "0 < fragment_count sz p" "1 \<le> fragment_count sz p"
  by (simp_all add: fragment_count_def)

text \<open>All pieces but the last are full, and the last one holds the rest.\<close>

lemma length_piece_full:
  assumes "0 < sz" "Suc i < fragment_count sz p"
  shows "length (piece sz p i) = sz"
  using fragment_count_tight [OF assms] by (simp add: length_piece)

lemma length_piece_last:
  assumes "0 < sz"
  shows "length (piece sz p (fragment_count sz p - 1)) =
    length p - sz * (fragment_count sz p - 1)"
proof -
  let ?n = "fragment_count sz p"
  have "length p \<le> ?n * sz" by (rule fragment_count_covers [OF assms])
  also have "\<dots> = (?n - 1) * sz + sz" using fragment_count_pos [of sz p] by (cases ?n) simp_all
  finally show ?thesis by (simp add: length_piece mult.commute)
qed

lemma last_offset_le:
  assumes "0 < sz"
  shows "sz * (fragment_count sz p - 1) \<le> length p"
proof (cases "fragment_count sz p - 1 = 0")
  case False
  then show ?thesis
    using fragment_count_tight [OF assms, of "fragment_count sz p - 1" p] by (simp add: mult.commute)
qed simp

lemma fragment_count_bound:
  assumes "256 \<le> sz" "length p \<le> 60000"
  shows "fragment_count sz p \<le> 235"
proof -
  have "(length p + sz - 1) div sz < 236"
    by (rule div_less_iff_less_mult [THEN iffD2]) (use assms in linarith)+
  then show ?thesis by (simp add: fragment_count_def)
qed

lemma concat_all_pieces:
  "0 < sz \<Longrightarrow> concat (map (piece sz p) [0..<fragment_count sz p]) = p"
  using fragment_count_covers [of sz p] by (simp add: concat_pieces)

section \<open>The fragments of a message\<close>

text \<open>The parity bytes of a message, and its data and parity fragments.\<close>

definition parity_bytes :: "nat \<Rightarrow> bytes \<Rightarrow> bytes" where
  "parity_bytes sz p =
     (case xor_pieces (replicate sz 0) (map (piece sz p) [0..<fragment_count sz p]) of
        Inl _ \<Rightarrow> [] | Inr r \<Rightarrow> r)"

definition data_spec :: "nat \<Rightarrow> bytes \<Rightarrow> nat \<Rightarrow> fragment_spec" where
  "data_spec sz p i =
     \<lparr>fs_payload = piece sz p i, fs_message_len = int (length p), fs_fragment_index = int i,
      fs_fragment_count = int (fragment_count sz p), fs_flags = 0\<rparr>"

definition parity_spec :: "nat \<Rightarrow> bytes \<Rightarrow> fragment_spec" where
  "parity_spec sz p =
     \<lparr>fs_payload = parity_bytes sz p, fs_message_len = int (length p),
      fs_fragment_index = int (fragment_count sz p),
      fs_fragment_count = int (fragment_count sz p), fs_flags = FLAG_PARITY\<rparr>"

definition has_parity :: "nat \<Rightarrow> bytes \<Rightarrow> bool \<Rightarrow> bool" where
  "has_parity sz p fec \<longleftrightarrow> fec \<and> 1 < fragment_count sz p"

lemma parity_bytes_ok:
  "xor_pieces (replicate sz 0) (map (piece sz p) [0..<fragment_count sz p]) = Inr (parity_bytes sz p)"
  "length (parity_bytes sz p) = sz"
  "byte_at (parity_bytes sz p) i =
     xor_all (map (\<lambda>j. byte_at (piece sz p j) i) [0..<fragment_count sz p])"
proof -
  let ?ps = "map (piece sz p) [0..<fragment_count sz p]"
  have "length q \<le> length (replicate sz (0 :: byte))" if "q \<in> set ?ps" for q
    using that by auto
  then obtain r where r: "xor_pieces (replicate sz 0) ?ps = Inr r"
    "length r = length (replicate sz (0 :: byte))"
    "\<And>i. byte_at r i = byte_at (replicate sz 0) i XOR xor_all (map (\<lambda>p. byte_at p i) ?ps)"
    using xor_pieces_ok [of ?ps "replicate sz 0"] by metis
  have z: "byte_at (replicate sz 0) i = 0" for i by (simp add: byte_at_def)
  show "xor_pieces (replicate sz 0) ?ps = Inr (parity_bytes sz p)"
    "length (parity_bytes sz p) = sz"
    "byte_at (parity_bytes sz p) i =
       xor_all (map (\<lambda>j. byte_at (piece sz p j) i) [0..<fragment_count sz p])"
    using r z by (simp_all add: parity_bytes_def comp_def)
qed

lemma fragment_message_eq:
  assumes "256 \<le> sz" "sz \<le> 1391" "length p \<le> 60000"
  shows "fragment_message p (int sz) fec =
    Inr (map (data_spec sz p) [0..<fragment_count sz p] @
         (if has_parity sz p fec then [parity_spec sz p] else []))"
proof -
  have small: "fragment_count sz p \<le> MAX_FRAGMENTS"
    using fragment_count_bound [OF assms(1,3)] by (simp add: MAX_FRAGMENTS_def)
  have data: "map (\<lambda>(index, q). \<lparr>fs_payload = q, fs_message_len = int (length p),
      fs_fragment_index = int index, fs_fragment_count = int (fragment_count sz p), fs_flags = 0\<rparr>)
      (enumerate 0 (map (piece sz p) [0..<fragment_count sz p])) =
    map (data_spec sz p) [0..<fragment_count sz p]"
    by (rule nth_equalityI) (simp_all add: data_spec_def nth_enumerate_eq)
  show ?thesis
    using assms small data
    by (simp add: fragment_message_def Let_def MAX_FRAGMENT_PAYLOAD_def MAX_MESSAGE_SIZE_def
        has_parity_def parity_spec_def parity_bytes_ok(1))
qed

lemma fragment_message_iff:
  "fragment_message p s fec = Inr fs \<longleftrightarrow>
   256 \<le> s \<and> s \<le> 1391 \<and> length p \<le> 60000 \<and>
   fs = map (data_spec (nat s) p) [0..<fragment_count (nat s) p] @
        (if has_parity (nat s) p fec then [parity_spec (nat s) p] else [])"
proof (cases "256 \<le> s \<and> s \<le> 1391 \<and> length p \<le> 60000")
  case True
  then have "fragment_message p (int (nat s)) fec =
    Inr (map (data_spec (nat s) p) [0..<fragment_count (nat s) p] @
         (if has_parity (nat s) p fec then [parity_spec (nat s) p] else []))"
    by (intro fragment_message_eq) auto
  with True show ?thesis by auto
next
  case False
  then show ?thesis
    by (auto simp: fragment_message_def MAX_FRAGMENT_PAYLOAD_def MAX_MESSAGE_SIZE_def)
qed

text \<open>The pieces other than \<open>j\<close>, in any order, and the parity give piece \<open>j\<close> back.\<close>

lemma parity_recovers:
  assumes ps: "mset ps = mset (map (piece sz p) (remove1 j [0..<fragment_count sz p]))"
    and j: "j < fragment_count sz p"
  obtains r where "xor_pieces (parity_bytes sz p) ps = Inr r" "length r = sz"
    "take (length (piece sz p j)) r = piece sz p j"
proof -
  have "set ps \<subseteq> range (piece sz p)"
    using arg_cong [OF ps, of set_mset] by auto
  then have le: "length q \<le> length (parity_bytes sz p)" if "q \<in> set ps" for q
    using that by (auto simp: parity_bytes_ok(2))
  obtain r where r: "xor_pieces (parity_bytes sz p) ps = Inr r" "length r = sz"
    "\<And>i. byte_at r i = byte_at (parity_bytes sz p) i XOR xor_all (map (\<lambda>p. byte_at p i) ps)"
    using xor_pieces_ok [of ps "parity_bytes sz p"] le by (auto simp: parity_bytes_ok(2))
  have at: "byte_at r i = byte_at (piece sz p j) i" for i
  proof -
    let ?f = "\<lambda>j. byte_at (piece sz p j) i"
    let ?rest = "remove1 j [0..<fragment_count sz p]"
    have "mset (map ?f [0..<fragment_count sz p]) = mset (map ?f (j # ?rest))"
      using j by (simp add: image_mset_Diff)
    then have "xor_all (map ?f [0..<fragment_count sz p]) = ?f j XOR xor_all (map ?f ?rest)"
      using xor_all_perm by fastforce
    moreover have "mset (map (\<lambda>p. byte_at p i) ps) = mset (map ?f ?rest)"
      using arg_cong [OF ps, of "image_mset (\<lambda>p. byte_at p i)"]
      by (simp add: multiset.map_comp comp_def)
    then have "xor_all (map (\<lambda>p. byte_at p i) ps) = xor_all (map ?f ?rest)"
      by (rule xor_all_perm)
    ultimately show ?thesis by (simp add: r(3) parity_bytes_ok(3) xor.assoc)
  qed
  have "take (length (piece sz p j)) r = piece sz p j"
    by (rule bytes_eqI) (simp_all add: r(2) at byte_at_take min_absorb2)
  with r show thesis using that by blast
qed


lemma data_spec_simps [simp]:
  "fs_payload (data_spec sz p i) = piece sz p i"
  "fs_message_len (data_spec sz p i) = int (length p)"
  "fs_fragment_index (data_spec sz p i) = int i"
  "fs_fragment_count (data_spec sz p i) = int (fragment_count sz p)"
  "fs_flags (data_spec sz p i) = 0"
  by (simp_all add: data_spec_def)

lemma parity_spec_simps [simp]:
  "fs_payload (parity_spec sz p) = parity_bytes sz p"
  "fs_message_len (parity_spec sz p) = int (length p)"
  "fs_fragment_index (parity_spec sz p) = int (fragment_count sz p)"
  "fs_fragment_count (parity_spec sz p) = int (fragment_count sz p)"
  "fs_flags (parity_spec sz p) = 1"
  by (simp_all add: parity_spec_def FLAG_PARITY_def)

section \<open>Properties\<close>

text \<open>
  C12. Cutting loses nothing: the payloads of the data fragments, in order, are the message; the
  fragments are numbered from 0 and the parity fragment has the index after the last; each
  carries the length of the message and the number of data fragments, at most 235, and no more
  bytes than configured.
\<close>

theorem fragments_carry_message:
  assumes "fragment_message p s fec = Inr fs"
  shows "concat (map fs_payload (filter (\<lambda>f. fs_flags f = 0) fs)) = p \<and>
    map fs_fragment_index fs = map int [0..<length fs] \<and>
    (\<forall>f \<in> set fs. fs_message_len f = int (length p) \<and>
       fs_fragment_count f = int (length (filter (\<lambda>f. fs_flags f = 0) fs)) \<and>
       int (length (fs_payload f)) \<le> s \<and>
       (fs_flags f \<noteq> 0 \<longleftrightarrow> fs_fragment_index f = fs_fragment_count f)) \<and>
    length (filter (\<lambda>f. fs_flags f = 0) fs) \<le> 235"
proof -
  let ?sz = "nat s"
  let ?n = "fragment_count ?sz p"
  from assms have s: "256 \<le> s" "length p \<le> 60000"
    and fs: "fs = map (data_spec ?sz p) [0..<?n] @
      (if has_parity ?sz p fec then [parity_spec ?sz p] else [])"
    by (simp_all add: fragment_message_iff)
  have ds: "filter (\<lambda>f. fs_flags f = 0) fs = map (data_spec ?sz p) [0..<?n]"
    by (simp add: fs)
  have idx: "map fs_fragment_index fs = map int [0..<length fs]"
    by (simp add: fs comp_def)
  have len: "int (length (piece ?sz p i)) \<le> s" for i
    using length_piece_le [of ?sz p i] s(1) by linarith
  show ?thesis
    unfolding ds
  proof (intro conjI ballI)
    show "concat (map fs_payload (map (data_spec ?sz p) [0..<?n])) = p"
      using concat_all_pieces [of ?sz p] s(1) by (simp add: comp_def)
    show "length (map (data_spec ?sz p) [0..<?n]) \<le> 235"
      using fragment_count_bound [of ?sz p] s by simp
  next
    fix f assume f: "f \<in> set fs"
    show "int (length (fs_payload f)) \<le> s"
      using f s(1) len by (auto simp: fs parity_bytes_ok(2) split: if_splits)
  qed (use idx in \<open>auto simp: fs split: if_splits\<close>)
qed

definition demo_message :: bytes where
  "demo_message = replicate 256 1 @ [2, 3]"

lemma demo_message_fragments:
  "fragment_message demo_message 256 True =
    Inr [data_spec 256 demo_message 0, data_spec 256 demo_message 1, parity_spec 256 demo_message]"
proof -
  have c: "fragment_count 256 demo_message = 2"
    by (simp add: fragment_count_def demo_message_def)
  have "length demo_message \<le> 60000" by (simp add: demo_message_def)
  then have "fragment_message demo_message (int 256) True =
      Inr (map (data_spec 256 demo_message) [0..<fragment_count 256 demo_message] @
        (if has_parity 256 demo_message True then [parity_spec 256 demo_message] else []))"
    by (intro fragment_message_eq) simp_all
  moreover have "[0..<2] = [0, 1 :: nat]" by (simp add: upt_rec)
  ultimately show ?thesis by (simp add: has_parity_def c)
qed

theorem fragments_carry_message_witness:
  "concat (map fs_payload [data_spec 256 demo_message 0, data_spec 256 demo_message 1]) =
     demo_message"
  using fragments_carry_message [OF demo_message_fragments] by simp

text \<open>
  The only limits are the fragment size and the message size: within them every message is
  cut, so the check on the number of fragments never fails; outside them the call raises
  \<open>ProtocolError\<close>.
\<close>

theorem fragment_message_accepts_iff:
  "(is_ok (fragment_message p s fec) \<longleftrightarrow> 256 \<le> s \<and> s \<le> 1391 \<and> length p \<le> 60000) \<and>
   raises_only is_protocol_error (fragment_message p s fec) \<and>
   fragment_message p s fec \<noteq> Inl (ProtocolError ''message requires too many fragments'')"
proof (cases "256 \<le> s \<and> s \<le> 1391 \<and> length p \<le> 60000")
  case True
  then obtain fs where "fragment_message p s fec = Inr fs" by (simp add: fragment_message_iff)
  with True show ?thesis by (simp add: raises_only_Inr)
next
  case False
  then have "fragment_message p s fec = Inl (ProtocolError ''message exceeds 60000 bytes'') \<or>
    fragment_message p s fec =
      Inl (ProtocolError ''fragment payload must be between 256 and 1391 bytes'')"
    by (auto simp: fragment_message_def MAX_FRAGMENT_PAYLOAD_def MAX_MESSAGE_SIZE_def)
  with False show ?thesis by (auto simp: raises_only_def)
qed

end
