(* ===== verification/Reassembly.thy ===== *)
theory Reassembly
  imports Fragmentation Complex_Main
begin

text \<open>
  \<open>Reassembler\<close> of \<open>h3ntun/reliability.py\<close>: collecting fragments per session and message, recovering
  one missing fragment from the parity, and the table of completed messages. Each method runs
  under the object's lock, so it is one step; the clock it reads is an argument. A method that
  raises returns the exception with the state it leaves behind. Times are exact rationals here.

  The first sections follow the code. Then come the invariant of the tables, preserved by every
  method and strong enough to exclude every exception but \<open>ProtocolError\<close>; what the fragments of
  one message add up to; and runs in which they arrive among frames of other messages.
\<close>


section \<open>The object\<close>

type_synonym key = "int \<times> int"

record reassembly_result =
  rr_payload :: "bytes option"
  rr_duplicate :: bool
  rr_recovered_by_fec :: bool

record assembly =
  as_message_len :: int
  as_fragment_count :: int
  as_created_at :: rat
  as_updated_at :: rat
  as_fragments :: "(int, bytes) dict"
  as_parity :: "bytes option"

record reassembler =
  ra_timeout_seconds :: rat
  ra_max_messages :: int
  ra_completed_ttl_seconds :: rat
  ra_assemblies :: "(key, assembly) dict"
  ra_completed :: "(key, rat) dict"

definition Reassembler_init :: "rat \<Rightarrow> int \<Rightarrow> rat \<Rightarrow> reassembler result" where
  "Reassembler_init timeout_seconds max_messages completed_ttl_seconds =
     (if timeout_seconds \<le> 0 \<or> max_messages < 1 \<or> completed_ttl_seconds \<le> 0
      then Inl (ValueError ''invalid reassembly limits'')
      else Inr \<lparr>ra_timeout_seconds = timeout_seconds, ra_max_messages = max_messages,
                ra_completed_ttl_seconds = completed_ttl_seconds,
                ra_assemblies = [], ra_completed = []\<rparr>)"

section \<open>Purging\<close>

text \<open>The \<open>while self._completed\<close> loop: entries leave from the front until one is young enough.\<close>

fun drop_stale :: "rat \<Rightarrow> rat \<Rightarrow> (key, rat) dict \<Rightarrow> (key, rat) dict" where
  "drop_stale now ttl [] = []"
| "drop_stale now ttl ((k, completed_at) # d) =
     (if now - completed_at \<le> ttl then (k, completed_at) # d else drop_stale now ttl d)"

definition purge :: "rat \<Rightarrow> reassembler \<Rightarrow> int \<times> reassembler" where
  "purge now R =
     (let expired = map fst (filter (\<lambda>(k, a). now - as_updated_at a > ra_timeout_seconds R)
                               (ra_assemblies R))
      in (int (length expired),
          R\<lparr>ra_assemblies := foldl (\<lambda>d k. dict_del k d) (ra_assemblies R) expired,
            ra_completed := drop_stale now (ra_completed_ttl_seconds R) (ra_completed R)\<rparr>))"

definition cleanup :: "rat \<Rightarrow> reassembler \<Rightarrow> int \<times> reassembler" where
  "cleanup now R = purge now R"

definition is_completed :: "rat \<Rightarrow> int \<Rightarrow> int \<Rightarrow> reassembler \<Rightarrow> bool \<times> reassembler" where
  "is_completed now session_id message_id R =
     (let R1 = snd (purge now R) in (dict_has (ra_completed R1) (session_id, message_id), R1))"

section \<open>Assembling\<close>

text \<open>\<open>b"".join(fragments[index] for index in indices)\<close>\<close>

fun join_fragments :: "(int, bytes) dict \<Rightarrow> int list \<Rightarrow> bytes result" where
  "join_fragments d [] = Inr []"
| "join_fragments d (i # is) =
     (case dict_get d i of
        None \<Rightarrow> Inl KeyError
      | Some b \<Rightarrow> and_then (join_fragments d is) (\<lambda>r. Inr (b @ r)))"

text \<open>The loop that adds every piece to the copy of the parity.\<close>

fun recover :: "nat \<Rightarrow> bytes \<Rightarrow> bytes list \<Rightarrow> bytes result" where
  "recover fragment_size acc [] = Inr acc"
| "recover fragment_size acc (p # ps) =
     (if length p > fragment_size then Inl (ProtocolError ''fragment exceeds parity size'')
      else and_then (xor_into acc p) (\<lambda>r. recover fragment_size r ps))"

definition joined :: "assembly \<Rightarrow> string \<Rightarrow> bytes result" where
  "joined a msg =
     and_then (join_fragments (as_fragments a) [0..as_fragment_count a - 1]) (\<lambda>payload.
       if int (length payload) \<noteq> as_message_len a then Inl (ProtocolError msg) else Inr payload)"

definition recover_missing :: "assembly \<Rightarrow> bytes \<Rightarrow> (bytes option \<times> bool) result \<times> assembly" where
  "recover_missing a parity =
     (let count = as_fragment_count a; fragment_size = length parity in
      case find (\<lambda>i. \<not> dict_has (as_fragments a) i) [0..count - 1] of
        None \<Rightarrow> (Inl StopIteration, a)
      | Some missing \<Rightarrow>
          if fragment_size = 0 then (Inl (ProtocolError ''empty parity fragment''), a)
          else case recover fragment_size parity (map snd (as_fragments a)) of
            Inl e \<Rightarrow> (Inl e, a)
          | Inr recovered \<Rightarrow>
              (let expected_length =
                 (if missing < count - 1 then int fragment_size
                  else as_message_len a - int fragment_size * (count - 1))
               in if \<not> (0 \<le> expected_length \<and> expected_length \<le> int fragment_size)
                  then (Inl (ProtocolError ''invalid recovered fragment length''), a)
                  else
                    (let a1 = a\<lparr>as_fragments := dict_put missing
                         (take (nat expected_length) recovered) (as_fragments a)\<rparr>
                     in (and_then (joined a1 ''FEC-recovered message length mismatch'')
                           (\<lambda>payload. Inr (Some payload, True)), a1))))"

definition assemble :: "assembly \<Rightarrow> (bytes option \<times> bool) result \<times> assembly" where
  "assemble a =
     (if int (length (as_fragments a)) = as_fragment_count a
      then (and_then (joined a ''reassembled message length mismatch'')
              (\<lambda>payload. Inr (Some payload, False)), a)
      else case as_parity a of
        None \<Rightarrow> (Inr (None, False), a)
      | Some parity \<Rightarrow>
          if int (length (as_fragments a)) \<noteq> as_fragment_count a - 1 then (Inr (None, False), a)
          else recover_missing a parity)"

section \<open>Adding a frame\<close>

text \<open>\<open>min(self._assemblies, key=updated_at)\<close>: the first of the least recently updated keys.\<close>

definition older :: "key \<times> assembly \<Rightarrow> key \<times> assembly \<Rightarrow> key \<times> assembly" where
  "older x y = (if as_updated_at (snd y) < as_updated_at (snd x) then y else x)"

fun oldest :: "(key, assembly) dict \<Rightarrow> key option" where
  "oldest [] = None"
| "oldest (x # d) = Some (fst (foldl older x d))"

definition make_room :: "reassembler \<Rightarrow> reassembler result" where
  "make_room R =
     (if int (length (ra_assemblies R)) \<ge> ra_max_messages R
      then case oldest (ra_assemblies R) of
             None \<Rightarrow> Inl (ValueError ''min() arg is an empty sequence'')
           | Some k \<Rightarrow> Inr (R\<lparr>ra_assemblies := dict_del k (ra_assemblies R)\<rparr>)
      else Inr R)"

definition store_fragment :: "frame \<Rightarrow> assembly \<Rightarrow> assembly result" where
  "store_fragment f a =
     (if is_parity f then
        (if as_parity a \<noteq> None \<and> as_parity a \<noteq> Some (fr_payload f)
         then Inl (ProtocolError ''conflicting parity fragment'')
         else Inr (a\<lparr>as_parity := Some (fr_payload f)\<rparr>))
      else
        (case dict_get (as_fragments a) (fr_fragment_index f) of
           None \<Rightarrow> Inr (a\<lparr>as_fragments :=
                     dict_put (fr_fragment_index f) (fr_payload f) (as_fragments a)\<rparr>)
         | Some existing \<Rightarrow>
             if existing \<noteq> fr_payload f then Inl (ProtocolError ''conflicting data fragment'')
             else Inr (a\<lparr>as_fragments :=
                    dict_put (fr_fragment_index f) (fr_payload f) (as_fragments a)\<rparr>)))"

text \<open>\<open>while len(self._completed) > limit: popitem(last=False)\<close>\<close>

fun trim :: "int \<Rightarrow> ('k, 'v) dict \<Rightarrow> ('k, 'v) dict" where
  "trim limit [] = []"
| "trim limit (x # d) = (if int (length (x # d)) > limit then trim limit d else x # d)"

definition complete_message :: "rat \<Rightarrow> key \<Rightarrow> reassembler \<Rightarrow> reassembler" where
  "complete_message now k R =
     R\<lparr>ra_assemblies := dict_del k (ra_assemblies R),
       ra_completed := trim (ra_max_messages R * 2)
         (dict_move_to_end k (dict_put k now (ra_completed R)))\<rparr>"

definition put_assembly :: "key \<Rightarrow> assembly \<Rightarrow> reassembler \<Rightarrow> reassembler" where
  "put_assembly k a R = R\<lparr>ra_assemblies := dict_put k a (ra_assemblies R)\<rparr>"

text \<open>\<open>add\<close> from \<open>assembly.updated_at = now\<close> on.\<close>

definition add_to :: "rat \<Rightarrow> key \<Rightarrow> frame \<Rightarrow> assembly \<Rightarrow> reassembler \<Rightarrow>
    reassembly_result result \<times> reassembler" where
  "add_to now k f a0 R =
     (let a = a0\<lparr>as_updated_at := now\<rparr> in
      case store_fragment f a of
        Inl e \<Rightarrow> (Inl e, put_assembly k a R)
      | Inr a1 \<Rightarrow>
          (case assemble a1 of
             (Inl e, a2) \<Rightarrow> (Inl e, put_assembly k a2 R)
           | (Inr (None, _), a2) \<Rightarrow>
               (Inr \<lparr>rr_payload = None, rr_duplicate = False, rr_recovered_by_fec = False\<rparr>,
                put_assembly k a2 R)
           | (Inr (Some payload, recovered), a2) \<Rightarrow>
               (Inr \<lparr>rr_payload = Some payload, rr_duplicate = False,
                     rr_recovered_by_fec = recovered\<rparr>,
                complete_message now k (put_assembly k a2 R))))"

definition frame_key :: "frame \<Rightarrow> key" where
  "frame_key f = (fr_session_id f, fr_message_id f)"

definition Reassembler_add :: "rat \<Rightarrow> frame \<Rightarrow> reassembler \<Rightarrow>
    reassembly_result result \<times> reassembler" where
  "Reassembler_add now f R0 =
     (let k = frame_key f; R = snd (purge now R0) in
      if dict_has (ra_completed R) k
        then (Inr \<lparr>rr_payload = None, rr_duplicate = True, rr_recovered_by_fec = False\<rparr>,
              R\<lparr>ra_completed := dict_move_to_end k (ra_completed R)\<rparr>)
      else case dict_get (ra_assemblies R) k of
        None \<Rightarrow>
          (case make_room R of
             Inl e \<Rightarrow> (Inl e, R)
           | Inr R1 \<Rightarrow>
               add_to now k f \<lparr>as_message_len = fr_message_len f,
                 as_fragment_count = fr_fragment_count f, as_created_at = now,
                 as_updated_at = now, as_fragments = [], as_parity = None\<rparr> R1)
      | Some a \<Rightarrow>
          if as_message_len a \<noteq> fr_message_len f \<or> as_fragment_count a \<noteq> fr_fragment_count f
            then (Inl (ProtocolError ''inconsistent fragment metadata''), R)
          else add_to now k f a R)"

text \<open>The results of adding frames at given times, one after another.\<close>

fun run_add :: "(rat \<times> frame) list \<Rightarrow> reassembler \<Rightarrow> reassembly_result result list \<times> reassembler" where
  "run_add [] R = ([], R)"
| "run_add ((now, f) # fs) R =
     (case Reassembler_add now f R of
        (r, R1) \<Rightarrow> (case run_add fs R1 of (rs, R2) \<Rightarrow> (r # rs, R2)))"


section \<open>Facts on the tables\<close>

lemma drop_stale_eq: "drop_stale now ttl d = dropWhile (\<lambda>(k, t). \<not> now - t \<le> ttl) d"
  by (induction now ttl d rule: drop_stale.induct) simp_all

lemma drop_stale_suffix: "\<exists>d'. d = d' @ drop_stale now ttl d"
  unfolding drop_stale_eq by (metis takeWhile_dropWhile_id)

lemma drop_stale_keeps:
  "map_of d k = Some t \<Longrightarrow> dict_ok d \<Longrightarrow> now - t \<le> ttl \<Longrightarrow> map_of (drop_stale now ttl d) k = Some t"
  by (induction now ttl d rule: drop_stale.induct)
    (auto simp: dict_ok_def split: if_splits dest!: map_of_SomeD)

lemma dict_ok_suffix: "dict_ok (d' @ d) \<Longrightarrow> dict_ok d"
  by (simp add: dict_ok_def)

lemma dict_ok_drop_stale: "dict_ok d \<Longrightarrow> dict_ok (drop_stale now ttl d)"
  using drop_stale_suffix dict_ok_suffix by metis

lemma set_drop_stale: "set (drop_stale now ttl d) \<subseteq> set d"
  using drop_stale_suffix [of d now ttl] by (metis set_append sup_ge2)

lemma length_drop_stale: "length (drop_stale now ttl d) \<le> length d"
  using drop_stale_suffix [of d now ttl] by (metis le_add2 length_append)

lemma set_put: "set (AList.update k v d) \<subseteq> insert (k, v) (set d)"
  by (induction d) auto

lemma foldl_delete: "foldl (\<lambda>d k. AList.delete k d) d ks = filter (\<lambda>(k, _). k \<notin> set ks) d"
  by (induction ks arbitrary: d) (auto simp: AList.delete_eq intro: filter_cong)

lemma purge_assemblies:
  assumes "dict_ok (ra_assemblies R)"
  shows "ra_assemblies (snd (purge now R)) =
    filter (\<lambda>(k, a). now - as_updated_at a \<le> ra_timeout_seconds R) (ra_assemblies R)"
proof -
  let ?d = "ra_assemblies R"
  let ?E = "filter (\<lambda>(k, a). now - as_updated_at a > ra_timeout_seconds R) ?d"
  have "k \<in> set (map fst ?E) \<longleftrightarrow> now - as_updated_at a > ra_timeout_seconds R"
    if "(k, a) \<in> set ?d" for k a
  proof
    assume "k \<in> set (map fst ?E)"
    then obtain a' where "(k, a') \<in> set ?d" "now - as_updated_at a' > ra_timeout_seconds R" by auto
    moreover from this that have "a' = a" using assms by (metis dict_ok_def map_of_is_SomeI option.inject)
    ultimately show "now - as_updated_at a > ra_timeout_seconds R" by simp
  qed (use that in force)
  then have "filter (\<lambda>(k, _). k \<notin> set (map fst ?E)) ?d =
      filter (\<lambda>(k, a). now - as_updated_at a \<le> ra_timeout_seconds R) ?d"
    by (intro filter_cong refl) (clarsimp simp only: case_prod_conv not_less [symmetric])
  then show ?thesis unfolding purge_def Let_def foldl_delete by simp
qed

lemma purge_completed:
  "ra_completed (snd (purge now R)) = drop_stale now (ra_completed_ttl_seconds R) (ra_completed R)"
  by (simp add: purge_def Let_def)

lemma purge_limits [simp]:
  "ra_timeout_seconds (snd (purge now R)) = ra_timeout_seconds R"
  "ra_max_messages (snd (purge now R)) = ra_max_messages R"
  "ra_completed_ttl_seconds (snd (purge now R)) = ra_completed_ttl_seconds R"
  by (simp_all add: purge_def Let_def)

lemma trim_suffix: "\<exists>d'. d = d' @ trim limit d"
proof (induction limit d rule: trim.induct)
  case (2 limit x d)
  then show ?case by (auto intro: Cons_eq_appendI)
qed simp

lemma length_trim: "0 \<le> limit \<Longrightarrow> int (length (trim limit d)) \<le> limit"
  by (induction limit d rule: trim.induct) simp_all

lemma trim_id: "int (length d) \<le> limit \<Longrightarrow> trim limit d = d"
  by (cases d) simp_all

lemma dict_ok_trim: "dict_ok d \<Longrightarrow> dict_ok (trim limit d)"
  using trim_suffix dict_ok_suffix by metis

lemma set_trim: "set (trim limit d) \<subseteq> set d"
  using trim_suffix [of d limit] by (metis set_append sup_ge2)

lemma oldest_in:
  assumes "d \<noteq> []"
  obtains k where "oldest d = Some k" "dict_has d k"
proof -
  obtain x r where d: "d = x # r" using assms by (cases d) auto
  have "foldl older z r \<in> insert z (set r)" for z
    by (induction r arbitrary: z) (auto simp: older_def)
  then have "foldl older x r \<in> set d" by (auto simp: d)
  then have "fst (foldl older x r) \<in> set (map fst d)" by simp
  then show thesis using that by (simp add: d dict_has_def)
qed

section \<open>The invariant\<close>

definition assembly_ok :: "assembly \<Rightarrow> bool" where
  "assembly_ok a \<longleftrightarrow>
     1 \<le> as_fragment_count a \<and> as_fragment_count a \<le> int MAX_FRAGMENTS \<and>
     dict_ok (as_fragments a) \<and> fst ` set (as_fragments a) \<subseteq> {0..<as_fragment_count a}"

definition reassembler_ok :: "reassembler \<Rightarrow> bool" where
  "reassembler_ok R \<longleftrightarrow>
     1 \<le> ra_max_messages R \<and>
     dict_ok (ra_assemblies R) \<and> int (length (ra_assemblies R)) \<le> ra_max_messages R \<and>
     (\<forall>(k, a) \<in> set (ra_assemblies R). assembly_ok a \<and> \<not> dict_has (ra_completed R) k) \<and>
     dict_ok (ra_completed R) \<and> int (length (ra_completed R)) \<le> ra_max_messages R * 2"

lemma length_dict: "dict_ok d \<Longrightarrow> length d = card (fst ` set d)"
  by (metis dict_ok_def distinct_card length_map set_map)

text \<open>With as many fragments as indices every index is there; with one less, one is missing.\<close>

lemma full_assembly:
  assumes "assembly_ok a" "int (length (as_fragments a)) = as_fragment_count a"
  shows "fst ` set (as_fragments a) = {0..<as_fragment_count a}"
proof (rule card_subset_eq)
  show "card (fst ` set (as_fragments a)) = card {0..<as_fragment_count a}"
    using assms length_dict [of "as_fragments a"] by (simp add: assembly_ok_def)
qed (use assms in \<open>simp_all add: assembly_ok_def\<close>)

lemma join_fragments_ok:
  "(\<And>i. i \<in> set is \<Longrightarrow> dict_has d i) \<Longrightarrow>
   join_fragments d is = Inr (concat (map (\<lambda>i. the (map_of d i)) is))"
  by (induction d "is" rule: join_fragments.induct) (force simp: dict_has_iff)+

lemma joined_raises:
  assumes "fst ` set (as_fragments a) = {0..<as_fragment_count a}"
  shows "raises_only is_protocol_error (joined a msg)"
proof -
  have "join_fragments (as_fragments a) [0..as_fragment_count a - 1] =
    Inr (concat (map (\<lambda>i. the (map_of (as_fragments a) i)) [0..as_fragment_count a - 1]))"
    by (rule join_fragments_ok) (use assms in \<open>auto simp: dict_has_def\<close>)
  then show ?thesis by (simp add: joined_def raises_only_def)
qed

lemma recover_eq: "\<forall>p \<in> set ps. length p \<le> n \<Longrightarrow> recover n acc ps = xor_pieces acc ps"
  by (induction ps arbitrary: acc) (auto intro!: and_then_cong)

lemma recover_raises: "length acc = n \<Longrightarrow> raises_only is_protocol_error (recover n acc ps)"
proof (induction ps arbitrary: acc)
  case (Cons p ps)
  show ?case
  proof (cases "length p \<le> n")
    case True
    then obtain r where "xor_into acc p = Inr r" "length r = length acc"
      using xor_into_ok [of p acc] Cons.prems by metis
    then show ?thesis using Cons True by simp
  qed (simp add: raises_only_def)
qed (simp add: raises_only_def)


lemma map_fst_dict: "set (map fst d) = fst ` set d"
  by simp

lemma assembly_ok_put:
  assumes "assembly_ok a" "0 \<le> i" "i < as_fragment_count a"
  shows "assembly_ok (a\<lparr>as_fragments := dict_put i b (as_fragments a)\<rparr>)"
proof -
  have "fst ` set (dict_put i b (as_fragments a)) = insert i (fst ` set (as_fragments a))"
    using dom_update [of i b "as_fragments a"] by (simp add: dom_map_of_conv_image_fst)
  with assms show ?thesis by (auto simp: assembly_ok_def dict_ok_put)
qed

lemma recover_missing_ok:
  assumes ok: "assembly_ok a" and n: "int (length (as_fragments a)) = as_fragment_count a - 1"
    and R: "recover_missing a parity = (r, a')"
  shows "raises_only is_protocol_error r \<and> assembly_ok a'"
proof -
  let ?frs = "as_fragments a" and ?c = "as_fragment_count a"
  have "fst ` set ?frs \<noteq> {0..<?c}"
  proof
    assume eq: "fst ` set ?frs = {0..<?c}"
    then have "int (length ?frs) = int (card {0..<?c})"
      using ok length_dict [of ?frs] by (simp add: assembly_ok_def)
    then show False using n ok by (simp add: assembly_ok_def)
  qed
  then have "\<exists>i \<in> set [0..?c - 1]. \<not> dict_has ?frs i"
    using ok by (auto simp: assembly_ok_def dict_has_def)
  then obtain m where m: "find (\<lambda>i. \<not> dict_has ?frs i) [0..?c - 1] = Some m"
    by (metis (no_types, lifting) find_None_iff not_None_eq)
  then have m': "0 \<le> m" "m < ?c" "\<not> dict_has ?frs m"
    by (auto simp: find_Some_iff dest: nth_mem)
  let ?a1 = "\<lambda>b. a\<lparr>as_fragments := dict_put m b ?frs\<rparr>"
  have ok1: "assembly_ok (?a1 b)" for b
    by (rule assembly_ok_put [OF ok m'(1,2)])
  have "raises_only is_protocol_error (joined (?a1 b) msg)" for b msg
  proof (rule joined_raises, rule full_assembly [OF ok1])
    show "int (length (as_fragments (?a1 b))) = as_fragment_count (?a1 b)"
      using n m'(3) by (simp add: length_update)
  qed
  then have fin: "raises_only is_protocol_error
      (and_then (joined (?a1 b) msg) (\<lambda>p. Inr (Some p, True)))" for b msg
    by (intro raises_only_and_then raises_only_Inr)
  have rec: "raises_only is_protocol_error (recover (length parity) parity (map snd ?frs))"
    by (rule recover_raises) simp
  show ?thesis
  proof (cases "recover (length parity) parity (map snd ?frs)")
    case (Inl e)
    then show ?thesis
      using R ok rec by (auto simp: recover_missing_def m Let_def raises_only_def split: if_splits)
  next
    case (Inr b)
    let ?e = "if m < ?c - 1 then int (length parity)
      else as_message_len a - int (length parity) * (?c - 1)"
    show ?thesis
    proof (cases "length parity = 0 \<or> \<not> (0 \<le> ?e \<and> ?e \<le> int (length parity))")
      case True
      then show ?thesis
        using R ok Inr by (auto simp: recover_missing_def m Let_def raises_only_def split: if_splits)
    next
      case False
      then have "(r, a') = (and_then (joined (?a1 (take (nat ?e) b))
          ''FEC-recovered message length mismatch'') (\<lambda>p. Inr (Some p, True)),
          ?a1 (take (nat ?e) b))"
        unfolding R [symmetric] recover_missing_def m Inr Let_def by simp
      then show ?thesis using fin ok1 by simp
    qed
  qed
qed

lemma assemble_ok:
  assumes "assembly_ok a" "assemble a = (r, a')"
  shows "raises_only is_protocol_error r \<and> assembly_ok a'"
proof (cases "int (length (as_fragments a)) = as_fragment_count a")
  case True
  then show ?thesis
    using assms joined_raises [OF full_assembly [OF assms(1) True]]
    by (auto simp: assemble_def intro!: raises_only_and_then raises_only_Inr)
next
  case False
  then show ?thesis
    using assms recover_missing_ok [OF assms(1)]
    by (auto simp: assemble_def raises_only_def split: option.splits if_splits)
qed

lemma store_fragment_ok:
  assumes "assembly_ok a" "frame_ok f" "as_fragment_count a = fr_fragment_count f"
  shows "raises_only is_protocol_error (store_fragment f a) \<and>
    (\<forall>a'. store_fragment f a = Inr a' \<longrightarrow> assembly_ok a')"
proof -
  have "0 \<le> fr_fragment_index f"
    using assms(2) by (simp add: frame_ok_def header_valid_def header_of_frame_def)
  moreover have "\<not> is_parity f \<Longrightarrow> fr_fragment_index f < fr_fragment_count f"
    using assms(2) by (auto simp: frame_ok_def wire_ok_def is_parity_def FLAG_PARITY_def split: if_splits)
  moreover have "assembly_ok (a\<lparr>as_parity := x\<rparr>)" for x
    using assms(1) by (simp add: assembly_ok_def)
  ultimately show ?thesis
    using assms(1,3) assembly_ok_put
    by (auto simp: store_fragment_def raises_only_def split: option.splits)
qed

text \<open>The tables after each operation.\<close>

lemma purge_ok:
  assumes "reassembler_ok R"
  shows "reassembler_ok (snd (purge now R))"
proof -
  have ok: "dict_ok (ra_assemblies R)" using assms by (simp add: reassembler_ok_def)
  have sub: "set (ra_completed (snd (purge now R))) \<subseteq> set (ra_completed R)"
    by (simp add: purge_completed set_drop_stale)
  have "int (length (ra_assemblies (snd (purge now R)))) \<le> ra_max_messages R"
    unfolding purge_assemblies [OF ok]
    by (rule order_trans [OF of_nat_mono [OF length_filter_le]])
      (use assms in \<open>simp add: reassembler_ok_def\<close>)
  moreover have "length (ra_completed (snd (purge now R))) \<le> length (ra_completed R)"
    by (simp add: purge_completed length_drop_stale)
  moreover have "\<not> dict_has (ra_completed (snd (purge now R))) k" if "\<not> dict_has (ra_completed R) k" for k
    using that sub by (auto simp: dict_has_def)
  ultimately show ?thesis
    using assms by (auto simp: reassembler_ok_def purge_assemblies [OF ok] dict_ok_filter
        purge_completed dict_ok_drop_stale)
qed

lemma put_assembly_ok:
  assumes "reassembler_ok R" "assembly_ok a" "\<not> dict_has (ra_completed R) k"
    and "dict_has (ra_assemblies R) k \<or> int (length (ra_assemblies R)) < ra_max_messages R"
  shows "reassembler_ok (put_assembly k a R)"
  using assms set_put [of k a "ra_assemblies R"]
  by (auto simp: reassembler_ok_def put_assembly_def dict_ok_put length_update)


lemma complete_message_ok:
  assumes "reassembler_ok R"
  shows "reassembler_ok (complete_message now k R)"
proof -
  let ?c = "dict_move_to_end k (dict_put k now (ra_completed R))"
  have ok: "dict_ok ?c" "dict_ok (dict_del k (ra_assemblies R))"
    using assms by (auto simp: reassembler_ok_def)
  have "length (dict_del k (ra_assemblies R)) \<le> length (ra_assemblies R)"
    by (rule length_delete_le)
  moreover have "\<not> dict_has (trim (ra_max_messages R * 2) ?c) k'"
    if "(k', a) \<in> set (dict_del k (ra_assemblies R))" for k' a
  proof
    assume "dict_has (trim (ra_max_messages R * 2) ?c) k'"
    then have "dict_has ?c k'" using set_trim by (fastforce simp: dict_has_def)
    moreover have "k' \<noteq> k" "(k', a) \<in> set (ra_assemblies R)"
      using that by (auto simp: AList.delete_eq)
    ultimately show False using assms by (auto simp: reassembler_ok_def dict_simps)
  qed
  moreover have "(k', a) \<in> set (ra_assemblies R)"
    if "(k', a) \<in> set (dict_del k (ra_assemblies R))" for k' a
    using that by (auto simp: AList.delete_eq)
  ultimately show ?thesis
    using assms ok by (fastforce simp: reassembler_ok_def complete_message_def dict_ok_trim length_trim)
qed

lemma make_room_ok:
  assumes "reassembler_ok R"
  obtains R1 where "make_room R = Inr R1" "reassembler_ok R1"
    "int (length (ra_assemblies R1)) < ra_max_messages R1"
    "ra_completed R1 = ra_completed R" "ra_max_messages R1 = ra_max_messages R"
    "ra_timeout_seconds R1 = ra_timeout_seconds R"
    "ra_completed_ttl_seconds R1 = ra_completed_ttl_seconds R"
    "set (ra_assemblies R1) \<subseteq> set (ra_assemblies R)"
proof (cases "int (length (ra_assemblies R)) \<ge> ra_max_messages R")
  case True
  then have "ra_assemblies R \<noteq> []" using assms by (auto simp: reassembler_ok_def)
  then obtain k where k: "oldest (ra_assemblies R) = Some k" "dict_has (ra_assemblies R) k"
    by (rule oldest_in)
  let ?R1 = "R\<lparr>ra_assemblies := dict_del k (ra_assemblies R)\<rparr>"
  have len: "length (dict_del k (ra_assemblies R)) < length (ra_assemblies R)"
    by (rule length_delete_less [OF k(2)])
  have sub: "set (dict_del k (ra_assemblies R)) \<subseteq> set (ra_assemblies R)"
    by (auto simp: AList.delete_eq)
  have "reassembler_ok ?R1"
    using assms len sub by (auto simp: reassembler_ok_def)
  then show thesis
    using that [of ?R1] True k(1) len sub assms by (simp add: make_room_def reassembler_ok_def)
next
  case False
  then show thesis using that [of R] assms by (simp add: make_room_def)
qed

lemma add_to_ok:
  assumes "reassembler_ok R" "assembly_ok a" "frame_ok f"
    and "as_fragment_count a = fr_fragment_count f" "\<not> dict_has (ra_completed R) k"
    and "dict_has (ra_assemblies R) k \<or> int (length (ra_assemblies R)) < ra_max_messages R"
    and "add_to now k f a R = (r, R')"
  shows "raises_only is_protocol_error r \<and> reassembler_ok R'"
proof -
  let ?a = "a\<lparr>as_updated_at := now\<rparr>"
  have ok: "assembly_ok ?a" using assms(2) by (simp add: assembly_ok_def)
  have put: "reassembler_ok (put_assembly k b R)" if "assembly_ok b" for b
    using put_assembly_ok assms(1,5,6) that by blast
  have st: "raises_only is_protocol_error (store_fragment f ?a)"
    "\<And>b. store_fragment f ?a = Inr b \<Longrightarrow> assembly_ok b"
    using store_fragment_ok [OF ok assms(3)] assms(4) by auto
  show ?thesis
  proof (cases "store_fragment f ?a")
    case (Inl e)
    then show ?thesis
      using assms(7) st put [OF ok] by (auto simp: add_to_def Let_def raises_only_def)
  next
    case (Inr b)
    obtain q c where q: "assemble b = (q, c)" by (cases "assemble b")
    have fin: "raises_only is_protocol_error q" "assembly_ok c"
      using assemble_ok [OF st(2) [OF Inr] q] by simp_all
    show ?thesis
      using assms(7) Inr q fin put [OF fin(2)] complete_message_ok [OF put [OF fin(2)], of now k]
      by (auto simp: add_to_def Let_def raises_only_def split: sum.splits option.splits prod.splits)
  qed
qed

lemma Reassembler_add_ok:
  assumes "reassembler_ok R" "frame_ok f" "Reassembler_add now f R = (r, R')"
  shows "raises_only is_protocol_error r \<and> reassembler_ok R'"
proof -
  let ?R = "snd (purge now R)" and ?k = "frame_key f"
  have ok: "reassembler_ok ?R" by (rule purge_ok [OF assms(1)])
  have fc: "1 \<le> fr_fragment_count f" "fr_fragment_count f \<le> int MAX_FRAGMENTS"
    using assms(2) by (simp_all add: frame_ok_def wire_ok_def)
  show ?thesis
  proof (cases "dict_has (ra_completed ?R) ?k")
    case True
    have "reassembler_ok (?R\<lparr>ra_completed := dict_move_to_end ?k (ra_completed ?R)\<rparr>)"
      using ok by (auto simp: reassembler_ok_def dict_simps)
    with True show ?thesis
      using assms(3) by (auto simp: Reassembler_add_def Let_def raises_only_def)
  next
    case new: False
    show ?thesis
    proof (cases "dict_get (ra_assemblies ?R) ?k")
      case None
      obtain R1 where R1: "make_room ?R = Inr R1" "reassembler_ok R1"
        "int (length (ra_assemblies R1)) < ra_max_messages R1" "ra_completed R1 = ra_completed ?R"
        using make_room_ok [OF ok] by metis
      show ?thesis
      proof (rule add_to_ok [OF R1(2)])
        show "add_to now ?k f \<lparr>as_message_len = fr_message_len f,
            as_fragment_count = fr_fragment_count f, as_created_at = now, as_updated_at = now,
            as_fragments = [], as_parity = None\<rparr> R1 = (r, R')"
          using assms(3) new None R1(1) by (simp add: Reassembler_add_def Let_def)
      qed (use assms(2) fc new R1 in \<open>simp_all add: assembly_ok_def\<close>)
    next
      case (Some a)
      then have a: "assembly_ok a"
        using ok by (auto simp: reassembler_ok_def dest!: map_of_SomeD)
      show ?thesis
      proof (cases "as_message_len a \<noteq> fr_message_len f \<or> as_fragment_count a \<noteq> fr_fragment_count f")
        case True
        then show ?thesis
          using assms(3) new Some ok by (auto simp: Reassembler_add_def Let_def raises_only_def)
      next
        case False
        show ?thesis
        proof (rule add_to_ok [OF ok a assms(2)])
          show "add_to now ?k f a ?R = (r, R')"
            using assms(3) new Some False by (simp add: Reassembler_add_def Let_def)
        qed (use False new Some in \<open>simp_all add: dict_has_iff\<close>)
      qed
    qed
  qed
qed

lemma init_reassembler_ok: "Reassembler_init t m ttl = Inr R \<Longrightarrow> reassembler_ok R"
  by (auto simp: Reassembler_init_def reassembler_ok_def split: if_splits)

lemma run_add_ok:
  "reassembler_ok R \<Longrightarrow> \<forall>(t, f) \<in> set fs. frame_ok f \<Longrightarrow> run_add fs R = (rs, R') \<Longrightarrow>
   (\<forall>r \<in> set rs. raises_only is_protocol_error r) \<and> reassembler_ok R'"
proof (induction fs R arbitrary: rs R' rule: run_add.induct)
  case (2 now f fs R)
  obtain r R1 rs1 R2 where e: "Reassembler_add now f R = (r, R1)" "run_add fs R1 = (rs1, R2)"
    by (metis surj_pair)
  then show ?case
    using 2 Reassembler_add_ok [OF 2(2) _ e(1)] by auto
qed simp

section \<open>Collecting the fragments of one message\<close>

definition carries :: "frame \<Rightarrow> fragment_spec \<Rightarrow> bool" where
  "carries f s \<longleftrightarrow>
     fr_payload f = fs_payload s \<and> fr_message_len f = fs_message_len s \<and>
     fr_fragment_index f = fs_fragment_index s \<and> fr_fragment_count f = fs_fragment_count s \<and>
     fr_flags f = fs_flags s"

text \<open>A frame that carries a fragment the sender cut from message \<open>p\<close>.\<close>

definition genuine :: "nat \<Rightarrow> bytes \<Rightarrow> frame \<Rightarrow> bool" where
  "genuine sz p f \<longleftrightarrow>
     (\<exists>fs. fragment_message p (int sz) True = Inr fs \<and> (\<exists>s \<in> set fs. carries f s))"

definition legal_index :: "nat \<Rightarrow> bytes \<Rightarrow> int \<Rightarrow> bool" where
  "legal_index sz p i \<longleftrightarrow>
     0 \<le> i \<and> (i < int (fragment_count sz p) \<or>
                i = int (fragment_count sz p) \<and> 1 < fragment_count sz p)"

lemma genuineD:
  assumes "genuine sz p f"
  shows "fr_message_len f = int (length p)" "fr_fragment_count f = int (fragment_count sz p)"
    "legal_index sz p (fr_fragment_index f)" "0 < sz"
    "is_parity f \<longleftrightarrow> fr_fragment_index f = int (fragment_count sz p)"
    "is_parity f \<Longrightarrow> fr_payload f = parity_bytes sz p"
    "\<not> is_parity f \<Longrightarrow> fr_payload f = piece sz p (nat (fr_fragment_index f))"
  using assms
  by (auto simp: genuine_def fragment_message_iff carries_def legal_index_def is_parity_def
      FLAG_PARITY_def has_parity_def split: if_splits)

definition collected :: "nat \<Rightarrow> bytes \<Rightarrow> int set \<Rightarrow> assembly \<Rightarrow> bool" where
  "collected sz p G a \<longleftrightarrow>
     as_message_len a = int (length p) \<and> as_fragment_count a = int (fragment_count sz p) \<and>
     dict_ok (as_fragments a) \<and>
     (\<forall>i. map_of (as_fragments a) i =
        (if i \<in> G \<and> i < int (fragment_count sz p) then Some (piece sz p (nat i)) else None)) \<and>
     as_parity a = (if int (fragment_count sz p) \<in> G then Some (parity_bytes sz p) else None)"

lemma collected_keys:
  "collected sz p G a \<Longrightarrow> fst ` set (as_fragments a) = {i \<in> G. i < int (fragment_count sz p)}"
  by (auto simp: collected_def dom_map_of_conv_image_fst [symmetric] dom_def split: if_splits)

lemma collected_length:
  "collected sz p G a \<Longrightarrow>
   length (as_fragments a) = card {i \<in> G. i < int (fragment_count sz p)}"
  using length_dict [of "as_fragments a"] collected_keys [of sz p G a] by (simp add: collected_def)

lemma store_genuine:
  assumes "genuine sz p f" "collected sz p G a"
  obtains a' where "store_fragment f a = Inr a'" "collected sz p (insert (fr_fragment_index f) G) a'"
    "as_updated_at a' = as_updated_at a"
proof (cases "is_parity f")
  case True
  note g = genuineD [OF assms(1)]
  let ?a = "a\<lparr>as_parity := Some (fr_payload f)\<rparr>"
  have "collected sz p (insert (fr_fragment_index f) G) ?a"
    using assms(2) g(5,6) True by (auto simp: collected_def)
  moreover have "store_fragment f a = Inr ?a"
    using assms(2) g(6) True by (auto simp: store_fragment_def collected_def split: if_splits)
  ultimately show thesis using that by simp
next
  case False
  note g = genuineD [OF assms(1)]
  let ?i = "fr_fragment_index f"
  let ?a = "a\<lparr>as_fragments := dict_put ?i (fr_payload f) (as_fragments a)\<rparr>"
  have i: "?i < int (fragment_count sz p)"
    using g(3,5) False by (auto simp: legal_index_def)
  have "collected sz p (insert ?i G) ?a"
    using assms(2) g(7) False i by (auto simp: collected_def dict_simps dict_ok_put)
  moreover have "store_fragment f a = Inr ?a"
    using assms(2) g(7) False i by (auto simp: store_fragment_def collected_def split: option.splits)
  ultimately show thesis using that by simp
qed

lemma joined_message:
  assumes "0 < sz" "as_message_len a = int (length p)"
    and "as_fragment_count a = int (fragment_count sz p)"
    and "\<And>j. j < fragment_count sz p \<Longrightarrow> map_of (as_fragments a) (int j) = Some (piece sz p j)"
  shows "joined a msg = Inr p"
proof -
  let ?n = "fragment_count sz p"
  have is_eq: "[0..int ?n - 1] = map int [0..<?n]"
    by (rule nth_equalityI) simp_all
  have "join_fragments (as_fragments a) (map int [0..<?n]) =
      Inr (concat (map (\<lambda>i. the (map_of (as_fragments a) i)) (map int [0..<?n])))"
    by (rule join_fragments_ok) (use assms(4) in \<open>auto simp: dict_has_iff\<close>)
  also have "map (\<lambda>i. the (map_of (as_fragments a) i)) (map int [0..<?n]) = map (piece sz p) [0..<?n]"
    using assms(4) by (simp add: comp_def)
  finally show ?thesis
    using assms concat_all_pieces [of sz p] by (simp add: joined_def is_eq)
qed


text \<open>
  With \<open>n\<close> fragments out of the \<open>n\<close> data fragments and the parity, the message is there.
\<close>

lemma assemble_waits:
  assumes "collected sz p G a" "finite G" "card G < fragment_count sz p"
    and "\<forall>i \<in> G. legal_index sz p i"
  shows "assemble a = (Inr (None, False), a)"
proof -
  let ?n = "fragment_count sz p" and ?D = "{i \<in> G. i < int (fragment_count sz p)}"
  have le: "card ?D \<le> card G" by (rule card_mono) (use assms(2) in auto)
  have par: "card ?D < card G" if "int ?n \<in> G"
    by (rule psubset_card_mono) (use assms(2) that in auto)
  have len: "length (as_fragments a) = card ?D" by (rule collected_length [OF assms(1)])
  have c: "as_fragment_count a = int ?n"
    "as_parity a = (if int ?n \<in> G then Some (parity_bytes sz p) else None)"
    using assms(1) by (simp_all add: collected_def)
  show ?thesis
    using len c le par assms(3) by (auto simp: assemble_def)
qed

lemma collected_pieces:
  assumes C: "collected sz p G a" and m: "m < fragment_count sz p"
    and D: "{i \<in> G. i < int (fragment_count sz p)} = int ` ({0..<fragment_count sz p} - {m})"
  shows "mset (map snd (as_fragments a)) =
    mset (map (piece sz p) (remove1 m [0..<fragment_count sz p]))"
proof -
  let ?frs = "as_fragments a" and ?n = "fragment_count sz p"
  have keys: "fst ` set ?frs = int ` ({0..<?n} - {m})"
    using collected_keys [OF C] D by simp
  have ok: "dict_ok ?frs" using C by (simp add: collected_def)
  have "snd x = piece sz p (nat (fst x))" if "x \<in> set ?frs" for x
  proof -
    have "map_of ?frs (fst x) = Some (snd x)"
      using that ok by (simp add: dict_ok_def)
    then show ?thesis using C by (auto simp: collected_def split: if_splits)
  qed
  then have snds: "map snd ?frs = map (piece sz p) (map (nat \<circ> fst) ?frs)" by simp
  have "inj_on nat (fst ` set ?frs)" by (auto simp: keys intro: inj_onI)
  then have "distinct (map (nat \<circ> fst) ?frs)"
    using ok by (simp add: dict_ok_def distinct_map comp_inj_on)
  moreover have "set (map (nat \<circ> fst) ?frs) = {0..<?n} - {m}"
  proof -
    have "set (map (nat \<circ> fst) ?frs) = nat ` (fst ` set ?frs)" by (simp add: image_comp)
    also have "\<dots> = {0..<?n} - {m}" by (simp add: keys image_image)
    finally show ?thesis .
  qed
  ultimately have "mset (map (nat \<circ> fst) ?frs) = mset (remove1 m [0..<?n])"
    by (subst set_eq_iff_mset_eq_distinct [symmetric]) auto
  then have "image_mset (piece sz p) (mset (map (nat \<circ> fst) ?frs)) =
      image_mset (piece sz p) (mset (remove1 m [0..<?n]))" by simp
  then show ?thesis by (simp only: snds mset_map)
qed

lemma recover_missing_piece:
  assumes C: "collected sz p G a" and m: "m < fragment_count sz p" and sz: "0 < sz"
    and D: "{i \<in> G. i < int (fragment_count sz p)} = int ` ({0..<fragment_count sz p} - {m})"
  shows "fst (recover_missing a (parity_bytes sz p)) = Inr (Some p, True)"
proof -
  let ?frs = "as_fragments a" and ?n = "fragment_count sz p"
  have c: "as_fragment_count a = int ?n" "as_message_len a = int (length p)"
    using C by (simp_all add: collected_def)
  have has: "dict_has ?frs i \<longleftrightarrow> i \<in> int ` ({0..<?n} - {m})" for i
    using collected_keys [OF C] D by (simp add: dict_has_def)
  have "find (\<lambda>i. \<not> dict_has ?frs i) [0..int ?n - 1] = Some (int m)"
    using m by (auto simp: find_Some_iff has intro!: exI [of _ m])
  note missing = this
  note ms = collected_pieces [OF C m D]
  obtain r where r: "xor_pieces (parity_bytes sz p) (map snd ?frs) = Inr r" "length r = sz"
    "take (length (piece sz p m)) r = piece sz p m"
    by (rule parity_recovers [OF ms m])
  have "\<forall>q \<in> set (map snd ?frs). length q \<le> sz"
    using arg_cong [OF ms, of set_mset] by auto
  then have rec: "recover sz (parity_bytes sz p) (map snd ?frs) = Inr r"
    using recover_eq [of "map snd ?frs" sz "parity_bytes sz p"] r(1) by simp
  let ?e = "if int m < int ?n - 1 then int sz else int (length p) - int sz * (int ?n - 1)"
  have e: "?e = int (length (piece sz p m))"
  proof (cases "Suc m < ?n")
    case True
    then show ?thesis using length_piece_full [OF sz True] by simp
  next
    case False
    then have "m = ?n - 1" "int (?n - 1) = int ?n - 1" using m by linarith+
    then show ?thesis
      using length_piece_last [OF sz, of p] last_offset_le [OF sz, of p] by simp
  qed
  let ?a1 = "a\<lparr>as_fragments := dict_put (int m) (piece sz p m) ?frs\<rparr>"
  have "joined ?a1 msg = Inr p" for msg
  proof (rule joined_message [OF sz])
    fix j assume "j < ?n"
    then have "map_of ?frs (int j) = Some (piece sz p j)" if "j \<noteq> m"
      using that C D by (auto simp: collected_def set_eq_iff)
    then show "map_of (as_fragments ?a1) (int j) = Some (piece sz p j)"
      by (simp add: dict_simps)
  qed (simp_all add: c)
  moreover have "length (piece sz p m) \<le> sz" by simp
  ultimately show ?thesis
    using sz r(3) e
    by (simp add: recover_missing_def Let_def missing parity_bytes_ok(2) rec c
        del: length_piece_le cong: if_cong)
qed


lemma legal_finite: "\<forall>i \<in> G. legal_index sz p i \<Longrightarrow> finite G"
  by (rule finite_subset [of G "{0..int (fragment_count sz p)}"]) (auto simp: legal_index_def)

lemma assemble_done:
  assumes C: "collected sz p G a" and sz: "0 < sz" and card: "card G = fragment_count sz p"
    and legal: "\<forall>i \<in> G. legal_index sz p i"
  obtains recovered where "fst (assemble a) = Inr (Some p, recovered)"
proof -
  let ?n = "fragment_count sz p" and ?D = "{i \<in> G. i < int (fragment_count sz p)}"
  have fin: "finite G" by (rule legal_finite [OF legal])
  have c: "as_fragment_count a = int ?n" "as_message_len a = int (length p)"
    "as_parity a = (if int ?n \<in> G then Some (parity_bytes sz p) else None)"
    using C by (simp_all add: collected_def)
  have len: "length (as_fragments a) = card ?D" by (rule collected_length [OF C])
  have sub: "?D \<subseteq> {0..<int ?n}" using legal by (auto simp: legal_index_def)
  show thesis
  proof (cases "int ?n \<in> G")
    case True
    have "?D = G - {int ?n}" using legal by (auto simp: legal_index_def)
    then have D: "card ?D = ?n - 1" using True fin card by simp
    have "card ({0..<int ?n} - ?D) = 1"
      using card_Diff_subset [OF _ sub] fin D fragment_count_pos [of sz p] by simp
    then obtain i where i: "{0..<int ?n} - ?D = {i}" by (metis One_nat_def card_1_singletonE)
    then have i': "0 \<le> i" "i < int ?n" by auto
    have "?D = {0..<int ?n} - {i}" using i sub by blast
    also have "\<dots> = int ` {0..<?n} - int ` {nat i}"
      using i' by (simp add: image_int_atLeastLessThan)
    also have "\<dots> = int ` ({0..<?n} - {nat i})" by auto
    finally have eq: "?D = int ` ({0..<?n} - {nat i})" .
    have "fst (recover_missing a (parity_bytes sz p)) = Inr (Some p, True)"
      by (rule recover_missing_piece [OF C _ sz eq]) (use i' in linarith)
    then show thesis
      using that c True D len fragment_count_pos [of sz p] by (simp add: assemble_def of_nat_diff)
  next
    case False
    then have "?D = G" using legal by (auto simp: legal_index_def)
    then have D: "card ?D = ?n" using card by simp
    have "?D = {0..<int ?n}"
      by (rule card_subset_eq [OF _ sub]) (simp_all add: D)
    then have "map_of (as_fragments a) (int j) = Some (piece sz p j)" if "j < ?n" for j
      using that C by (auto simp: collected_def set_eq_iff)
    then have "joined a msg = Inr p" for msg
      by (rule joined_message [OF sz c(2,1)])
    then show thesis using that [of False] c(1) len D by (simp add: assemble_def)
  qed
qed

section \<open>One message among others\<close>

text \<open>
  What the tables say of a key whose fragments \<open>G\<close> have arrived since time \<open>t0\<close>: nothing yet,
  an assembly that holds exactly them, or an entry in the table of completed messages.
\<close>

definition tracks :: "rat \<Rightarrow> nat \<Rightarrow> bytes \<Rightarrow> key \<Rightarrow> int set \<Rightarrow> reassembler \<Rightarrow> bool" where
  "tracks t0 sz p k G R \<longleftrightarrow>
     (if G = {} then map_of (ra_assemblies R) k = None \<and> map_of (ra_completed R) k = None
      else if card G < fragment_count sz p then
        map_of (ra_completed R) k = None \<and>
        (\<exists>a. map_of (ra_assemblies R) k = Some a \<and> collected sz p G a \<and> t0 \<le> as_updated_at a)
      else \<exists>t. map_of (ra_completed R) k = Some t \<and> t0 \<le> t)"

text \<open>All keys in use are among \<open>K\<close>, which the tables can hold; nothing is too old.\<close>

definition roomy :: "rat \<Rightarrow> rat \<Rightarrow> key set \<Rightarrow> reassembler \<Rightarrow> bool" where
  "roomy t0 t1 K R \<longleftrightarrow>
     finite K \<and> int (card K) \<le> ra_max_messages R \<and>
     fst ` set (ra_assemblies R) \<subseteq> K \<and> fst ` set (ra_completed R) \<subseteq> K \<and>
     dict_ok (ra_assemblies R) \<and> dict_ok (ra_completed R) \<and>
     t1 - t0 \<le> ra_timeout_seconds R \<and> t1 - t0 \<le> ra_completed_ttl_seconds R"

lemma dict_get_filter_keeps:
  "map_of d k = Some v \<Longrightarrow> dict_ok d \<Longrightarrow> P (k, v) \<Longrightarrow> map_of (filter P d) k = Some v"
  by (rule map_of_is_SomeI) (auto simp: dict_ok_def distinct_map_filter dest: map_of_SomeD)

lemma dict_get_subset_None:
  "map_of d k = None \<Longrightarrow> set d' \<subseteq> set d \<Longrightarrow> map_of d' k = None"
  by (force simp: map_of_eq_None_iff)

lemma keys_subset: "set d' \<subseteq> set d \<Longrightarrow> fst ` set d \<subseteq> K \<Longrightarrow> fst ` set d' \<subseteq> K"
  by blast

lemma roomy_purge:
  assumes "roomy t0 t1 K R"
  shows "roomy t0 t1 K (snd (purge now R))"
proof -
  have "fst ` set (ra_completed (snd (purge now R))) \<subseteq> K"
    using assms keys_subset [OF set_drop_stale] by (simp add: roomy_def purge_completed)
  moreover have "fst ` set (ra_assemblies (snd (purge now R))) \<subseteq> K"
    using assms by (auto simp: roomy_def purge_assemblies)
  ultimately show ?thesis
    using assms by (simp add: roomy_def purge_assemblies purge_completed dict_ok_filter
        dict_ok_drop_stale)
qed

lemma tracks_purge:
  assumes "roomy t0 t1 K R" "tracks t0 sz p k G R" "now \<le> t1"
  shows "tracks t0 sz p k G (snd (purge now R))"
proof -
  let ?R = "snd (purge now R)"
  have ok: "dict_ok (ra_assemblies R)" "dict_ok (ra_completed R)"
    and lim: "t1 - t0 \<le> ra_timeout_seconds R" "t1 - t0 \<le> ra_completed_ttl_seconds R"
    using assms(1) by (simp_all add: roomy_def)
  have "map_of (ra_assemblies ?R) k = Some a"
    if "map_of (ra_assemblies R) k = Some a" "t0 \<le> as_updated_at a" for a
    unfolding purge_assemblies [OF ok(1)]
    by (rule dict_get_filter_keeps [OF that(1) ok(1)]) (use that(2) lim assms(3) in simp)
  moreover have "map_of (ra_completed ?R) k = Some t"
    if "map_of (ra_completed R) k = Some t" "t0 \<le> t" for t
    unfolding purge_completed
    by (rule drop_stale_keeps [OF that(1) ok(2)]) (use that(2) lim assms(3) in simp)
  moreover have "map_of (ra_assemblies ?R) k = None" if "map_of (ra_assemblies R) k = None"
    using dict_get_subset_None [OF that] by (simp add: purge_assemblies [OF ok(1)] subset_iff)
  moreover have "map_of (ra_completed ?R) k = None" if "map_of (ra_completed R) k = None"
    using dict_get_subset_None [OF that] set_drop_stale by (simp add: purge_completed)
  ultimately show ?thesis
    using assms(2) by (auto simp: tracks_def split: if_splits)
qed


lemma roomy_make_room:
  assumes "roomy t0 t1 K R" "k \<in> K" "map_of (ra_assemblies R) k = None"
  shows "make_room R = Inr R"
proof -
  have "fst ` set (ra_assemblies R) \<subset> K"
    using assms by (auto simp: roomy_def map_of_eq_None_iff)
  then have "card (fst ` set (ra_assemblies R)) < card K"
    using assms(1) by (auto simp: roomy_def intro: psubset_card_mono)
  then show ?thesis
    using assms(1) length_dict [of "ra_assemblies R"] by (simp add: make_room_def roomy_def)
qed

lemma roomy_put_assembly:
  "roomy t0 t1 K R \<Longrightarrow> k \<in> K \<Longrightarrow> roomy t0 t1 K (put_assembly k a R)"
  using image_mono [OF set_put [of k a "ra_assemblies R"], of fst]
  by (auto simp: roomy_def put_assembly_def dict_ok_put)

lemma completed_table:
  assumes "roomy t0 t1 K R" "k \<in> K"
  shows "ra_completed (complete_message now k R) =
      dict_move_to_end k (dict_put k now (ra_completed R))"
    and "roomy t0 t1 K (complete_message now k R)"
proof -
  let ?c = "dict_move_to_end k (dict_put k now (ra_completed R))"
  have ok: "dict_ok ?c" using assms(1) by (auto simp: roomy_def)
  have keys: "fst ` set ?c \<subseteq> K"
  proof -
    have in_K: "k' \<in> K" if "dict_has (ra_completed R) k'" for k'
      using that assms(1) by (auto simp: roomy_def dict_has_def)
    have "k' \<in> K" if "dict_has ?c k'" for k'
      using that assms(2) in_K [of k'] by (auto simp: dict_simps)
    then show ?thesis by (auto simp: dict_has_def)
  qed
  have "int (length ?c) \<le> int (card K)"
    using keys card_mono [OF _ keys] length_dict [OF ok] assms(1) by (simp add: roomy_def)
  then have "int (length ?c) \<le> ra_max_messages R * 2"
    using assms(1) by (simp add: roomy_def)
  then show *: "ra_completed (complete_message now k R) = ?c"
    by (simp add: complete_message_def trim_id)
  have "fst ` set (dict_del k (ra_assemblies R)) \<subseteq> K"
    using assms(1) by (auto simp: roomy_def AList.delete_eq)
  then show "roomy t0 t1 K (complete_message now k R)"
    using assms(1) ok keys * by (auto simp: roomy_def complete_message_def)
qed

lemma complete_assemblies:
  "ra_assemblies (complete_message now k R) = dict_del k (ra_assemblies R)"
  by (simp add: complete_message_def)

lemma put_assembly_simps:
  "ra_assemblies (put_assembly k a R) = dict_put k a (ra_assemblies R)"
  "ra_completed (put_assembly k a R) = ra_completed R"
  by (simp_all add: put_assembly_def)

lemma add_to_other:
  assumes "roomy t0 t1 K R" "kf \<in> K" "k \<noteq> kf" "add_to now kf f a R = (r, R')"
  shows "roomy t0 t1 K R' \<and> map_of (ra_assemblies R') k = map_of (ra_assemblies R) k \<and>
    map_of (ra_completed R') k = map_of (ra_completed R) k"
proof -
  obtain b where "R' = put_assembly kf b R \<or> R' = complete_message now kf (put_assembly kf b R)"
    using assms(4) by (auto simp: add_to_def Let_def split: sum.splits prod.splits option.splits)
  moreover have room: "roomy t0 t1 K (put_assembly kf b R)"
    by (rule roomy_put_assembly [OF assms(1,2)])
  ultimately show ?thesis
    using completed_table [OF room assms(2)] assms(3)
    by (auto simp: complete_assemblies put_assembly_simps dict_simps)
qed


text \<open>Frames of other messages do not disturb a key.\<close>

lemma Reassembler_add_other:
  assumes R: "roomy t0 t1 K R" and "frame_key f \<in> K" "k \<noteq> frame_key f" "now \<le> t1"
    and T: "tracks t0 sz p k G R" and A: "Reassembler_add now f R = (r, R')"
  shows "roomy t0 t1 K R' \<and> tracks t0 sz p k G R'"
proof -
  let ?R = "snd (purge now R)" and ?kf = "frame_key f"
  have room: "roomy t0 t1 K ?R" by (rule roomy_purge [OF R])
  have *: "roomy t0 t1 K R' \<and> map_of (ra_assemblies R') k = map_of (ra_assemblies ?R) k \<and>
    map_of (ra_completed R') k = map_of (ra_completed ?R) k"
  proof (cases "dict_has (ra_completed ?R) ?kf")
    case True
    have "fst ` set (dict_move_to_end ?kf (ra_completed ?R)) = fst ` set (ra_completed ?R)"
      by (metis dict_get_move_to_end dom_map_of_conv_image_fst ext)
    then have "roomy t0 t1 K (?R\<lparr>ra_completed := dict_move_to_end ?kf (ra_completed ?R)\<rparr>)"
      using room by (simp add: roomy_def dict_ok_move_to_end)
    moreover have "R' = ?R\<lparr>ra_completed := dict_move_to_end ?kf (ra_completed ?R)\<rparr>"
      using A True by (simp add: Reassembler_add_def Let_def)
    ultimately show ?thesis by (simp add: dict_simps)
  next
    case new: False
    show ?thesis
    proof (cases "dict_get (ra_assemblies ?R) ?kf")
      case None
      note mr = roomy_make_room [OF room assms(2) None]
      obtain a where "add_to now ?kf f a ?R = (r, R')"
        using A new None mr by (auto simp: Reassembler_add_def Let_def)
      then show ?thesis by (rule add_to_other [OF room assms(2,3)])
    next
      case (Some a)
      show ?thesis
      proof (cases "as_message_len a \<noteq> fr_message_len f \<or> as_fragment_count a \<noteq> fr_fragment_count f")
        case True
        then show ?thesis using A new Some room by (auto simp: Reassembler_add_def Let_def)
      next
        case False
        then have "add_to now ?kf f a ?R = (r, R')"
          using A new Some by (auto simp: Reassembler_add_def Let_def)
        then show ?thesis by (rule add_to_other [OF room assms(2,3)])
      qed
    qed
  qed
  then show ?thesis
    using tracks_purge [OF R T assms(4)] by (simp add: tracks_def)
qed

text \<open>A frame of the message itself.\<close>

lemma add_to_own:
  assumes room: "roomy t0 t1 K R" and k: "k \<in> K" and now: "t0 \<le> now"
    and f: "genuine sz p f" and C: "collected sz p G a"
    and legal: "\<forall>i \<in> G. legal_index sz p i" and G: "card G < fragment_count sz p"
    and new: "map_of (ra_completed R) k = None"
    and A: "add_to now k f a R = (r, R')"
  shows "roomy t0 t1 K R' \<and> tracks t0 sz p k (insert (fr_fragment_index f) G) R' \<and>
    (\<exists>res. r = Inr res \<and> \<not> rr_duplicate res \<and>
       rr_payload res = (if card (insert (fr_fragment_index f) G) < fragment_count sz p
                         then None else Some p))"
proof -
  let ?G = "insert (fr_fragment_index f) G"
  note g = genuineD [OF f]
  have legal': "\<forall>i \<in> ?G. legal_index sz p i" using legal g(3) by simp
  have fin: "finite G" "finite ?G" using legal_finite [OF legal] by simp_all
  have le: "card ?G \<le> fragment_count sz p"
    using card_insert_le_m1 [of "fragment_count sz p" G] G by (simp add: card_insert_if fin)
  have "collected sz p G (a\<lparr>as_updated_at := now\<rparr>)" using C by (simp add: collected_def)
  then obtain b where b: "store_fragment f (a\<lparr>as_updated_at := now\<rparr>) = Inr b"
    "collected sz p ?G b" "as_updated_at b = now"
    using store_genuine [OF f] by (metis assembly.ext_inject assembly.surjective assembly.update_convs(4) assembly.select_convs(4))
  have put: "roomy t0 t1 K (put_assembly k c R)" for c
    by (rule roomy_put_assembly [OF room k])
  show ?thesis
  proof (cases "card ?G < fragment_count sz p")
    case True
    note w = assemble_waits [OF b(2) fin(2) True legal']
    then show ?thesis
      using A b True put now new
      by (auto simp: add_to_def Let_def tracks_def put_assembly_simps dict_simps)
  next
    case False
    then have "card ?G = fragment_count sz p" using le by simp
    then obtain rec where rec: "fst (assemble b) = Inr (Some p, rec)"
      using assemble_done [OF b(2) g(4) _ legal'] by metis
    obtain c where "assemble b = (Inr (Some p, rec), c)" using rec by (cases "assemble b") simp
    then show ?thesis
      using A b(1) False put now completed_table [OF put k]
      by (auto simp: add_to_def Let_def tracks_def put_assembly_simps dict_simps)
  qed
qed


lemma Reassembler_add_own:
  assumes R: "roomy t0 t1 K R" and k: "frame_key f \<in> K" and now: "t0 \<le> now" "now \<le> t1"
    and f: "genuine sz p f" and legal: "\<forall>i \<in> G. legal_index sz p i"
    and T: "tracks t0 sz p (frame_key f) G R" and A: "Reassembler_add now f R = (r, R')"
  shows "roomy t0 t1 K R' \<and> tracks t0 sz p (frame_key f) (insert (fr_fragment_index f) G) R' \<and>
    (\<exists>res. r = Inr res \<and> (rr_duplicate res \<longleftrightarrow> fragment_count sz p \<le> card G) \<and>
       rr_payload res = (if card G < fragment_count sz p \<and>
           fragment_count sz p \<le> card (insert (fr_fragment_index f) G) then Some p else None))"
proof -
  let ?R = "snd (purge now R)" and ?k = "frame_key f"
  have room: "roomy t0 t1 K ?R" by (rule roomy_purge [OF R])
  have tr: "tracks t0 sz p ?k G ?R" by (rule tracks_purge [OF R T now(2)])
  have fin: "finite G" by (rule legal_finite [OF legal])
  note g = genuineD [OF f]
  consider (empty) "G = {}" | (some) "G \<noteq> {}" "card G < fragment_count sz p"
    | (finished) "fragment_count sz p \<le> card G" using fin by linarith
  then show ?thesis
  proof cases
    case empty
    let ?a = "\<lparr>as_message_len = fr_message_len f, as_fragment_count = fr_fragment_count f,
      as_created_at = now, as_updated_at = now, as_fragments = [], as_parity = None\<rparr>"
    have abs: "map_of (ra_assemblies ?R) ?k = None" "map_of (ra_completed ?R) ?k = None"
      using tr empty by (simp_all add: tracks_def)
    note mr = roomy_make_room [OF room k abs(1)]
    have "add_to now ?k f ?a ?R = (r, R')"
      using A abs mr by (simp add: Reassembler_add_def Let_def dict_has_iff)
    moreover have "collected sz p G ?a" using g(1,2) empty by (simp add: collected_def)
    moreover have "card G < fragment_count sz p" using empty by simp
    ultimately show ?thesis
      using add_to_own [OF room k now(1) f _ legal _ abs(2)] by (fastforce simp: not_less)
  next
    case some
    then obtain a where a: "map_of (ra_completed ?R) ?k = None"
      "map_of (ra_assemblies ?R) ?k = Some a" "collected sz p G a"
      using tr by (auto simp: tracks_def)
    then have "add_to now ?k f a ?R = (r, R')"
      using A g(1,2) by (simp add: Reassembler_add_def Let_def dict_has_iff collected_def)
    then show ?thesis
      using add_to_own [OF room k now(1) f a(3) legal some(2) a(1)] some(2) by (auto simp: not_less)
  next
    case finished
    then have ne: "G \<noteq> {}" using fragment_count_pos [of sz p] by (auto simp del: fragment_count_pos)
    then obtain t where t: "map_of (ra_completed ?R) ?k = Some t" "t0 \<le> t"
      using tr finished by (auto simp: tracks_def)
    have R': "R' = ?R\<lparr>ra_completed := dict_move_to_end ?k (ra_completed ?R)\<rparr>"
      "r = Inr \<lparr>rr_payload = None, rr_duplicate = True, rr_recovered_by_fec = False\<rparr>"
      using A t by (simp_all add: Reassembler_add_def Let_def dict_has_iff)
    have "fst ` set (dict_move_to_end ?k (ra_completed ?R)) = fst ` set (ra_completed ?R)"
      by (metis dict_get_move_to_end dom_map_of_conv_image_fst ext)
    then have "roomy t0 t1 K R'" using room by (simp add: R' roomy_def dict_ok_move_to_end)
    moreover have "fragment_count sz p \<le> card (insert (fr_fragment_index f) G)"
      using finished card_mono [of "insert (fr_fragment_index f) G" G] fin by fastforce
    ultimately show ?thesis
      using t finished by (auto simp: R' tracks_def dict_simps)
  qed
qed

section \<open>Runs\<close>

text \<open>What a run hands over for one key, and the indices of the fragments that arrived for it.\<close>

fun deliveries :: "key \<Rightarrow> (rat \<times> frame) list \<Rightarrow> reassembly_result result list \<Rightarrow> bytes list" where
  "deliveries k ((t, f) # fs) (r # rs) =
     (case r of
        Inr res \<Rightarrow>
          (case rr_payload res of Some p \<Rightarrow> if frame_key f = k then [p] else [] | None \<Rightarrow> [])
      | Inl _ \<Rightarrow> []) @ deliveries k fs rs"
| "deliveries k _ _ = []"

definition arrived :: "key \<Rightarrow> (rat \<times> frame) list \<Rightarrow> int set" where
  "arrived k fs = {fr_fragment_index f |t f. (t, f) \<in> set fs \<and> frame_key f = k}"

lemma arrived_Cons:
  "arrived k ((t, f) # fs) =
    (if frame_key f = k then insert (fr_fragment_index f) (arrived k fs) else arrived k fs)"
  by (auto simp: arrived_def)

lemma arrived_Nil [simp]: "arrived k [] = {}"
  by (simp add: arrived_def)

lemma finite_arrived: "finite (arrived k fs)"
  by (induction fs) (auto simp: arrived_Cons)

lemma run_delivers:
  assumes "roomy t0 t1 K R" "tracks t0 sz p k G R" "\<forall>i \<in> G. legal_index sz p i"
    and "\<forall>(t, f) \<in> set fs. t0 \<le> t \<and> t \<le> t1 \<and> frame_key f \<in> K \<and>
           (frame_key f = k \<longrightarrow> genuine sz p f)"
    and "run_add fs R = (rs, R')"
  shows "deliveries k fs rs = (if card G < fragment_count sz p \<and>
        fragment_count sz p \<le> card (G \<union> arrived k fs) then [p] else []) \<and>
    (\<forall>((t, f), r) \<in> set (zip fs rs). frame_key f = k \<longrightarrow> is_ok r)"
  using assms
proof (induction fs R arbitrary: G rs R' rule: run_add.induct)
  case (2 now f fs R)
  obtain r R1 rs1 where e: "Reassembler_add now f R = (r, R1)" "run_add fs R1 = (rs1, R')"
    "rs = r # rs1"
    using "2.prems"(5) by (auto split: prod.splits)
  have now: "t0 \<le> now" "now \<le> t1" "frame_key f \<in> K" using "2.prems"(4) by auto
  have rest: "\<forall>(t, f) \<in> set fs. t0 \<le> t \<and> t \<le> t1 \<and> frame_key f \<in> K \<and>
      (frame_key f = k \<longrightarrow> genuine sz p f)"
    using "2.prems"(4) by simp
  note IH = "2.IH" [OF e(1) [symmetric] _ _ _ rest e(2)]
  show ?case
  proof (cases "frame_key f = k")
    case False
    then have "roomy t0 t1 K R1 \<and> tracks t0 sz p k G R1"
      using Reassembler_add_other [OF "2.prems"(1) now(3) _ now(2) "2.prems"(2) e(1)] by simp
    then show ?thesis
      using IH [OF _ _ "2.prems"(3)] False
      by (auto simp: e(3) arrived_Cons split: sum.splits option.splits)
  next
    case True
    let ?G = "insert (fr_fragment_index f) G"
    have f: "genuine sz p f" using "2.prems"(4) True by simp
    have legal: "\<forall>i \<in> ?G. legal_index sz p i" using "2.prems"(3) genuineD(3) [OF f] by simp
    have fin: "finite (?G \<union> arrived k fs)"
      using legal_finite [OF legal] finite_arrived by simp
    have tr: "tracks t0 sz p (frame_key f) G R" using "2.prems"(2) True by simp
    obtain res where own: "roomy t0 t1 K R1" "tracks t0 sz p k ?G R1" "r = Inr res"
      "rr_payload res = (if card G < fragment_count sz p \<and> fragment_count sz p \<le> card ?G
         then Some p else None)"
      using Reassembler_add_own [OF "2.prems"(1) now(3,1,2) f "2.prems"(3) tr e(1)] True by auto
    have mono: "card G \<le> card ?G" "card ?G \<le> card (?G \<union> arrived k fs)"
      by (rule card_mono; use fin in auto)+
    have un: "?G \<union> arrived k fs = G \<union> arrived k ((now, f) # fs)"
      using True by (simp add: arrived_Cons)
    show ?thesis
      using IH [OF own(1,2) legal] own(3,4) mono True
      by (auto simp: e(3) un [symmetric])
  qed
qed simp


text \<open>A completed key stays completed while its entry is young and the table has room.\<close>

definition settled :: "key \<Rightarrow> rat \<Rightarrow> key set \<Rightarrow> reassembler \<Rightarrow> bool" where
  "settled k t K R \<longleftrightarrow>
     reassembler_ok R \<and> map_of (ra_completed R) k = Some t \<and>
     finite K \<and> fst ` set (ra_completed R) \<subseteq> K \<and> int (card K) \<le> ra_max_messages R * 2"

lemma settled_same_completed:
  "settled k t K R \<Longrightarrow> reassembler_ok R' \<Longrightarrow> ra_completed R' = ra_completed R \<Longrightarrow>
   ra_max_messages R' = ra_max_messages R \<Longrightarrow> settled k t K R'"
  by (simp add: settled_def)

lemma add_to_completed:
  assumes "add_to now kf f a R = (r, R')"
  shows "ra_max_messages R' = ra_max_messages R \<and>
    (ra_completed R' = ra_completed R \<or>
     ra_completed R' = trim (ra_max_messages R * 2)
       (dict_move_to_end kf (dict_put kf now (ra_completed R))))"
  using assms
  by (auto simp: add_to_def Let_def put_assembly_def complete_message_def
      split: sum.splits prod.splits option.splits)

lemma trim_settled:
  assumes "settled k t K R" "kf \<in> K" "k \<noteq> kf"
  shows "trim (ra_max_messages R * 2) (dict_move_to_end kf (dict_put kf now (ra_completed R))) =
      dict_move_to_end kf (dict_put kf now (ra_completed R))"
    and "fst ` set (dict_move_to_end kf (dict_put kf now (ra_completed R))) \<subseteq> K"
proof -
  let ?c = "dict_move_to_end kf (dict_put kf now (ra_completed R))"
  have ok: "dict_ok ?c" using assms(1) by (auto simp: settled_def reassembler_ok_def)
  have in_K: "k' \<in> K" if "dict_has (ra_completed R) k'" for k'
    using that assms(1) by (auto simp: settled_def dict_has_def)
  have "k' \<in> K" if "dict_has ?c k'" for k'
    using that assms(2) in_K [of k'] by (auto simp: dict_simps)
  then show keys: "fst ` set ?c \<subseteq> K" by (auto simp: dict_has_def)
  then have "int (length ?c) \<le> int (card K)"
    using card_mono [OF _ keys] length_dict [OF ok] assms(1) by (simp add: settled_def)
  then show "trim (ra_max_messages R * 2) ?c = ?c"
    using assms(1) by (simp add: settled_def trim_id)
qed

lemma settled_add:
  assumes S: "settled k t K R" and f: "frame_ok f" "frame_key f \<in> K"
    and now: "now - t \<le> ra_completed_ttl_seconds R"
    and A: "Reassembler_add now f R = (r, R')"
  shows "settled k t K R' \<and> ra_completed_ttl_seconds R' = ra_completed_ttl_seconds R \<and>
    (frame_key f = k \<longrightarrow> (\<exists>res. r = Inr res \<and> rr_duplicate res \<and> rr_payload res = None))"
proof -
  let ?R = "snd (purge now R)" and ?kf = "frame_key f"
  have ok: "reassembler_ok R" using S by (simp add: settled_def)
  have ok': "reassembler_ok R'" using Reassembler_add_ok [OF ok f(1) A] by simp
  have "map_of (ra_completed ?R) k = Some t"
    unfolding purge_completed
    by (rule drop_stale_keeps) (use S now in \<open>auto simp: settled_def reassembler_ok_def\<close>)
  moreover have "fst ` set (ra_completed ?R) \<subseteq> K"
    using S keys_subset [OF set_drop_stale] by (simp add: settled_def purge_completed)
  ultimately have S': "settled k t K ?R"
    using S purge_ok [OF ok] by (simp add: settled_def)
  have ttl: "ra_completed_ttl_seconds R' = ra_completed_ttl_seconds R"
    using A by (auto simp: Reassembler_add_def add_to_def make_room_def put_assembly_def Let_def
        complete_message_def split: sum.splits prod.splits option.splits if_splits)
  show ?thesis
  proof (cases "dict_has (ra_completed ?R) ?kf")
    case True
    then have R': "R' = ?R\<lparr>ra_completed := dict_move_to_end ?kf (ra_completed ?R)\<rparr>"
      "r = Inr \<lparr>rr_payload = None, rr_duplicate = True, rr_recovered_by_fec = False\<rparr>"
      using A by (simp_all add: Reassembler_add_def Let_def)
    have "fst ` set (dict_move_to_end ?kf (ra_completed ?R)) = fst ` set (ra_completed ?R)"
      by (metis dict_get_move_to_end dom_map_of_conv_image_fst ext)
    then show ?thesis
      using S' ok' ttl by (simp add: R' settled_def dict_simps)
  next
    case False
    then have ne: "k \<noteq> ?kf" using S' by (auto simp: settled_def dict_has_iff)
    have R1: "ra_completed R1 = ra_completed ?R \<and> ra_max_messages R1 = ra_max_messages ?R"
      if "make_room ?R = Inr R1" for R1
      using that by (auto simp: make_room_def split: if_splits option.splits)
    have "R' = ?R \<or> (\<exists>a R1. ra_completed R1 = ra_completed ?R \<and>
        ra_max_messages R1 = ra_max_messages ?R \<and> add_to now ?kf f a R1 = (r, R'))"
      using A False R1 by (auto simp: Reassembler_add_def Let_def split: option.splits sum.splits if_splits)
    then have "ra_max_messages R' = ra_max_messages ?R \<and> (ra_completed R' = ra_completed ?R \<or>
        ra_completed R' = trim (ra_max_messages ?R * 2)
          (dict_move_to_end ?kf (dict_put ?kf now (ra_completed ?R))))"
      using add_to_completed by fastforce
    then show ?thesis
      using S' ok' ttl ne trim_settled [OF S' f(2) ne, of now]
      by (elim conjE disjE) (simp_all add: settled_def dict_simps)
  qed
qed

lemma settled_run:
  assumes "settled k t K R"
    and "\<forall>(now, f) \<in> set fs. frame_ok f \<and> frame_key f \<in> K \<and> now - t \<le> ra_completed_ttl_seconds R"
    and "run_add fs R = (rs, R')"
  shows "deliveries k fs rs = []"
  using assms
proof (induction fs R arbitrary: rs R' rule: run_add.induct)
  case (2 now f fs R)
  obtain r R1 rs1 where e: "Reassembler_add now f R = (r, R1)" "run_add fs R1 = (rs1, R')"
    "rs = r # rs1"
    using "2.prems"(3) by (auto split: prod.splits)
  have step: "settled k t K R1 \<and> ra_completed_ttl_seconds R1 = ra_completed_ttl_seconds R \<and>
    (frame_key f = k \<longrightarrow> (\<exists>res. r = Inr res \<and> rr_duplicate res \<and> rr_payload res = None))"
    by (rule settled_add [OF "2.prems"(1) _ _ _ e(1)]) (use "2.prems"(2) in auto)
  then have "deliveries k fs rs1 = []"
    using "2.IH" [OF e(1) [symmetric] _ _ e(2)] "2.prems"(2) by auto
  then show ?case using step by (auto simp: e(3) split: sum.splits option.splits)
qed simp


lemma add_limit: "Reassembler_add now f R = (r, R') \<Longrightarrow> ra_max_messages R' = ra_max_messages R"
  by (auto simp: Reassembler_add_def add_to_def make_room_def put_assembly_def Let_def
      complete_message_def split: sum.splits prod.splits option.splits if_splits)

lemma run_add_limit: "run_add fs R = (rs, R') \<Longrightarrow> ra_max_messages R' = ra_max_messages R"
  by (induction fs R arbitrary: rs R' rule: run_add.induct) (auto split: prod.splits dest: add_limit)

section \<open>Properties\<close>

text \<open>
  C13. Delivery: of a message cut into \<open>n\<close> data fragments, any \<open>n\<close> distinct fragments, the parity
  among them or not, in any order, with repetitions and with frames of other messages in
  between, make the reassembler hand over exactly the message, once, and without an error; fewer
  hand over nothing. The arrivals must span at most the reassembly and the completion timeouts,
  and the tables must have room for the keys in use.
\<close>

theorem any_n_fragments_deliver_once:
  assumes "reassembler_ok R" "map_of (ra_assemblies R) k = None" "map_of (ra_completed R) k = None"
    and "run_add fs R = (rs, R')"
    and "\<forall>(t, f) \<in> set fs. t0 \<le> t \<and> t \<le> t1 \<and> (frame_key f = k \<longrightarrow> genuine sz p f)"
    and "t1 - t0 \<le> ra_timeout_seconds R" "t1 - t0 \<le> ra_completed_ttl_seconds R"
    and "int (card (set (map fst (ra_assemblies R) @ map fst (ra_completed R) @
           map (\<lambda>(t, f). frame_key f) fs))) \<le> ra_max_messages R"
  shows "deliveries k fs rs =
      (if fragment_count sz p \<le> card (arrived k fs) then [p] else []) \<and>
    (\<forall>((t, f), r) \<in> set (zip fs rs). frame_key f = k \<longrightarrow> is_ok r)"
proof -
  let ?K = "set (map fst (ra_assemblies R) @ map fst (ra_completed R) @
    map (\<lambda>(t, f). frame_key f) fs)"
  have room: "roomy t0 t1 ?K R"
    using assms(1,6,7,8) unfolding roomy_def reassembler_ok_def
    by (intro conjI) (simp_all add: Un_upper1 le_supI2)
  have tr: "tracks t0 sz p k {} R" using assms(2,3) by (simp add: tracks_def)
  have fs: "\<forall>(t, f) \<in> set fs. t0 \<le> t \<and> t \<le> t1 \<and> frame_key f \<in> ?K \<and>
      (frame_key f = k \<longrightarrow> genuine sz p f)"
    using assms(5) by fastforce
  show ?thesis using run_delivers [OF room tr _ fs assms(4)] by simp
qed

definition demo_reassembler :: reassembler where
  "demo_reassembler = \<lparr>ra_timeout_seconds = 30, ra_max_messages = 8,
     ra_completed_ttl_seconds = 120, ra_assemblies = [], ra_completed = []\<rparr>"

lemma demo_reassembler_init: "Reassembler_init 30 8 120 = Inr demo_reassembler"
  by (simp add: Reassembler_init_def demo_reassembler_def)

definition demo_fragment :: "fragment_spec \<Rightarrow> frame" where
  "demo_fragment s = demo_frame\<lparr>fr_kind := DATA_UP, fr_flags := fs_flags s, fr_session_id := 1,
     fr_message_id := 5, fr_message_len := fs_message_len s,
     fr_fragment_index := fs_fragment_index s, fr_fragment_count := fs_fragment_count s,
     fr_payload := fs_payload s\<rparr>"

text \<open>The parity first, then the second data fragment; the first one is late.\<close>

definition demo_arrivals :: "(rat \<times> frame) list" where
  "demo_arrivals = [(1, demo_fragment (parity_spec 256 demo_message)),
     (2, demo_fragment (data_spec 256 demo_message 1)),
     (3, demo_fragment (data_spec 256 demo_message 0))]"

lemma demo_arrivals_genuine:
  "\<forall>(t, f) \<in> set demo_arrivals. 1 \<le> t \<and> t \<le> 3 \<and> frame_key f = (1, 5) \<and> genuine 256 demo_message f"
  using demo_message_fragments
  by (simp add: demo_arrivals_def genuine_def carries_def demo_fragment_def frame_key_def)

theorem any_n_fragments_deliver_once_witness:
  "deliveries (1, 5) demo_arrivals (fst (run_add demo_arrivals demo_reassembler)) = [demo_message]"
proof -
  have "arrived (1, 5) demo_arrivals = {2, 1, 0}"
    by (simp add: demo_arrivals_def arrived_Cons demo_fragment_def frame_key_def
        fragment_count_def demo_message_def)
  then have "fragment_count 256 demo_message \<le> card (arrived (1, 5) demo_arrivals)"
    by (simp add: fragment_count_def demo_message_def)
  moreover have "int (card (set (map (\<lambda>(t, f). frame_key f) demo_arrivals))) \<le> 8"
    by (simp add: demo_arrivals_def demo_fragment_def frame_key_def)
  moreover have "\<forall>(t, f) \<in> set demo_arrivals. 1 \<le> t \<and> t \<le> 3 \<and>
      (frame_key f = (1, 5) \<longrightarrow> genuine 256 demo_message f)"
    using demo_arrivals_genuine by auto
  ultimately show ?thesis
    using any_n_fragments_deliver_once [of demo_reassembler "(1, 5)" demo_arrivals
        "fst (run_add demo_arrivals demo_reassembler)" "snd (run_add demo_arrivals demo_reassembler)"
        1 3 256 demo_message]
      init_reassembler_ok [OF demo_reassembler_init]
    by (simp add: demo_reassembler_def)
qed

text \<open>
  C14. Whatever frames the codec lets through, \<open>add\<close> raises nothing but \<open>ProtocolError\<close>, the receive
  loops' exception, and the tables stay within their limits: at most \<open>max_messages\<close> assemblies of
  at most 256 fragments and twice as many completed keys.
\<close>

theorem reassembler_bounded_and_safe:
  assumes "Reassembler_init timeout limit ttl = Inr R0" "\<forall>(t, f) \<in> set fs. frame_ok f"
    and "run_add fs R0 = (rs, R)"
  shows "(\<forall>r \<in> set rs. raises_only is_protocol_error r) \<and>
    int (length (ra_assemblies R)) \<le> limit \<and> int (length (ra_completed R)) \<le> 2 * limit \<and>
    (\<forall>(k, a) \<in> set (ra_assemblies R). length (as_fragments a) \<le> 256)"
proof -
  have "ra_max_messages R0 = limit"
    using assms(1) by (auto simp: Reassembler_init_def split: if_splits)
  moreover have "ra_max_messages R = ra_max_messages R0"
    by (rule run_add_limit [OF assms(3)])
  moreover have "length (as_fragments a) \<le> 256" if "assembly_ok a" for a
    using that card_mono [of "{0..<as_fragment_count a}" "fst ` set (as_fragments a)"]
      length_dict [of "as_fragments a"]
    unfolding assembly_ok_def MAX_FRAGMENTS_def by simp linarith
  ultimately show ?thesis
    using run_add_ok [OF init_reassembler_ok [OF assms(1)] assms(2,3)]
    by (auto simp: reassembler_ok_def)
qed

theorem reassembler_bounded_and_safe_witness:
  "length (ra_assemblies (snd (run_add [(1, demo_frame), (2, demo_frame)] demo_reassembler))) \<le> 8"
  using reassembler_bounded_and_safe [OF demo_reassembler_init,
      of "[(1, demo_frame), (2, demo_frame)]"] demo_frame_ok
  by (cases "run_add [(1, demo_frame), (2, demo_frame)] demo_reassembler") auto

text \<open>
  At most once: after a message was handed over, no sequence of frames, of whatever content,
  makes the reassembler hand over a message of the same session and identifier again, as long as
  the entry in the completed table is within its time to live and the table has room.
\<close>

theorem completed_not_delivered_again:
  assumes "reassembler_ok R" "map_of (ra_completed R) k = Some t" "run_add fs R = (rs, R')"
    and "\<forall>(now, f) \<in> set fs. frame_ok f \<and> now - t \<le> ra_completed_ttl_seconds R"
    and "int (card (set (map fst (ra_completed R) @ map (\<lambda>(t, f). frame_key f) fs)))
           \<le> 2 * ra_max_messages R"
  shows "deliveries k fs rs = []"
proof (rule settled_run [OF _ _ assms(3)])
  let ?K = "set (map fst (ra_completed R) @ map (\<lambda>(t, f). frame_key f) fs)"
  show "settled k t ?K R" using assms(1,2,5) by (simp add: settled_def mult.commute)
  show "\<forall>(now, f) \<in> set fs. frame_ok f \<and> frame_key f \<in> ?K \<and>
      now - t \<le> ra_completed_ttl_seconds R"
    using assms(4) by fastforce
qed

theorem completed_not_delivered_again_witness:
  "deliveries (frame_key demo_frame) [(4, demo_frame), (5, demo_frame)]
     (fst (run_add [(4, demo_frame), (5, demo_frame)]
       (demo_reassembler\<lparr>ra_completed := [(frame_key demo_frame, 3)]\<rparr>))) = []"
proof -
  let ?R = "demo_reassembler\<lparr>ra_completed := [(frame_key demo_frame, 3)]\<rparr>"
  have "reassembler_ok ?R" by (simp add: reassembler_ok_def demo_reassembler_def dict_ok_def)
  then show ?thesis
    using completed_not_delivered_again [of ?R "frame_key demo_frame" 3
        "[(4, demo_frame), (5, demo_frame)]"] demo_frame_ok
    by (cases "run_add [(4, demo_frame), (5, demo_frame)] ?R") (simp add: demo_reassembler_def)
qed

end
