(* ===== verification/Reliable_Sender.thy ===== *)
theory Reliable_Sender
  imports Py_Json
begin

text \<open>
  \<open>ReliableSender\<close> of \<open>h3ntun/reliability.py\<close>: a bounded queue of messages, the messages in flight,
  retransmission with exponential waiting times, and a congestion window that grows with
  acknowledgements and is halved by timeouts. Each method runs under the object's lock, so it is
  one step; the clock it reads is an argument. Times and the congestion window, floats in the
  code, are exact rationals here, so rounding of the window's last bits is not modelled.

  The first section follows the code. Then: what the two loops of \<open>pump\<close> compute, as one equation;
  the invariant; how often a packet is handed out; and that the sender drains.
\<close>


section \<open>The object\<close>

record transmission =
  tx_message_id :: int
  tx_packets :: "bytes list"
  tx_queued_at :: rat
  tx_first_sent_at :: "rat option"
  tx_last_sent_at :: "rat option"
  tx_attempts :: int

record outbound_packet =
  ob_payload :: bytes
  ob_retransmission :: bool

record pump_result =
  pr_packets :: "outbound_packet list"
  pr_exhausted_messages :: int

record sender =
  sn_retransmit_timeout_seconds :: rat
  sn_max_attempts :: int
  sn_max_pending_messages :: int
  sn_max_window :: rat
  sn_cwnd :: rat
  sn_queue :: "transmission list"
  sn_pending :: "(int, transmission) dict"

definition ReliableSender_init :: "rat \<Rightarrow> int \<Rightarrow> int \<Rightarrow> int \<Rightarrow> int \<Rightarrow> sender result" where
  "ReliableSender_init retransmit_timeout_seconds max_retries max_pending_messages
       initial_window max_window =
     (if retransmit_timeout_seconds \<le> 0
        then Inl (ValueError ''retransmit timeout must be positive'')
      else if max_retries < 0 \<or> max_pending_messages < 1
        then Inl (ValueError ''invalid reliability limits'')
      else if \<not> (1 \<le> initial_window \<and> initial_window \<le> max_window)
        then Inl (ValueError ''invalid congestion window'')
      else Inr \<lparr>sn_retransmit_timeout_seconds = retransmit_timeout_seconds,
                sn_max_attempts = max_retries + 1,
                sn_max_pending_messages = max_pending_messages,
                sn_max_window = of_int max_window, sn_cwnd = of_int initial_window,
                sn_queue = [], sn_pending = []\<rparr>)"

definition enqueue :: "rat \<Rightarrow> int \<Rightarrow> bytes list \<Rightarrow> sender \<Rightarrow> bool result \<times> sender" where
  "enqueue now message_id packets s =
     (if packets = [] then (Inl (ValueError ''at least one packet is required''), s)
      else if int (length (sn_queue s)) + int (length (sn_pending s)) \<ge> sn_max_pending_messages s
        then (Inr False, s)
      else if dict_has (sn_pending s) message_id \<or>
          (\<exists>item \<in> set (sn_queue s). tx_message_id item = message_id)
        then (Inl (ValueError ''duplicate outbound message id''), s)
      else (Inr True,
            s\<lparr>sn_queue := sn_queue s @
                [\<lparr>tx_message_id = message_id, tx_packets = packets, tx_queued_at = now,
                  tx_first_sent_at = None, tx_last_sent_at = None, tx_attempts = 0\<rparr>]\<rparr>))"

definition acknowledge :: "rat \<Rightarrow> int \<Rightarrow> sender \<Rightarrow> (bool \<times> rat option) \<times> sender" where
  "acknowledge now message_id s =
     (case dict_get (sn_pending s) message_id of
        None \<Rightarrow> ((False, None), s)
      | Some transmission \<Rightarrow>
          ((True, map_option (\<lambda>t. now - t) (tx_first_sent_at transmission)),
           s\<lparr>sn_pending := dict_del message_id (sn_pending s),
             sn_cwnd := min (sn_max_window s) (sn_cwnd s + 1 / max 1 (sn_cwnd s))\<rparr>))"

text \<open>The waiting time before the next transmission: it doubles with each attempt up to 16 times.\<close>

definition backoff :: "sender \<Rightarrow> int \<Rightarrow> rat" where
  "backoff s attempts =
     sn_retransmit_timeout_seconds s * of_int (min (2 ^ nat (max 0 (attempts - 1))) 16)"

definition due :: "rat \<Rightarrow> sender \<Rightarrow> transmission \<Rightarrow> bool" where
  "due now s tx =
     (case tx_last_sent_at tx of
        None \<Rightarrow> False
      | Some last_sent \<Rightarrow> \<not> now - last_sent < backoff s (tx_attempts tx))"

definition outbound :: "bool \<Rightarrow> transmission \<Rightarrow> outbound_packet list" where
  "outbound retransmission tx =
     map (\<lambda>p. \<lparr>ob_payload = p, ob_retransmission = retransmission\<rparr>) (tx_packets tx)"

definition halve :: "sender \<Rightarrow> sender" where
  "halve s = s\<lparr>sn_cwnd := max 1 (sn_cwnd s / 2)\<rparr>"

text \<open>The first loop of \<open>pump\<close>, over a copy of the pending items.\<close>

fun retransmit :: "rat \<Rightarrow> (int \<times> transmission) list \<Rightarrow> sender \<Rightarrow> outbound_packet list \<times> int \<times> sender" where
  "retransmit now [] s = ([], 0, s)"
| "retransmit now ((message_id, tx) # items) s =
     (if \<not> due now s tx then retransmit now items s
      else if tx_attempts tx \<ge> sn_max_attempts s then
        (case retransmit now items
                (halve (s\<lparr>sn_pending := dict_del message_id (sn_pending s)\<rparr>)) of
           (packets, exhausted, s1) \<Rightarrow> (packets, exhausted + 1, s1))
      else
        (let tx1 = tx\<lparr>tx_attempts := tx_attempts tx + 1, tx_last_sent_at := Some now\<rparr> in
         case retransmit now items
                (halve (s\<lparr>sn_pending := dict_put message_id tx1 (sn_pending s)\<rparr>)) of
           (packets, exhausted, s1) \<Rightarrow> (outbound True tx @ packets, exhausted, s1)))"

text \<open>The second loop: messages leave the queue while the window has room.\<close>

fun start_queued :: "rat \<Rightarrow> int \<Rightarrow> transmission list \<Rightarrow> sender \<Rightarrow> outbound_packet list \<times> sender" where
  "start_queued now window [] s = ([], s\<lparr>sn_queue := []\<rparr>)"
| "start_queued now window (tx # queue) s =
     (if int (length (sn_pending s)) < window then
        (let tx1 = tx\<lparr>tx_attempts := 1, tx_first_sent_at := Some now, tx_last_sent_at := Some now\<rparr> in
         case start_queued now window queue
                (s\<lparr>sn_pending := dict_put (tx_message_id tx) tx1 (sn_pending s)\<rparr>) of
           (packets, s1) \<Rightarrow> (outbound False tx @ packets, s1))
      else ([], s\<lparr>sn_queue := tx # queue\<rparr>))"

definition send_window :: "sender \<Rightarrow> int" where
  "send_window s = max 1 \<lfloor>sn_cwnd s\<rfloor>"

definition pump :: "rat \<Rightarrow> sender \<Rightarrow> pump_result \<times> sender" where
  "pump now s =
     (case retransmit now (sn_pending s) s of
        (packets1, exhausted, s1) \<Rightarrow>
          (case start_queued now (send_window s1) (sn_queue s1) s1 of
             (packets2, s2) \<Rightarrow>
               (\<lparr>pr_packets = packets1 @ packets2, pr_exhausted_messages = exhausted\<rparr>, s2)))"

record sender_snapshot =
  ss_queued_messages :: int
  ss_inflight_messages :: int
  ss_congestion_window :: rat

definition sender_snapshot :: "sender \<Rightarrow> sender_snapshot" where
  "sender_snapshot s =
     \<lparr>ss_queued_messages = int (length (sn_queue s)),
      ss_inflight_messages = int (length (sn_pending s)),
      ss_congestion_window = round3 (sn_cwnd s)\<rparr>"

text \<open>\<open>send_pump_result\<close>: an exception of \<open>send_packet\<close> ends the loop.\<close>

fun send_all :: "(bytes \<Rightarrow> 'x \<Rightarrow> unit result \<times> 'x) \<Rightarrow> outbound_packet list \<Rightarrow> int \<Rightarrow> int \<Rightarrow> 'x \<Rightarrow>
    (int \<times> int) result \<times> 'x" where
  "send_all send_packet [] sent retransmitted x = (Inr (sent, retransmitted), x)"
| "send_all send_packet (item # items) sent retransmitted x =
     (case send_packet (ob_payload item) x of
        (Inl e, x1) \<Rightarrow> (Inl e, x1)
      | (Inr _, x1) \<Rightarrow>
          send_all send_packet items (sent + 1)
            (if ob_retransmission item then retransmitted + 1 else retransmitted) x1)"

definition send_pump_result :: "pump_result \<Rightarrow> (bytes \<Rightarrow> 'x \<Rightarrow> unit result \<times> 'x) \<Rightarrow> 'x \<Rightarrow>
    (int \<times> int) result \<times> 'x" where
  "send_pump_result result send_packet x = send_all send_packet (pr_packets result) 0 0 x"

section \<open>Invariant\<close>

definition inflight_ok :: "sender \<Rightarrow> int \<times> transmission \<Rightarrow> bool" where
  "inflight_ok s = (\<lambda>(message_id, tx).
     tx_message_id tx = message_id \<and> 1 \<le> tx_attempts tx \<and> tx_attempts tx \<le> sn_max_attempts s \<and>
     tx_first_sent_at tx \<noteq> None \<and> tx_last_sent_at tx \<noteq> None)"

definition limits_ok :: "sender \<Rightarrow> bool" where
  "limits_ok s \<longleftrightarrow>
     0 < sn_retransmit_timeout_seconds s \<and> 1 \<le> sn_max_attempts s \<and>
     1 \<le> sn_cwnd s \<and> sn_cwnd s \<le> sn_max_window s"

definition sender_ok :: "sender \<Rightarrow> bool" where
  "sender_ok s \<longleftrightarrow>
     limits_ok s \<and>
     distinct (map fst (sn_pending s) @ map tx_message_id (sn_queue s)) \<and>
     (\<forall>x \<in> set (sn_pending s). inflight_ok s x) \<and>
     (\<forall>tx \<in> set (sn_queue s). tx_attempts tx = 0) \<and>
     int (length (sn_queue s)) + int (length (sn_pending s)) \<le> sn_max_pending_messages s \<and>
     int (length (sn_pending s)) \<le> \<lfloor>sn_max_window s\<rfloor>"

section \<open>What pump does\<close>

text \<open>
  Which pending messages \<open>pump\<close> sends again and which it gives up, what stays of a pending
  message, and a queued message when it is first sent.
\<close>

definition resends :: "rat \<Rightarrow> sender \<Rightarrow> transmission \<Rightarrow> bool" where
  "resends now s tx \<longleftrightarrow> due now s tx \<and> tx_attempts tx < sn_max_attempts s"

definition gives_up :: "rat \<Rightarrow> sender \<Rightarrow> transmission \<Rightarrow> bool" where
  "gives_up now s tx \<longleftrightarrow> due now s tx \<and> sn_max_attempts s \<le> tx_attempts tx"

definition resent :: "rat \<Rightarrow> sender \<Rightarrow> transmission \<Rightarrow> transmission" where
  "resent now s tx =
     (if resends now s tx
      then tx\<lparr>tx_attempts := tx_attempts tx + 1, tx_last_sent_at := Some now\<rparr> else tx)"

definition first_sent :: "rat \<Rightarrow> transmission \<Rightarrow> transmission" where
  "first_sent now tx =
     tx\<lparr>tx_attempts := 1, tx_first_sent_at := Some now, tx_last_sent_at := Some now\<rparr>"

definition kept :: "rat \<Rightarrow> sender \<Rightarrow> (int \<times> transmission) list \<Rightarrow> (int \<times> transmission) list" where
  "kept now s items =
     map (\<lambda>(i, tx). (i, resent now s tx)) (filter (\<lambda>(i, tx). \<not> gives_up now s tx) items)"

definition resend_list :: "rat \<Rightarrow> sender \<Rightarrow> (int \<times> transmission) list \<Rightarrow> transmission list" where
  "resend_list now s items = map snd (filter (\<lambda>(i, tx). resends now s tx) items)"

definition give_up_list :: "rat \<Rightarrow> sender \<Rightarrow> (int \<times> transmission) list \<Rightarrow> transmission list" where
  "give_up_list now s items = map snd (filter (\<lambda>(i, tx). gives_up now s tx) items)"

text \<open>How many queued messages fit into the window next to the pending ones.\<close>

definition room :: "int \<Rightarrow> nat \<Rightarrow> nat" where
  "room window pending = nat (window - int pending)"

lemma dict_put_middle:
  "dict_ok (d @ (k, v) # r) \<Longrightarrow> dict_put k v' (d @ (k, v) # r) = d @ (k, v') # r"
  by (induction d) (auto simp: dict_ok_def)

lemma dict_del_middle:
  "dict_ok (d @ (k, v) # r) \<Longrightarrow> dict_del k (d @ (k, v) # r) = d @ r"
proof -
  assume ok: "dict_ok (d @ (k, v) # r)"
  then have "\<not> dict_has d k" "\<not> dict_has r k" by (auto simp: dict_ok_def dict_has_def)
  moreover have "dict_del k (d @ (k, v) # r) = dict_del k d @ dict_del k r"
    by (simp add: AList.delete_eq)
  ultimately show ?thesis by (simp add: dict_del_absent)
qed

lemma halve_simps [simp]:
  "sn_pending (halve s) = sn_pending s" "sn_queue (halve s) = sn_queue s"
  "sn_max_attempts (halve s) = sn_max_attempts s" "sn_max_window (halve s) = sn_max_window s"
  "sn_retransmit_timeout_seconds (halve s) = sn_retransmit_timeout_seconds s"
  "sn_max_pending_messages (halve s) = sn_max_pending_messages s"
  "halve (s\<lparr>sn_pending := d\<rparr>) = (halve s)\<lparr>sn_pending := d\<rparr>"
  by (simp_all add: halve_def)

lemma halve_pow [simp]:
  "(halve ^^ n) (s\<lparr>sn_pending := d\<rparr>) = ((halve ^^ n) s)\<lparr>sn_pending := d\<rparr>"
  "sn_pending ((halve ^^ n) s) = sn_pending s" "sn_queue ((halve ^^ n) s) = sn_queue s"
  "sn_max_attempts ((halve ^^ n) s) = sn_max_attempts s"
  "sn_max_window ((halve ^^ n) s) = sn_max_window s"
  "sn_retransmit_timeout_seconds ((halve ^^ n) s) = sn_retransmit_timeout_seconds s"
  "sn_max_pending_messages ((halve ^^ n) s) = sn_max_pending_messages s"
  by (induction n) simp_all

lemma halve_limits: "limits_ok s \<Longrightarrow> limits_ok (halve s)"
  by (simp add: limits_ok_def) (simp add: halve_def)

lemma halve_pow_limits: "limits_ok s \<Longrightarrow> limits_ok ((halve ^^ n) s)"
  by (induction n) (simp_all add: halve_limits)

lemma halve_cwnd_le: "limits_ok s \<Longrightarrow> sn_cwnd (halve s) \<le> sn_cwnd s"
  by (simp add: halve_def limits_ok_def)

lemma due_cong [simp]:
  "due now (halve s) = due now s" "due now (s\<lparr>sn_pending := d\<rparr>) = due now s"
  "due now (s\<lparr>sn_queue := q\<rparr>) = due now s"
  by (simp_all add: due_def fun_eq_iff backoff_def split: option.splits)

lemma pump_part_cong [simp]:
  "resends now (halve s) = resends now s" "gives_up now (halve s) = gives_up now s"
  "resends now (s\<lparr>sn_pending := d\<rparr>) = resends now s"
  "gives_up now (s\<lparr>sn_pending := d\<rparr>) = gives_up now s"
  "resent now (halve s) = resent now s" "resent now (s\<lparr>sn_pending := d\<rparr>) = resent now s"
  "kept now (halve s) = kept now s" "kept now (s\<lparr>sn_pending := d\<rparr>) = kept now s"
  "resend_list now (halve s) = resend_list now s"
  "resend_list now (s\<lparr>sn_pending := d\<rparr>) = resend_list now s"
  "give_up_list now (halve s) = give_up_list now s"
  "give_up_list now (s\<lparr>sn_pending := d\<rparr>) = give_up_list now s"
  by (simp_all add: resends_def gives_up_def resent_def kept_def resend_list_def give_up_list_def
      fun_eq_iff)

lemma kept_Nil [simp]: "kept now s [] = []" "resend_list now s [] = []" "give_up_list now s [] = []"
  by (simp_all add: kept_def resend_list_def give_up_list_def)

lemma kept_Cons:
  "kept now s ((i, tx) # items) =
    (if gives_up now s tx then kept now s items else (i, resent now s tx) # kept now s items)"
  "resend_list now s ((i, tx) # items) =
    (if resends now s tx then tx # resend_list now s items else resend_list now s items)"
  "give_up_list now s ((i, tx) # items) =
    (if gives_up now s tx then tx # give_up_list now s items else give_up_list now s items)"
  by (simp_all add: kept_def resend_list_def give_up_list_def)

text \<open>The first loop, from the middle of the pending items.\<close>

lemma retransmit_eq:
  assumes "sn_pending s = d @ items" "dict_ok (sn_pending s)"
  shows "retransmit now items s =
    (concat (map (outbound True) (resend_list now s items)),
     int (length (give_up_list now s items)),
     ((halve ^^ length (filter (\<lambda>(i, tx). due now s tx) items)) s)
       \<lparr>sn_pending := d @ kept now s items\<rparr>)"
  using assms
proof (induction now items s arbitrary: d rule: retransmit.induct)
  case (1 now s)
  then show ?case by simp
next
  case (2 now i tx items s)
  have mid: "dict_ok (d @ (i, tx) # items)" using 2 by simp
  have pend: "sn_pending s = d @ (i, tx) # items" by (rule 2(4))
  let ?h = "halve ^^ length (filter (\<lambda>(i, tx). due now s tx) items)"
  have pull: "?h (s'\<lparr>sn_pending := x\<rparr>) = (?h s')\<lparr>sn_pending := x\<rparr>" for s' x
    by (rule halve_pow(1))
  show ?case
  proof (cases "due now s tx")
    case False
    then have "retransmit now items s =
      (concat (map (outbound True) (resend_list now s items)),
       int (length (give_up_list now s items)),
       (?h s)\<lparr>sn_pending := (d @ [(i, tx)]) @ kept now s items\<rparr>)"
      using 2(1) [OF _ _ 2(5), of "d @ [(i, tx)]"] pend by simp
    with False show ?thesis
      by (simp add: kept_Cons resends_def gives_up_def resent_def)
  next
    case due: True
    show ?thesis
    proof (cases "tx_attempts tx \<ge> sn_max_attempts s")
      case True
      let ?s = "halve (s\<lparr>sn_pending := dict_del i (sn_pending s)\<rparr>)"
      have del: "dict_del i (sn_pending s) = d @ items" using mid by (simp add: pend dict_del_middle)
      have ok: "dict_ok (d @ items)" using mid by (simp add: dict_ok_def)
      have "retransmit now items ?s =
        (concat (map (outbound True) (resend_list now s items)),
         int (length (give_up_list now s items)),
         (?h (halve s))\<lparr>sn_pending := d @ kept now s items\<rparr>)"
        using 2(2) [of d] due True ok by (simp add: del pull)
      with due True show ?thesis
        by (simp add: kept_Cons resends_def gives_up_def funpow_swap1)
    next
      case False
      let ?tx = "tx\<lparr>tx_attempts := tx_attempts tx + 1, tx_last_sent_at := Some now\<rparr>"
      let ?s = "halve (s\<lparr>sn_pending := dict_put i ?tx (sn_pending s)\<rparr>)"
      have put: "dict_put i ?tx (sn_pending s) = d @ (i, ?tx) # items"
        using mid by (simp add: pend dict_put_middle)
      have ok: "dict_ok (d @ (i, ?tx) # items)" using mid by (simp add: dict_ok_def)
      have "retransmit now items ?s =
        (concat (map (outbound True) (resend_list now s items)),
         int (length (give_up_list now s items)),
         (?h (halve s))\<lparr>sn_pending := (d @ [(i, ?tx)]) @ kept now s items\<rparr>)"
        using 2(3) [of ?tx "d @ [(i, ?tx)]"] due False ok by (simp add: put pull)
      with due False show ?thesis
        by (simp add: kept_Cons resends_def gives_up_def resent_def Let_def funpow_swap1)
    qed
  qed
qed


text \<open>The second loop.\<close>

lemma start_queued_eq:
  assumes "distinct (map fst (sn_pending s) @ map tx_message_id queue)"
  shows "start_queued now window queue s =
    (let n = room window (length (sn_pending s)) in
     (concat (map (outbound False) (take n queue)),
      s\<lparr>sn_queue := drop n queue,
        sn_pending := sn_pending s @
          map (\<lambda>tx. (tx_message_id tx, first_sent now tx)) (take n queue)\<rparr>))"
  using assms
proof (induction now window queue s rule: start_queued.induct)
  case (1 now window s)
  then show ?case by (simp add: Let_def)
next
  case (2 now window tx queue s)
  let ?p = "sn_pending s"
  show ?case
  proof (cases "int (length ?p) < window")
    case False
    then have "room window (length ?p) = 0" by (simp add: room_def)
    with False show ?thesis by (simp add: Let_def)
  next
    case True
    let ?s = "s\<lparr>sn_pending := ?p @ [(tx_message_id tx, first_sent now tx)]\<rparr>"
    have new: "\<not> dict_has ?p (tx_message_id tx)" using 2(2) by (auto simp: dict_has_def)
    have put: "dict_put (tx_message_id tx) (first_sent now tx) ?p =
        ?p @ [(tx_message_id tx, first_sent now tx)]"
      by (rule update_new [OF new])
    have dis: "distinct (map fst (sn_pending ?s) @ map tx_message_id queue)"
      using 2(2) by auto
    have n: "room window (length ?p) = Suc (room window (length (sn_pending ?s)))"
      using True by (simp add: room_def)
    show ?thesis
      using 2(1) [OF True refl] dis True
      by (simp add: put n Let_def flip: first_sent_def)
  qed
qed

text \<open>The sender after the first loop's effect on the window, and the messages it then starts.\<close>

definition timed_out :: "rat \<Rightarrow> sender \<Rightarrow> sender" where
  "timed_out now s = (halve ^^ length (filter (\<lambda>(i, tx). due now s tx) (sn_pending s))) s"

definition start_count :: "rat \<Rightarrow> sender \<Rightarrow> nat" where
  "start_count now s =
     room (send_window (timed_out now s)) (length (kept now s (sn_pending s)))"

definition started :: "rat \<Rightarrow> sender \<Rightarrow> transmission list" where
  "started now s = take (start_count now s) (sn_queue s)"

lemma fst_kept: "map fst (kept now s items) = map fst (filter (\<lambda>(i, tx). \<not> gives_up now s tx) items)"
  by (simp add: kept_def comp_def case_prod_beta)

lemma timed_out_simps [simp]:
  "sn_pending (timed_out now s) = sn_pending s" "sn_queue (timed_out now s) = sn_queue s"
  "sn_max_attempts (timed_out now s) = sn_max_attempts s"
  "sn_max_window (timed_out now s) = sn_max_window s"
  "sn_retransmit_timeout_seconds (timed_out now s) = sn_retransmit_timeout_seconds s"
  "sn_max_pending_messages (timed_out now s) = sn_max_pending_messages s"
  by (simp_all add: timed_out_def)

lemma send_window_cong [simp]:
  "send_window (s\<lparr>sn_pending := d\<rparr>) = send_window s" "send_window (s\<lparr>sn_queue := q\<rparr>) = send_window s"
  by (simp_all add: send_window_def)

theorem pump_eq:
  assumes "sender_ok s"
  shows "pump now s =
    (\<lparr>pr_packets = concat (map (outbound True) (resend_list now s (sn_pending s))) @
        concat (map (outbound False) (started now s)),
      pr_exhausted_messages = int (length (give_up_list now s (sn_pending s)))\<rparr>,
     (timed_out now s)\<lparr>sn_queue := drop (start_count now s) (sn_queue s),
        sn_pending := kept now s (sn_pending s) @
          map (\<lambda>tx. (tx_message_id tx, first_sent now tx)) (started now s)\<rparr>)"
proof -
  have dis: "distinct (map fst (sn_pending s) @ map tx_message_id (sn_queue s))"
    using assms by (simp add: sender_ok_def)
  then have ok: "dict_ok (sn_pending s)" by (simp add: dict_ok_def)
  have "set (map fst (kept now s (sn_pending s))) \<subseteq> set (map fst (sn_pending s))"
    by (auto simp: fst_kept)
  then have "distinct (map fst (kept now s (sn_pending s)) @ map tx_message_id (sn_queue s))"
    using dis by (auto simp: fst_kept distinct_map_filter)
  then have "start_queued now w (sn_queue s) ((timed_out now s)\<lparr>sn_pending := kept now s (sn_pending s)\<rparr>) =
    (let n = room w (length (kept now s (sn_pending s))) in
     (concat (map (outbound False) (take n (sn_queue s))),
      (timed_out now s)\<lparr>sn_queue := drop n (sn_queue s),
        sn_pending := kept now s (sn_pending s) @
          map (\<lambda>tx. (tx_message_id tx, first_sent now tx)) (take n (sn_queue s))\<rparr>))" for w
    by (subst start_queued_eq) (simp_all add: Let_def)
  then show ?thesis
    by (simp add: pump_def retransmit_eq [of s "[]" "sn_pending s", simplified, OF ok] Let_def
        start_count_def started_def flip: timed_out_def)
qed

section \<open>Every operation keeps the invariant\<close>

lemma limits_cong [simp]:
  "limits_ok (s\<lparr>sn_pending := d\<rparr>) = limits_ok s" "limits_ok (s\<lparr>sn_queue := q\<rparr>) = limits_ok s"
  by (simp_all add: limits_ok_def)

lemma inflight_ok_cong [simp]:
  "inflight_ok (s\<lparr>sn_pending := d\<rparr>) = inflight_ok s" "inflight_ok (s\<lparr>sn_queue := q\<rparr>) = inflight_ok s"
  "inflight_ok (timed_out now s) = inflight_ok s" "inflight_ok (s\<lparr>sn_cwnd := w\<rparr>) = inflight_ok s"
  by (simp_all add: inflight_ok_def)

lemma enqueue_ok:
  assumes "sender_ok s"
  shows "sender_ok (snd (enqueue now i ps s))"
  using assms by (auto simp: enqueue_def sender_ok_def dict_has_def)

lemma acknowledge_ok:
  assumes "sender_ok s"
  shows "sender_ok (snd (acknowledge now i s))"
proof (cases "dict_get (sn_pending s) i")
  case None
  then show ?thesis using assms by (simp add: acknowledge_def)
next
  case (Some tx)
  let ?d = "dict_del i (sn_pending s)"
  have c: "1 \<le> sn_cwnd s" "sn_cwnd s \<le> sn_max_window s"
    using assms by (simp_all add: sender_ok_def limits_ok_def)
  have "0 \<le> 1 / max 1 (sn_cwnd s)" by simp
  then have "1 \<le> min (sn_max_window s) (sn_cwnd s + 1 / max 1 (sn_cwnd s))"
    using c by (intro min.boundedI) linarith+
  then have lim: "limits_ok (s\<lparr>sn_cwnd := min (sn_max_window s) (sn_cwnd s + 1 / max 1 (sn_cwnd s))\<rparr>)"
    using assms unfolding sender_ok_def limits_ok_def by simp
  have "set ?d \<subseteq> set (sn_pending s)" "length ?d \<le> length (sn_pending s)"
    by (auto simp: AList.delete_eq)
  moreover from this have "set (map fst ?d) \<subseteq> set (map fst (sn_pending s))" by auto
  moreover have "distinct (map fst ?d)"
    using assms by (simp add: sender_ok_def distinct_delete)
  ultimately show ?thesis
    using assms lim Some unfolding acknowledge_def sender_ok_def
    by (auto simp: limits_ok_def)
qed

lemma kept_inflight:
  assumes "limits_ok s" "\<forall>x \<in> set items. inflight_ok s x" "x \<in> set (kept now s items)"
  shows "inflight_ok s x"
  using assms by (auto simp: kept_def inflight_ok_def resent_def resends_def)

lemma pump_length:
  assumes "limits_ok s" "int (length (sn_pending s)) \<le> \<lfloor>sn_max_window s\<rfloor>"
  shows "int (length (kept now s (sn_pending s))) + int (length (started now s)) \<le> \<lfloor>sn_max_window s\<rfloor>"
proof -
  have lim: "limits_ok (timed_out now s)"
    by (simp add: timed_out_def halve_pow_limits assms(1))
  have "length (kept now s (sn_pending s)) \<le> length (sn_pending s)" by (simp add: kept_def)
  moreover have "send_window (timed_out now s) \<le> \<lfloor>sn_max_window s\<rfloor>"
    using lim floor_mono [of "sn_cwnd (timed_out now s)" "sn_max_window s"]
    by (auto simp: send_window_def limits_ok_def le_floor_iff)
  ultimately show ?thesis
    using assms(2) by (simp add: started_def start_count_def room_def)
qed

lemma pump_ok:
  assumes "sender_ok s"
  shows "sender_ok (snd (pump now s))"
proof -
  let ?k = "kept now s (sn_pending s)" and ?st = "started now s"
  have lim: "limits_ok s" "limits_ok (timed_out now s)"
    using assms by (simp_all add: sender_ok_def timed_out_def halve_pow_limits)
  have q: "sn_queue s = ?st @ drop (start_count now s) (sn_queue s)" by (simp add: started_def)
  have dis: "distinct (map fst (sn_pending s) @ map tx_message_id (sn_queue s))"
    using assms by (simp add: sender_ok_def)
  have sub: "set (map fst ?k) \<subseteq> set (map fst (sn_pending s))" by (auto simp: fst_kept)
  have "distinct (map fst ?k @ map tx_message_id (?st @ drop (start_count now s) (sn_queue s)))"
    using dis sub unfolding q [symmetric] by (auto simp: fst_kept distinct_map_filter)
  then have A: "distinct (map fst (?k @ map (\<lambda>tx. (tx_message_id tx, first_sent now tx)) ?st) @
      map tx_message_id (drop (start_count now s) (sn_queue s)))"
    by (simp add: comp_def Int_Un_distrib)
  have B: "\<forall>x \<in> set (?k @ map (\<lambda>tx. (tx_message_id tx, first_sent now tx)) ?st). inflight_ok s x"
  proof
    fix x assume "x \<in> set (?k @ map (\<lambda>tx. (tx_message_id tx, first_sent now tx)) ?st)"
    moreover have "inflight_ok s (tx_message_id tx, first_sent now tx)" for tx
      using lim(1) by (simp add: inflight_ok_def first_sent_def limits_ok_def)
    ultimately show "inflight_ok s x"
      using kept_inflight [OF lim(1), of _ x] assms by (auto simp: sender_ok_def)
  qed
  have "length (sn_queue s) = length ?st + length (drop (start_count now s) (sn_queue s))"
    using q by (metis length_append)
  moreover have "length ?k \<le> length (sn_pending s)" by (simp add: kept_def)
  moreover have "int (length (sn_queue s)) + int (length (sn_pending s)) \<le> sn_max_pending_messages s"
    using assms by (simp add: sender_ok_def)
  ultimately have C: "int (length (drop (start_count now s) (sn_queue s))) +
      int (length (?k @ map (\<lambda>tx. (tx_message_id tx, first_sent now tx)) ?st))
    \<le> sn_max_pending_messages s"
    unfolding length_append length_map by linarith
  have D: "int (length (?k @ map (\<lambda>tx. (tx_message_id tx, first_sent now tx)) ?st)) \<le> \<lfloor>sn_max_window s\<rfloor>"
    using pump_length [OF lim(1), of now] assms by (simp add: sender_ok_def)
  have F: "\<forall>tx \<in> set (drop (start_count now s) (sn_queue s)). tx_attempts tx = 0"
    using assms set_drop_subset [of "start_count now s" "sn_queue s"] by (auto simp: sender_ok_def)
  let ?s = "snd (pump now s)"
  have sel: "sn_pending ?s = ?k @ map (\<lambda>tx. (tx_message_id tx, first_sent now tx)) ?st"
    "sn_queue ?s = drop (start_count now s) (sn_queue s)"
    "sn_max_window ?s = sn_max_window s" "limits_ok ?s"
    "sn_max_pending_messages ?s = sn_max_pending_messages s" "inflight_ok ?s = inflight_ok s"
    using lim by (simp_all add: pump_eq [OF assms])
  show ?thesis
    unfolding sender_ok_def sel using A B C D F sel(4) by blast
qed

section \<open>Sequences of calls\<close>

datatype sender_op = Enqueue rat int "bytes list" | Acknowledge rat int | Pump rat

text \<open>The sender after a call, and the packets the call hands out.\<close>

fun do_op :: "sender_op \<Rightarrow> sender \<Rightarrow> outbound_packet list \<times> sender" where
  "do_op (Enqueue now i ps) s = ([], snd (enqueue now i ps s))"
| "do_op (Acknowledge now i) s = ([], snd (acknowledge now i s))"
| "do_op (Pump now) s = (pr_packets (fst (pump now s)), snd (pump now s))"

fun do_ops :: "sender_op list \<Rightarrow> sender \<Rightarrow> outbound_packet list \<times> sender" where
  "do_ops [] s = ([], s)"
| "do_ops (x # xs) s =
     (case do_op x s of (out, s1) \<Rightarrow> (case do_ops xs s1 of (outs, s2) \<Rightarrow> (out @ outs, s2)))"

lemma do_op_ok: "sender_ok s \<Longrightarrow> sender_ok (snd (do_op x s))"
  by (cases x) (simp_all add: enqueue_ok acknowledge_ok pump_ok)

lemma do_ops_ok: "sender_ok s \<Longrightarrow> do_ops xs s = (outs, s') \<Longrightarrow> sender_ok s'"
proof (induction xs s arbitrary: outs s' rule: do_ops.induct)
  case (2 x xs s)
  then show ?case using do_op_ok [OF 2(2), of x] by (auto split: prod.splits)
qed simp

lemma init_sender_ok: "ReliableSender_init rto n m w0 w1 = Inr s \<Longrightarrow> sender_ok s"
  by (auto simp: ReliableSender_init_def sender_ok_def limits_ok_def split: if_splits)

section \<open>How often a packet is handed out\<close>

definition all_tx :: "sender \<Rightarrow> transmission list" where
  "all_tx s = map snd (sn_pending s) @ sn_queue s"

fun op_packets :: "sender_op \<Rightarrow> bytes list" where
  "op_packets (Enqueue now i ps) = ps"
| "op_packets _ = []"

text \<open>
  \<open>L\<close> are the payloads handed out so far and \<open>E\<close> the packets enqueued so far: each packet of a
  message in the sender was handed out as often as the message was attempted, and none more
  often than allowed.
\<close>

definition handed_out :: "bytes list \<Rightarrow> bytes set \<Rightarrow> sender \<Rightarrow> bool" where
  "handed_out L E s \<longleftrightarrow>
     sender_ok s \<and> distinct (concat (map tx_packets (all_tx s))) \<and>
     (\<forall>tx \<in> set (all_tx s). set (tx_packets tx) \<subseteq> E \<and>
        (\<forall>b \<in> set (tx_packets tx). int (count_list L b) = tx_attempts tx)) \<and>
     (\<forall>b. int (count_list L b) \<le> sn_max_attempts s) \<and> set L \<subseteq> E"

lemma count_list_distinct: "distinct xs \<Longrightarrow> count_list xs x = (if x \<in> set xs then 1 else 0)"
  by (induction xs) auto

lemma distinct_concat_unique:
  "distinct (concat (map f xs)) \<Longrightarrow> x \<in> set xs \<Longrightarrow> y \<in> set xs \<Longrightarrow> b \<in> set (f x) \<Longrightarrow> b \<in> set (f y) \<Longrightarrow> x = y"
  by (induction xs) auto

lemma distinct_concat_filter:
  "distinct (concat (map f xs)) \<Longrightarrow> distinct (concat (map f (filter P xs)))"
  by (induction xs) auto

lemma distinct_concat_take:
  "distinct (concat (map f xs)) \<Longrightarrow> distinct (concat (map f (take n xs)))"
  by (metis append_take_drop_id concat_append distinct_append map_append)

lemma payloads_outbound: "map ob_payload (concat (map (outbound r) txs)) = concat (map tx_packets txs)"
  by (induction txs) (simp_all add: outbound_def comp_def)

lemma handed_out_init:
  "ReliableSender_init rto n m w0 w1 = Inr s \<Longrightarrow> handed_out [] {} s"
  using init_sender_ok [of rto n m w0 w1 s]
  by (auto simp: handed_out_def all_tx_def ReliableSender_init_def split: if_splits)

lemma handed_out_enqueue:
  assumes "handed_out L E s" "distinct ps" "set ps \<inter> E = {}"
  shows "handed_out L (E \<union> set ps) (snd (enqueue now i ps s))"
proof -
  have ok: "sender_ok (snd (enqueue now i ps s))"
    using enqueue_ok assms(1) by (simp add: handed_out_def)
  have new: "count_list L b = 0" if "b \<in> set ps" for b
    using that assms(1,3) by (auto simp: handed_out_def count_list_0_iff)
  show ?thesis
  proof (cases "fst (enqueue now i ps s) = Inr True")
    case True
    then have s': "snd (enqueue now i ps s) = s\<lparr>sn_queue := sn_queue s @
        [\<lparr>tx_message_id = i, tx_packets = ps, tx_queued_at = now,
          tx_first_sent_at = None, tx_last_sent_at = None, tx_attempts = 0\<rparr>]\<rparr>"
      by (auto simp: enqueue_def split: if_splits)
    have "\<forall>tx \<in> set (all_tx s). set (tx_packets tx) \<subseteq> E"
      using assms(1) by (simp add: handed_out_def)
    then have "set (concat (map tx_packets (all_tx s))) \<inter> set ps = {}" using assms(3) by fastforce
    then show ?thesis
      using assms(1,2) ok new unfolding handed_out_def s' all_tx_def by auto
  next
    case False
    then have "snd (enqueue now i ps s) = s" by (auto simp: enqueue_def split: if_splits)
    then show ?thesis using assms(1) by (auto simp: handed_out_def)
  qed
qed

lemma handed_out_shrink:
  assumes "handed_out L E s" "sender_ok s'" "sn_max_attempts s' = sn_max_attempts s"
    and "distinct (concat (map tx_packets (all_tx s')))" "set (all_tx s') \<subseteq> set (all_tx s)"
  shows "handed_out L E s'"
  using assms unfolding handed_out_def by (metis subsetD)

lemma handed_out_acknowledge:
  assumes "handed_out L E s"
  shows "handed_out L E (snd (acknowledge now i s))"
proof (cases "dict_get (sn_pending s) i")
  case None
  then show ?thesis using assms by (simp add: acknowledge_def)
next
  case (Some tx)
  let ?s = "snd (acknowledge now i s)"
  have sel: "all_tx ?s = map snd (filter (\<lambda>(k, _). i \<noteq> k) (sn_pending s)) @ sn_queue s"
    "sn_max_attempts ?s = sn_max_attempts s"
    using Some by (simp_all add: acknowledge_def all_tx_def AList.delete_eq)
  show ?thesis
  proof (rule handed_out_shrink [OF assms _ sel(2)])
    show "sender_ok ?s" using acknowledge_ok assms by (simp add: handed_out_def)
    have gen: "distinct (concat (map f (map snd xs @ ys))) \<Longrightarrow>
      distinct (concat (map f (map snd (filter P xs) @ ys)))"
      for f :: "transmission \<Rightarrow> bytes list" and xs :: "(int \<times> transmission) list" and ys P
      by (induction xs) auto
    show "distinct (concat (map tx_packets (all_tx ?s)))"
      unfolding sel using assms unfolding handed_out_def all_tx_def by (intro gen) blast
    show "set (all_tx ?s) \<subseteq> set (all_tx s)" unfolding sel all_tx_def [of s] by auto
  qed
qed

text \<open>What \<open>pump\<close> does to the messages and to the payloads handed out.\<close>

lemma all_tx_pump:
  assumes "sender_ok s"
  shows "all_tx (snd (pump now s)) =
    map (resent now s) (filter (\<lambda>tx. \<not> gives_up now s tx) (map snd (sn_pending s))) @
    map (first_sent now) (started now s) @ drop (start_count now s) (sn_queue s)"
  by (simp add: pump_eq [OF assms] all_tx_def kept_def comp_def case_prod_unfold filter_map)

lemma pump_payloads:
  assumes "sender_ok s"
  shows "map ob_payload (pr_packets (fst (pump now s))) =
    concat (map tx_packets (filter (resends now s) (map snd (sn_pending s)) @ started now s))"
proof -
  have "resend_list now s (sn_pending s) = filter (resends now s) (map snd (sn_pending s))"
    by (simp add: resend_list_def filter_map comp_def case_prod_unfold)
  then show ?thesis by (simp add: pump_eq [OF assms] payloads_outbound)
qed

lemma resent_simps [simp]:
  "tx_packets (resent now s tx) = tx_packets tx" "tx_packets (first_sent now tx) = tx_packets tx"
  "tx_attempts (resent now s tx) = tx_attempts tx + (if resends now s tx then 1 else 0)"
  "tx_attempts (first_sent now tx) = 1"
  by (simp_all add: resent_def first_sent_def)

lemma handed_out_pump:
  assumes "handed_out L E s"
  shows "handed_out (L @ map ob_payload (pr_packets (fst (pump now s)))) E (snd (pump now s))"
proof -
  let ?P = "map snd (sn_pending s)" and ?Q = "sn_queue s" and ?n = "start_count now s"
  let ?S = "filter (resends now s) ?P @ started now s"
  have ok: "sender_ok s" and dis: "distinct (concat (map tx_packets (?P @ ?Q)))"
    and tx: "\<And>tx. tx \<in> set (?P @ ?Q) \<Longrightarrow> set (tx_packets tx) \<subseteq> E"
    "\<And>tx b. tx \<in> set (?P @ ?Q) \<Longrightarrow> b \<in> set (tx_packets tx) \<Longrightarrow> int (count_list L b) = tx_attempts tx"
    and le: "\<And>b. int (count_list L b) \<le> sn_max_attempts s" and LE: "set L \<subseteq> E"
    using assms unfolding handed_out_def all_tx_def by blast+
  have q0: "tx_attempts tx = 0" if "tx \<in> set ?Q" for tx using ok that by (simp add: sender_ok_def)
  have max1: "1 \<le> sn_max_attempts s" using ok by (simp add: sender_ok_def limits_ok_def)
  have sub: "set ?S \<subseteq> set (?P @ ?Q)"
    using set_take_subset [of ?n ?Q] by (auto simp: started_def)
  have disS: "distinct (concat (map tx_packets ?S))"
  proof -
    have "set (concat (map tx_packets (filter (resends now s) ?P))) \<inter>
        set (concat (map tx_packets (take ?n ?Q))) = {}"
      using dis set_take_subset [of ?n ?Q] by fastforce
    then show ?thesis
      using dis by (auto simp: started_def simp del: set_concat
          intro: distinct_concat_filter distinct_concat_take)
  qed
  have cnt: "count_list (concat (map tx_packets ?S)) b =
      (if \<exists>tx \<in> set ?S. b \<in> set (tx_packets tx) then 1 else 0)" for b
    unfolding count_list_distinct [OF disS] by auto
  have uniq: "tx = tx'" if "tx \<in> set (?P @ ?Q)" "tx' \<in> set (?P @ ?Q)" "b \<in> set (tx_packets tx)"
    "b \<in> set (tx_packets tx')" for tx tx' b
    by (rule distinct_concat_unique [OF dis that])
  have P1: "1 \<le> tx_attempts tx" if "tx \<in> set ?P" for tx
    using ok that by (auto simp: sender_ok_def inflight_ok_def)
  have apart: "tx \<notin> set ?Q" if "tx \<in> set ?P" for tx
    using P1 [OF that] q0 [of tx] by auto
  have inS: "tx \<in> set ?S \<longleftrightarrow> (if tx \<in> set ?P then resends now s tx else tx \<in> set (take ?n ?Q))" for tx
    using apart [of tx] set_take_subset [of ?n ?Q] by (auto simp: started_def)
  let ?L = "L @ concat (map tx_packets ?S)"
  have count: "int (count_list ?L b) = tx_attempts tx + (if tx \<in> set ?S then 1 else 0)"
    if "tx \<in> set (?P @ ?Q)" "b \<in> set (tx_packets tx)" for tx b
  proof -
    have "(\<exists>tx' \<in> set ?S. b \<in> set (tx_packets tx')) \<longleftrightarrow> tx \<in> set ?S"
      using uniq [OF that(1) _ that(2)] sub that(2) by blast
    then show ?thesis using tx(2) [OF that] cnt [of b] by simp
  qed
  let ?s = "snd (pump now s)"
  have max_s: "sn_max_attempts ?s = sn_max_attempts s" by (simp add: pump_eq [OF ok])
  have A: "distinct (concat (map tx_packets (all_tx ?s)))"
  proof -
    have "concat (map tx_packets (all_tx ?s)) =
        concat (map tx_packets (filter (\<lambda>tx. \<not> gives_up now s tx) ?P)) @
        concat (map tx_packets (take ?n ?Q @ drop ?n ?Q))"
      unfolding all_tx_pump [OF ok] started_def by (simp add: comp_def del: append_take_drop_id)
    also have "\<dots> = concat (map tx_packets (filter (\<lambda>tx. \<not> gives_up now s tx) ?P)) @
        concat (map tx_packets ?Q)"
      by simp
    finally show ?thesis
      using dis distinct_concat_filter [of tx_packets ?P "\<lambda>tx. \<not> gives_up now s tx"] by fastforce
  qed
  have B: "set (tx_packets tx') \<subseteq> E \<and> (\<forall>b \<in> set (tx_packets tx'). int (count_list ?L b) = tx_attempts tx')"
    if mem: "tx' \<in> set (all_tx ?s)" for tx'
  proof -
    consider (old) tx where "tx \<in> set ?P" "tx' = resent now s tx"
      | (new) tx where "tx \<in> set (take ?n ?Q)" "tx' = first_sent now tx"
      | (queued) "tx' \<in> set (drop ?n ?Q)"
    proof -
      let ?A = "filter (\<lambda>tx. \<not> gives_up now s tx) ?P"
      have "tx' \<in> resent now s ` set ?A \<or> tx' \<in> first_sent now ` set (take ?n ?Q) \<or>
          tx' \<in> set (drop ?n ?Q)"
        using mem unfolding all_tx_pump [OF ok] started_def set_append set_map by simp
      moreover have "set ?A \<subseteq> set ?P" by simp
      ultimately show thesis using that by (elim disjE imageE) blast+
    qed
    then show ?thesis
    proof cases
      case old
      then show ?thesis using tx(1) [of tx] count [of tx] inS [of tx] by simp
    next
      case new
      then have Q: "tx \<in> set ?Q" using set_take_subset by fast
      then have "tx \<notin> set ?P" using apart by blast
      then show ?thesis using new tx(1) [of tx] count [of tx] inS [of tx] Q q0 [OF Q] by simp
    next
      case queued
      then have Q: "tx' \<in> set ?Q" using set_drop_subset by fast
      then have nP: "tx' \<notin> set ?P" using apart by blast
      have "tx' \<notin> set (take ?n ?Q)" if "b \<in> set (tx_packets tx')" for b
      proof
        assume "tx' \<in> set (take ?n ?Q)"
        moreover have "distinct (concat (map tx_packets (take ?n ?Q @ drop ?n ?Q)))"
          using dis by simp
        ultimately show False using queued that unfolding map_append concat_append by fastforce
      qed
      then show ?thesis using tx(1) [of tx'] count [of tx'] inS [of tx'] Q nP by auto
    qed
  qed
  have C: "int (count_list ?L b) \<le> sn_max_attempts s" for b
  proof (cases "\<exists>tx \<in> set ?S. b \<in> set (tx_packets tx)")
    case True
    then obtain tx where t: "tx \<in> set ?S" "b \<in> set (tx_packets tx)" by blast
    then have m: "tx \<in> set (?P @ ?Q)" using sub by blast
    have "tx_attempts tx < sn_max_attempts s"
      using t(1) inS [of tx] m q0 [of tx] max1 by (auto simp: resends_def split: if_splits)
    then show ?thesis using count [OF m t(2)] t(1) by simp
  next
    case False
    then show ?thesis using cnt [of b] le [of b] by simp
  qed
  have D: "set ?L \<subseteq> E"
  proof -
    have "\<forall>tx \<in> set ?S. set (tx_packets tx) \<subseteq> E" using tx(1) sub by blast
    then have "set (concat (map tx_packets ?S)) \<subseteq> E" unfolding set_concat set_map by blast
    then show ?thesis using LE by simp
  qed
  show ?thesis
    unfolding handed_out_def pump_payloads [OF ok] max_s
    using pump_ok [OF ok] A B C D by blast
qed


lemma handed_out_ops:
  "handed_out L E s \<Longrightarrow> distinct (concat (map op_packets xs)) \<Longrightarrow>
   set (concat (map op_packets xs)) \<inter> E = {} \<Longrightarrow> do_ops xs s = (outs, s') \<Longrightarrow>
   handed_out (L @ map ob_payload outs) (E \<union> set (concat (map op_packets xs))) s' \<and>
   sn_max_attempts s' = sn_max_attempts s"
proof (induction xs s arbitrary: L E outs s' rule: do_ops.induct)
  case (2 x xs s)
  obtain out s1 outs1 where e: "do_op x s = (out, s1)" "do_ops xs s1 = (outs1, s')"
    "outs = out @ outs1"
    using 2(5) by (auto split: prod.splits)
  have "handed_out (L @ map ob_payload out) (E \<union> set (op_packets x)) s1 \<and>
    sn_max_attempts s1 = sn_max_attempts s"
  proof (cases x)
    case (Enqueue now i ps)
    then show ?thesis
      using handed_out_enqueue [OF 2(2), of ps now i] 2(3,4) e(1)
      by (auto simp: enqueue_def split: if_splits)
  next
    case (Acknowledge now i)
    then show ?thesis
      using handed_out_acknowledge [OF 2(2), of now i] e(1)
      by (auto simp: acknowledge_def split: option.splits)
  next
    case (Pump now)
    moreover have "sender_ok s" using 2(2) by (simp add: handed_out_def)
    ultimately show ?thesis
      using handed_out_pump [OF 2(2), of now] e(1) by (auto simp: pump_eq)
  qed
  then show ?case
    using 2(1) [OF e(1) [symmetric] _ _ _ e(2), of "L @ map ob_payload out" "E \<union> set (op_packets x)"]
      2(3,4) e(3)
    by (auto simp: Un_assoc)
qed simp

section \<open>Draining\<close>

text \<open>
  What stands between a message and its end: the transmissions left to it once it is in flight; while it waits, those of the
  messages in flight and of the messages before it in the queue as well.
\<close>

definition tries_left :: "sender \<Rightarrow> (int \<times> transmission) list \<Rightarrow> nat" where
  "tries_left s items = (\<Sum>(i, tx) \<leftarrow> items. nat (sn_max_attempts s - tx_attempts tx + 1))"

definition ahead_of :: "int \<Rightarrow> transmission list \<Rightarrow> nat" where
  "ahead_of m q = length (takeWhile (\<lambda>tx. tx_message_id tx \<noteq> m) q)"

definition load :: "int \<Rightarrow> sender \<Rightarrow> nat" where
  "load m s =
     (case dict_get (sn_pending s) m of
        Some tx \<Rightarrow> nat (sn_max_attempts s - tx_attempts tx + 1)
      | None \<Rightarrow>
          if m \<in> tx_message_id ` set (sn_queue s)
          then tries_left s (sn_pending s) + (nat (sn_max_attempts s) + 1) * (ahead_of m (sn_queue s) + 1)
          else 0)"

definition in_sender :: "int \<Rightarrow> sender \<Rightarrow> bool" where
  "in_sender m s \<longleftrightarrow> m \<in> fst ` set (sn_pending s) \<or> m \<in> tx_message_id ` set (sn_queue s)"

text \<open>Nothing that the load counts was sent after \<open>t\<close>.\<close>

definition settled :: "rat \<Rightarrow> int \<Rightarrow> sender \<Rightarrow> bool" where
  "settled t m s \<longleftrightarrow>
     (case dict_get (sn_pending s) m of
        Some tx \<Rightarrow> the (tx_last_sent_at tx) \<le> t
      | None \<Rightarrow> \<forall>x \<in> set (sn_pending s). the (tx_last_sent_at (snd x)) \<le> t)"

definition sent_by :: "rat \<Rightarrow> sender \<Rightarrow> bool" where
  "sent_by t s \<longleftrightarrow> (\<forall>x \<in> set (sn_pending s). the (tx_last_sent_at (snd x)) \<le> t)"

lemma sender_okD:
  assumes "sender_ok s"
  shows "limits_ok s" "dict_ok (sn_pending s)" "\<And>i tx. (i, tx) \<in> set (sn_pending s) \<Longrightarrow> inflight_ok s (i, tx)"
    "\<And>tx. tx \<in> set (sn_queue s) \<Longrightarrow> tx_message_id tx \<notin> fst ` set (sn_pending s)"
    "distinct (map tx_message_id (sn_queue s))"
  using assms by (auto simp: sender_ok_def dict_ok_def)

lemma load_zero: "sender_ok s \<Longrightarrow> load m s = 0 \<longleftrightarrow> \<not> in_sender m s"
proof -
  assume ok: "sender_ok s"
  show ?thesis
  proof (cases "dict_get (sn_pending s) m")
    case None
    then have "m \<notin> fst ` set (sn_pending s)" by (simp add: map_of_eq_None_iff)
    then show ?thesis unfolding load_def in_sender_def None by simp
  next
    case (Some tx)
    then have "(m, tx) \<in> set (sn_pending s)" by (rule map_of_SomeD)
    then have "tx_attempts tx \<le> sn_max_attempts s" "m \<in> fst ` set (sn_pending s)"
      using sender_okD(3) [OF ok] by (force simp: inflight_ok_def)+
    then show ?thesis by (simp add: load_def in_sender_def Some)
  qed
qed

lemma started_idle:
  assumes "sn_pending s = []" "sn_queue s \<noteq> []"
  shows "started now s \<noteq> []"
proof -
  have "1 \<le> send_window (timed_out now s)" by (simp add: send_window_def)
  then show ?thesis using assms by (simp add: started_def start_count_def room_def)
qed

lemma backoff_le:
  assumes "limits_ok s"
  shows "backoff s n \<le> 16 * sn_retransmit_timeout_seconds s"
proof -
  have "of_int (min (2 ^ nat (max 0 (n - 1))) 16) \<le> (of_int 16 :: rat)"
    by (subst of_int_le_iff) simp
  then have "sn_retransmit_timeout_seconds s * of_int (min (2 ^ nat (max 0 (n - 1))) 16)
      \<le> sn_retransmit_timeout_seconds s * 16"
    using assms by (intro mult_left_mono) (simp_all add: limits_ok_def)
  then show ?thesis by (simp add: backoff_def mult.commute)
qed

lemma settled_all: "sent_by t s \<Longrightarrow> settled t m s"
  by (auto simp: sent_by_def settled_def split: option.splits dest!: map_of_SomeD)

lemma tries_left_kept:
  assumes "\<forall>x \<in> set items. tx_attempts (snd x) \<le> sn_max_attempts s"
  shows "tries_left s (kept now s items) + length (filter (\<lambda>(i, tx). due now s tx) items) = tries_left s items"
  using assms
proof (induction items)
  case (Cons x items)
  obtain i tx where x: "x = (i, tx)" by (cases x)
  show ?case
    using Cons by (auto simp: tries_left_def x kept_Cons gives_up_def resends_def resent_def)
qed (simp add: tries_left_def)

lemma kept_none_due: "filter (\<lambda>(i, tx). due now s tx) items = [] \<Longrightarrow> kept now s items = items"
  by (induction items) (auto simp: kept_Cons gives_up_def resends_def resent_def split: if_splits)

lemma get_kept:
  assumes "distinct (map fst items)"
  shows "dict_get (kept now s items) m =
    (case dict_get items m of None \<Rightarrow> None | Some tx \<Rightarrow> if gives_up now s tx then None else Some (resent now s tx))"
  using assms
proof (induction items)
  case (Cons x items)
  obtain i tx where x: "x = (i, tx)" by (cases x)
  show ?case
  proof (cases "i = m")
    case True
    then have "dict_get items m = None" using Cons.prems by (simp add: x map_of_eq_None_iff)
    then show ?thesis using Cons True by (simp add: x kept_Cons)
  next
    case False
    then show ?thesis using Cons by (simp add: x kept_Cons)
  qed
qed simp

lemma tries_left_cong [simp]:
  "tries_left (s\<lparr>sn_pending := d\<rparr>) = tries_left s" "tries_left (s\<lparr>sn_queue := q\<rparr>) = tries_left s"
  "tries_left (timed_out now s) = tries_left s"
  by (simp_all add: tries_left_def fun_eq_iff)

lemma tries_left_append [simp]: "tries_left s (xs @ ys) = tries_left s xs + tries_left s ys"
  by (simp add: tries_left_def)

lemma tries_left_started:
  "tries_left s (map (\<lambda>tx. (tx_message_id tx, first_sent now tx)) xs) = nat (sn_max_attempts s) * length xs"
  by (induction xs) (simp_all add: tries_left_def)

lemma ahead_of_less: "m \<in> tx_message_id ` set q \<Longrightarrow> ahead_of m q < length q"
  by (induction q) (auto simp: ahead_of_def)

lemma ahead_of_drop: "n \<le> ahead_of m q \<Longrightarrow> ahead_of m (drop n q) = ahead_of m q - n"
  by (induction q arbitrary: n) (auto simp: ahead_of_def drop_Cons' split: if_splits)

lemma ahead_of_mem:
  "distinct (map tx_message_id q) \<Longrightarrow> m \<in> tx_message_id ` set q \<Longrightarrow>
     (m \<in> tx_message_id ` set (take n q) \<longleftrightarrow> ahead_of m q < n) \<and> (m \<in> tx_message_id ` set (drop n q) \<longleftrightarrow> n \<le> ahead_of m q)"
proof (induction q arbitrary: n)
  case (Cons x q)
  show ?case
  proof (cases n)
    case 0
    then show ?thesis using Cons.prems by simp
  next
    case (Suc k)
    then show ?thesis
      using Cons.IH [of k] Cons.prems
      by (auto simp: ahead_of_def dest: in_set_takeD in_set_dropD)
  qed
qed simp

lemma ahead_of_append: "m \<in> tx_message_id ` set q \<Longrightarrow> ahead_of m (q @ r) = ahead_of m q"
  by (induction q) (auto simp: ahead_of_def)


lemma pump_fields:
  assumes "sender_ok s"
  shows "sn_pending (snd (pump now s)) = kept now s (sn_pending s) @
      map (\<lambda>tx. (tx_message_id tx, first_sent now tx)) (started now s)"
    "sn_queue (snd (pump now s)) = drop (start_count now s) (sn_queue s)"
    "sn_max_attempts (snd (pump now s)) = sn_max_attempts s"
    "sn_retransmit_timeout_seconds (snd (pump now s)) = sn_retransmit_timeout_seconds s"
  by (simp_all add: pump_eq [OF assms])

lemma load_pump_flight:
  assumes ok: "sender_ok s" and m: "dict_get (sn_pending s) m = Some tx"
  shows "load m (snd (pump now s)) = (if due now s tx then load m s - 1 else load m s)"
    "\<not> due now s tx \<Longrightarrow> dict_get (sn_pending (snd (pump now s))) m = Some tx"
    "0 < load m s"
proof -
  have mem: "(m, tx) \<in> set (sn_pending s)" using m by (rule map_of_SomeD)
  have att: "1 \<le> tx_attempts tx" "tx_attempts tx \<le> sn_max_attempts s"
    using sender_okD(3) [OF ok mem] by (simp_all add: inflight_ok_def)
  have notq: "m \<notin> tx_message_id ` set (sn_queue s)"
    using sender_okD(4) [OF ok] mem by force
  have "set (started now s) \<subseteq> set (sn_queue s)" "set (drop (start_count now s) (sn_queue s)) \<subseteq> set (sn_queue s)"
    by (simp_all add: started_def set_take_subset set_drop_subset)
  then have new: "dict_get (map (\<lambda>tx. (tx_message_id tx, first_sent now tx)) (started now s)) m = None"
    "m \<notin> tx_message_id ` set (drop (start_count now s) (sn_queue s))"
    using notq by (force simp: map_of_eq_None_iff)+
  have get: "dict_get (sn_pending (snd (pump now s))) m = (if gives_up now s tx then None else Some (resent now s tx))"
    using get_kept [of "sn_pending s" now s m] sender_okD(2) [OF ok] m new(1)
    by (simp add: pump_fields [OF ok] dict_ok_def map_add_def split: option.splits)
  show "0 < load m s" using att by (simp add: load_def m)
  show "load m (snd (pump now s)) = (if due now s tx then load m s - 1 else load m s)"
    using att new(2) unfolding load_def get by (auto simp: m pump_fields [OF ok] gives_up_def resent_def resends_def)
  show "\<not> due now s tx \<Longrightarrow> dict_get (sn_pending (snd (pump now s))) m = Some tx"
    by (simp add: get gives_up_def resent_def resends_def)
qed

lemma load_pump_queued:
  assumes ok: "sender_ok s" and m: "dict_get (sn_pending s) m = None" "m \<in> tx_message_id ` set (sn_queue s)"
  shows "load m (snd (pump now s)) < load m s \<or>
    load m (snd (pump now s)) = load m s \<and> start_count now s = 0 \<and> filter (\<lambda>(i, tx). due now s tx) (sn_pending s) = []"
proof -
  let ?n = "start_count now s" and ?k = "ahead_of m (sn_queue s)" and ?M = "sn_max_attempts s"
  have k: "?k < length (sn_queue s)" by (rule ahead_of_less [OF m(2)])
  have lim: "1 \<le> ?M" using sender_okD(1) [OF ok] by (simp add: limits_ok_def)
  note place = ahead_of_mem [OF sender_okD(5) [OF ok] m(2), of ?n]
  have kept: "dict_get (kept now s (sn_pending s)) m = None"
    using get_kept [of "sn_pending s" now s m] sender_okD(2) [OF ok] m(1) by (simp add: dict_ok_def)
  have old: "load m s = tries_left s (sn_pending s) + (nat ?M + 1) * (?k + 1)" by (simp add: load_def m)
  show ?thesis
  proof (cases "?k < ?n")
    case True
    then have "m \<in> fst ` set (map (\<lambda>tx. (tx_message_id tx, first_sent now tx)) (started now s))"
      using place by (force simp: started_def)
    then obtain tx1 where tx1: "dict_get (map (\<lambda>tx. (tx_message_id tx, first_sent now tx)) (started now s)) m = Some tx1"
      by (metis map_of_eq_None_iff not_None_eq)
    then have "tx_attempts tx1 = 1" by (auto dest!: map_of_SomeD simp: first_sent_def)
    then have "load m (snd (pump now s)) = nat ?M"
      unfolding load_def pump_fields [OF ok] using kept tx1 by (simp add: map_add_def)
    then show ?thesis by (simp add: old)
  next
    case False
    then have notin: "m \<notin> tx_message_id ` set (started now s)" and inq: "m \<in> tx_message_id ` set (drop ?n (sn_queue s))"
      using place by (auto simp: started_def)
    have "dict_get (map (\<lambda>tx. (tx_message_id tx, first_sent now tx)) (started now s)) m = None"
      using notin by (force simp: map_of_eq_None_iff)
    then have get: "dict_get (sn_pending (snd (pump now s))) m = None"
      unfolding pump_fields [OF ok] using kept by (simp add: map_add_def)
    have len: "length (started now s) = ?n" using False k by (simp add: started_def)
    have att: "\<forall>x \<in> set (sn_pending s). tx_attempts (snd x) \<le> ?M"
      using sender_okD(3) [OF ok] by (force simp: inflight_ok_def)
    have new: "load m (snd (pump now s)) =
        tries_left s (kept now s (sn_pending s)) + nat ?M * ?n + (nat ?M + 1) * (?k - ?n + 1)"
      unfolding load_def get using inq False
      by (simp add: pump_fields [OF ok] tries_left_started len ahead_of_drop tries_left_def [of "snd (pump now s)"]
          flip: tries_left_def [of s])
    have "(nat ?M + 1) * (?k + 1) = (nat ?M + 1) * (?k - ?n + 1) + (nat ?M + 1) * ?n"
      using False by (simp flip: distrib_left)
    then have "load m (snd (pump now s)) + length (filter (\<lambda>(i, tx). due now s tx) (sn_pending s)) + ?n = load m s"
      using tries_left_kept [OF att, of now] unfolding new old by simp
    then show ?thesis
      by (cases "filter (\<lambda>(i, tx). due now s tx) (sn_pending s)"; cases "start_count now s") simp_all
  qed
qed

lemma load_pump:
  assumes ok: "sender_ok s"
  shows "load m (snd (pump now s)) \<le> load m s"
    "load m (snd (pump now s)) = load m s \<Longrightarrow> 0 < load m s \<Longrightarrow> settled t m s \<Longrightarrow> settled t m (snd (pump now s))"
    "settled t m s \<Longrightarrow> 0 < load m s \<Longrightarrow> now - t \<ge> 16 * sn_retransmit_timeout_seconds s \<Longrightarrow>
       load m (snd (pump now s)) < load m s"
proof -
  have backoff: "due now s tx"
    if "(i, tx) \<in> set (sn_pending s)" "the (tx_last_sent_at tx) \<le> t" "now - t \<ge> 16 * sn_retransmit_timeout_seconds s" for i tx
  proof -
    have o: "inflight_ok s (i, tx)" using sender_okD(3) [OF ok that(1)] .
    note late = that(2,3)
    obtain l where l: "tx_last_sent_at tx = Some l" using o by (auto simp: inflight_ok_def)
    show ?thesis using backoff_le [OF sender_okD(1) [OF ok], of "tx_attempts tx"] late by (simp add: due_def l)
  qed
  have "load m (snd (pump now s)) \<le> load m s \<and>
    (load m (snd (pump now s)) = load m s \<longrightarrow> 0 < load m s \<longrightarrow> settled t m s \<longrightarrow> settled t m (snd (pump now s))) \<and>
    (settled t m s \<longrightarrow> 0 < load m s \<longrightarrow> now - t \<ge> 16 * sn_retransmit_timeout_seconds s \<longrightarrow>
       load m (snd (pump now s)) < load m s)"
  proof (cases "dict_get (sn_pending s) m")
    case (Some tx)
    note f = load_pump_flight(1,2) [OF ok Some, of now] load_pump_flight(3) [OF ok Some]
    have "settled t m s \<longrightarrow> now - t \<ge> 16 * sn_retransmit_timeout_seconds s \<longrightarrow> due now s tx"
      using backoff [of m tx] Some by (auto simp: settled_def dest: map_of_SomeD)
    then show ?thesis using f by (auto simp: settled_def Some)
  next
    case None
    show ?thesis
    proof (cases "m \<in> tx_message_id ` set (sn_queue s)")
      case True
      have idle: "start_count now s \<noteq> 0" if "sn_pending s = []"
        proof -
        have "sn_queue s \<noteq> []" using True by auto
        then show ?thesis using started_idle [OF that, of now] by (simp add: started_def)
      qed
      have "filter (\<lambda>(i, tx). due now s tx) (sn_pending s) \<noteq> [] \<or> start_count now s \<noteq> 0"
        if "settled t m s" "now - t \<ge> 16 * sn_retransmit_timeout_seconds s"
      proof (cases "sn_pending s")
        case (Cons x xs)
        then have "due now s (snd x)"
          using backoff [of "fst x" "snd x"] that unfolding settled_def None by simp
        then show ?thesis by (simp add: Cons case_prod_unfold)
      qed (use idle in simp)
      moreover have "settled t m (snd (pump now s))"
        if "settled t m s" "start_count now s = 0" "filter (\<lambda>(i, tx). due now s tx) (sn_pending s) = []"
        using that kept_none_due [OF that(3)] by (simp add: settled_def pump_fields [OF ok] started_def cong: option.case_cong)
      ultimately show ?thesis using load_pump_queued [OF ok None True, of now] by auto
    next
      case False
      then have out: "\<not> in_sender m s" using None by (simp add: in_sender_def map_of_eq_None_iff)
      then have "\<not> in_sender m (snd (pump now s))"
        using set_take_subset [of "start_count now s" "sn_queue s"] set_drop_subset [of "start_count now s" "sn_queue s"]
        by (force simp: in_sender_def pump_fields [OF ok] kept_def started_def)
      then show ?thesis using load_zero [OF ok, of m] load_zero [OF pump_ok [OF ok], of m now] out by simp
    qed
  qed
  then show "load m (snd (pump now s)) \<le> load m s"
    "load m (snd (pump now s)) = load m s \<Longrightarrow> 0 < load m s \<Longrightarrow> settled t m s \<Longrightarrow> settled t m (snd (pump now s))"
    "settled t m s \<Longrightarrow> 0 < load m s \<Longrightarrow> now - t \<ge> 16 * sn_retransmit_timeout_seconds s \<Longrightarrow>
       load m (snd (pump now s)) < load m s"
    by blast+
qed


fun op_time :: "sender_op \<Rightarrow> rat" where
  "op_time (Enqueue now i ps) = now"
| "op_time (Acknowledge now i) = now"
| "op_time (Pump now) = now"

fun op_adds :: "sender_op \<Rightarrow> int option" where
  "op_adds (Enqueue now i ps) = Some i"
| "op_adds x = None"

fun pump_times :: "sender_op list \<Rightarrow> rat list" where
  "pump_times [] = []"
| "pump_times (Pump now # xs) = now # pump_times xs"
| "pump_times (x # xs) = pump_times xs"

lemma pump_times_append [simp]: "pump_times (xs @ ys) = pump_times xs @ pump_times ys"
  by (induction xs rule: pump_times.induct) simp_all

lemma set_pump_times: "set (pump_times xs) = {t. Pump t \<in> set xs}"
  by (induction xs rule: pump_times.induct) auto

lemma do_ops_append: "do_ops (xs @ ys) s =
  (case do_ops xs s of (o1, s1) \<Rightarrow> (case do_ops ys s1 of (o2, s2) \<Rightarrow> (o1 @ o2, s2)))"
  by (induction xs arbitrary: s) (auto split: prod.splits)

text \<open>Removing a message in flight, and adding another message to the queue.\<close>

lemma tries_left_del: "tries_left s (dict_del i items) \<le> tries_left s items"
  by (induction items) (auto simp: tries_left_def)

lemma load_acknowledge:
  assumes ok: "sender_ok s"
  shows "load m (snd (acknowledge now i s)) \<le> load m s"
    "settled t m s \<Longrightarrow> load m (snd (acknowledge now i s)) = load m s \<Longrightarrow> 0 < load m s \<Longrightarrow>
       settled t m (snd (acknowledge now i s))"
proof -
  have "load m (snd (acknowledge now i s)) \<le> load m s \<and>
    (settled t m s \<longrightarrow> load m (snd (acknowledge now i s)) = load m s \<longrightarrow> 0 < load m s \<longrightarrow>
       settled t m (snd (acknowledge now i s)))"
  proof (cases "dict_get (sn_pending s) i")
    case (Some tx)
    have get: "dict_get (dict_del i (sn_pending s)) m = (if m = i then None else dict_get (sn_pending s) m)"
      by (simp add: delete_conv')
    have q: "m \<notin> tx_message_id ` set (sn_queue s)" if "dict_get (sn_pending s) m \<noteq> None"
      using that sender_okD(4) [OF ok] by (force dest: map_of_SomeD)
    have tl: "tries_left (snd (acknowledge now i s)) items = tries_left s items" for items
      by (simp add: acknowledge_def Some tries_left_def)
    have st: "sn_pending (snd (acknowledge now i s)) = dict_del i (sn_pending s)"
      "sn_queue (snd (acknowledge now i s)) = sn_queue s"
      "sn_max_attempts (snd (acknowledge now i s)) = sn_max_attempts s"
      by (simp_all add: acknowledge_def Some)
    have sub: "set (dict_del i (sn_pending s)) \<subseteq> set (sn_pending s)" by (auto simp: AList.delete_eq)
    show ?thesis
    proof (cases "dict_get (sn_pending s) m")
      case None
      then have "m \<noteq> i" using Some by auto
      then show ?thesis using None sub tries_left_del [of s i "sn_pending s"]
        by (auto simp: load_def settled_def st tl get)
    next
      case (Some tx1)
      then show ?thesis using q
        by (auto simp: load_def settled_def st tl get)
    qed
  qed (simp add: acknowledge_def)
  then show "load m (snd (acknowledge now i s)) \<le> load m s"
    "settled t m s \<Longrightarrow> load m (snd (acknowledge now i s)) = load m s \<Longrightarrow> 0 < load m s \<Longrightarrow>
       settled t m (snd (acknowledge now i s))"
    by blast+
qed

lemma load_enqueue:
  assumes ok: "sender_ok s" and m: "i \<noteq> m"
  shows "load m (snd (enqueue now i ps s)) = load m s"
    "settled t m (snd (enqueue now i ps s)) = settled t m s"
proof -
  have st: "sn_pending (snd (enqueue now i ps s)) = sn_pending s"
    "sn_max_attempts (snd (enqueue now i ps s)) = sn_max_attempts s"
    by (auto simp: enqueue_def)
  obtain r where q: "sn_queue (snd (enqueue now i ps s)) = sn_queue s @ r" "m \<notin> tx_message_id ` set r"
    using m by (fastforce simp: enqueue_def split: if_splits)
  show "settled t m (snd (enqueue now i ps s)) = settled t m s"
    unfolding settled_def st by (rule refl)
  have "m \<in> tx_message_id ` set (sn_queue s @ r) \<longleftrightarrow> m \<in> tx_message_id ` set (sn_queue s)"
    using q(2) by auto
  then show "load m (snd (enqueue now i ps s)) = load m s"
    unfolding load_def st q(1) tries_left_def
    by (cases "m \<in> tx_message_id ` set (sn_queue s)") (simp_all add: ahead_of_append cong: option.case_cong)
qed

lemma load_op:
  assumes "sender_ok s" "op_adds x \<noteq> Some m"
  shows "load m (snd (do_op x s)) \<le> load m s"
    "settled t m s \<Longrightarrow> load m (snd (do_op x s)) = load m s \<Longrightarrow> 0 < load m s \<Longrightarrow> settled t m (snd (do_op x s))"
  using assms load_acknowledge [OF assms(1)] load_pump [OF assms(1)]
  by (cases x; simp add: load_enqueue)+

lemma load_ops:
  "do_ops xs s = (outs, s') \<Longrightarrow> sender_ok s \<Longrightarrow> \<forall>x \<in> set xs. op_adds x \<noteq> Some m \<Longrightarrow>
   load m s' \<le> load m s \<and>
   (settled t m s \<longrightarrow> load m s' = load m s \<longrightarrow> 0 < load m s \<longrightarrow> settled t m s')"
proof (induction xs s arbitrary: outs s' rule: do_ops.induct)
  case (2 x xs s)
  obtain out s1 outs1 where e: "do_op x s = (out, s1)" "do_ops xs s1 = (outs1, s')"
    using 2(2) by (auto split: prod.splits)
  have x: "op_adds x \<noteq> Some m" using 2(4) by simp
  have "load m s' \<le> load m s1 \<and> (settled t m s1 \<longrightarrow> load m s' = load m s1 \<longrightarrow> 0 < load m s1 \<longrightarrow> settled t m s')"
    using 2(1) [OF e(1) [symmetric] e(2)] do_op_ok [OF 2(3), of x] 2(4) e(1) by simp
  then show ?case using load_op(1) [OF 2(3) x] load_op(2) [OF 2(3) x, of t] e(1) by auto
qed simp

lemma do_op_fields:
  assumes "sender_ok s"
  shows "sn_max_attempts (snd (do_op x s)) = sn_max_attempts s \<and>
    sn_retransmit_timeout_seconds (snd (do_op x s)) = sn_retransmit_timeout_seconds s \<and>
    sn_max_pending_messages (snd (do_op x s)) = sn_max_pending_messages s \<and>
    sn_max_window (snd (do_op x s)) = sn_max_window s"
proof (cases x)
  case (Acknowledge now i)
  then show ?thesis by (cases "dict_get (sn_pending s) i") (simp_all add: acknowledge_def)
qed (simp_all add: enqueue_def pump_eq [OF assms])

lemma do_ops_fields:
  "do_ops xs s = (outs, s') \<Longrightarrow> sender_ok s \<Longrightarrow> sn_max_attempts s' = sn_max_attempts s \<and>
   sn_retransmit_timeout_seconds s' = sn_retransmit_timeout_seconds s \<and>
   sn_max_pending_messages s' = sn_max_pending_messages s \<and> sn_max_window s' = sn_max_window s"
proof (induction xs s arbitrary: outs s' rule: do_ops.induct)
  case (2 x xs s)
  then show ?case using do_op_fields [OF 2(3), of x] do_op_ok [OF 2(3), of x] by (auto split: prod.splits)
qed simp

lemma sent_by_op:
  assumes "sender_ok s" "sent_by t s" "t \<le> op_time x"
  shows "sent_by (op_time x) (snd (do_op x s))"
proof (cases x)
  case (Enqueue now i ps)
  then show ?thesis using assms by (force simp: sent_by_def enqueue_def)
next
  case (Acknowledge now i)
  then show ?thesis using assms
    by (force simp: sent_by_def acknowledge_def AList.delete_eq split: option.splits)
next
  case (Pump now)
  then show ?thesis using assms
    by (force simp: sent_by_def pump_fields kept_def resent_def first_sent_def)
qed

lemma sent_by_ops:
  "do_ops xs s = (outs, s') \<Longrightarrow> sender_ok s \<Longrightarrow> sent_by t s \<Longrightarrow> sorted (t # map op_time xs) \<Longrightarrow>
   \<forall>x \<in> set xs. op_time x \<le> t' \<Longrightarrow> t \<le> t' \<Longrightarrow> sent_by t' s'"
proof (induction xs s arbitrary: outs s' t rule: do_ops.induct)
  case (1 s)
  then show ?case by (force simp: sent_by_def)
next
  case (2 x xs s)
  obtain out s1 outs1 where e: "do_op x s = (out, s1)" "do_ops xs s1 = (outs1, s')"
    using 2(2) by (auto split: prod.splits)
  have "sent_by (op_time x) s1" using sent_by_op [OF 2(3,4), of x] 2(5) e(1) by simp
  then show ?case
    using 2(1) [OF e(1) [symmetric] e(2), of "op_time x"] do_op_ok [OF 2(3), of x] 2(5,6) e(1) by simp
qed

text \<open>
  Over calls that end with a \<open>pump\<close> at least the longest waiting time after the start, the load decreases.
\<close>

lemma load_segment:
  assumes "do_ops xs s = (outs, s1)" "sender_ok s" "sent_by t s" "\<forall>x \<in> set xs. op_adds x \<noteq> Some m"
    and "t + 16 * sn_retransmit_timeout_seconds s \<le> p" "0 < load m s"
  shows "load m (snd (pump p s1)) < load m s"
proof (cases "load m s1 = load m s")
  case True
  have "settled t m s1"
    using load_ops [OF assms(1,2,4), of t] settled_all [OF assms(3), of m] True assms(6) by simp
  then show ?thesis
    using load_pump(3) [OF do_ops_ok [OF assms(2,1)], of t m p] do_ops_fields [OF assms(1,2)] True assms(5,6)
    by simp
next
  case False
  then show ?thesis
    using load_ops [OF assms(1,2,4), of t] load_pump(1) [OF do_ops_ok [OF assms(2,1)], of m p]
    by linarith
qed

text \<open>The first \<open>pump\<close> that is not before \<open>L\<close> comes at most a gap later.\<close>

lemma first_late_pump:
  assumes "L \<le> last (t # pump_times ops)" "t < L" "successively (\<lambda>x y. y - x \<le> d) (t # pump_times ops)"
  obtains xs p ys where "ops = xs @ Pump p # ys" "L \<le> p" "p \<le> L + d"
    "successively (\<lambda>x y. y - x \<le> d) (p # pump_times ys)"
proof -
  have ne: "pump_times ops \<noteq> []" using assms(1,2) by auto
  then have "last (pump_times ops) \<in> set (pump_times ops)" by simp
  then have "\<exists>x \<in> set ops. \<exists>t. x = Pump t \<and> L \<le> t"
    using assms(1) ne by (auto simp: set_pump_times)
  then obtain xs x ys where s: "ops = xs @ x # ys" "\<exists>t. x = Pump t \<and> L \<le> t"
    "\<forall>y \<in> set xs. \<not> (\<exists>t. y = Pump t \<and> L \<le> t)"
    by (rule split_list_first_propE) auto
  then obtain p where p: "x = Pump p" "L \<le> p" by blast
  have "\<forall>u \<in> set (pump_times xs). u < L" using s(3) by (auto simp: set_pump_times not_le)
  then have "last (t # pump_times xs) < L" using assms(2) by (auto simp: last_in_set)
  moreover have "p - last (t # pump_times xs) \<le> d" "successively (\<lambda>x y. y - x \<le> d) (p # pump_times ys)"
    using assms(3) successively_append_iff [of "\<lambda>x y. y - x \<le> d" "t # pump_times xs" "p # pump_times ys"]
    by (simp_all add: s p)
  ultimately show thesis using that [of xs p ys] s(1) p by simp
qed

lemma drains:
  assumes "sender_ok s" "sent_by t s" "load m s \<le> n" "do_ops ops s = (outs, s')"
    and "\<forall>x \<in> set ops. op_adds x \<noteq> Some m" "sorted (t # map op_time ops)"
    and "successively (\<lambda>x y. y - x \<le> d) (t # pump_times ops)" "0 \<le> d"
    and "t + of_nat n * (16 * sn_retransmit_timeout_seconds s + d) \<le> last (t # pump_times ops)"
  shows "load m s' = 0"
  using assms
proof (induction n arbitrary: s t ops outs)
  case 0
  then show ?case using load_ops [OF 0(4,1,5)] by simp
next
  case (Suc n)
  let ?R = "16 * sn_retransmit_timeout_seconds s"
  have R: "0 < ?R" using sender_okD(1) [OF Suc.prems(1)] by (simp add: limits_ok_def)
  show ?case
  proof (cases "load m s = 0")
    case True
    then show ?thesis using load_ops [OF Suc.prems(4,1,5)] by simp
  next
    case False
    have nn: "0 \<le> of_nat n * (?R + d)" using R Suc.prems(8) by simp
    have up: "t + (?R + d) + of_nat n * (?R + d) \<le> last (t # pump_times ops)"
      using Suc.prems(9) by (simp add: distrib_right add.assoc)
    then have "t + ?R \<le> last (t # pump_times ops)" using nn Suc.prems(8) by linarith
    then obtain xs p ys where ops: "ops = xs @ Pump p # ys" and p: "t + ?R \<le> p" "p \<le> t + ?R + d"
      and sc: "successively (\<lambda>x y. y - x \<le> d) (p # pump_times ys)"
      using first_late_pump [OF _ _ Suc.prems(7)] R by (metis less_add_same_cancel1)
    obtain o1 s1 where e1: "do_ops xs s = (o1, s1)" by (cases "do_ops xs s")
    let ?s2 = "snd (pump p s1)"
    obtain o2 where e2: "do_ops ys ?s2 = (o2, s')"
      using Suc.prems(4) by (auto simp: ops do_ops_append e1 split: prod.splits)
    have ok1: "sender_ok s1" by (rule do_ops_ok [OF Suc.prems(1) e1])
    have ok2: "sender_ok ?s2" by (rule pump_ok [OF ok1])
    have srt: "sorted (t # map op_time xs)" "\<forall>x \<in> set xs. op_time x \<le> p" "t \<le> p" "sorted (p # map op_time ys)"
      using Suc.prems(6) by (auto simp: ops sorted_append)
    have sent2: "sent_by p ?s2"
      using sent_by_op [OF ok1 sent_by_ops [OF e1 Suc.prems(1,2) srt(1-3)], of "Pump p"] by simp
    have less: "load m ?s2 \<le> n"
      using load_segment [OF e1 Suc.prems(1,2) _ p(1), of m] False Suc.prems(3,5) by (simp add: ops image_Un)
    have rto: "sn_retransmit_timeout_seconds ?s2 = sn_retransmit_timeout_seconds s"
      using do_ops_fields [OF e1 Suc.prems(1)] pump_fields(4) [OF ok1] by simp
    have "last (t # pump_times ops) = last (p # pump_times ys)" by (simp add: ops)
    then have "p + of_nat n * (16 * sn_retransmit_timeout_seconds ?s2 + d) \<le> last (p # pump_times ys)"
      using up p(2) unfolding rto by linarith
    then show ?thesis
      using Suc.IH [OF ok2 sent2 less e2 _ srt(4) sc Suc.prems(8)] Suc.prems(5) by (simp add: ops)
  qed
qed

lemma tries_left_le:
  "\<forall>x \<in> set items. 1 \<le> tx_attempts (snd x) \<Longrightarrow> tries_left s items \<le> (nat (sn_max_attempts s) + 1) * length items"
proof (induction items)
  case (Cons x items)
  obtain i tx where x: "x = (i, tx)" by (cases x)
  have "nat (sn_max_attempts s - tx_attempts tx + 1) \<le> nat (sn_max_attempts s) + 1"
    using Cons.prems by (simp add: x) linarith
  then show ?case using Cons by (simp add: x tries_left_def)
qed (simp add: tries_left_def)

lemma load_le:
  assumes ok: "sender_ok s"
  shows "int (load m s) \<le> (sn_max_attempts s + 1) * sn_max_pending_messages s"
proof -
  let ?M = "nat (sn_max_attempts s) + 1"
  have lim: "1 \<le> sn_max_attempts s" using sender_okD(1) [OF ok] by (simp add: limits_ok_def)
  have infl: "\<forall>x \<in> set (sn_pending s). 1 \<le> tx_attempts (snd x)"
    using sender_okD(3) [OF ok] by (force simp: inflight_ok_def)
  have "load m s \<le> ?M * (length (sn_pending s) + length (sn_queue s))"
  proof (cases "dict_get (sn_pending s) m")
    case None
    show ?thesis
    proof (cases "m \<in> tx_message_id ` set (sn_queue s)")
      case True
      have "?M * (ahead_of m (sn_queue s) + 1) \<le> ?M * length (sn_queue s)"
        by (rule mult_le_mono2) (use ahead_of_less [OF True] in linarith)
      then show ?thesis using tries_left_le [OF infl, of s]
        unfolding load_def None distrib_left [of ?M] using True by simp
    qed (unfold load_def None, simp)
  next
    case (Some tx)
    then have mem: "(m, tx) \<in> set (sn_pending s)" by (rule map_of_SomeD)
    then have "0 < length (sn_pending s)" "1 \<le> tx_attempts tx" using infl by force+
    have "load m s \<le> ?M * 1" using \<open>1 \<le> tx_attempts tx\<close> by (simp add: load_def Some)
    moreover have "?M * 1 \<le> ?M * (length (sn_pending s) + length (sn_queue s))"
      by (rule mult_le_mono2) (use \<open>0 < length (sn_pending s)\<close> in linarith)
    ultimately show ?thesis by linarith
  qed
  then have "int (load m s) \<le> int (?M * (length (sn_pending s) + length (sn_queue s)))" by linarith
  also have "\<dots> = (sn_max_attempts s + 1) * (int (length (sn_queue s)) + int (length (sn_pending s)))"
    using lim by (simp add: algebra_simps)
  also have "\<dots> \<le> (sn_max_attempts s + 1) * sn_max_pending_messages s"
    using ok lim by (intro mult_left_mono) (simp_all add: sender_ok_def)
  finally show ?thesis .
qed

section \<open>Properties\<close>

text \<open>
  C15. Bounds: whatever is called in whatever order, the sender holds at most
  \<open>max_pending_messages\<close> messages, each identifier once, at most \<open>max_window\<close> of them in flight,
  each of those attempted at most \<open>max_retries + 1\<close> times, and the congestion window stays between
  1 and \<open>max_window\<close>.
\<close>

theorem sender_stays_bounded:
  assumes "ReliableSender_init rto max_retries max_pending w0 max_window = Inr s0"
    and "do_ops ops s0 = (outs, s)"
  shows "distinct (map fst (sn_pending s) @ map tx_message_id (sn_queue s)) \<and>
    int (length (sn_queue s)) + int (length (sn_pending s)) \<le> max_pending \<and>
    int (length (sn_pending s)) \<le> max_window \<and>
    1 \<le> sn_cwnd s \<and> sn_cwnd s \<le> of_int max_window \<and>
    (\<forall>(i, tx) \<in> set (sn_pending s). tx_message_id tx = i \<and>
       1 \<le> tx_attempts tx \<and> tx_attempts tx \<le> max_retries + 1)"
proof -
  have s0: "sn_max_attempts s0 = max_retries + 1" "sn_max_window s0 = of_int max_window"
    "sn_max_pending_messages s0 = max_pending"
    using assms(1) by (auto simp: ReliableSender_init_def split: if_splits)
  have ok: "sender_ok s0" by (rule init_sender_ok [OF assms(1)])
  show ?thesis
    using do_ops_ok [OF ok assms(2)] do_ops_fields [OF assms(2) ok]
    by (auto simp: s0 sender_ok_def limits_ok_def inflight_ok_def)
qed

definition demo_sender :: sender where
  "demo_sender = \<lparr>sn_retransmit_timeout_seconds = 1 / 2, sn_max_attempts = 2,
     sn_max_pending_messages = 3, sn_max_window = 2, sn_cwnd = 1, sn_queue = [], sn_pending = []\<rparr>"

lemma demo_sender_init: "ReliableSender_init (1 / 2) 1 3 1 2 = Inr demo_sender"
  by (simp add: ReliableSender_init_def demo_sender_def)

definition demo_ops :: "sender_op list" where
  "demo_ops = [Enqueue 0 7 [[1], [2]], Enqueue 0 8 [[3]], Pump 0, Pump 1, Acknowledge 2 7, Pump 3]"

theorem sender_stays_bounded_witness:
  "int (length (sn_pending (snd (do_ops demo_ops demo_sender)))) \<le> 2"
  using sender_stays_bounded [OF demo_sender_init, of demo_ops]
  by (cases "do_ops demo_ops demo_sender") simp

text \<open>
  C16. Bounded retransmission: a packet is handed out for sending at most \<open>max_retries + 1\<close> times in
  the life of the sender, provided the callers enqueue every packet once; and only packets that
  were enqueued are handed out.
\<close>

theorem packet_sent_at_most_max_attempts:
  assumes "ReliableSender_init rto max_retries max_pending w0 max_window = Inr s0"
    and "distinct (concat (map op_packets ops))" "do_ops ops s0 = (outs, s)"
  shows "int (count_list (map ob_payload outs) b) \<le> max_retries + 1 \<and>
    set (map ob_payload outs) \<subseteq> set (concat (map op_packets ops))"
proof -
  have "sn_max_attempts s0 = max_retries + 1"
    using assms(1) by (auto simp: ReliableSender_init_def split: if_splits)
  then show ?thesis
    using handed_out_ops [OF handed_out_init [OF assms(1)] assms(2) _ assms(3)]
    by (auto simp: handed_out_def)
qed

theorem packet_sent_at_most_max_attempts_witness:
  "int (count_list (map ob_payload (fst (do_ops demo_ops demo_sender))) [1]) \<le> 2"
  using packet_sent_at_most_max_attempts [OF demo_sender_init, of demo_ops]
  by (cases "do_ops demo_ops demo_sender") (simp add: demo_ops_def)

text \<open>
  What \<open>pump\<close> sends: a message in flight is sent again exactly when its waiting time, which
  doubles with every attempt up to 16 times the timeout, is over and attempts are left; it is
  given up exactly when the waiting time is over and none is left; and messages leave the queue,
  in order, only into free places of the window. Nothing else is sent, and every message given up
  is reported.
\<close>

theorem pump_sends_due_and_fitting:
  assumes "sender_ok s" "pump now s = (r, s')"
  shows "\<exists>again new.
    pr_packets r = concat (map (outbound True) again) @ concat (map (outbound False) new) \<and>
    (\<forall>tx. tx \<in> set again \<longleftrightarrow> tx \<in> snd ` set (sn_pending s) \<and> tx_attempts tx < sn_max_attempts s \<and>
       now - the (tx_last_sent_at tx) \<ge>
         sn_retransmit_timeout_seconds s * of_int (min (2 ^ nat (tx_attempts tx - 1)) 16)) \<and>
    sn_queue s = new @ sn_queue s' \<and>
    (new \<noteq> [] \<longrightarrow> int (length (sn_pending s')) \<le> send_window s') \<and>
    int (length (sn_pending s)) + int (length new) =
      int (length (sn_pending s')) + pr_exhausted_messages r"
proof (intro exI conjI)
  let ?again = "resend_list now s (sn_pending s)" and ?new = "started now s"
  have r: "r = fst (pump now s)" "s' = snd (pump now s)" using assms(2) by simp_all
  show "pr_packets r = concat (map (outbound True) ?again) @ concat (map (outbound False) ?new)"
    by (simp add: r pump_eq [OF assms(1)])
  have in_pending: "1 \<le> tx_attempts tx \<and> (\<exists>l. tx_last_sent_at tx = Some l)" if "(i, tx) \<in> set (sn_pending s)" for i tx
    using that assms(1) by (auto simp: sender_ok_def inflight_ok_def)
  show "\<forall>tx. tx \<in> set ?again \<longleftrightarrow> tx \<in> snd ` set (sn_pending s) \<and> tx_attempts tx < sn_max_attempts s \<and>
      now - the (tx_last_sent_at tx) \<ge>
        sn_retransmit_timeout_seconds s * of_int (min (2 ^ nat (tx_attempts tx - 1)) 16)"
  proof
    fix tx
    have "resends now s tx \<longleftrightarrow> tx_attempts tx < sn_max_attempts s \<and>
        now - the (tx_last_sent_at tx) \<ge>
          sn_retransmit_timeout_seconds s * of_int (min (2 ^ nat (tx_attempts tx - 1)) 16)"
      if "(i, tx) \<in> set (sn_pending s)" for i
      using in_pending [OF that] by (auto simp: resends_def due_def backoff_def not_less)
    then show "tx \<in> set ?again \<longleftrightarrow> tx \<in> snd ` set (sn_pending s) \<and> tx_attempts tx < sn_max_attempts s \<and>
      now - the (tx_last_sent_at tx) \<ge>
        sn_retransmit_timeout_seconds s * of_int (min (2 ^ nat (tx_attempts tx - 1)) 16)"
      by (force simp: resend_list_def)
  qed
  show "sn_queue s = ?new @ sn_queue s'" by (simp add: r pump_eq [OF assms(1)] started_def)
  show "?new \<noteq> [] \<longrightarrow> int (length (sn_pending s')) \<le> send_window s'"
    by (auto simp: r pump_eq [OF assms(1)] started_def start_count_def room_def)
  have "length (kept now s (sn_pending s)) + length (give_up_list now s (sn_pending s)) =
      length (sn_pending s)"
    using sum_length_filter_compl [of "\<lambda>(i, tx). gives_up now s tx" "sn_pending s"]
    by (simp add: kept_def give_up_list_def case_prod_unfold)
  then show "int (length (sn_pending s)) + int (length ?new) =
      int (length (sn_pending s')) + pr_exhausted_messages r"
    by (simp add: r pump_eq [OF assms(1)])
qed

theorem pump_sends_due_and_fitting_witness:
  "\<exists>again new. pr_packets (fst (pump 3 (snd (do_ops demo_ops demo_sender)))) =
    concat (map (outbound True) again) @ concat (map (outbound False) new)"
proof -
  let ?s = "snd (do_ops demo_ops demo_sender)"
  have "sender_ok ?s"
    using do_ops_ok [OF init_sender_ok [OF demo_sender_init], of demo_ops]
    by (cases "do_ops demo_ops demo_sender") simp
  then show ?thesis
    using pump_sends_due_and_fitting [of ?s 3] by (metis prod.collapse)
qed

text \<open>
  C17. Liveness: a message leaves the sender, acknowledged or given up. However the calls of \<open>pump\<close> are
  timed, and whatever is acknowledged and whichever other messages are enqueued between them: once \<open>pump\<close> has
  been called, with gaps of at most \<open>gap\<close> seconds, until \<open>(max_retries + 2) * max_pending_messages\<close> times the
  longest waiting time of 16 timeouts plus the gap after \<open>t0\<close>, a message that is not enqueued again since \<open>t0\<close>
  is neither in flight nor in the queue. The clock does not go back. (The agents' reliability loop waits
  \<open>min 0.05 (retransmit timeout / 4)\<close> seconds between its calls.)
\<close>

theorem message_leaves_sender:
  assumes "ReliableSender_init rto max_retries max_pending w0 max_window = Inr s0"
    and "do_ops before s0 = (outs0, s)" "do_ops ops s = (outs, s')"
    and "sorted (map op_time before @ t0 # map op_time ops)"
    and "\<forall>x \<in> set ops. op_adds x \<noteq> Some m"
    and "0 \<le> gap" "successively (\<lambda>t t'. t' - t \<le> gap) (t0 # pump_times ops)"
    and "t0 + of_int ((max_retries + 2) * max_pending) * (16 * rto + gap) \<le> last (t0 # pump_times ops)"
  shows "m \<notin> fst ` set (sn_pending s') \<and> m \<notin> tx_message_id ` set (sn_queue s')"
proof -
  have s0: "sn_max_attempts s0 = max_retries + 1" "sn_retransmit_timeout_seconds s0 = rto"
    "sn_max_pending_messages s0 = max_pending" "sn_pending s0 = []" "0 < rto"
    using assms(1) by (auto simp: ReliableSender_init_def split: if_splits)
  have ok0: "sender_ok s0" by (rule init_sender_ok [OF assms(1)])
  have ok: "sender_ok s" by (rule do_ops_ok [OF ok0 assms(2)])
  note f = do_ops_fields [OF assms(2) ok0]
  have sent: "sent_by t0 s"
  proof (cases before)
    case Nil
    then show ?thesis using assms(2) s0(4) by (simp add: sent_by_def)
  next
    case (Cons x xs)
    have "sent_by (op_time x) s0" by (simp add: sent_by_def s0(4))
    then show ?thesis
      by (rule sent_by_ops [OF assms(2) ok0]) (use assms(4) in \<open>auto simp: Cons sorted_append\<close>)
  qed
  have "int (load m s) \<le> (max_retries + 2) * max_pending"
    using load_le [OF ok, of m] f by (simp add: s0 add.commute)
  then have "of_nat (load m s) \<le> (of_int ((max_retries + 2) * max_pending) :: rat)"
    by (metis of_int_le_iff of_int_of_nat_eq)
  then have "of_nat (load m s) * (16 * rto + gap) \<le> of_int ((max_retries + 2) * max_pending) * (16 * rto + gap)"
    by (rule mult_right_mono) (use s0(5) assms(6) in simp)
  then have "t0 + of_nat (load m s) * (16 * sn_retransmit_timeout_seconds s + gap) \<le> last (t0 # pump_times ops)"
    using assms(8) f by (simp only: s0)
  then have "load m s' = 0"
    using drains [OF ok sent order.refl assms(3,5) _ assms(7,6)] assms(4) by (simp add: sorted_append)
  then show ?thesis
    using load_zero [OF do_ops_ok [OF ok assms(3)], of m] by (simp add: in_sender_def)
qed

definition demo_pumps :: "sender_op list" where
  "demo_pumps = [Pump 0, Pump 9, Enqueue 10 9 [[4]], Pump 18, Acknowledge 20 8, Pump 27, Pump 36, Pump 45,
     Pump 54, Pump 63, Pump 72, Pump 81, Pump 90, Pump 99, Pump 108, Pump 117, Pump 126, Pump 135, Pump 144, Pump 153]"

theorem message_leaves_sender_witness:
  "7 \<notin> fst ` set (sn_pending (snd (do_ops demo_pumps (snd (do_ops (take 2 demo_ops) demo_sender)))))"
proof -
  let ?s = "snd (do_ops (take 2 demo_ops) demo_sender)"
  have "do_ops (take 2 demo_ops) demo_sender = (fst (do_ops (take 2 demo_ops) demo_sender), ?s)"
    "do_ops demo_pumps ?s = (fst (do_ops demo_pumps ?s), snd (do_ops demo_pumps ?s))" by simp_all
  from message_leaves_sender [OF demo_sender_init this, of 0 7 9]
  show ?thesis by (simp add: demo_ops_def demo_pumps_def)
qed

end
