(* ===== verification/Effects.thy ===== *)
theory Effects
  imports Prelude
begin

text \<open>
  Actions: computations that read and change a state and may raise an exception, with the
  sequencing, \<open>try\<close>, loops and comprehensions that the handlers of the agents use. What a handler
  changed before an exception stays changed, as in Python. The locale at the end gives a
  compositional way to show that a whole handler keeps an invariant, moves the state along a
  preorder, and lets only some exceptions escape.
\<close>


section \<open>Actions\<close>

type_synonym ('s, 'a) act = "'s \<Rightarrow> 'a result \<times> 's"

definition act_return :: "'a \<Rightarrow> ('s, 'a) act" where
  "act_return x s = (Inr x, s)"

definition act_raise :: "exn \<Rightarrow> ('s, 'a) act" where
  "act_raise e s = (Inl e, s)"

definition act_lift :: "'a result \<Rightarrow> ('s, 'a) act" where
  "act_lift r s = (r, s)"

definition act_get :: "('s \<Rightarrow> 'a) \<Rightarrow> ('s, 'a) act" where
  "act_get f s = (Inr (f s), s)"

definition act_update :: "('s \<Rightarrow> 's) \<Rightarrow> ('s, unit) act" where
  "act_update f s = (Inr (), f s)"

definition act_bind :: "('s, 'a) act \<Rightarrow> ('a \<Rightarrow> ('s, 'b) act) \<Rightarrow> ('s, 'b) act" where
  "act_bind m f s = (case m s of (Inl e, s1) \<Rightarrow> (Inl e, s1) | (Inr x, s1) \<Rightarrow> f x s1)"

definition act_then :: "('s, 'a) act \<Rightarrow> ('s, 'b) act \<Rightarrow> ('s, 'b) act" where
  "act_then m n = act_bind m (\<lambda>_. n)"

definition act_when :: "bool \<Rightarrow> ('s, unit) act \<Rightarrow> ('s, unit) act" where
  "act_when b m = (if b then m else act_return ())"

text \<open>A sequence of statements, and \<open>try: m except P as e: handler(e)\<close>.\<close>

fun act_block :: "('s, unit) act list \<Rightarrow> ('s, unit) act" where
  "act_block [] = act_return ()"
| "act_block (m # ms) = act_then m (act_block ms)"

definition act_try :: "('s, 'a) act \<Rightarrow> (exn \<Rightarrow> bool) \<Rightarrow> (exn \<Rightarrow> ('s, 'a) act) \<Rightarrow> ('s, 'a) act" where
  "act_try m catches handler s =
     (case m s of
        (Inl e, s1) \<Rightarrow> if catches e then handler e s1 else (Inl e, s1)
      | (Inr x, s1) \<Rightarrow> (Inr x, s1))"

text \<open>A list comprehension and a \<open>for\<close> loop.\<close>

fun act_map :: "('a \<Rightarrow> ('s, 'b) act) \<Rightarrow> 'a list \<Rightarrow> ('s, 'b list) act" where
  "act_map f [] = act_return []"
| "act_map f (x # xs) = act_bind (f x) (\<lambda>y. act_bind (act_map f xs) (\<lambda>ys. act_return (y # ys)))"

fun act_for :: "'a list \<Rightarrow> ('a \<Rightarrow> ('s, unit) act) \<Rightarrow> ('s, unit) act" where
  "act_for [] f = act_return ()"
| "act_for (x # xs) f = act_then (f x) (act_for xs f)"

named_theorems act_simps \<open>evaluation of actions\<close>

lemma act_basic_simps [act_simps]:
  "act_return x s = (Inr x, s)" "act_raise e s = (Inl e, s)" "act_lift r s = (r, s)"
  "act_get g s = (Inr (g s), s)" "act_update f s = (Inr (), f s)"
  "act_when True m = m" "act_when False m = act_return ()"
  by (simp_all add: act_return_def act_raise_def act_lift_def act_get_def act_update_def act_when_def)

lemma act_bind_Inr [act_simps]: "m s = (Inr x, s1) \<Longrightarrow> act_bind m f s = f x s1"
  by (simp add: act_bind_def)

lemma act_bind_Inl [act_simps]: "m s = (Inl e, s1) \<Longrightarrow> act_bind m f s = (Inl e, s1)"
  by (simp add: act_bind_def)

lemma act_then_Inr [act_simps]: "m s = (Inr x, s1) \<Longrightarrow> act_then m n s = n s1"
  by (simp add: act_then_def act_bind_def)

lemma act_then_Inl [act_simps]: "m s = (Inl e, s1) \<Longrightarrow> act_then m n s = (Inl e, s1)"
  by (simp add: act_then_def act_bind_def)

lemma act_try_Inr [act_simps]: "m s = (Inr x, s1) \<Longrightarrow> act_try m P h s = (Inr x, s1)"
  by (simp add: act_try_def)

lemma act_try_Inl [act_simps]:
  "m s = (Inl e, s1) \<Longrightarrow> act_try m P h s = (if P e then h e s1 else (Inl e, s1))"
  by (simp add: act_try_def)

lemma act_assoc: "act_then (act_then a b) c = act_then a (act_then b c)"
  by (auto simp: act_then_def act_bind_def fun_eq_iff split: prod.splits sum.splits)

text \<open>
  Reasoning about a whole handler at once: \<open>act_spec P m Q\<close> says that from every state that
  satisfies \<open>P\<close> the action ends, with a value or an exception, in a state related to the first
  one by \<open>Q\<close>.
\<close>

definition act_spec :: "('s \<Rightarrow> bool) \<Rightarrow> ('s, 'a) act \<Rightarrow> ('s \<Rightarrow> 'a result \<Rightarrow> 's \<Rightarrow> bool) \<Rightarrow> bool" where
  "act_spec P m Q \<longleftrightarrow> (\<forall>s. P s \<longrightarrow> (case m s of (r, s1) \<Rightarrow> Q s r s1))"

text \<open>
  An action that never leaves \<open>I\<close>, relates the states before and after it by a preorder \<open>L\<close> and
  raises only exceptions of a class \<open>E\<close>: such actions are closed under all the combinators.
\<close>

definition keeps :: "('s \<Rightarrow> bool) \<Rightarrow> ('s \<Rightarrow> 's \<Rightarrow> bool) \<Rightarrow> (exn \<Rightarrow> bool) \<Rightarrow> ('s, 'a) act \<Rightarrow> bool" where
  "keeps I L E m \<longleftrightarrow> act_spec I m (\<lambda>s r s1. I s1 \<and> L s s1 \<and> raises_only E r)"

lemma keepsI:
  "(\<And>s r s1. I s \<Longrightarrow> m s = (r, s1) \<Longrightarrow> I s1 \<and> L s s1 \<and> raises_only E r) \<Longrightarrow> keeps I L E m"
  by (auto simp: keeps_def act_spec_def)

lemma keepsD: "keeps I L E m \<Longrightarrow> I s \<Longrightarrow> m s = (r, s1) \<Longrightarrow> I s1 \<and> L s s1 \<and> raises_only E r"
  by (auto simp: keeps_def act_spec_def)

locale preorder_of_states =
  fixes L :: "'s \<Rightarrow> 's \<Rightarrow> bool"
  assumes L_refl: "L s s"
    and L_trans: "L s s1 \<Longrightarrow> L s1 s2 \<Longrightarrow> L s s2"
begin

lemma keeps_return: "keeps I L E (act_return x)"
  by (rule keepsI) (auto simp: act_simps L_refl raises_only_def)

lemma keeps_get: "keeps I L E (act_get f)"
  by (rule keepsI) (auto simp: act_simps L_refl raises_only_def)

lemma keeps_get_then:
  assumes "\<And>s. I s \<Longrightarrow> keeps I L E (g (f s))"
  shows "keeps I L E (act_bind (act_get f) g)"
proof (rule keepsI)
  fix s r s1
  assume I: "I s" and "act_bind (act_get f) g s = (r, s1)"
  then have "g (f s) s = (r, s1)" by (simp add: act_bind_def act_get_def)
  then show "I s1 \<and> L s s1 \<and> raises_only E r" by (rule keepsD [OF assms [OF I] I])
qed

lemma keeps_lift: "raises_only E r \<Longrightarrow> keeps I L E (act_lift r)"
  by (rule keepsI) (auto simp: act_simps L_refl)

lemma keeps_bind:
  assumes "keeps I L E m" "\<And>x. keeps I L E (f x)"
  shows "keeps I L E (act_bind m f)"
proof (rule keepsI)
  fix s r s1
  assume I: "I s" and e: "act_bind m f s = (r, s1)"
  obtain q s' where m: "m s = (q, s')" by (cases "m s")
  note k = keepsD [OF assms(1) I m]
  show "I s1 \<and> L s s1 \<and> raises_only E r"
  proof (cases q)
    case (Inl x)
    then show ?thesis using k e m by (auto simp: act_simps raises_only_def)
  next
    case (Inr x)
    then have "f x s' = (r, s1)" using e m by (simp add: act_simps)
    then show ?thesis using keepsD [OF assms(2)] k L_trans by blast
  qed
qed

lemma keeps_then: "keeps I L E m \<Longrightarrow> keeps I L E n \<Longrightarrow> keeps I L E (act_then m n)"
  unfolding act_then_def by (rule keeps_bind)

lemma keeps_when: "(b \<Longrightarrow> keeps I L E m) \<Longrightarrow> keeps I L E (act_when b m)"
  by (simp add: act_when_def keeps_return)

lemma keeps_block: "(\<And>m. m \<in> set ms \<Longrightarrow> keeps I L E m) \<Longrightarrow> keeps I L E (act_block ms)"
  by (induction ms) (auto intro: keeps_return keeps_then)

lemma keeps_for: "(\<And>x. x \<in> set xs \<Longrightarrow> keeps I L E (f x)) \<Longrightarrow> keeps I L E (act_for xs f)"
  by (induction xs) (auto intro: keeps_return keeps_then)

lemma keeps_map: "(\<And>x. x \<in> set xs \<Longrightarrow> keeps I L E (f x)) \<Longrightarrow> keeps I L E (act_map f xs)"
  by (induction xs) (auto intro: keeps_return keeps_bind)

lemma keeps_try:
  assumes "keeps I L E m" "\<And>e. P e \<Longrightarrow> keeps I L E' (h e)" "\<And>e. E e \<Longrightarrow> \<not> P e \<Longrightarrow> E' e"
  shows "keeps I L E' (act_try m P h)"
proof (rule keepsI)
  fix s r s1
  assume I: "I s" and e: "act_try m P h s = (r, s1)"
  obtain q s' where m: "m s = (q, s')" by (cases "m s")
  note k = keepsD [OF assms(1) I m]
  show "I s1 \<and> L s s1 \<and> raises_only E' r"
  proof (cases q)
    case (Inr x)
    then show ?thesis using k e m by (auto simp: act_simps raises_only_def)
  next
    case (Inl x)
    show ?thesis
    proof (cases "P x")
      case True
      then have "h x s' = (r, s1)" using e m Inl by (simp add: act_simps)
      then show ?thesis using keepsD [OF assms(2) [OF True]] k L_trans by blast
    next
      case False
      then show ?thesis using k e m Inl assms(3) by (auto simp: act_simps raises_only_def)
    qed
  qed
qed

lemma keeps_weaken: "keeps I L E m \<Longrightarrow> (\<And>e. E e \<Longrightarrow> E' e) \<Longrightarrow> keeps I L E' m"
  by (auto simp: keeps_def act_spec_def raises_only_def split: sum.splits)

lemmas keeps_rules = keeps_return keeps_get keeps_bind keeps_then keeps_when keeps_block keeps_for
  keeps_map

end

end
