(* ===== verification/Metrics.thy ===== *)
theory Metrics
  imports Effects Py_Json
begin

text \<open>
  \<open>Metrics\<close> of \<open>h3ntun/metrics.py\<close> and \<open>is_healthy\<close> of \<open>h3ntun/health.py\<close>: the dictionary of counters and
  times, its operations, and the health verdict computed from a snapshot. Shown: every key the
  agents increment always holds an integer, so counting never raises; and what health means.
\<close>


section \<open>The counters\<close>

record metrics =
  mt_metrics_file :: string
  mt_data :: "(string, json) dict"

definition zero_counters :: "string list" where
  "zero_counters =
     [''uplink_tx_packets'', ''uplink_tx_bytes'', ''uplink_rx_packets'', ''uplink_rx_bytes'',
      ''downlink_tx_packets'', ''downlink_tx_bytes'', ''downlink_rx_packets'', ''downlink_rx_bytes'',
      ''inner_tx_packets'', ''inner_tx_bytes'', ''inner_rx_packets'', ''inner_rx_bytes'',
      ''auth_failures'', ''replay_drops'', ''source_mismatch_drops'',
      ''inner_source_mismatch_drops'', ''oversize_drops'', ''encrypted_frames_tx'',
      ''encrypted_frames_rx'', ''fragment_messages'', ''fragments_created'',
      ''fragments_received'', ''fec_recoveries'', ''acks_tx'', ''acks_rx'', ''acked_messages'',
      ''retransmitted_frames'', ''retry_exhausted'', ''queue_drops'', ''reassembly_timeouts'',
      ''duplicate_messages'', ''stale_ack_drops'', ''unknown_ack_drops'', ''queued_messages'',
      ''inflight_messages'']"

definition Metrics_init :: "string \<Rightarrow> string \<Rightarrow> rat \<Rightarrow> metrics" where
  "Metrics_init role metrics_file now =
     \<lparr>mt_metrics_file = metrics_file,
      mt_data =
        [(''role'', JStr role), (''started_at'', JFloat (Fin now)), (''updated_at'', JFloat (Fin now))] @
        map (\<lambda>k. (k, JInt 0)) zero_counters @
        [(''congestion_window'', JFloat (Fin 64)), (''last_ack_rtt_ms'', JNull),
         (''replay_checkpoint_queue_depth'', JInt 0), (''replay_checkpoint_inflight'', JInt 0),
         (''replay_checkpoint_lag_frames'', JInt 0), (''replay_checkpoint_lag_ms'', JFloat (Fin 0)),
         (''replay_write_latency_ms'', JNull), (''replay_persistence_errors'', JInt 0),
         (''replay_checkpoints'', JInt 0), (''replay_snapshots_coalesced'', JInt 0),
         (''replay_persistence_last_error'', JNull), (''last_uplink_peer'', JNull),
         (''last_downlink_source'', JNull), (''last_uplink_at'', JNull),
         (''last_downlink_at'', JNull), (''last_inner_at'', JNull), (''last_pong_at'', JNull),
         (''last_rtt_ms'', JNull), (''last_error'', JNull)]\<rparr>"

text \<open>\<open>value + amount\<close> for the values a counter can hold.\<close>

fun json_plus :: "json \<Rightarrow> int \<Rightarrow> json result" where
  "json_plus (JInt i) n = Inr (JInt (i + n))"
| "json_plus (JBool b) n = Inr (JInt (of_bool b + n))"
| "json_plus (JFloat (Fin r)) n = Inr (JFloat (Fin (r + of_int n)))"
| "json_plus (JFloat x) n = Inr (JFloat x)"
| "json_plus _ n = Inl TypeError"

text \<open>\<open>self.data[key] += amount\<close>\<close>

definition data_plus :: "string \<Rightarrow> int \<Rightarrow> (metrics, unit) act" where
  "data_plus k amount M =
     (case dict_get (mt_data M) k of
        None \<Rightarrow> (Inl KeyError, M)
      | Some v \<Rightarrow>
          (case json_plus v amount of
             Inl e \<Rightarrow> (Inl e, M)
           | Inr v1 \<Rightarrow> (Inr (), M\<lparr>mt_data := dict_put k v1 (mt_data M)\<rparr>)))"

definition touch :: "rat \<Rightarrow> (metrics, unit) act" where
  "touch now = act_update (\<lambda>M. M\<lparr>mt_data := dict_put ''updated_at'' (JFloat (Fin now)) (mt_data M)\<rparr>)"

definition Metrics_add :: "rat \<Rightarrow> string \<Rightarrow> int \<Rightarrow> (metrics, unit) act" where
  "Metrics_add now prefix byte_count =
     act_block [data_plus (prefix @ ''_packets'') 1, data_plus (prefix @ ''_bytes'') byte_count,
                touch now]"

definition Metrics_increment :: "rat \<Rightarrow> string \<Rightarrow> int \<Rightarrow> (metrics, unit) act" where
  "Metrics_increment now k amount = act_block [data_plus k amount, touch now]"

definition Metrics_set :: "rat \<Rightarrow> (string \<times> json) list \<Rightarrow> (metrics, unit) act" where
  "Metrics_set now values =
     act_block
       [act_update (\<lambda>M. M\<lparr>mt_data := fold (\<lambda>(k, v). dict_put k v) values (mt_data M)\<rparr>), touch now]"

definition Metrics_snapshot :: "metrics \<Rightarrow> (string, json) dict" where
  "Metrics_snapshot M = mt_data M"

text \<open>
  \<open>persist\<close>: the temporary file is written and renamed over the old one, so the file either gets
  the whole snapshot or stays as it was, when one of the calls fails with \<open>failing\<close>.
\<close>

definition Metrics_persist :: "exn option \<Rightarrow> metrics \<Rightarrow> json option \<Rightarrow> unit result \<times> json option" where
  "Metrics_persist failing M file =
     (case failing of
        Some e \<Rightarrow> (Inl e, file)
      | None \<Rightarrow> (Inr (), Some (JObj (Metrics_snapshot M))))"

section \<open>Counters never go missing\<close>

text \<open>Every key that the agents increment holds an integer.\<close>

definition metrics_ok :: "metrics \<Rightarrow> bool" where
  "metrics_ok M \<longleftrightarrow> (\<forall>k \<in> set zero_counters. \<exists>i. dict_get (mt_data M) k = Some (JInt i))"

text \<open>The values that \<open>set\<close> stores keep counters integers.\<close>

definition settable :: "(string \<times> json) list \<Rightarrow> bool" where
  "settable values \<longleftrightarrow> (\<forall>(k, v) \<in> set values. k \<in> set zero_counters \<longrightarrow> (\<exists>i. v = JInt i))"

lemma map_of_map_const: "k \<in> set ks \<Longrightarrow> map_of (map (\<lambda>k. (k, v)) ks) k = Some v"
  by (induction ks) auto

lemma metrics_ok_init: "metrics_ok (Metrics_init role file now)"
proof -
  have "''role'' \<notin> set zero_counters" "''started_at'' \<notin> set zero_counters"
    "''updated_at'' \<notin> set zero_counters"
    by (simp_all add: zero_counters_def)
  then show ?thesis
    unfolding metrics_ok_def Metrics_init_def
    by (auto simp: map_add_def map_of_map_const)
qed

definition counts :: "(metrics, unit) act \<Rightarrow> bool" where
  "counts m \<longleftrightarrow> (\<forall>M. metrics_ok M \<longrightarrow> (\<exists>M1. m M = (Inr (), M1) \<and> metrics_ok M1))"

lemma counts_block: "(\<And>m. m \<in> set ms \<Longrightarrow> counts m) \<Longrightarrow> counts (act_block ms)"
proof (induction ms)
  case Nil
  then show ?case by (simp add: counts_def act_simps)
next
  case (Cons m ms)
  show ?case
    unfolding counts_def
  proof (intro allI impI)
    fix M assume "metrics_ok M"
    then obtain M1 where "m M = (Inr (), M1)" "metrics_ok M1"
      using Cons.prems [of m] by (auto simp: counts_def)
    moreover from this obtain M2 where "act_block ms M1 = (Inr (), M2)" "metrics_ok M2"
      using Cons by (auto simp: counts_def)
    ultimately show "\<exists>M2. act_block (m # ms) M = (Inr (), M2) \<and> metrics_ok M2"
      by (simp add: act_simps)
  qed
qed

lemma data_plus_counts: "k \<in> set zero_counters \<Longrightarrow> counts (data_plus k n)"
  unfolding counts_def
proof (intro allI impI)
  fix M assume k: "k \<in> set zero_counters" and M: "metrics_ok M"
  then obtain i where i: "dict_get (mt_data M) k = Some (JInt i)" by (auto simp: metrics_ok_def)
  have "metrics_ok (M\<lparr>mt_data := dict_put k (JInt (i + n)) (mt_data M)\<rparr>)"
    using M by (auto simp: metrics_ok_def dict_simps)
  then show "\<exists>M1. data_plus k n M = (Inr (), M1) \<and> metrics_ok M1"
    by (simp add: data_plus_def i)
qed

lemma touch_counts: "counts (touch now)"
  by (auto simp: counts_def touch_def act_simps metrics_ok_def dict_simps zero_counters_def)

lemma Metrics_increment_counts: "k \<in> set zero_counters \<Longrightarrow> counts (Metrics_increment now k n)"
  unfolding Metrics_increment_def
  by (rule counts_block) (auto intro: data_plus_counts touch_counts)

lemma Metrics_add_counts:
  "p @ ''_packets'' \<in> set zero_counters \<Longrightarrow> p @ ''_bytes'' \<in> set zero_counters \<Longrightarrow>
   counts (Metrics_add now p n)"
  unfolding Metrics_add_def
  by (rule counts_block) (auto intro: data_plus_counts touch_counts)

lemma fold_put_ok:
  "settable values \<Longrightarrow> \<forall>k \<in> set zero_counters. \<exists>i. map_of d k = Some (JInt i) \<Longrightarrow>
   \<forall>k \<in> set zero_counters. \<exists>i. map_of (fold (\<lambda>(k, v). dict_put k v) values d) k = Some (JInt i)"
proof (induction "values" arbitrary: d)
  case (Cons x xs)
  obtain k v where x: "x = (k, v)" by (cases x)
  show ?case
    using Cons.prems by (simp add: x, intro Cons.IH) (auto simp: settable_def x dict_simps)
qed simp

lemma Metrics_set_counts:
  assumes "settable values"
  shows "counts (Metrics_set now values)"
  unfolding Metrics_set_def
proof (rule counts_block)
  fix m assume "m \<in> set [act_update (\<lambda>M. M\<lparr>mt_data := fold (\<lambda>(k, v). dict_put k v) values (mt_data M)\<rparr>),
    touch now]"
  moreover have "counts (act_update (\<lambda>M. M\<lparr>mt_data := fold (\<lambda>(k, v). dict_put k v) values (mt_data M)\<rparr>))"
    using fold_put_ok [OF assms] by (simp add: counts_def act_simps metrics_ok_def)
  ultimately show "counts m" using touch_counts by auto
qed

lemmas counts_rules = Metrics_increment_counts Metrics_add_counts Metrics_set_counts

section \<open>Health\<close>

text \<open>
  \<open>is_healthy\<close> of \<open>h3ntun/health.py\<close>. \<open>float_value\<close> is Python's \<open>float\<close> on the values of a
  snapshot; text is never stored under the keys read here, and text that is not a number raises.
\<close>

fun float_value :: "json \<Rightarrow> pyfloat result" where
  "float_value (JInt i) = Inr (Fin (of_int i))"
| "float_value (JBool b) = Inr (Fin (of_bool b))"
| "float_value (JFloat x) = Inr x"
| "float_value (JStr _) = Inl (ValueError ''could not convert string to float'')"
| "float_value _ = Inl TypeError"

fun float_values :: "json list \<Rightarrow> pyfloat list result" where
  "float_values [] = Inr []"
| "float_values (v # vs) =
     and_then (float_value v) (\<lambda>x. and_then (float_values vs) (\<lambda>xs. Inr (x # xs)))"

text \<open>Python's \<open><\<close> on floats, the \<open>max\<close> of a list, which keeps the first of equals, truth of a
  float, and \<open>now - last <= timeout\<close>.\<close>

fun float_less :: "pyfloat \<Rightarrow> pyfloat \<Rightarrow> bool" where
  "float_less (Fin a) (Fin b) = (a < b)"
| "float_less NegInf (Fin b) = True"
| "float_less NegInf PosInf = True"
| "float_less (Fin a) PosInf = True"
| "float_less _ _ = False"

fun float_max :: "pyfloat list \<Rightarrow> pyfloat option" where
  "float_max [] = None"
| "float_max (x # xs) = Some (foldl (\<lambda>a b. if float_less a b then b else a) x xs)"

definition float_true :: "pyfloat \<Rightarrow> bool" where
  "float_true x \<longleftrightarrow> x \<noteq> Fin 0"

fun age_within :: "rat \<Rightarrow> rat \<Rightarrow> pyfloat \<Rightarrow> bool" where
  "age_within now timeout (Fin r) = (now - r \<le> timeout)"
| "age_within now timeout PosInf = True"
| "age_within now timeout _ = False"

text \<open>Truth of a JSON value.\<close>

fun stored_truthy :: "json \<Rightarrow> bool" where
  "stored_truthy JNull = False"
| "stored_truthy (JBool b) = b"
| "stored_truthy (JInt i) = (i \<noteq> 0)"
| "stored_truthy (JFloat x) = float_true x"
| "stored_truthy (JStr s) = (s \<noteq> [])"
| "stored_truthy (JArr xs) = (xs \<noteq> [])"
| "stored_truthy (JObj xs) = (xs \<noteq> [])"

definition lookup_or_none :: "(string, json) dict \<Rightarrow> string \<Rightarrow> json" where
  "lookup_or_none d k = (case dict_get d k of None \<Rightarrow> JNull | Some v \<Rightarrow> v)"

definition is_healthy :: "rat \<Rightarrow> (string, json) dict \<Rightarrow> rat \<Rightarrow> bool result" where
  "is_healthy now snapshot timeout_seconds =
     (case dict_get snapshot ''role'' of
        None \<Rightarrow> Inl KeyError
      | Some role \<Rightarrow>
          if role = JStr ''iran'' then
            and_then (float_values (filter (\<lambda>v. v \<noteq> JNull)
                (map (lookup_or_none snapshot) [''last_pong_at'', ''last_downlink_at'']))) (\<lambda>xs.
              case float_max xs of
                None \<Rightarrow> Inr False
              | Some latest \<Rightarrow> Inr (float_true latest \<and> age_within now timeout_seconds latest))
          else
            (let latest = lookup_or_none snapshot ''last_uplink_at'' in
             if \<not> stored_truthy latest then Inr False
             else and_then (float_value latest) (\<lambda>x. Inr (age_within now timeout_seconds x))))"

text \<open>\<open>do_GET\<close> of the health server: the status code and the JSON value of the body.\<close>

definition do_GET :: "rat \<Rightarrow> rat \<Rightarrow> string \<Rightarrow> metrics \<Rightarrow> (nat \<times> json) result" where
  "do_GET now timeout_seconds path M =
     (let snapshot = Metrics_snapshot M in
      and_then (is_healthy now snapshot timeout_seconds) (\<lambda>healthy.
        if path = ''/healthz'' then
          (case dict_get snapshot ''role'' of
             None \<Rightarrow> Inl KeyError
           | Some role \<Rightarrow> Inr (if healthy then 200 else 503,
                            JObj [(''ok'', JBool healthy), (''role'', role)]))
        else if path = ''/status'' then
          Inr (200, JObj (dict_put ''healthy'' (JBool healthy) snapshot))
        else Inr (404, JObj [(''error'', JStr ''not found'')])))"

text \<open>On the times that the agents store.\<close>

definition stored_time :: "rat option \<Rightarrow> json" where
  "stored_time t = (case t of None \<Rightarrow> JNull | Some r \<Rightarrow> JFloat (Fin r))"

lemma is_healthy_iran:
  assumes "dict_get d ''role'' = Some (JStr ''iran'')"
    and "lookup_or_none d ''last_pong_at'' = stored_time a"
    and "lookup_or_none d ''last_downlink_at'' = stored_time b"
  shows "is_healthy now d timeout =
    Inr (case (a, b) of
        (None, None) \<Rightarrow> False
      | (Some x, None) \<Rightarrow> x \<noteq> 0 \<and> now - x \<le> timeout
      | (None, Some y) \<Rightarrow> y \<noteq> 0 \<and> now - y \<le> timeout
      | (Some x, Some y) \<Rightarrow> max x y \<noteq> 0 \<and> now - max x y \<le> timeout)"
  using assms
  by (cases a; cases b)
    (auto simp: is_healthy_def stored_time_def float_true_def max_def)

lemma is_healthy_foreign:
  assumes "dict_get d ''role'' = Some (JStr ''foreign'')"
    and "lookup_or_none d ''last_uplink_at'' = stored_time a"
  shows "is_healthy now d timeout =
    Inr (case a of None \<Rightarrow> False | Some x \<Rightarrow> x \<noteq> 0 \<and> now - x \<le> timeout)"
  using assms by (cases a) (auto simp: is_healthy_def stored_time_def float_true_def)

section \<open>Properties\<close>

text \<open>
  Health: with the times the agents store (none yet, or a positive one), the Iran side is
  healthy exactly when a pong or a downlink frame arrived within the timeout, the foreign side
  exactly when an uplink frame did; nothing is raised.
\<close>

theorem is_healthy_iff_recent:
  assumes "lookup_or_none d ''last_pong_at'' = stored_time a"
    and "lookup_or_none d ''last_downlink_at'' = stored_time b"
    and "lookup_or_none d ''last_uplink_at'' = stored_time c"
    and "\<forall>t \<in> set_option a \<union> set_option b \<union> set_option c. 0 < t"
    and "dict_get d ''role'' = Some (JStr role)" "role \<in> {''iran'', ''foreign''}"
  shows "is_healthy now d timeout =
    Inr (\<exists>t. now - t \<le> timeout \<and>
          (if role = ''iran'' then a = Some t \<or> b = Some t else c = Some t))"
proof (cases "role = ''iran''")
  case True
  then show ?thesis
    using assms(4,5) by (cases a; cases b) (auto simp: is_healthy_iran [OF _ assms(1,2)] max_def)
next
  case False
  then have "role = ''foreign''" using assms(6) by simp
  then show ?thesis
    using assms(4,5) by (cases c) (auto simp: is_healthy_foreign [OF _ assms(3)])
qed

theorem is_healthy_iff_recent_witness:
  "is_healthy 100 (Metrics_snapshot (snd (Metrics_set 95 [(''last_pong_at'', JFloat (Fin 90))]
     (Metrics_init ''iran'' ''m'' 1)))) 20 = Inr True"
proof -
  let ?d = "Metrics_snapshot (snd (Metrics_set 95 [(''last_pong_at'', JFloat (Fin 90))]
     (Metrics_init ''iran'' ''m'' 1)))"
  have "lookup_or_none ?d ''last_pong_at'' = stored_time (Some 90)"
    "lookup_or_none ?d ''last_downlink_at'' = stored_time None"
    "lookup_or_none ?d ''last_uplink_at'' = stored_time None"
    "dict_get ?d ''role'' = Some (JStr ''iran'')"
    by code_simp+
  then show ?thesis using is_healthy_iff_recent [of ?d "Some 90" None None "''iran''" 100 20] by simp
qed

end
