(* ===== verification/Config.thy ===== *)
theory Config
  imports Py_Json
begin

text \<open>
  The configuration records of \<open>h3ntun/config.py\<close>. A floating-point setting is a rational: the
  loader admits only finite values.
\<close>


section \<open>Configuration\<close>

type_synonym address = "string \<times> int"

record common_config =
  cf_role :: string
  cf_tunnel_id :: bytes
  cf_shared_secret :: bytes
  cf_health_listen :: address
  cf_metrics_file :: string
  cf_keepalive_seconds :: rat
  cf_health_timeout_seconds :: rat
  cf_recv_buffer_bytes :: int
  cf_fragment_payload_bytes :: int
  cf_fec_enabled :: bool
  cf_reliable :: bool
  cf_retransmit_timeout_seconds :: rat
  cf_max_retries :: int
  cf_max_pending_messages :: int
  cf_reassembly_timeout_seconds :: rat
  cf_replay_checkpoint_interval_seconds :: rat
  cf_replay_checkpoint_batch_frames :: int

record iran_config = common_config +
  ir_inner_listen :: address
  ir_uplink_bind :: address
  ir_foreign_uplink :: address
  ir_downlink_listen :: address
  ir_expected_downlink_source :: "string option"
  ir_expected_inner_peer :: "address option"
  ir_replay_state_file :: "string option"

record foreign_config = common_config +
  fo_uplink_listen :: address
  fo_inner_bridge_listen :: address
  fo_inner_peer :: address
  fo_iran_downlink :: address
  fo_downlink_mode :: string
  fo_downlink_source :: "string option"
  fo_downlink_source_port :: int
  fo_replay_state_file :: "string option"

text \<open>A role with its configuration: what the loader returns and an agent is built from.\<close>

datatype role = Iran iran_config | Foreign foreign_config

end
