(* ===== verification/Agent.thy ===== *)
theory Agent
  imports Frame_Codec Persistent_Replay Reassembly Reliable_Sender Metrics Config
begin

text \<open>
  The agents of \<open>h3ntun/agent.py\<close>. A handler is an action on the agent state: one round of a
  background loop, or one datagram of a receive loop. It runs at one instant of the two clocks.
  The sockets are a log of the datagrams handed to \<open>sendto\<close> and a script of the calls that fail.
  Rounds of different threads interleave as sequences of handlers: the shared objects take their
  own locks, and the sequence and message counters have one too.
\<close>


section \<open>The agent\<close>

datatype replay = Volatile window | Durable pwindow

datatype sock = InnerSock | UplinkSock | DownlinkSock

text \<open>
  \<open>ag_sent\<close> records the datagrams handed to the sockets, in order; \<open>ag_faults\<close> says, for the next
  calls of \<open>sendto\<close>, which of them raise \<open>OSError\<close> and with what message (none after its end).
  \<open>ag_metrics_file\<close> is the JSON value in the metrics file, if there is one.
\<close>

record agent =
  ag_codec :: codec
  ag_metrics :: metrics
  ag_sequence :: int
  ag_message_id :: int
  ag_replay :: replay
  ag_reassembler :: reassembler
  ag_sender :: sender
  ag_expected_inner_peer :: "address option"
  ag_inner_peer :: "address option"
  ag_sent :: "(sock \<times> bytes \<times> address) list"
  ag_faults :: "string option list"
  ag_metrics_file :: "json option"

text \<open>What the clocks show while a handler runs: \<open>time.time()\<close> and \<open>time.monotonic()\<close>.\<close>

record clock =
  ck_wall :: rat
  ck_mono :: rat

definition wall_ms :: "clock \<Rightarrow> int" where
  "wall_ms ck = truncate_rat (ck_wall ck * 1000)"

type_synonym 'a agent_act = "(agent, 'a) act"

section \<open>Metrics, counters and sockets\<close>

definition on_metrics :: "(metrics, 'a) act \<Rightarrow> 'a agent_act" where
  "on_metrics m A = (case m (ag_metrics A) of (r, M) \<Rightarrow> (r, A\<lparr>ag_metrics := M\<rparr>))"

definition metric_add :: "clock \<Rightarrow> string \<Rightarrow> nat \<Rightarrow> unit agent_act" where
  "metric_add ck prefix n = on_metrics (Metrics_add (ck_wall ck) prefix (int n))"

definition metric_increment :: "clock \<Rightarrow> string \<Rightarrow> int \<Rightarrow> unit agent_act" where
  "metric_increment ck k n = on_metrics (Metrics_increment (ck_wall ck) k n)"

definition metric_set :: "clock \<Rightarrow> (string \<times> json) list \<Rightarrow> unit agent_act" where
  "metric_set ck values = on_metrics (Metrics_set (ck_wall ck) values)"

definition wall_time :: "clock \<Rightarrow> json" where
  "wall_time ck = JFloat (Fin (ck_wall ck))"

definition next_sequence :: "int agent_act" where
  "next_sequence A = (Inr (ag_sequence A + 1), A\<lparr>ag_sequence := ag_sequence A + 1\<rparr>)"

definition next_message_id :: "int agent_act" where
  "next_message_id A = (Inr (ag_message_id A + 1), A\<lparr>ag_message_id := ag_message_id A + 1\<rparr>)"

definition sendto :: "sock \<Rightarrow> bytes \<Rightarrow> address \<Rightarrow> unit agent_act" where
  "sendto s b a A =
     (case ag_faults A of
        Some msg # rest \<Rightarrow> (Inl (OSError msg), A\<lparr>ag_faults := rest\<rparr>)
      | None # rest \<Rightarrow> (Inr (), A\<lparr>ag_faults := rest, ag_sent := ag_sent A @ [(s, b, a)]\<rparr>)
      | [] \<Rightarrow> (Inr (), A\<lparr>ag_sent := ag_sent A @ [(s, b, a)]\<rparr>))"

text \<open>The text that an exception puts into \<open>last_error\<close>.\<close>

fun exn_text :: "exn \<Rightarrow> string" where
  "exn_text (ProtocolError m) = m"
| "exn_text (ConfigError m) = m"
| "exn_text (ProbeError m) = m"
| "exn_text (ValueError m) = m"
| "exn_text (OSError m) = m"
| "exn_text _ = []"

section \<open>BaseAgent\<close>

text \<open>
  \<open>_transport_send\<close> is the method that the two roles define; the methods of the base class take it
  as an argument.
\<close>

type_synonym transport = "bytes \<Rightarrow> bool \<Rightarrow> unit agent_act"

definition build_data_packets ::
  "crypto \<Rightarrow> clock \<Rightarrow> 'z common_config_scheme \<Rightarrow> int \<Rightarrow> bytes \<Rightarrow> (int \<times> bytes list) agent_act" where
  "build_data_packets X ck cfg kind payload =
     act_bind next_message_id (\<lambda>message_id.
     act_bind (act_lift (fragment_message payload (cf_fragment_payload_bytes cfg)
                           (cf_fec_enabled cfg))) (\<lambda>fragments.
     act_bind (act_map (\<lambda>fragment.
         act_bind next_sequence (\<lambda>sequence.
         act_bind (act_get ag_codec) (\<lambda>c.
         act_lift (encode X c (wall_ms ck) kind sequence (fs_payload fragment) None message_id
                     (Some (fs_message_len fragment)) (fs_fragment_index fragment)
                     (fs_fragment_count fragment) (fs_flags fragment))))) fragments) (\<lambda>packets.
     act_return (message_id, packets))))"

definition sender_enqueue :: "clock \<Rightarrow> int \<Rightarrow> bytes list \<Rightarrow> bool agent_act" where
  "sender_enqueue ck message_id packets A =
     (case enqueue (ck_mono ck) message_id packets (ag_sender A) of
        (r, s) \<Rightarrow> (r, A\<lparr>ag_sender := s\<rparr>))"

definition send_data ::
  "crypto \<Rightarrow> clock \<Rightarrow> 'z common_config_scheme \<Rightarrow> transport \<Rightarrow> int \<Rightarrow> bytes \<Rightarrow> bool agent_act" where
  "send_data X ck cfg transport_send kind payload =
     act_bind (build_data_packets X ck cfg kind payload) (\<lambda>(message_id, packets).
     act_then (metric_increment ck ''fragment_messages'' 1)
     (act_then (metric_increment ck ''fragments_created'' (int (length packets)))
     (if cf_reliable cfg then
        act_bind (sender_enqueue ck message_id packets) (\<lambda>queued.
        act_then (act_when (\<not> queued) (metric_increment ck ''queue_drops'' 1))
          (act_return queued))
      else
        act_then (act_for packets (\<lambda>packet. transport_send packet False)) (act_return True))))"

definition sender_acknowledge :: "clock \<Rightarrow> int \<Rightarrow> (bool \<times> rat option) agent_act" where
  "sender_acknowledge ck message_id A =
     (case acknowledge (ck_mono ck) message_id (ag_sender A) of
        (r, s) \<Rightarrow> (Inr r, A\<lparr>ag_sender := s\<rparr>))"

definition handle_ack :: "clock \<Rightarrow> frame \<Rightarrow> int \<Rightarrow> bool agent_act" where
  "handle_ack ck f expected_kind =
     (if fr_kind f \<noteq> expected_kind then act_return False
      else
        act_bind (act_lift (decode_ack f)) (\<lambda>(acknowledged_session, message_id).
        act_bind (act_get ag_codec) (\<lambda>c.
        if acknowledged_session \<noteq> cd_session_id c then
          act_then (metric_increment ck ''stale_ack_drops'' 1) (act_return True)
        else
          act_bind (sender_acknowledge ck message_id) (\<lambda>(accepted, latency).
          act_then
            (if accepted then
               act_block
                 [metric_increment ck ''acked_messages'' 1,
                  (case latency of
                     None \<Rightarrow> act_return ()
                   | Some l \<Rightarrow>
                       metric_set ck [(''last_ack_rtt_ms'', JFloat (Fin (round3 (l * 1000))))])]
             else metric_increment ck ''unknown_ack_drops'' 1)
            (act_return True)))))"

text \<open>\<open>self.replay.accept\<close> on either class, and the statistics of the persistent one.\<close>

definition replay_accept :: "clock \<Rightarrow> int \<Rightarrow> int \<Rightarrow> bool agent_act" where
  "replay_accept ck sequence session_id A =
     (case ag_replay A of
        Volatile w \<Rightarrow>
          (case accept w sequence session_id of (ok, w1) \<Rightarrow> (Inr ok, A\<lparr>ag_replay := Volatile w1\<rparr>))
      | Durable p \<Rightarrow>
          (case persistent_accept (ck_mono ck) p sequence session_id of
             (r, p1, notified) \<Rightarrow> (r, A\<lparr>ag_replay := Durable p1\<rparr>)))"

definition stats_values :: "pstats \<Rightarrow> (string \<times> json) list" where
  "stats_values st =
     [(''replay_checkpoint_queue_depth'', JInt (st_queue_depth st)),
      (''replay_checkpoint_inflight'', JInt (st_inflight st)),
      (''replay_checkpoint_lag_frames'', JInt (st_lag_frames st)),
      (''replay_checkpoint_lag_ms'', JFloat (Fin (st_lag_ms st))),
      (''replay_write_latency_ms'',
         (case st_write_latency_ms st of None \<Rightarrow> JNull | Some r \<Rightarrow> JFloat (Fin r))),
      (''replay_persistence_errors'', JInt (st_persistence_errors st)),
      (''replay_checkpoints'', JInt (st_checkpoints st)),
      (''replay_snapshots_coalesced'', JInt (st_snapshots_coalesced st)),
      (''replay_persistence_last_error'',
         (case st_last_error st of None \<Rightarrow> JNull | Some m \<Rightarrow> JStr m))]"

definition publish_replay_stats :: "clock \<Rightarrow> unit agent_act" where
  "publish_replay_stats ck =
     act_bind (act_get ag_replay) (\<lambda>r.
       case r of
         Volatile w \<Rightarrow> act_return ()
       | Durable p \<Rightarrow> metric_set ck (stats_values (stats (ck_mono ck) p)))"

definition record_received_frame :: "clock \<Rightarrow> frame \<Rightarrow> bool agent_act" where
  "record_received_frame ck f =
     act_bind (replay_accept ck (fr_sequence f) (fr_session_id f)) (\<lambda>accepted.
     act_then
       (if \<not> accepted then metric_increment ck ''replay_drops'' 1 else publish_replay_stats ck)
       (act_return accepted))"

definition reassembler_step ::
  "(reassembler \<Rightarrow> 'a result \<times> reassembler) \<Rightarrow> 'a agent_act" where
  "reassembler_step f A = (case f (ag_reassembler A) of (r, R) \<Rightarrow> (r, A\<lparr>ag_reassembler := R\<rparr>))"

definition accept_fragment :: "clock \<Rightarrow> frame \<Rightarrow> bytes option agent_act" where
  "accept_fragment ck f =
     act_bind (reassembler_step (Reassembler_add (ck_mono ck) f)) (\<lambda>res.
     act_then (act_block
       [metric_increment ck ''fragments_received'' 1,
        act_when (rr_duplicate res) (metric_increment ck ''duplicate_messages'' 1),
        act_when (rr_recovered_by_fec res) (metric_increment ck ''fec_recoveries'' 1)])
       (act_return (rr_payload res)))"

definition reassembler_is_completed :: "clock \<Rightarrow> frame \<Rightarrow> bool agent_act" where
  "reassembler_is_completed ck f =
     reassembler_step (\<lambda>R.
       case is_completed (ck_mono ck) (fr_session_id f) (fr_message_id f) R of
         (b, R1) \<Rightarrow> (Inr b, R1))"


text \<open>One round of \<open>reliability_loop\<close>.\<close>

definition sender_pump :: "clock \<Rightarrow> pump_result agent_act" where
  "sender_pump ck A =
     (case pump (ck_mono ck) (ag_sender A) of (r, s) \<Rightarrow> (Inr r, A\<lparr>ag_sender := s\<rparr>))"

definition reassembler_cleanup :: "clock \<Rightarrow> int agent_act" where
  "reassembler_cleanup ck =
     reassembler_step (\<lambda>R. case cleanup (ck_mono ck) R of (n, R1) \<Rightarrow> (Inr n, R1))"

definition snapshot_values :: "sender_snapshot \<Rightarrow> (string \<times> json) list" where
  "snapshot_values ss =
     [(''queued_messages'', JInt (ss_queued_messages ss)),
      (''inflight_messages'', JInt (ss_inflight_messages ss)),
      (''congestion_window'', JFloat (Fin (ss_congestion_window ss)))]"

definition reliability_round ::
  "clock \<Rightarrow> 'z common_config_scheme \<Rightarrow> transport \<Rightarrow> unit agent_act" where
  "reliability_round ck cfg transport_send =
     (if \<not> cf_reliable cfg then act_return ()
      else
        act_bind (sender_pump ck) (\<lambda>result.
        act_then (act_for (pr_packets result) (\<lambda>item.
            act_try (transport_send (ob_payload item) (ob_retransmission item)) is_os_error
              (\<lambda>e. metric_set ck [(''last_error'', JStr (''reliable send: '' @ exn_text e))])))
        (act_then (act_when (pr_exhausted_messages result \<noteq> 0)
            (metric_increment ck ''retry_exhausted'' (pr_exhausted_messages result)))
        (act_bind (reassembler_cleanup ck) (\<lambda>expired.
        act_then (act_when (expired \<noteq> 0) (metric_increment ck ''reassembly_timeouts'' expired))
        (act_bind (act_get ag_sender) (\<lambda>s.
        metric_set ck (snapshot_values (sender_snapshot s)))))))))"

text \<open>
  One round of \<open>persist_loop\<close>, where \<open>failing\<close> is the exception of the file operations, and the steps
  of the writer thread of a persistent replay window, as the agent sees them.
\<close>

definition metrics_persist :: "exn option \<Rightarrow> unit agent_act" where
  "metrics_persist failing A =
     (case Metrics_persist failing (ag_metrics A) (ag_metrics_file A) of
        (r, file) \<Rightarrow> (r, A\<lparr>ag_metrics_file := file\<rparr>))"

definition persist_round :: "clock \<Rightarrow> exn option \<Rightarrow> unit agent_act" where
  "persist_round ck failing =
     act_try (act_block [publish_replay_stats ck, metrics_persist failing]) (\<lambda>_. True)
       (\<lambda>e. metric_set ck [(''last_error'', JStr (''metrics: '' @ exn_text e))])"

definition replay_writer :: "(pwindow \<Rightarrow> pwindow) \<Rightarrow> unit agent_act" where
  "replay_writer step =
     act_update (\<lambda>A. case ag_replay A of
       Volatile w \<Rightarrow> A | Durable p \<Rightarrow> A\<lparr>ag_replay := Durable (step p)\<rparr>)"

definition writer_finished :: "clock \<Rightarrow> bool \<Rightarrow> string \<Rightarrow> unit agent_act" where
  "writer_finished ck success msg =
     act_block [replay_writer (writer_done (ck_mono ck) success msg), publish_replay_stats ck]"

text \<open>
  The end of \<open>stop\<close>: \<open>close\<close> sets the stop request, waits for the writer (whose steps come between
  the two parts) and reports whether everything is on disk.
\<close>

definition stop_begin :: "unit agent_act" where
  "stop_begin = replay_writer close_request"

definition stop_end :: "clock \<Rightarrow> exn option \<Rightarrow> unit agent_act" where
  "stop_end ck failing =
     act_bind (act_get ag_replay) (\<lambda>r.
     act_block
       [(case r of
           Volatile w \<Rightarrow> act_return ()
         | Durable p \<Rightarrow>
             act_when (\<not> close_result (ck_mono ck) p)
               (metric_set ck [(''last_error'',
                  JStr ''replay checkpoint did not finish during shutdown'')])),
        publish_replay_stats ck,
        act_try (metrics_persist failing) is_os_error (\<lambda>_. act_return ())])"

section \<open>IranAgent\<close>

definition iran_transport_send :: "clock \<Rightarrow> iran_config \<Rightarrow> transport" where
  "iran_transport_send ck cfg packet retransmission =
     act_block
       [sendto UplinkSock packet (ir_foreign_uplink cfg),
        metric_add ck ''uplink_tx'' (length packet),
        metric_increment ck ''encrypted_frames_tx'' 1,
        act_when retransmission (metric_increment ck ''retransmitted_frames'' 1),
        metric_set ck [(''last_uplink_at'', wall_time ck)]]"

text \<open>\<open>send_uplink_control\<close> and \<open>send_downlink_control\<close> differ in the transport only, and so do
  \<open>send_ack_down\<close> and \<open>send_ack_up\<close>, apart from the kind.\<close>

definition send_control ::
  "crypto \<Rightarrow> clock \<Rightarrow> transport \<Rightarrow> int \<Rightarrow> bytes \<Rightarrow> int option \<Rightarrow> unit agent_act" where
  "send_control X ck transport_send kind payload timestamp_ms =
     act_bind next_sequence (\<lambda>sequence.
     act_bind (act_get ag_codec) (\<lambda>c.
     act_bind (act_lift (encode X c (wall_ms ck) kind sequence payload timestamp_ms 0 None 0 1 0))
       (\<lambda>packet. transport_send packet False)))"

definition send_ack :: "crypto \<Rightarrow> clock \<Rightarrow> transport \<Rightarrow> int \<Rightarrow> frame \<Rightarrow> unit agent_act" where
  "send_ack X ck transport_send kind f =
     act_bind next_sequence (\<lambda>sequence.
     act_bind (act_get ag_codec) (\<lambda>c.
     act_bind (act_lift (encode_ack X c (wall_ms ck) kind sequence (fr_session_id f)
                           (fr_message_id f))) (\<lambda>packet.
     act_block [transport_send packet False, metric_increment ck ''acks_tx'' 1])))"

definition send_uplink_control ::
  "crypto \<Rightarrow> clock \<Rightarrow> iran_config \<Rightarrow> int \<Rightarrow> bytes \<Rightarrow> int option \<Rightarrow> unit agent_act" where
  "send_uplink_control X ck cfg = send_control X ck (iran_transport_send ck cfg)"

definition send_ack_down :: "crypto \<Rightarrow> clock \<Rightarrow> iran_config \<Rightarrow> frame \<Rightarrow> unit agent_act" where
  "send_ack_down X ck cfg = send_ack X ck (iran_transport_send ck cfg) ACK_DOWN"

text \<open>One datagram of \<open>inner_loop\<close>: where it came from and its content.\<close>

definition iran_inner :: "crypto \<Rightarrow> clock \<Rightarrow> iran_config \<Rightarrow> bytes \<Rightarrow> address \<Rightarrow> unit agent_act" where
  "iran_inner X ck cfg payload peer =
     act_bind (act_get ag_expected_inner_peer) (\<lambda>expected.
     if expected \<noteq> None \<and> Some peer \<noteq> expected
       then metric_increment ck ''inner_source_mismatch_drops'' 1
     else
       act_block
         [act_update (\<lambda>A. A\<lparr>ag_inner_peer := Some peer\<rparr>),
          metric_add ck ''inner_rx'' (length payload),
          metric_set ck [(''last_inner_at'', wall_time ck)],
          act_try
            (act_bind (send_data X ck cfg (iran_transport_send ck cfg) DATA_UP payload)
               (\<lambda>_. act_return ()))
            is_protocol_error (\<lambda>_. metric_increment ck ''oversize_drops'' 1)])"

definition is_os_or_protocol_error :: "exn \<Rightarrow> bool" where
  "is_os_or_protocol_error e \<longleftrightarrow> is_os_error e \<or> is_protocol_error e"

text \<open>What both receive loops do with a frame that the replay window rejects.\<close>

definition duplicate_frame ::
  "crypto \<Rightarrow> clock \<Rightarrow> transport \<Rightarrow> int \<Rightarrow> int \<Rightarrow> frame \<Rightarrow> unit agent_act" where
  "duplicate_frame X ck transport_send data_kind ack_kind f =
     (if fr_kind f \<noteq> data_kind then act_return ()
      else
        act_bind (reassembler_is_completed ck f) (\<lambda>completed.
        act_when completed
          (act_try (send_ack X ck transport_send ack_kind f) is_os_error
             (\<lambda>e. metric_set ck [(''last_error'', JStr (''duplicate ack: '' @ exn_text e))]))))"

text \<open>The body of the \<open>try\<close> block of \<open>IranAgent.downlink_loop\<close>.\<close>

definition iran_downlink_frame :: "crypto \<Rightarrow> clock \<Rightarrow> iran_config \<Rightarrow> frame \<Rightarrow> unit agent_act" where
  "iran_downlink_frame X ck cfg f =
     act_bind (handle_ack ck f ACK_UP) (\<lambda>handled.
     if handled then metric_increment ck ''acks_rx'' 1
     else if fr_kind f = PONG then
       metric_set ck [(''last_pong_at'', wall_time ck),
                      (''last_rtt_ms'', JInt (max 0 (wall_ms ck - fr_timestamp_ms f)))]
     else if fr_kind f \<noteq> DATA_DOWN then act_return ()
     else
       act_bind (accept_fragment ck f) (\<lambda>result.
       case result of
         None \<Rightarrow> act_return ()
       | Some payload \<Rightarrow>
           act_bind (act_get ag_inner_peer) (\<lambda>inner_peer.
           case inner_peer of
             None \<Rightarrow> act_return ()
           | Some peer \<Rightarrow>
               act_block
                 [sendto InnerSock payload peer,
                  metric_add ck ''inner_tx'' (length payload),
                  act_when (cf_reliable cfg)
                    (send_ack_down X ck cfg f)])))"

text \<open>One datagram of \<open>IranAgent.downlink_loop\<close>.\<close>

definition iran_downlink ::
  "crypto \<Rightarrow> clock \<Rightarrow> iran_config \<Rightarrow> bytes \<Rightarrow> address \<Rightarrow> unit agent_act" where
  "iran_downlink X ck cfg packet peer =
     (if (case ir_expected_downlink_source cfg of
            None \<Rightarrow> False | Some expected \<Rightarrow> expected \<noteq> [] \<and> fst peer \<noteq> expected)
      then metric_increment ck ''source_mismatch_drops'' 1
      else
        act_bind (act_get ag_codec) (\<lambda>c.
        case decode X c packet (wall_ms ck) of
          Inl e \<Rightarrow>
            if is_protocol_error e then metric_increment ck ''auth_failures'' 1 else act_raise e
        | Inr f \<Rightarrow>
            act_bind (record_received_frame ck f) (\<lambda>accepted.
            if \<not> accepted
              then duplicate_frame X ck (iran_transport_send ck cfg) DATA_DOWN ACK_DOWN f
            else
              act_block
                [metric_add ck ''downlink_rx'' (length packet),
                 metric_increment ck ''encrypted_frames_rx'' 1,
                 metric_set ck [(''last_downlink_source'', JStr (fst peer)),
                                (''last_downlink_at'', wall_time ck)],
                 act_try (iran_downlink_frame X ck cfg f) is_os_or_protocol_error
                   (\<lambda>e. metric_set ck
                      [(''last_error'', JStr (''downlink handling: '' @ exn_text e))])])))"

text \<open>One round of \<open>keepalive_loop\<close>.\<close>

definition iran_keepalive :: "crypto \<Rightarrow> clock \<Rightarrow> iran_config \<Rightarrow> unit agent_act" where
  "iran_keepalive X ck cfg =
     act_try (send_uplink_control X ck cfg PING [] None) is_os_or_protocol_error
       (\<lambda>e. metric_set ck [(''last_error'', JStr (''keepalive: '' @ exn_text e))])"

section \<open>ForeignAgent\<close>

definition foreign_transport_send :: "clock \<Rightarrow> foreign_config \<Rightarrow> transport" where
  "foreign_transport_send ck cfg packet retransmission =
     act_block
       [sendto DownlinkSock packet (fo_iran_downlink cfg),
        metric_add ck ''downlink_tx'' (length packet),
        metric_increment ck ''encrypted_frames_tx'' 1,
        act_when retransmission (metric_increment ck ''retransmitted_frames'' 1),
        metric_set ck [(''last_downlink_at'', wall_time ck)]]"

definition send_downlink_control ::
  "crypto \<Rightarrow> clock \<Rightarrow> foreign_config \<Rightarrow> int \<Rightarrow> bytes \<Rightarrow> int option \<Rightarrow> unit agent_act" where
  "send_downlink_control X ck cfg = send_control X ck (foreign_transport_send ck cfg)"

definition send_ack_up :: "crypto \<Rightarrow> clock \<Rightarrow> foreign_config \<Rightarrow> frame \<Rightarrow> unit agent_act" where
  "send_ack_up X ck cfg = send_ack X ck (foreign_transport_send ck cfg) ACK_UP"

text \<open>
  The body of the \<open>try\<close> block of \<open>ForeignAgent.uplink_loop\<close>. The resolved \<open>inner_peer_address\<close> is
  kept in \<open>ag_inner_peer\<close>, where the constructor puts it.
\<close>

definition foreign_uplink_frame :: "crypto \<Rightarrow> clock \<Rightarrow> foreign_config \<Rightarrow> frame \<Rightarrow> unit agent_act" where
  "foreign_uplink_frame X ck cfg f =
     act_bind (handle_ack ck f ACK_DOWN) (\<lambda>handled.
     if handled then metric_increment ck ''acks_rx'' 1
     else if fr_kind f = PING then
       send_downlink_control X ck cfg PONG [] (Some (fr_timestamp_ms f))
     else if fr_kind f \<noteq> DATA_UP then act_return ()
     else
       act_bind (accept_fragment ck f) (\<lambda>result.
       case result of
         None \<Rightarrow> act_return ()
       | Some payload \<Rightarrow>
           act_bind (act_get (\<lambda>A. the (ag_inner_peer A))) (\<lambda>inner_peer_address.
           act_block
             [sendto InnerSock payload inner_peer_address,
              metric_add ck ''inner_tx'' (length payload),
              metric_set ck [(''last_inner_at'', wall_time ck)],
              act_when (cf_reliable cfg)
                (send_ack_up X ck cfg f)])))"

text \<open>\<open>f"{peer[0]}:{peer[1]}"\<close>\<close>

definition peer_text :: "address \<Rightarrow> string" where
  "peer_text peer = fst peer @ '':'' @ str_int (snd peer)"

definition foreign_uplink ::
  "crypto \<Rightarrow> clock \<Rightarrow> foreign_config \<Rightarrow> bytes \<Rightarrow> address \<Rightarrow> unit agent_act" where
  "foreign_uplink X ck cfg packet peer =
     act_bind (act_get ag_codec) (\<lambda>c.
     case decode X c packet (wall_ms ck) of
       Inl e \<Rightarrow>
         if is_protocol_error e then metric_increment ck ''auth_failures'' 1 else act_raise e
     | Inr f \<Rightarrow>
         act_bind (record_received_frame ck f) (\<lambda>accepted.
         if \<not> accepted
           then duplicate_frame X ck (foreign_transport_send ck cfg) DATA_UP ACK_UP f
         else
           act_block
             [metric_add ck ''uplink_rx'' (length packet),
              metric_increment ck ''encrypted_frames_rx'' 1,
              metric_set ck [(''last_uplink_peer'', JStr (peer_text peer)),
                             (''last_uplink_at'', wall_time ck)],
              act_try (foreign_uplink_frame X ck cfg f) is_os_or_protocol_error
                (\<lambda>e. metric_set ck
                   [(''last_error'', JStr (''uplink handling: '' @ exn_text e))])]))"

definition foreign_inner :: "crypto \<Rightarrow> clock \<Rightarrow> foreign_config \<Rightarrow> bytes \<Rightarrow> address \<Rightarrow> unit agent_act" where
  "foreign_inner X ck cfg payload peer =
     act_bind (act_get ag_inner_peer) (\<lambda>inner_peer_address.
     if Some peer \<noteq> inner_peer_address
       then metric_increment ck ''inner_source_mismatch_drops'' 1
     else
       act_block
         [metric_add ck ''inner_rx'' (length payload),
          metric_set ck [(''last_inner_at'', wall_time ck)],
          act_try
            (act_bind (send_data X ck cfg (foreign_transport_send ck cfg) DATA_DOWN payload)
               (\<lambda>_. act_return ()))
            is_protocol_error (\<lambda>_. metric_increment ck ''oversize_drops'' 1)])"

section \<open>Starting an agent\<close>

text \<open>
  The constructor: \<open>token\<close>, \<open>sequence\<close> and \<open>message_id\<close> are the random values it draws (8 bytes and
  twice 63 bits), \<open>replay_file\<close> the path and the file found there, \<open>fingerprint\<close> the hex digest
  of the tunnel id.
\<close>

definition BaseAgent_init ::
  "crypto \<Rightarrow> clock \<Rightarrow> 'z common_config_scheme \<Rightarrow> (string \<times> checkpoint_file) option \<Rightarrow> bytes \<Rightarrow> int \<Rightarrow> int
     \<Rightarrow> agent result" where
  "BaseAgent_init X ck cfg replay_file token sequence message_id =
     and_then (FrameCodec_init X (cf_tunnel_id cfg) (cf_shared_secret cfg) 600 None token) (\<lambda>c.
     and_then
       (case replay_file of
          None \<Rightarrow> and_then (ReplayWindow_init 4096) (\<lambda>w. Inr (Volatile w))
        | Some (fingerprint, file) \<Rightarrow>
            and_then (PersistentReplayWindow_init file fingerprint 4096
                (Fin (cf_replay_checkpoint_interval_seconds cfg))
                (cf_replay_checkpoint_batch_frames cfg) (ck_mono ck)) (\<lambda>p. Inr (Durable p)))
       (\<lambda>replay.
     and_then (Reassembler_init (cf_reassembly_timeout_seconds cfg) (cf_max_pending_messages cfg) 120)
       (\<lambda>R.
     and_then (ReliableSender_init (cf_retransmit_timeout_seconds cfg) (cf_max_retries cfg)
         (cf_max_pending_messages cfg) 64 512) (\<lambda>s.
     Inr \<lparr>ag_codec = c, ag_metrics = Metrics_init (cf_role cfg) (cf_metrics_file cfg) (ck_wall ck),
          ag_sequence = sequence, ag_message_id = message_id, ag_replay = replay,
          ag_reassembler = R, ag_sender = s, ag_expected_inner_peer = None,
          ag_inner_peer = None, ag_sent = [], ag_faults = [],
          ag_metrics_file = None\<rparr>))))"

text \<open>\<open>resolve\<close> is \<open>socket.gethostbyname\<close>; the constructors then open their sockets.\<close>

definition IranAgent_init ::
  "crypto \<Rightarrow> clock \<Rightarrow> (string \<Rightarrow> string result) \<Rightarrow> iran_config \<Rightarrow> (string \<times> checkpoint_file) option \<Rightarrow> bytes
     \<Rightarrow> int \<Rightarrow> int \<Rightarrow> agent result" where
  "IranAgent_init X ck resolve cfg replay_file token sequence message_id =
     and_then (BaseAgent_init X ck cfg replay_file token sequence message_id) (\<lambda>A.
     case ir_expected_inner_peer cfg of
       None \<Rightarrow> Inr A
     | Some (host, port) \<Rightarrow>
         and_then (resolve host) (\<lambda>ip. Inr (A\<lparr>ag_expected_inner_peer := Some (ip, port)\<rparr>)))"

definition ForeignAgent_init ::
  "crypto \<Rightarrow> clock \<Rightarrow> (string \<Rightarrow> string result) \<Rightarrow> foreign_config \<Rightarrow> (string \<times> checkpoint_file) option \<Rightarrow>
     bytes \<Rightarrow> int \<Rightarrow> int \<Rightarrow> agent result" where
  "ForeignAgent_init X ck resolve cfg replay_file token sequence message_id =
     and_then (BaseAgent_init X ck cfg replay_file token sequence message_id) (\<lambda>A.
     and_then (resolve (fst (fo_inner_peer cfg))) (\<lambda>ip.
       Inr (A\<lparr>ag_inner_peer := Some (ip, snd (fo_inner_peer cfg))\<rparr>)))"

end
