(* ===== verification/Agent_Invariant.thy ===== *)
theory Agent_Invariant
  imports Agent
begin

text \<open>
  What every handler of an agent keeps. \<open>agent_ok\<close> puts the invariants of the components together,
  \<open>agent_step\<close> says what a handler may change: counters only grow, datagrams are only appended,
  the codec and the configured peers stay. \<open>safe E m\<close> says that the action \<open>m\<close> keeps both and that
  only exceptions of the class \<open>E\<close> leave it; the lemmas prove it of every method by composition.
\<close>


section \<open>The replay filter of an agent\<close>

definition replay_closing :: "replay \<Rightarrow> bool" where
  "replay_closing r = (case r of Volatile w \<Rightarrow> False | Durable p \<Rightarrow> pw_stopping p)"

definition replay_decide :: "rat \<Rightarrow> replay \<Rightarrow> int \<Rightarrow> int \<Rightarrow> bool \<times> replay" where
  "replay_decide now r q s =
     (case r of
        Volatile w \<Rightarrow> (case accept w q s of (b, w1) \<Rightarrow> (b, Volatile w1))
      | Durable p \<Rightarrow> (case persistent_decide now p q s of (b, p1) \<Rightarrow> (b, Durable p1)))"

definition replay_blocked :: "replay \<Rightarrow> int \<times> int \<Rightarrow> bool" where
  "replay_blocked r x = (case r of Volatile w \<Rightarrow> win_blocked w x | Durable p \<Rightarrow> persistent_blocked p x)"

definition replay_ok :: "replay \<Rightarrow> bool" where
  "replay_ok r = (case r of Volatile w \<Rightarrow> window_ok w | Durable p \<Rightarrow> persistent_ok p)"

lemma replay_simps [simp]:
  "fst (replay_decide now (Volatile w) q s) = fst (accept w q s)"
  "snd (replay_decide now (Volatile w) q s) = Volatile (snd (accept w q s))"
  "fst (replay_decide now (Durable p) q s) = fst (persistent_decide now p q s)"
  "snd (replay_decide now (Durable p) q s) = Durable (snd (persistent_decide now p q s))"
  "replay_blocked (Volatile w) x = win_blocked w x"
  "replay_blocked (Durable p) x = persistent_blocked p x"
  "replay_ok (Volatile w) = window_ok w" "replay_ok (Durable p) = persistent_ok p"
  "\<not> replay_closing (Volatile w)" "replay_closing (Durable p) = pw_stopping p"
  by (simp_all add: replay_decide_def replay_blocked_def replay_ok_def replay_closing_def
      case_prod_unfold)

text \<open>Both classes keep the contract of a replay filter.\<close>

interpretation arw: replay_filter "replay_decide now" replay_blocked replay_ok for now
proof unfold_locales
  fix r q s x
  assume ok: "replay_ok r"
  show "fst (replay_decide now r q s) \<longleftrightarrow> \<not> replay_blocked r (s, q)"
    using ok by (cases r) (simp_all add: rw.accept_iff prw.accept_iff)
  show "replay_blocked (snd (replay_decide now r q s)) (s, q)"
    using ok by (cases r) (simp_all add: rw.accept_blocks prw.accept_blocks)
  show "replay_ok (snd (replay_decide now r q s))"
    using ok by (cases r) (simp_all add: rw.accept_ok prw.accept_ok)
  assume "replay_blocked r x"
  then show "replay_blocked (snd (replay_decide now r q s)) x"
    using ok by (cases r) (simp_all add: rw.accept_mono prw.accept_mono)
qed

lemma replay_decide_closing: "replay_closing (snd (replay_decide now r q s)) = replay_closing r"
  by (cases r) (simp_all add: persistent_decide_stopping)

lemma replay_accept_eq:
  assumes "\<not> replay_closing (ag_replay A)"
  shows "replay_accept ck q s A =
    (Inr (fst (replay_decide (ck_mono ck) (ag_replay A) q s)),
     A\<lparr>ag_replay := snd (replay_decide (ck_mono ck) (ag_replay A) q s)\<rparr>)"
  using assms
  by (cases "ag_replay A")
    (auto simp: replay_accept_def replay_decide_def persistent_decide_def persistent_accept_def
      Let_def split: prod.splits bool.splits)

section \<open>The invariant of an agent and what its handlers change\<close>

definition agent_ok :: "agent \<Rightarrow> bool" where
  "agent_ok A \<longleftrightarrow>
     codec_ok (ag_codec A) \<and> metrics_ok (ag_metrics A) \<and> reassembler_ok (ag_reassembler A) \<and>
     sender_ok (ag_sender A) \<and> replay_ok (ag_replay A) \<and> \<not> replay_closing (ag_replay A) \<and>
     (\<forall>tx \<in> set (all_tx (ag_sender A)). tx_message_id tx \<le> ag_message_id A)"

definition agent_step :: "agent \<Rightarrow> agent \<Rightarrow> bool" where
  "agent_step A B \<longleftrightarrow>
     ag_codec B = ag_codec A \<and> ag_sequence A \<le> ag_sequence B \<and> ag_message_id A \<le> ag_message_id B \<and>
     ag_expected_inner_peer B = ag_expected_inner_peer A \<and>
     (ag_inner_peer A \<noteq> None \<longrightarrow> ag_inner_peer B \<noteq> None) \<and>
     (\<exists>new. ag_sent B = ag_sent A @ new)"

interpretation ags: preorder_of_states agent_step
  by unfold_locales (auto simp: agent_step_def)

lemma agent_step_refl: "agent_step A A"
  by (rule ags.L_refl)

abbreviation "safe \<equiv> keeps agent_ok agent_step"

abbreviation "none_raised \<equiv> (\<lambda>e :: exn. False)"

definition is_struct_error :: "exn \<Rightarrow> bool" where
  "is_struct_error e \<longleftrightarrow> e = StructError"

lemma safe_metrics: "counts m \<Longrightarrow> safe E (on_metrics m)"
proof (rule keepsI)
  fix A r B
  assume m: "counts m" and ok: "agent_ok A" and e: "on_metrics m A = (r, B)"
  then obtain M where M: "m (ag_metrics A) = (Inr (), M)" "metrics_ok M"
    by (auto simp: counts_def agent_ok_def)
  then show "agent_ok B \<and> agent_step A B \<and> raises_only E r"
    using ok e by (auto simp: on_metrics_def agent_ok_def agent_step_def raises_only_def)
qed

lemma safe_metric_ops:
  "p @ ''_packets'' \<in> set zero_counters \<Longrightarrow> p @ ''_bytes'' \<in> set zero_counters \<Longrightarrow> safe E (metric_add ck p n)"
  "k \<in> set zero_counters \<Longrightarrow> safe E (metric_increment ck k i)"
  "settable values \<Longrightarrow> safe E (metric_set ck values)"
  unfolding metric_add_def metric_increment_def metric_set_def
  by (auto intro: safe_metrics counts_rules)

lemma safe_next: "safe E next_sequence" "safe E next_message_id"
  by (rule keepsI; force simp: next_sequence_def next_message_id_def agent_ok_def agent_step_def
      raises_only_def)+

lemma safe_sendto: "safe is_os_error (sendto s b a)"
  by (rule keepsI)
    (auto simp: sendto_def agent_ok_def agent_step_def raises_only_def split: list.splits option.splits)

lemma safe_update_peer: "safe E (act_update (\<lambda>A. A\<lparr>ag_inner_peer := Some p\<rparr>))"
  by (rule keepsI) (auto simp: act_simps agent_ok_def agent_step_def raises_only_def)

lemma safe_reassembler:
  assumes "\<And>R r R1. reassembler_ok R \<Longrightarrow> f R = (r, R1) \<Longrightarrow> reassembler_ok R1 \<and> raises_only E r"
  shows "safe E (reassembler_step f)"
proof (rule keepsI)
  fix A r B
  assume ok: "agent_ok A" and e: "reassembler_step f A = (r, B)"
  obtain q R1 where f: "f (ag_reassembler A) = (q, R1)" by (cases "f (ag_reassembler A)")
  then have "reassembler_ok R1 \<and> raises_only E q"
    using assms ok by (auto simp: agent_ok_def)
  then show "agent_ok B \<and> agent_step A B \<and> raises_only E r"
    using ok e f by (auto simp: reassembler_step_def agent_ok_def agent_step_def)
qed


section \<open>Handlers let few exceptions escape\<close>

text \<open>
  \<open>struct.error\<close> means that the sequence counter, an identifier or the clock left the 64 bits of
  its field; it is the only exception besides \<open>ProtocolError\<close> that encoding can raise.
\<close>

definition protocol_or_struct :: "exn \<Rightarrow> bool" where
  "protocol_or_struct e \<longleftrightarrow> is_protocol_error e \<or> is_struct_error e"

definition sending_error :: "exn \<Rightarrow> bool" where
  "sending_error e \<longleftrightarrow> is_os_or_protocol_error e \<or> is_struct_error e"

lemma error_class_simps [simp]:
  "protocol_or_struct (ProtocolError m)" "protocol_or_struct StructError"
  "sending_error (ProtocolError m)" "sending_error StructError" "sending_error (OSError m)"
  "is_struct_error StructError" "is_os_or_protocol_error (ProtocolError m)"
  by (simp_all add: protocol_or_struct_def sending_error_def is_struct_error_def
      is_os_or_protocol_error_def)

lemma pack_field_raises: "raises_only is_struct_error (pack_field f v)"
  by (cases f; cases v) (auto simp: raises_only_def)

lemma struct_pack_raises: "raises_only is_struct_error (struct_pack fs vs)"
proof (induction fs vs rule: struct_pack.induct)
  case (2 f fs v vs)
  then show ?case
    using pack_field_raises [of f v] by (auto simp: raises_only_def split: sum.splits)
qed (auto simp: raises_only_def)

lemma struct_pack_sending: "raises_only protocol_or_struct (struct_pack fs vs)"
  using struct_pack_raises [of fs vs]
  by (auto simp: raises_only_def protocol_or_struct_def split: sum.splits)

lemma raises_only_case:
  "raises_only P r \<Longrightarrow> (\<And>v. raises_only P (g v)) \<Longrightarrow>
   raises_only P (case r of Inl e \<Rightarrow> Inl e | Inr v \<Rightarrow> g v)"
  by (cases r) (auto simp: raises_only_def)

lemmas sending_rules = raises_only_Inr raises_only_Inl raises_only_if raises_only_case

lemma nonce_raises: "raises_only protocol_or_struct (nonce X session_id sequence kind flags idx)"
  unfolding nonce_def by (intro sending_rules struct_pack_sending) simp

lemma encode_raises:
  "raises_only protocol_or_struct (encode X c clock_ms kind sequence payload ts mid mlen idx cnt flags)"
  unfolding encode_def Let_def
  by (intro sending_rules struct_pack_sending nonce_raises) simp_all

lemma encode_ack_raises:
  "raises_only protocol_or_struct (encode_ack X c clock_ms kind sequence sid mid)"
  unfolding encode_ack_def by (intro sending_rules struct_pack_sending encode_raises) simp_all

lemma decode_ack_raises: "raises_only protocol_or_struct (decode_ack f)"
  unfolding decode_ack_def struct_unpack_def by (intro sending_rules) simp_all

text \<open>The virtual method, and everything built on it.\<close>

lemma safe_iran_transport: "safe is_os_error (iran_transport_send ck cfg packet retransmission)"
  unfolding iran_transport_send_def
  by (rule ags.keeps_block)
    (auto intro!: safe_sendto safe_metric_ops ags.keeps_when simp: zero_counters_def settable_def)

lemma safe_foreign_transport: "safe is_os_error (foreign_transport_send ck cfg packet retransmission)"
  unfolding foreign_transport_send_def
  by (rule ags.keeps_block)
    (auto intro!: safe_sendto safe_metric_ops ags.keeps_when simp: zero_counters_def settable_def)

lemma safe_send_control:
  assumes "\<And>packet. safe is_os_error (transport_send packet False)"
  shows "safe sending_error (send_control X ck transport_send kind payload ts)"
proof -
  have t: "safe sending_error (transport_send packet False)" for packet
    by (rule ags.keeps_weaken [OF assms]) (simp add: sending_error_def is_os_or_protocol_error_def)
  have e: "raises_only sending_error r" if "raises_only protocol_or_struct r" for r :: "bytes result"
    using that by (auto simp: raises_only_def protocol_or_struct_def sending_error_def
        is_os_or_protocol_error_def split: sum.splits)
  show ?thesis
    unfolding send_control_def
    by (intro ags.keeps_bind safe_next ags.keeps_get ags.keeps_lift t e encode_raises)
qed

lemma safe_send_ack:
  assumes "\<And>packet. safe is_os_error (transport_send packet False)"
  shows "safe sending_error (send_ack X ck transport_send kind f)"
proof -
  have t: "safe sending_error (transport_send packet False)" for packet
    by (rule ags.keeps_weaken [OF assms]) (simp add: sending_error_def is_os_or_protocol_error_def)
  have e: "raises_only sending_error r" if "raises_only protocol_or_struct r" for r :: "bytes result"
    using that by (auto simp: raises_only_def protocol_or_struct_def sending_error_def
        is_os_or_protocol_error_def split: sum.splits)
  have b: "safe sending_error (act_block [transport_send packet False, metric_increment ck ''acks_tx'' 1])"
    for packet
    by (rule ags.keeps_block) (auto intro: t safe_metric_ops simp: zero_counters_def)
  show ?thesis
    unfolding send_ack_def
    by (intro ags.keeps_bind safe_next ags.keeps_get ags.keeps_lift b e encode_ack_raises)
qed

lemma safe_acknowledge: "safe E (sender_acknowledge ck message_id)"
proof (rule keepsI)
  fix A r B
  assume ok: "agent_ok A" and e: "sender_acknowledge ck message_id A = (r, B)"
  have "set (all_tx (snd (acknowledge (ck_mono ck) message_id (ag_sender A)))) \<subseteq> set (all_tx (ag_sender A))"
    by (auto simp: acknowledge_def all_tx_def AList.delete_eq split: option.splits)
  then show "agent_ok B \<and> agent_step A B \<and> raises_only E r"
    using ok e acknowledge_ok [of "ag_sender A" "ck_mono ck" message_id]
    by (auto simp: sender_acknowledge_def agent_ok_def agent_step_def raises_only_def split: prod.splits)
qed

lemma safe_handle_ack: "safe protocol_or_struct (handle_ack ck f kind)"
proof -
  have l: "settable [(''last_ack_rtt_ms'', v)]" for v by (simp add: settable_def zero_counters_def)
  have a: "safe E (if accepted then
      act_block [metric_increment ck ''acked_messages'' 1,
        (case latency of None \<Rightarrow> act_return ()
         | Some l \<Rightarrow> metric_set ck [(''last_ack_rtt_ms'', JFloat (Fin (round3 (l * 1000))))])]
      else metric_increment ck ''unknown_ack_drops'' 1)" for accepted latency E
    using l by (auto intro!: ags.keeps_then safe_metric_ops ags.keeps_return split: option.splits
        simp: zero_counters_def)
  show ?thesis
    unfolding handle_ack_def
    by (auto intro!: ags.keeps_return ags.keeps_bind ags.keeps_lift ags.keeps_get ags.keeps_then
        safe_acknowledge a decode_ack_raises safe_metric_ops simp: zero_counters_def split: prod.splits)
qed

lemma settable_stats: "settable (stats_values st)"
  by (simp add: settable_def stats_values_def zero_counters_def)

lemma safe_replay_accept: "safe E (replay_accept ck q s)"
  by (rule keepsI)
    (auto simp: agent_ok_def replay_accept_eq agent_step_def raises_only_def arw.accept_ok
      replay_decide_closing)

lemma safe_record_received_frame: "safe E (record_received_frame ck f)"
proof -
  have p: "safe E (publish_replay_stats ck)"
    unfolding publish_replay_stats_def
    by (intro ags.keeps_bind ags.keeps_get)
      (auto intro!: safe_metric_ops ags.keeps_return settable_stats split: replay.splits)
  show ?thesis
    unfolding record_received_frame_def
    by (auto intro!: ags.keeps_bind ags.keeps_then ags.keeps_return safe_replay_accept p safe_metric_ops
        simp: zero_counters_def)
qed

lemma safe_accept_fragment:
  assumes "frame_ok f"
  shows "safe is_protocol_error (accept_fragment ck f)"
proof -
  have "safe is_protocol_error (reassembler_step (Reassembler_add (ck_mono ck) f))"
    by (rule safe_reassembler) (use Reassembler_add_ok [OF _ assms] in blast)
  then show ?thesis
    unfolding accept_fragment_def
    by (auto intro!: ags.keeps_bind ags.keeps_then ags.keeps_return ags.keeps_block ags.keeps_when
        safe_metric_ops simp: zero_counters_def)
qed

lemma safe_is_completed: "safe E (reassembler_is_completed ck f)"
  unfolding reassembler_is_completed_def
  by (rule safe_reassembler)
    (auto simp: is_completed_def Let_def raises_only_def intro: purge_ok split: prod.splits)


section \<open>The handlers\<close>

lemma settable_text: "settable [(''last_error'', v)]"
  by (simp add: settable_def zero_counters_def)

lemma protocol_sending: "protocol_or_struct e \<Longrightarrow> sending_error e" "is_os_error e \<Longrightarrow> sending_error e"
  "is_protocol_error e \<Longrightarrow> sending_error e"
  by (auto simp: protocol_or_struct_def sending_error_def is_os_or_protocol_error_def)

lemma to_sending:
  "safe protocol_or_struct m \<Longrightarrow> safe sending_error m"
  "safe is_os_error m \<Longrightarrow> safe sending_error m"
  "safe is_protocol_error m \<Longrightarrow> safe sending_error m"
  by (erule ags.keeps_weaken, erule protocol_sending)+

text \<open>The \<open>except (OSError, ProtocolError)\<close> clause of the loops leaves only \<open>struct.error\<close>.\<close>

lemma safe_loop_try:
  assumes "safe sending_error m" "\<And>e. safe is_struct_error (h e)"
  shows "safe is_struct_error (act_try m is_os_or_protocol_error h)"
  by (rule ags.keeps_try [OF assms]) (auto simp: sending_error_def)

lemma safe_iran_downlink_frame:
  assumes "frame_ok f"
  shows "safe sending_error (iran_downlink_frame X ck cfg f)"
proof -
  have a: "safe sending_error (handle_ack ck f k)" "safe sending_error (accept_fragment ck f)"
    "safe sending_error (sendto s b p)" for k s b p
    by (rule to_sending, rule safe_handle_ack safe_accept_fragment [OF assms] safe_sendto)+
  have b: "safe sending_error (send_ack X ck (iran_transport_send ck cfg) ACK_DOWN f)"
    by (rule safe_send_ack [OF safe_iran_transport])
  have s: "settable [(''last_pong_at'', u), (''last_rtt_ms'', v)]" for u v
    by (simp add: settable_def zero_counters_def)
  show ?thesis
    unfolding iran_downlink_frame_def send_ack_down_def
    by (auto intro!: ags.keeps_bind ags.keeps_then ags.keeps_return ags.keeps_get ags.keeps_when
        a b s safe_metric_ops simp: zero_counters_def split: option.splits)
qed

lemma safe_foreign_uplink_frame:
  assumes "frame_ok f"
  shows "safe sending_error (foreign_uplink_frame X ck cfg f)"
proof -
  have a: "safe sending_error (handle_ack ck f k)" "safe sending_error (accept_fragment ck f)"
    "safe sending_error (sendto s b p)" for k s b p
    by (rule to_sending, rule safe_handle_ack safe_accept_fragment [OF assms] safe_sendto)+
  have b: "safe sending_error (send_ack X ck (foreign_transport_send ck cfg) ACK_UP f)"
    by (rule safe_send_ack [OF safe_foreign_transport])
  have c: "safe sending_error (send_control X ck (foreign_transport_send ck cfg) PONG [] ts)" for ts
    by (rule safe_send_control [OF safe_foreign_transport])
  have s: "settable [(''last_inner_at'', u)]" for u by (simp add: settable_def zero_counters_def)
  show ?thesis
    unfolding foreign_uplink_frame_def send_ack_up_def send_downlink_control_def
    by (auto intro!: ags.keeps_bind ags.keeps_then ags.keeps_return ags.keeps_get ags.keeps_when
        a b c s safe_metric_ops simp: zero_counters_def split: option.splits)
qed

text \<open>A handler that starts by decoding knows that the frame is well-formed.\<close>

lemma decode_frame_ok: "decode X c packet now = Inr f \<Longrightarrow> frame_ok f"
  by (simp add: decode_iff)

lemma decode_error: "decode X c packet now = Inl e \<Longrightarrow> is_protocol_error e"
  using decode_raises [of X c packet now] by (simp add: raises_only_def)

text \<open>
  Encoding a control frame with 64-bit arguments in range never raises \<open>ProtocolError\<close>: the checks
  of \<open>encode\<close> pass, and \<open>_nonce\<close> sees a sequence number that was packed before.
\<close>

lemma encode_ack_raises_struct:
  assumes "codec_ok c" "is_ack_kind kind"
  shows "raises_only is_struct_error (encode_ack X c clock_ms kind sequence sid mid)"
proof (cases "struct_pack ACK_BODY [VInt sid, VInt mid]")
  case (Inl e)
  then show ?thesis
    using struct_pack_raises [of ACK_BODY "[VInt sid, VInt mid]"] assms(2) by (simp add: encode_ack_def)
next
  case (Inr body)
  let ?f = "arg_frame c clock_ms kind sequence body None 0 None 0 1 0"
  have body: "length body = 16" using Inr by (auto simp: struct_pack_length)
  have k: "kind \<in> set VALID_KINDS" "\<not> is_data_kind kind"
    using assms(2) by (auto simp: is_ack_kind_def is_data_kind_def const_defs)
  show ?thesis
  proof (cases "struct_pack AAD (header_vals (header_of_frame ?f))")
    case (Inl e)
    then have "is_struct_error e"
      using struct_pack_raises [of AAD "header_vals (header_of_frame ?f)"] by (simp add: raises_only_def)
    then show ?thesis
      using Inr body k assms(2) Inl
      by (simp add: encode_ack_def encode_def Let_def raises_only_def arg_frame_def header_of_frame_def
          MAX_FRAGMENT_PAYLOAD_def MAX_MESSAGE_SIZE_def MAX_FRAGMENTS_def)
  next
    case ok: (Inr aad)
    have v: "header_valid (header_of_frame ?f)"
      by (rule header_pack_valid [OF ok])
        (use assms(1) in \<open>simp_all add: codec_ok_def arg_frame_def header_of_frame_def\<close>)
    then have "frame_ok ?f"
      using k body by (simp add: frame_ok_def wire_ok_def arg_frame_def MAX_FRAGMENT_PAYLOAD_def
          MAX_MESSAGE_SIZE_def MAX_FRAGMENTS_def)
    then have "encode X c clock_ms kind sequence body None 0 None 0 1 0 = Inr (seal X (cd_key c) ?f)"
      using encode_iff [OF assms(1) refl] by simp
    then show ?thesis using Inr assms(2) by (simp add: encode_ack_def raises_only_def)
  qed
qed


lemma safe_duplicate_frame:
  assumes "\<And>packet. safe is_os_error (transport_send packet False)" "is_ack_kind ack_kind"
  shows "safe is_struct_error (duplicate_frame X ck transport_send data_kind ack_kind f)"
proof -
  let ?E = "\<lambda>e. is_os_error e \<or> is_struct_error e"
  have t: "safe ?E (act_block [transport_send packet False, metric_increment ck ''acks_tx'' 1])" for packet
    by (rule ags.keeps_block)
      (auto intro: ags.keeps_weaken [OF assms(1)] safe_metric_ops simp: zero_counters_def)
  have w: "raises_only ?E r" if "raises_only is_struct_error r" for r :: "bytes result"
    using that by (auto simp: raises_only_def split: sum.splits)
  have "safe ?E (send_ack X ck transport_send ack_kind f)"
    unfolding send_ack_def
    by (intro ags.keeps_bind ags.keeps_get_then safe_next ags.keeps_lift t w
        encode_ack_raises_struct assms(2)) (simp add: agent_ok_def)
  then have "safe is_struct_error (act_try (send_ack X ck transport_send ack_kind f) is_os_error
      (\<lambda>e. metric_set ck [(''last_error'', JStr (''duplicate ack: '' @ exn_text e))]))"
    by (rule ags.keeps_try) (auto intro: safe_metric_ops settable_text)
  then show ?thesis
    unfolding duplicate_frame_def
    by (auto intro!: ags.keeps_return ags.keeps_bind ags.keeps_when safe_is_completed)
qed

lemma ack_kinds [simp]: "is_ack_kind ACK_UP" "is_ack_kind ACK_DOWN"
  by (simp_all add: is_ack_kind_def)

lemma safe_iran_downlink: "safe is_struct_error (iran_downlink X ck cfg packet peer)"
proof -
  have s: "settable [(''last_downlink_source'', u), (''last_downlink_at'', v)]" for u v
    by (simp add: settable_def zero_counters_def)
  have frame: "safe is_struct_error
     (act_bind (record_received_frame ck f) (\<lambda>accepted.
        if \<not> accepted then duplicate_frame X ck (iran_transport_send ck cfg) DATA_DOWN ACK_DOWN f
        else act_block
          [metric_add ck ''downlink_rx'' (length packet), metric_increment ck ''encrypted_frames_rx'' 1,
           metric_set ck [(''last_downlink_source'', JStr (fst peer)), (''last_downlink_at'', wall_time ck)],
           act_try (iran_downlink_frame X ck cfg f) is_os_or_protocol_error
             (\<lambda>e. metric_set ck [(''last_error'', JStr (''downlink handling: '' @ exn_text e))])]))"
    if "frame_ok f" for f
    by (auto intro!: ags.keeps_bind safe_record_received_frame safe_duplicate_frame safe_iran_transport
        ags.keeps_then ags.keeps_return safe_loop_try safe_iran_downlink_frame that safe_metric_ops s settable_text
        simp: zero_counters_def)
  show ?thesis
    unfolding iran_downlink_def
    by (auto intro!: ags.keeps_bind ags.keeps_get frame safe_metric_ops dest: decode_frame_ok decode_error
        split: sum.splits simp: zero_counters_def)
qed

lemma safe_foreign_uplink: "safe is_struct_error (foreign_uplink X ck cfg packet peer)"
proof -
  have s: "settable [(''last_uplink_peer'', u), (''last_uplink_at'', v)]" for u v
    by (simp add: settable_def zero_counters_def)
  have frame: "safe is_struct_error
     (act_bind (record_received_frame ck f) (\<lambda>accepted.
        if \<not> accepted then duplicate_frame X ck (foreign_transport_send ck cfg) DATA_UP ACK_UP f
        else act_block
          [metric_add ck ''uplink_rx'' (length packet), metric_increment ck ''encrypted_frames_rx'' 1,
           metric_set ck [(''last_uplink_peer'', JStr (peer_text peer)), (''last_uplink_at'', wall_time ck)],
           act_try (foreign_uplink_frame X ck cfg f) is_os_or_protocol_error
             (\<lambda>e. metric_set ck [(''last_error'', JStr (''uplink handling: '' @ exn_text e))])]))"
    if "frame_ok f" for f
    by (auto intro!: ags.keeps_bind safe_record_received_frame safe_duplicate_frame safe_foreign_transport
        ags.keeps_then ags.keeps_return safe_loop_try safe_foreign_uplink_frame that safe_metric_ops s settable_text
        simp: zero_counters_def)
  show ?thesis
    unfolding foreign_uplink_def
    by (auto intro!: ags.keeps_bind ags.keeps_get frame safe_metric_ops dest: decode_frame_ok decode_error
        split: sum.splits simp: zero_counters_def)
qed

lemma safe_iran_keepalive: "safe is_struct_error (iran_keepalive X ck cfg)"
  unfolding iran_keepalive_def send_uplink_control_def
  by (rule safe_loop_try [OF safe_send_control [OF safe_iran_transport]])
    (intro safe_metric_ops settable_text)

text \<open>The reliability loop.\<close>

lemma pump_ids:
  assumes "sender_ok s"
  shows "tx_message_id ` set (all_tx (snd (pump now s))) \<subseteq> tx_message_id ` set (all_tx s)"
proof -
  have "tx_message_id (resent now s tx) = tx_message_id tx" "tx_message_id (first_sent now tx) = tx_message_id tx"
    for tx
    by (simp_all add: resent_def first_sent_def)
  then show ?thesis
    unfolding all_tx_pump [OF assms] started_def
    by (auto simp: all_tx_def image_Un image_image dest!: in_set_takeD in_set_dropD
        intro: rev_image_eqI)
qed

lemma safe_sender_pump: "safe E (sender_pump ck)"
proof (rule keepsI)
  fix A r B
  assume ok: "agent_ok A" and e: "sender_pump ck A = (r, B)"
  have s: "sender_ok (ag_sender A)" using ok by (simp add: agent_ok_def)
  have "\<forall>tx \<in> set (all_tx (snd (pump (ck_mono ck) (ag_sender A)))). tx_message_id tx \<le> ag_message_id A"
    using pump_ids [OF s, of "ck_mono ck"] ok by (fastforce simp: agent_ok_def)
  then show "agent_ok B \<and> agent_step A B \<and> raises_only E r"
    using ok e pump_ok [OF s, of "ck_mono ck"]
    by (auto simp: sender_pump_def agent_ok_def agent_step_def raises_only_def split: prod.splits)
qed

lemma safe_cleanup: "safe E (reassembler_cleanup ck)"
  unfolding reassembler_cleanup_def
  by (rule safe_reassembler)
    (auto simp: cleanup_def raises_only_def split: prod.splits dest: purge_ok [of _ "ck_mono ck"])

lemma safe_reliability_round:
  assumes "\<And>packet b. safe is_os_error (transport_send packet b)"
  shows "safe E (reliability_round ck cfg transport_send)"
proof -
  have t: "safe E (act_try (transport_send packet b) is_os_error
      (\<lambda>e. metric_set ck [(''last_error'', v e)]))" for packet b v
    by (rule ags.keeps_try [OF assms]) (auto intro: safe_metric_ops settable_text)
  have s: "settable (snapshot_values ss)" for ss
    by (simp add: settable_def snapshot_values_def zero_counters_def)
  show ?thesis
    unfolding reliability_round_def
    by (auto intro!: ags.keeps_return ags.keeps_bind ags.keeps_get ags.keeps_then ags.keeps_for ags.keeps_when
        safe_sender_pump safe_cleanup t s safe_metric_ops simp: zero_counters_def)
qed


text \<open>Metrics persistence and the writer thread.\<close>

lemma safe_publish_replay_stats: "safe E (publish_replay_stats ck)"
  unfolding publish_replay_stats_def
  by (intro ags.keeps_bind ags.keeps_get)
    (auto intro!: safe_metric_ops ags.keeps_return settable_stats split: replay.splits)

lemma safe_metrics_persist: "safe (\<lambda>e. failing = Some e) (metrics_persist failing)"
  by (rule keepsI)
    (auto simp: metrics_persist_def Metrics_persist_def agent_ok_def agent_step_def raises_only_def
      split: option.splits)

lemma safe_persist_round: "safe E (persist_round ck failing)"
proof -
  have "safe (\<lambda>e. failing = Some e) (act_block [publish_replay_stats ck, metrics_persist failing])"
    by (rule ags.keeps_block) (auto intro: safe_publish_replay_stats safe_metrics_persist)
  then show ?thesis
    unfolding persist_round_def by (rule ags.keeps_try) (auto intro: safe_metric_ops settable_text)
qed

lemma safe_replay_writer:
  assumes "\<And>p. pw_window (step p) = pw_window p" "\<And>p. pw_stopping (step p) = pw_stopping p"
  shows "safe E (replay_writer step)"
  by (rule keepsI)
    (auto simp: replay_writer_def act_simps agent_ok_def agent_step_def raises_only_def replay_ok_def
      persistent_ok_def assms split: replay.splits)

lemma safe_writer_steps:
  "safe E (replay_writer (writer_take now started_at))" "safe E (writer_finished ck success msg)"
proof -
  show "safe E (replay_writer (writer_take now started_at))"
    by (rule safe_replay_writer) (simp_all add: writer_take_def split: poll.splits)
  have "safe E (replay_writer (writer_done (ck_mono ck) success msg))"
    by (rule safe_replay_writer) (simp_all add: writer_done_def split: writer.splits)
  then show "safe E (writer_finished ck success msg)"
    unfolding writer_finished_def
    by (intro ags.keeps_block) (auto intro: safe_publish_replay_stats)
qed

section \<open>Building and queueing packets\<close>

text \<open>The frame that carries a fragment, and the frames of a message with consecutive numbers.\<close>

definition data_frame :: "codec \<Rightarrow> int \<Rightarrow> int \<Rightarrow> int \<Rightarrow> int \<Rightarrow> fragment_spec \<Rightarrow> frame" where
  "data_frame c clock_ms kind message_id sequence fragment =
     arg_frame c clock_ms kind sequence (fs_payload fragment) None message_id
       (Some (fs_message_len fragment)) (fs_fragment_index fragment) (fs_fragment_count fragment)
       (fs_flags fragment)"

fun data_frames :: "codec \<Rightarrow> int \<Rightarrow> int \<Rightarrow> int \<Rightarrow> int \<Rightarrow> fragment_spec list \<Rightarrow> frame list" where
  "data_frames c clock_ms kind message_id sequence [] = []"
| "data_frames c clock_ms kind message_id sequence (x # xs) =
     data_frame c clock_ms kind message_id (sequence + 1) x #
     data_frames c clock_ms kind message_id (sequence + 1) xs"

definition encode_fragment ::
  "crypto \<Rightarrow> clock \<Rightarrow> int \<Rightarrow> int \<Rightarrow> fragment_spec \<Rightarrow> bytes agent_act" where
  "encode_fragment X ck kind message_id fragment =
     act_bind next_sequence (\<lambda>sequence.
     act_bind (act_get ag_codec) (\<lambda>c.
     act_lift (encode X c (wall_ms ck) kind sequence (fs_payload fragment) None message_id
                 (Some (fs_message_len fragment)) (fs_fragment_index fragment)
                 (fs_fragment_count fragment) (fs_flags fragment))))"

lemma build_data_packets_eq:
  "build_data_packets X ck cfg kind payload =
     act_bind next_message_id (\<lambda>message_id.
     act_bind (act_lift (fragment_message payload (cf_fragment_payload_bytes cfg)
                           (cf_fec_enabled cfg))) (\<lambda>fragments.
     act_bind (act_map (encode_fragment X ck kind message_id) fragments) (\<lambda>packets.
     act_return (message_id, packets))))"
  by (simp add: build_data_packets_def encode_fragment_def [abs_def])

lemma encode_fragment_seq:
  "encode_fragment X ck kind mid x A =
    (encode X (ag_codec A) (wall_ms ck) kind (ag_sequence A + 1) (fs_payload x) None mid
       (Some (fs_message_len x)) (fs_fragment_index x) (fs_fragment_count x) (fs_flags x),
     A\<lparr>ag_sequence := ag_sequence A + 1\<rparr>)"
  by (simp add: encode_fragment_def act_bind_def next_sequence_def act_get_def act_lift_def)

lemma act_map_Cons:
  "act_map f (x # xs) s =
    (case f x s of
       (Inl e, s1) \<Rightarrow> (Inl e, s1)
     | (Inr y, s1) \<Rightarrow> (case act_map f xs s1 of
          (Inl e, s2) \<Rightarrow> (Inl e, s2) | (Inr ys, s2) \<Rightarrow> (Inr (y # ys), s2)))"
  by (simp add: act_bind_def act_return_def split: prod.splits sum.splits)

lemma act_map_step:
  "f x s = (q, s1) \<Longrightarrow> act_map f (x # xs) s =
    (case q of Inl e \<Rightarrow> (Inl e, s1)
     | Inr y \<Rightarrow> (case act_map f xs s1 of
          (Inl e, s2) \<Rightarrow> (Inl e, s2) | (Inr ys, s2) \<Rightarrow> (Inr (y # ys), s2)))"
  by (simp only: act_map_Cons prod.case)

lemma act_map_Nil: "act_map f [] s = (Inr [], s)"
  by (simp add: act_return_def)

text \<open>Encoding the fragments touches the sequence counter only, once per fragment.\<close>

lemma encode_fragments_any:
  assumes "act_map (encode_fragment X ck kind mid) fs A = (r, B)"
  shows "raises_only protocol_or_struct r \<and>
    (\<exists>n. ag_sequence A \<le> n \<and> n \<le> ag_sequence A + int (length fs) \<and> B = A\<lparr>ag_sequence := n\<rparr>) \<and>
    (\<forall>packets. r = Inr packets \<longrightarrow> length packets = length fs)"
  using assms
proof (induction fs arbitrary: A r B)
  case Nil
  then show ?case
    by (auto simp: act_return_def raises_only_def intro: exI [of _ "ag_sequence A"])
next
  case (Cons x xs)
  let ?A = "A\<lparr>ag_sequence := ag_sequence A + 1\<rparr>"
  let ?e = "encode X (ag_codec A) (wall_ms ck) kind (ag_sequence A + 1) (fs_payload x) None mid
    (Some (fs_message_len x)) (fs_fragment_index x) (fs_fragment_count x) (fs_flags x)"
  note step = act_map_step [where f = "encode_fragment X ck kind mid", OF encode_fragment_seq]
  show ?case
  proof (cases ?e)
    case (Inl e)
    then have "r = Inl e" "B = ?A"
      using Cons.prems unfolding step by simp_all
    then show ?thesis
      using Inl encode_raises [of X "ag_codec A" "wall_ms ck" kind "ag_sequence A + 1"
          "fs_payload x" None mid "Some (fs_message_len x)" "fs_fragment_index x" "fs_fragment_count x" "fs_flags x"]
      by (auto simp: raises_only_def intro!: exI [of _ "ag_sequence A + 1"])
  next
    case (Inr y)
    obtain q C where q: "act_map (encode_fragment X ck kind mid) xs ?A = (q, C)" by fastforce
    then obtain n where n: "raises_only protocol_or_struct q" "ag_sequence A + 1 \<le> n"
      "n \<le> ag_sequence A + 1 + int (length xs)" "C = A\<lparr>ag_sequence := n\<rparr>"
      "\<forall>packets. q = Inr packets \<longrightarrow> length packets = length xs"
      using Cons.IH [OF q] by auto
    have "r = (case q of Inl e \<Rightarrow> Inl e | Inr ys \<Rightarrow> Inr (y # ys))" "B = C"
      using Cons.prems Inr q unfolding step by (auto split: sum.splits)
    then show ?thesis
      using n by (auto simp: raises_only_def split: sum.splits intro!: exI [of _ n])
  qed
qed

text \<open>With counters and clock in range every fragment is encoded.\<close>

lemma encode_fragments_ok:
  assumes "codec_ok (ag_codec A)"
    and "\<forall>f \<in> set (data_frames (ag_codec A) (wall_ms ck) kind mid (ag_sequence A) fs). frame_ok f"
  shows "act_map (encode_fragment X ck kind mid) fs A =
    (Inr (map (seal X (cd_key (ag_codec A)))
       (data_frames (ag_codec A) (wall_ms ck) kind mid (ag_sequence A) fs)),
     A\<lparr>ag_sequence := ag_sequence A + int (length fs)\<rparr>)"
  using assms
proof (induction fs arbitrary: A)
  case (Cons x xs)
  have "encode X (ag_codec A) (wall_ms ck) kind (ag_sequence A + 1) (fs_payload x) None mid
    (Some (fs_message_len x)) (fs_fragment_index x) (fs_fragment_count x) (fs_flags x) =
    Inr (seal X (cd_key (ag_codec A)) (data_frame (ag_codec A) (wall_ms ck) kind mid (ag_sequence A + 1) x))"
    using encode_iff [OF Cons.prems(1) refl] Cons.prems(2) by (auto simp: data_frame_def)
  moreover note Cons.IH [of "A\<lparr>ag_sequence := ag_sequence A + 1\<rparr>"] Cons.prems
  ultimately show ?case
    unfolding act_map_step [where f = "encode_fragment X ck kind mid", OF encode_fragment_seq]
    by (simp add: algebra_simps)
qed (simp add: act_map_Nil del: act_map.simps)

lemma fragment_message_nonempty: "fragment_message p s fec = Inr fs \<Longrightarrow> fs \<noteq> []"
  by (auto simp: fragment_message_iff)

lemma fragment_message_raises: "raises_only is_protocol_error (fragment_message p s fec)"
proof (cases "fragment_message p s fec")
  case (Inl e)
  then have "\<not> (256 \<le> s \<and> s \<le> 1391 \<and> length p \<le> 60000)"
    by (simp flip: not_True_eq_False) (metis Inl_Inr_False fragment_message_iff)
  then have "fragment_message p s fec = Inl (ProtocolError ''message exceeds 60000 bytes'') \<or>
    fragment_message p s fec =
      Inl (ProtocolError ''fragment payload must be between 256 and 1391 bytes'')"
    by (auto simp: fragment_message_def MAX_FRAGMENT_PAYLOAD_def MAX_MESSAGE_SIZE_def)
  then show ?thesis by (auto simp: raises_only_def)
qed (simp add: raises_only_def)

lemma build_data_packets_any:
  assumes "build_data_packets X ck cfg kind payload A = (r, B)"
  shows "raises_only protocol_or_struct r \<and>
    (\<exists>n. ag_sequence A \<le> n \<and> B = A\<lparr>ag_message_id := ag_message_id A + 1, ag_sequence := n\<rparr>) \<and>
    (\<forall>mid packets. r = Inr (mid, packets) \<longrightarrow> mid = ag_message_id A + 1 \<and> packets \<noteq> [])"
proof (cases "fragment_message payload (cf_fragment_payload_bytes cfg) (cf_fec_enabled cfg)")
  case (Inl e)
  then have "protocol_or_struct e"
    using fragment_message_raises [of payload "cf_fragment_payload_bytes cfg" "cf_fec_enabled cfg"]
    by (simp add: raises_only_def protocol_or_struct_def)
  then show ?thesis
    using assms Inl
    by (auto simp: build_data_packets_eq act_bind_def next_message_id_def act_lift_def raises_only_def
        intro: exI [of _ "ag_sequence A"])
next
  case (Inr fs)
  let ?A = "A\<lparr>ag_message_id := ag_message_id A + 1\<rparr>"
  obtain q C where q: "act_map (encode_fragment X ck kind (ag_message_id A + 1)) fs ?A = (q, C)" by fastforce
  note any = encode_fragments_any [OF q]
  show ?thesis
    using assms Inr q any fragment_message_nonempty [OF Inr]
    by (auto simp: build_data_packets_eq act_bind_def next_message_id_def act_lift_def act_return_def
        raises_only_def split: sum.splits)
qed


lemma metric_ops_eq:
  "metrics_ok (ag_metrics A) \<Longrightarrow> k \<in> set zero_counters \<Longrightarrow>
   \<exists>M. metrics_ok M \<and> metric_increment ck k n A = (Inr (), A\<lparr>ag_metrics := M\<rparr>)"
  "metrics_ok (ag_metrics A) \<Longrightarrow> p @ ''_packets'' \<in> set zero_counters \<Longrightarrow> p @ ''_bytes'' \<in> set zero_counters \<Longrightarrow>
   \<exists>M. metrics_ok M \<and> metric_add ck p m A = (Inr (), A\<lparr>ag_metrics := M\<rparr>)"
  "metrics_ok (ag_metrics A) \<Longrightarrow> settable values \<Longrightarrow>
   \<exists>M. metrics_ok M \<and> metric_set ck values A = (Inr (), A\<lparr>ag_metrics := M\<rparr>)"
proof -
  have *: "\<exists>M. metrics_ok M \<and> on_metrics m A = (Inr (), A\<lparr>ag_metrics := M\<rparr>)"
    if "counts m" "metrics_ok (ag_metrics A)" for m
    using that unfolding counts_def on_metrics_def by fastforce
  show "metrics_ok (ag_metrics A) \<Longrightarrow> k \<in> set zero_counters \<Longrightarrow>
    \<exists>M. metrics_ok M \<and> metric_increment ck k n A = (Inr (), A\<lparr>ag_metrics := M\<rparr>)"
    unfolding metric_increment_def by (intro * counts_rules)
  show "metrics_ok (ag_metrics A) \<Longrightarrow> p @ ''_packets'' \<in> set zero_counters \<Longrightarrow> p @ ''_bytes'' \<in> set zero_counters \<Longrightarrow>
    \<exists>M. metrics_ok M \<and> metric_add ck p m A = (Inr (), A\<lparr>ag_metrics := M\<rparr>)"
    unfolding metric_add_def by (intro * counts_rules)
  show "metrics_ok (ag_metrics A) \<Longrightarrow> settable values \<Longrightarrow>
    \<exists>M. metrics_ok M \<and> metric_set ck values A = (Inr (), A\<lparr>ag_metrics := M\<rparr>)"
    unfolding metric_set_def by (intro * counts_rules)
qed

lemma enqueue_fresh:
  assumes "packets \<noteq> []" "\<forall>tx \<in> set (all_tx s). tx_message_id tx < mid" "sender_ok s"
  obtains q s1 where "enqueue now mid packets s = (Inr q, s1)" "sender_ok s1"
    "\<forall>tx \<in> set (all_tx s1). tx_message_id tx \<le> mid"
proof -
  have "fst x < mid" if "x \<in> set (sn_pending s)" for x
  proof -
    have "tx_message_id (snd x) = fst x"
      using that assms(3) by (auto simp: sender_ok_def inflight_ok_def)
    moreover have "snd x \<in> set (all_tx s)" using that by (simp add: all_tx_def)
    ultimately show ?thesis using assms(2) by force
  qed
  then have ids: "\<forall>x \<in> set (sn_pending s). fst x < mid" "\<forall>tx \<in> set (sn_queue s). tx_message_id tx < mid"
    using assms(2) by (auto simp: all_tx_def)
  then have "\<not> dict_has (sn_pending s) mid" "\<not> (\<exists>tx \<in> set (sn_queue s). tx_message_id tx = mid)"
    by (auto simp: dict_has_def)
  then have "fst (enqueue now mid packets s) \<in> range Inr"
    using assms(1) by (simp add: enqueue_def)
  then obtain q s1 where e: "enqueue now mid packets s = (Inr q, s1)"
    by (cases "enqueue now mid packets s") auto
  have "all_tx s1 = all_tx s \<or> (\<exists>tx. all_tx s1 = all_tx s @ [tx] \<and> tx_message_id tx = mid)"
    using e assms(1) by (auto simp: enqueue_def all_tx_def split: if_splits)
  then have "\<forall>tx \<in> set (all_tx s1). tx_message_id tx \<le> mid"
    using assms(2) by (auto dest: less_imp_le)
  with e have "\<exists>q s1. enqueue now mid packets s = (Inr q, s1) \<and>
      (\<forall>tx \<in> set (all_tx s1). tx_message_id tx \<le> mid)" by blast
  then show thesis using that enqueue_ok [OF assms(3), of now mid packets] by fastforce
qed

lemma safe_send_data:
  assumes "\<And>packet. safe is_os_error (transport_send packet False)"
  shows "safe (if cf_reliable cfg then protocol_or_struct else sending_error)
    (send_data X ck cfg transport_send kind payload)"
proof (rule keepsI)
  let ?E = "if cf_reliable cfg then protocol_or_struct else sending_error"
  fix A r B
  assume ok: "agent_ok A" and e: "send_data X ck cfg transport_send kind payload A = (r, B)"
  obtain q A1 where b: "build_data_packets X ck cfg kind payload A = (q, A1)" by fastforce
  note any = build_data_packets_any [OF b]
  then obtain n where n: "ag_sequence A \<le> n"
    "A1 = A\<lparr>ag_message_id := ag_message_id A + 1, ag_sequence := n\<rparr>" by blast
  have ok1: "agent_ok A1" using ok by (force simp: n agent_ok_def)
  have st1: "agent_step A A1" using n by (simp add: agent_step_def)
  show "agent_ok B \<and> agent_step A B \<and> raises_only ?E r"
  proof (cases q)
    case (Inl x)
    then show ?thesis
      using e b any ok1 st1 by (auto simp: send_data_def act_bind_def raises_only_def protocol_sending)
  next
    case (Inr y)
    obtain mid packets where y: "y = (mid, packets)" by (cases y)
    with any Inr have mid: "mid = ag_message_id A + 1" "packets \<noteq> []" by auto
    obtain M1 where M1: "metrics_ok M1"
      "metric_increment ck ''fragment_messages'' 1 A1 = (Inr (), A1\<lparr>ag_metrics := M1\<rparr>)"
      using metric_ops_eq(1) [of A1 "''fragment_messages''" ck 1] ok1
      by (simp add: agent_ok_def zero_counters_def) blast
    obtain M2 where M2: "metrics_ok M2"
      "metric_increment ck ''fragments_created'' (int (length packets)) (A1\<lparr>ag_metrics := M1\<rparr>)
        = (Inr (), A1\<lparr>ag_metrics := M2\<rparr>)"
      using metric_ops_eq(1) [of "A1\<lparr>ag_metrics := M1\<rparr>" "''fragments_created''" ck "int (length packets)"] M1(1)
      by (simp add: zero_counters_def) blast
    let ?A2 = "A1\<lparr>ag_metrics := M2\<rparr>"
    have ok2: "agent_ok ?A2" using ok1 M2(1) by (simp add: agent_ok_def)
    have st2: "agent_step A ?A2" using st1 by (simp add: agent_step_def)
    have rest: "(if cf_reliable cfg then
        act_bind (sender_enqueue ck mid packets) (\<lambda>queued.
          act_then (act_when (\<not> queued) (metric_increment ck ''queue_drops'' 1)) (act_return queued))
      else act_then (act_for packets (\<lambda>packet. transport_send packet False)) (act_return True)) ?A2 = (r, B)"
      using e b Inr y M1(2) M2(2) by (simp add: send_data_def act_bind_def act_then_def)
    show ?thesis
    proof (cases "cf_reliable cfg")
      case True
      have "\<forall>tx \<in> set (all_tx (ag_sender A)). tx_message_id tx < mid" "sender_ok (ag_sender A)"
        using ok mid(1) by (auto simp: agent_ok_def)
      then obtain queued s1 where s1: "enqueue (ck_mono ck) mid packets (ag_sender A) = (Inr queued, s1)"
        "sender_ok s1" "\<forall>tx \<in> set (all_tx s1). tx_message_id tx \<le> mid"
        using enqueue_fresh mid(2) by metis
      let ?A3 = "?A2\<lparr>ag_sender := s1\<rparr>"
      have enq: "sender_enqueue ck mid packets ?A2 = (Inr queued, ?A3)"
        using s1(1) by (simp add: sender_enqueue_def n)
      have ok3: "agent_ok ?A3" using ok2 s1(2,3) mid(1) by (simp add: agent_ok_def n)
      have st3: "agent_step A ?A3" using st2 by (simp add: agent_step_def)
      have "act_then (act_when (\<not> queued) (metric_increment ck ''queue_drops'' 1)) (act_return queued) ?A3 = (r, B)"
        using rest True enq by (simp add: act_bind_def)
      moreover have "safe ?E (act_then (act_when (\<not> queued) (metric_increment ck ''queue_drops'' 1)) (act_return queued))"
        by (intro ags.keeps_then ags.keeps_when ags.keeps_return safe_metric_ops) (simp add: zero_counters_def)
      ultimately have "agent_ok B \<and> agent_step ?A3 B \<and> raises_only ?E r"
        using ok3 by (blast dest: keepsD)
      then show ?thesis using ags.L_trans [OF st3] by blast
    next
      case False
      have "safe sending_error (act_then (act_for packets (\<lambda>packet. transport_send packet False)) (act_return True))"
        by (intro ags.keeps_then ags.keeps_for ags.keeps_return to_sending(2) assms)
      moreover have "act_then (act_for packets (\<lambda>packet. transport_send packet False)) (act_return True) ?A2 = (r, B)"
        using rest False by simp
      ultimately have "agent_ok B \<and> agent_step ?A2 B \<and> raises_only sending_error r"
        using ok2 by (blast dest: keepsD)
      then show ?thesis using False ags.L_trans [OF st2] by simp
    qed
  qed
qed

end
