(* ===== verification/Agent_Rounds.thy ===== *)
theory Agent_Rounds
  imports Agent_Invariant
begin

text \<open>
  The rounds of a running agent of either role as a step relation, the states reachable from its
  constructor, and the proof that every round keeps the invariant. \<open>escaping\<close> names the exceptions
  that can leave a round, and so end the thread that runs it.
\<close>


section \<open>Rounds of a running agent\<close>

text \<open>
  One round of one of the threads of an agent of a role. A round ends with a value or
  with the exception that left its handler; \<open>socket_faults\<close> is the environment deciding which of the
  next calls of \<open>sendto\<close> fail. The rounds of \<open>stop\<close> are not among them: the relation is about a
  running agent.
\<close>

fun is_reliable :: "role \<Rightarrow> bool" where
  "is_reliable (Iran cfg) = cf_reliable cfg"
| "is_reliable (Foreign cfg) = cf_reliable cfg"

fun agent_init ::
  "crypto \<Rightarrow> role \<Rightarrow> clock \<Rightarrow> (string \<Rightarrow> string result) \<Rightarrow> (string \<times> checkpoint_file) option \<Rightarrow> bytes
     \<Rightarrow> int \<Rightarrow> int \<Rightarrow> agent result" where
  "agent_init X (Iran cfg) ck resolve file token sequence message_id =
     IranAgent_init X ck resolve cfg file token sequence message_id"
| "agent_init X (Foreign cfg) ck resolve file token sequence message_id =
     ForeignAgent_init X ck resolve cfg file token sequence message_id"

inductive round :: "crypto \<Rightarrow> role \<Rightarrow> agent \<Rightarrow> unit result \<Rightarrow> agent \<Rightarrow> bool" for X where
  iran_inner: "iran_inner X ck cfg payload peer A = (r, B) \<Longrightarrow> round X (Iran cfg) A r B"
| iran_downlink: "iran_downlink X ck cfg packet peer A = (r, B) \<Longrightarrow> round X (Iran cfg) A r B"
| iran_keepalive: "iran_keepalive X ck cfg A = (r, B) \<Longrightarrow> round X (Iran cfg) A r B"
| iran_reliability: "reliability_round ck cfg (iran_transport_send ck cfg) A = (r, B) \<Longrightarrow>
    round X (Iran cfg) A r B"
| foreign_inner: "foreign_inner X ck cfg payload peer A = (r, B) \<Longrightarrow> round X (Foreign cfg) A r B"
| foreign_uplink: "foreign_uplink X ck cfg packet peer A = (r, B) \<Longrightarrow> round X (Foreign cfg) A r B"
| foreign_reliability: "reliability_round ck cfg (foreign_transport_send ck cfg) A = (r, B) \<Longrightarrow>
    round X (Foreign cfg) A r B"
| persist: "persist_round ck failing A = (r, B) \<Longrightarrow> round X role A r B"
| writer_takes: "replay_writer (writer_take now started_at) A = (r, B) \<Longrightarrow> round X role A r B"
| writer_ends: "writer_finished ck success msg A = (r, B) \<Longrightarrow> round X role A r B"
| socket_faults: "round X role A (Inr ()) (A\<lparr>ag_faults := faults\<rparr>)"

text \<open>The replay file an agent may start from: none, or the checkpoint of a window.\<close>

definition replay_file_ok :: "(string \<times> checkpoint_file) option \<Rightarrow> bool" where
  "replay_file_ok file \<longleftrightarrow>
     (case file of
        None \<Rightarrow> True
      | Some (fp, f) \<Rightarrow> \<exists>w. window_ok w \<and> file_shows fp f w \<and> (f \<noteq> Missing \<or> w_size w = 4096))"

inductive reach :: "crypto \<Rightarrow> role \<Rightarrow> agent \<Rightarrow> bool" for X role where
  start: "agent_init X role ck resolve file token sequence message_id = Inr A \<Longrightarrow>
    replay_file_ok file \<Longrightarrow> reach X role A"
| step: "reach X role A \<Longrightarrow> round X role A r B \<Longrightarrow> reach X role B"

lemma FrameCodec_init_ok: "FrameCodec_init X tid secret skew sid token = Inr c \<Longrightarrow> codec_ok c"
  by (auto simp: FrameCodec_init_def codec_ok_def Let_def split: if_splits option.splits)

lemma BaseAgent_init_ok:
  assumes init: "BaseAgent_init X ck cfg rf token sequence message_id = Inr A" and replay_file: "replay_file_ok rf"
  shows "agent_ok A"
proof -
  from init obtain c replay R s where c: "FrameCodec_init X (cf_tunnel_id cfg) (cf_shared_secret cfg) 600 None token = Inr c"
    and replay: "(case rf of
          None \<Rightarrow> and_then (ReplayWindow_init 4096) (\<lambda>w. Inr (Volatile w))
        | Some (fingerprint, f) \<Rightarrow>
            and_then (PersistentReplayWindow_init f fingerprint 4096
                (Fin (cf_replay_checkpoint_interval_seconds cfg))
                (cf_replay_checkpoint_batch_frames cfg) (ck_mono ck)) (\<lambda>p. Inr (Durable p))) = Inr replay"
    and R: "Reassembler_init (cf_reassembly_timeout_seconds cfg) (cf_max_pending_messages cfg) 120 = Inr R"
    and s: "ReliableSender_init (cf_retransmit_timeout_seconds cfg) (cf_max_retries cfg)
         (cf_max_pending_messages cfg) 64 512 = Inr s"
    and A: "A = \<lparr>ag_codec = c, ag_metrics = Metrics_init (cf_role cfg) (cf_metrics_file cfg) (ck_wall ck),
          ag_sequence = sequence, ag_message_id = message_id, ag_replay = replay,
          ag_reassembler = R, ag_sender = s, ag_expected_inner_peer = None,
          ag_inner_peer = None, ag_sent = [], ag_faults = [], ag_metrics_file = None\<rparr>"
    unfolding BaseAgent_init_def result_simps by blast
  have "replay_ok replay \<and> \<not> replay_closing replay"
  proof (cases rf)
    case None
    then show ?thesis using replay by (auto simp: result_simps dest: init_ok)
  next
    case (Some x)
    then obtain fp f p w where p: "PersistentReplayWindow_init f fp 4096
        (Fin (cf_replay_checkpoint_interval_seconds cfg)) (cf_replay_checkpoint_batch_frames cfg)
        (ck_mono ck) = Inr p" "replay = Durable p"
      and w: "window_ok w" "file_shows fp f w" "f \<noteq> Missing \<or> int (w_size w) = 4096"
      using replay replay_file by (cases x) (auto simp: result_simps replay_file_ok_def)
    show ?thesis
      using init_from_file(1,8) [OF p(1) w] w(1) p(2) by (simp add: persistent_ok_def)
  qed
  moreover have "all_tx s = []"
    using s by (auto simp: ReliableSender_init_def all_tx_def Let_def split: if_splits)
  ultimately show ?thesis
    using FrameCodec_init_ok [OF c] init_reassembler_ok [OF R] init_sender_ok [OF s]
    by (simp add: agent_ok_def A metrics_ok_init)
qed

lemma agent_init_ok:
  assumes "agent_init X role ck resolve rf token sequence message_id = Inr A" "replay_file_ok rf"
  shows "agent_ok A \<and> (\<forall>cfg. role = Foreign cfg \<longrightarrow> ag_inner_peer A \<noteq> None)"
proof (cases role)
  case (Iran cfg)
  then obtain B p where "BaseAgent_init X ck cfg rf token sequence message_id = Inr B"
    "A = B\<lparr>ag_expected_inner_peer := p\<rparr> \<or> A = B"
    using assms(1) by (fastforce simp: IranAgent_init_def result_simps split: option.splits)
  with BaseAgent_init_ok [OF this(1) assms(2)] Iran show ?thesis by (auto simp: agent_ok_def)
next
  case (Foreign cfg)
  then obtain B p where "BaseAgent_init X ck cfg rf token sequence message_id = Inr B"
    "A = B\<lparr>ag_inner_peer := Some p\<rparr>"
    using assms(1) by (auto simp: ForeignAgent_init_def result_simps)
  with BaseAgent_init_ok [OF this(1) assms(2)] Foreign show ?thesis by (auto simp: agent_ok_def)
qed

section \<open>Every round keeps the invariant\<close>

text \<open>Which exceptions may leave a round, and so end its thread.\<close>

definition escaping :: "bool \<Rightarrow> exn \<Rightarrow> bool" where
  "escaping reliable e \<longleftrightarrow> is_struct_error e \<or> \<not> reliable \<and> is_os_error e"

lemma struct_escaping: "safe is_struct_error m \<Longrightarrow> safe (escaping b) m"
  by (erule ags.keeps_weaken) (simp add: escaping_def)

lemma safe_inner_try:
  assumes "safe (if b then protocol_or_struct else sending_error) m" "\<And>e. safe (escaping b) (h e)"
  shows "safe (escaping b) (act_try m is_protocol_error h)"
  by (rule ags.keeps_try [OF assms(1)])
    (use assms(2) in \<open>auto simp: escaping_def protocol_or_struct_def sending_error_def
      is_os_or_protocol_error_def split: if_splits\<close>)

lemma safe_iran_inner: "safe (escaping (cf_reliable cfg)) (iran_inner X ck cfg payload peer)"
  unfolding iran_inner_def
  by (auto intro!: ags.keeps_bind ags.keeps_get ags.keeps_then ags.keeps_return safe_update_peer
      safe_inner_try safe_send_data safe_iran_transport safe_metric_ops
      simp: zero_counters_def settable_def)

lemma safe_foreign_inner: "safe (escaping (cf_reliable cfg)) (foreign_inner X ck cfg payload peer)"
  unfolding foreign_inner_def
  by (auto intro!: ags.keeps_bind ags.keeps_get ags.keeps_then ags.keeps_return
      safe_inner_try safe_send_data safe_foreign_transport safe_metric_ops
      simp: zero_counters_def settable_def)

inductive_cases roundE: "round X role A r B"

lemma round_ok:
  assumes "round X role A r B" "agent_ok A"
  shows "agent_ok B \<and> agent_step A B \<and> raises_only (escaping (is_reliable role)) r"
  using assms(1)
proof cases
  case (iran_inner ck cfg payload peer)
  then show ?thesis using keepsD [OF safe_iran_inner assms(2) iran_inner(2)] by simp
next
  case (iran_downlink ck cfg packet peer)
  then show ?thesis
    using keepsD [OF struct_escaping [OF safe_iran_downlink] assms(2) iran_downlink(2)] by simp
next
  case (iran_keepalive ck cfg)
  then show ?thesis
    using keepsD [OF struct_escaping [OF safe_iran_keepalive] assms(2) iran_keepalive(2)] by simp
next
  case (iran_reliability ck cfg)
  then show ?thesis
    using keepsD [OF safe_reliability_round [OF safe_iran_transport] assms(2) iran_reliability(2)] by simp
next
  case (foreign_inner ck cfg payload peer)
  then show ?thesis using keepsD [OF safe_foreign_inner assms(2) foreign_inner(2)] by simp
next
  case (foreign_uplink ck cfg packet peer)
  then show ?thesis
    using keepsD [OF struct_escaping [OF safe_foreign_uplink] assms(2) foreign_uplink(2)] by simp
next
  case (foreign_reliability ck cfg)
  then show ?thesis
    using keepsD [OF safe_reliability_round [OF safe_foreign_transport] assms(2) foreign_reliability(2)]
    by simp
next
  case (persist ck failing)
  then show ?thesis by (rule keepsD [OF safe_persist_round assms(2)])
next
  case (writer_takes now started_at)
  then show ?thesis by (rule keepsD [OF safe_writer_steps(1) assms(2)])
next
  case (writer_ends ck success msg)
  then show ?thesis by (rule keepsD [OF safe_writer_steps(2) assms(2)])
next
  case (socket_faults faults)
  then show ?thesis using assms(2) by (simp add: agent_ok_def agent_step_def raises_only_def)
qed

lemma reach_ok: "reach X role A \<Longrightarrow> agent_ok A \<and> (\<forall>cfg. role = Foreign cfg \<longrightarrow> ag_inner_peer A \<noteq> None)"
proof (induction rule: reach.induct)
  case (step A r B)
  then show ?case using round_ok [OF step.hyps(2)] by (auto simp: agent_step_def)
qed (rule agent_init_ok)

end
