(* ===== verification/Agent_Behaviour.thy ===== *)
theory Agent_Behaviour
  imports Agent_Rounds
begin

text \<open>
  What each handler does, computed up to the counters: \<open>does m A r B\<close> and its rules for the
  combinators, the methods of the base class, and the two receive loops. Two interfaces are stated
  as locales: \<open>transport_link\<close>, what the base class relies on in the virtual method
  \<open>_transport_send\<close>, and \<open>tunnel_receiver\<close>, what the two receive loops promise; both are interpreted
  on the model of either role.
\<close>


section \<open>Running a handler, up to the metrics\<close>

text \<open>
  \<open>does m A r B\<close>: from the state \<open>A\<close> the action \<open>m\<close> ends with \<open>r\<close> in \<open>B\<close>, whatever the counters show;
  the counters of the state after it are left open. The rules follow the combinators.
\<close>

definition does :: "'a agent_act \<Rightarrow> agent \<Rightarrow> 'a result \<Rightarrow> agent \<Rightarrow> bool" where
  "does m A r B \<longleftrightarrow>
     (\<forall>M. metrics_ok M \<longrightarrow>
        (\<exists>M1. metrics_ok M1 \<and> m (A\<lparr>ag_metrics := M\<rparr>) = (r, B\<lparr>ag_metrics := M1\<rparr>)))"

lemma doesI:
  "(\<And>M. metrics_ok M \<Longrightarrow> \<exists>M1. metrics_ok M1 \<and> m (A\<lparr>ag_metrics := M\<rparr>) = (r, B\<lparr>ag_metrics := M1\<rparr>)) \<Longrightarrow>
   does m A r B"
  by (simp add: does_def)

lemma doesE:
  assumes "does m A r B" "metrics_ok M"
  obtains M1 where "metrics_ok M1" "m (A\<lparr>ag_metrics := M\<rparr>) = (r, B\<lparr>ag_metrics := M1\<rparr>)"
  using assms unfolding does_def by blast

lemma does_result:
  assumes "does m A r B" "metrics_ok (ag_metrics A)"
  obtains M where "metrics_ok M" "m A = (r, B\<lparr>ag_metrics := M\<rparr>)"
proof -
  obtain M where "metrics_ok M" "m (A\<lparr>ag_metrics := ag_metrics A\<rparr>) = (r, B\<lparr>ag_metrics := M\<rparr>)"
    by (rule doesE [OF assms])
  then show thesis using that by simp
qed

lemma does_return: "does (act_return x) A (Inr x) A"
  by (rule doesI) (auto simp: act_return_def)

lemma does_raise: "does (act_raise e) A (Inl e) A"
  by (rule doesI) (auto simp: act_raise_def)

lemma does_lift: "does (act_lift r) A r A"
  by (rule doesI) (auto simp: act_lift_def)

lemma does_get: "(\<And>M. f (A\<lparr>ag_metrics := M\<rparr>) = f A) \<Longrightarrow> does (act_get f) A (Inr (f A)) A"
  by (rule doesI) (auto simp: act_get_def)

lemma does_update:
  "(\<And>M. u (A\<lparr>ag_metrics := M\<rparr>) = (u A)\<lparr>ag_metrics := M\<rparr>) \<Longrightarrow> does (act_update u) A (Inr ()) (u A)"
  by (rule doesI) (auto simp: act_update_def)

lemma does_bind: "does m A (Inr x) B \<Longrightarrow> does (f x) B r C \<Longrightarrow> does (act_bind m f) A r C"
  by (rule doesI, elim doesE [of m], assumption, elim doesE [of "f x"], assumption)
    (auto simp: act_bind_def)

lemma does_bind_Inl: "does m A (Inl e) B \<Longrightarrow> does (act_bind m f) A (Inl e) B"
  by (rule doesI, elim doesE [of m], assumption) (auto simp: act_bind_def)

lemma does_then: "does m A (Inr x) B \<Longrightarrow> does n B r C \<Longrightarrow> does (act_then m n) A r C"
  unfolding act_then_def by (rule does_bind)

lemma does_then_Inl: "does m A (Inl e) B \<Longrightarrow> does (act_then m n) A (Inl e) B"
  unfolding act_then_def by (rule does_bind_Inl)

lemma does_when: "(b \<Longrightarrow> does m A (Inr ()) B) \<Longrightarrow> (\<not> b \<Longrightarrow> B = A) \<Longrightarrow> does (act_when b m) A (Inr ()) B"
  by (cases b) (simp_all add: act_simps does_return)

lemma does_skip: "does m A (Inr ()) A \<Longrightarrow> does n A r C \<Longrightarrow> does (act_then m n) A r C"
  by (rule does_then)

lemma does_when_skip: "(b \<Longrightarrow> does m A (Inr ()) A) \<Longrightarrow> does (act_when b m) A (Inr ()) A"
  by (rule does_when) auto

lemma does_block_Nil: "does (act_block []) A (Inr ()) A"
  by (simp add: does_return)

lemma does_block_Cons:
  "does m A (Inr ()) B \<Longrightarrow> does (act_block ms) B r C \<Longrightarrow> does (act_block (m # ms)) A r C"
  by (simp add: does_then)

lemma does_block_Inl: "does m A (Inl e) B \<Longrightarrow> does (act_block (m # ms)) A (Inl e) B"
  by (simp add: does_then_Inl)

lemma does_try: "does m A (Inr x) B \<Longrightarrow> does (act_try m P h) A (Inr x) B"
  by (rule doesI, elim doesE [of m], assumption) (auto simp: act_try_def)

lemma does_try_caught: "does m A (Inl e) B \<Longrightarrow> P e \<Longrightarrow> does (h e) B r C \<Longrightarrow> does (act_try m P h) A r C"
  by (rule doesI, elim doesE [of m], assumption, elim doesE [of "h e"], assumption)
    (auto simp: act_try_def)

lemma does_try_escapes: "does m A (Inl e) B \<Longrightarrow> \<not> P e \<Longrightarrow> does (act_try m P h) A (Inl e) B"
  by (rule doesI, elim doesE [of m], assumption) (auto simp: act_try_def)

lemma does_metric_add:
  assumes "p @ ''_packets'' \<in> set zero_counters" "p @ ''_bytes'' \<in> set zero_counters"
  shows "does (metric_add ck p n) A (Inr ()) A"
proof (rule doesI)
  fix M assume "metrics_ok M"
  then show "\<exists>M1. metrics_ok M1 \<and> metric_add ck p n (A\<lparr>ag_metrics := M\<rparr>) = (Inr (), A\<lparr>ag_metrics := M1\<rparr>)"
    using metric_ops_eq(2) [of "A\<lparr>ag_metrics := M\<rparr>"] assms by simp
qed

lemma does_metric_increment:
  assumes "k \<in> set zero_counters"
  shows "does (metric_increment ck k n) A (Inr ()) A"
proof (rule doesI)
  fix M assume "metrics_ok M"
  then show "\<exists>M1. metrics_ok M1 \<and> metric_increment ck k n (A\<lparr>ag_metrics := M\<rparr>) = (Inr (), A\<lparr>ag_metrics := M1\<rparr>)"
    using metric_ops_eq(1) [of "A\<lparr>ag_metrics := M\<rparr>"] assms by simp
qed

lemma does_metric_set:
  assumes "settable values"
  shows "does (metric_set ck values) A (Inr ()) A"
proof (rule doesI)
  fix M assume "metrics_ok M"
  then show "\<exists>M1. metrics_ok M1 \<and> metric_set ck values (A\<lparr>ag_metrics := M\<rparr>) = (Inr (), A\<lparr>ag_metrics := M1\<rparr>)"
    using metric_ops_eq(3) [of "A\<lparr>ag_metrics := M\<rparr>"] assms by simp
qed

lemmas does_metrics = does_metric_add does_metric_increment does_metric_set

section \<open>The methods\<close>

text \<open>With no pending socket fault a datagram goes out; a pending one raises.\<close>

definition with_sent :: "(sock \<times> bytes \<times> address) list \<Rightarrow> agent \<Rightarrow> agent" where
  "with_sent ds A = A\<lparr>ag_sent := ag_sent A @ ds\<rparr>"

lemma does_sendto: "ag_faults A = [] \<Longrightarrow> does (sendto s b a) A (Inr ()) (with_sent [(s, b, a)] A)"
  by (rule doesI) (auto simp: sendto_def with_sent_def)

lemma does_sendto_fault:
  "ag_faults A = Some msg # rest \<Longrightarrow> does (sendto s b a) A (Inl (OSError msg)) (A\<lparr>ag_faults := rest\<rparr>)"
  by (rule doesI) (auto simp: sendto_def)

lemma does_iran_transport:
  assumes "ag_faults A = []"
  shows "does (iran_transport_send ck cfg packet b) A (Inr ()) (with_sent [(UplinkSock, packet, ir_foreign_uplink cfg)] A)"
  unfolding iran_transport_send_def
  by (rule does_block_Cons [OF does_sendto [OF assms]])
    (auto intro!: does_then does_return does_when does_metrics simp: zero_counters_def settable_def)

lemma does_foreign_transport:
  assumes "ag_faults A = []"
  shows "does (foreign_transport_send ck cfg packet b) A (Inr ()) (with_sent [(DownlinkSock, packet, fo_iran_downlink cfg)] A)"
  unfolding foreign_transport_send_def
  by (rule does_block_Cons [OF does_sendto [OF assms]])
    (auto intro!: does_then does_return does_when does_metrics simp: zero_counters_def settable_def)

lemma does_iran_transport_fault:
  "ag_faults A = Some msg # rest \<Longrightarrow>
   does (iran_transport_send ck cfg packet b) A (Inl (OSError msg)) (A\<lparr>ag_faults := rest\<rparr>)"
  unfolding iran_transport_send_def by (rule does_block_Inl [OF does_sendto_fault])

lemma does_foreign_transport_fault:
  "ag_faults A = Some msg # rest \<Longrightarrow>
   does (foreign_transport_send ck cfg packet b) A (Inl (OSError msg)) (A\<lparr>ag_faults := rest\<rparr>)"
  unfolding foreign_transport_send_def by (rule does_block_Inl [OF does_sendto_fault])

lemma does_next: 
  "does next_sequence A (Inr (ag_sequence A + 1)) (A\<lparr>ag_sequence := ag_sequence A + 1\<rparr>)"
  "does next_message_id A (Inr (ag_message_id A + 1)) (A\<lparr>ag_message_id := ag_message_id A + 1\<rparr>)"
  by (rule doesI; auto simp: next_sequence_def next_message_id_def)+

lemma does_codec: "does (act_get ag_codec) A (Inr (ag_codec A)) A"
  by (rule does_get) simp

text \<open>The frame that \<open>encode_ack\<close> seals.\<close>

definition ack_frame :: "codec \<Rightarrow> int \<Rightarrow> int \<Rightarrow> int \<Rightarrow> int \<Rightarrow> int \<Rightarrow> frame" where
  "ack_frame c clock_ms kind sequence sid mid =
     arg_frame c clock_ms kind sequence (be_bytes 8 (nat sid) @ be_bytes 8 (nat mid)) None 0 None 0 1 0"


lemma encode_ack_ok:
  assumes "codec_ok c" "is_ack_kind kind" "0 \<le> sid" "sid < 2 ^ 64" "0 \<le> mid" "mid < 2 ^ 64"
    and "0 \<le> sequence" "sequence < 2 ^ 64" "0 \<le> clock_ms" "clock_ms < 2 ^ 64"
  shows "encode_ack X c clock_ms kind sequence sid mid =
      Inr (seal X (cd_key c) (ack_frame c clock_ms kind sequence sid mid))"
    and "frame_ok (ack_frame c clock_ms kind sequence sid mid)"
proof -
  have body: "struct_pack ACK_BODY [VInt sid, VInt mid] = Inr (be_bytes 8 (nat sid) @ be_bytes 8 (nat mid))"
    using assms(3-6) by (simp add: ACK_BODY_def)
  show ok: "frame_ok (ack_frame c clock_ms kind sequence sid mid)"
    using assms by (auto simp: frame_ok_def wire_ok_def header_valid_def header_of_frame_def
        ack_frame_def arg_frame_def codec_ok_def is_ack_kind_def is_data_kind_def const_defs)
  show "encode_ack X c clock_ms kind sequence sid mid =
      Inr (seal X (cd_key c) (ack_frame c clock_ms kind sequence sid mid))"
    using ok assms(2)
    by (simp add: encode_ack_def body encode_iff [OF assms(1) refl] ack_frame_def)
qed

lemma frame_ok_ids:
  "frame_ok f \<Longrightarrow> 0 \<le> fr_session_id f \<and> fr_session_id f < 2 ^ 64 \<and> 0 \<le> fr_message_id f \<and> fr_message_id f < 2 ^ 64"
  by (auto simp: frame_ok_def header_valid_def header_of_frame_def)

lemma does_record:
  assumes "\<not> replay_closing (ag_replay A)"
    and "replay_decide (ck_mono ck) (ag_replay A) (fr_sequence f) (fr_session_id f) = (b, r)"
  shows "does (record_received_frame ck f) A (Inr b) (A\<lparr>ag_replay := r\<rparr>)"
proof -
  have a: "does (replay_accept ck (fr_sequence f) (fr_session_id f)) A (Inr b) (A\<lparr>ag_replay := r\<rparr>)"
    using assms by (intro doesI) (auto simp: replay_accept_eq)
  have p: "does (publish_replay_stats ck) B (Inr ()) B" for B
    unfolding publish_replay_stats_def
    by (rule does_bind [OF does_get]) (auto intro: does_return does_metrics settable_stats split: replay.splits)
  show ?thesis
    unfolding record_received_frame_def
    by (rule does_bind [OF a]) (auto intro!: does_then [OF _ does_return] does_metrics p simp: zero_counters_def)
qed

lemma does_reassembler_step:
  "f (ag_reassembler A) = (r, R) \<Longrightarrow> does (reassembler_step f) A r (A\<lparr>ag_reassembler := R\<rparr>)"
  by (rule doesI) (auto simp: reassembler_step_def)

lemma does_accept_fragment:
  assumes "Reassembler_add (ck_mono ck) f (ag_reassembler A) = (Inr res, R)"
  shows "does (accept_fragment ck f) A (Inr (rr_payload res)) (A\<lparr>ag_reassembler := R\<rparr>)"
  unfolding accept_fragment_def
  by (rule does_bind [OF does_reassembler_step [where f = "Reassembler_add (ck_mono ck) f", OF assms]])
    (auto intro!: does_skip does_return does_when_skip does_metrics simp: zero_counters_def)

lemma does_accept_fragment_error:
  assumes "Reassembler_add (ck_mono ck) f (ag_reassembler A) = (Inl e, R)"
  shows "does (accept_fragment ck f) A (Inl e) (A\<lparr>ag_reassembler := R\<rparr>)"
  unfolding accept_fragment_def
  by (rule does_bind_Inl [OF does_reassembler_step [where f = "Reassembler_add (ck_mono ck) f", OF assms]])

lemma does_is_completed:
  assumes "is_completed (ck_mono ck) (fr_session_id f) (fr_message_id f) (ag_reassembler A) = (b, R)"
  shows "does (reassembler_is_completed ck f) A (Inr b) (A\<lparr>ag_reassembler := R\<rparr>)"
  unfolding reassembler_is_completed_def by (rule does_reassembler_step) (simp add: assms)

text \<open>\<open>handle_ack\<close> on each kind of acknowledgement.\<close>

lemma does_handle_ack_other: "fr_kind f \<noteq> k \<Longrightarrow> does (handle_ack ck f k) A (Inr False) A"
  by (simp add: handle_ack_def does_return)

lemma does_handle_ack_stale:
  assumes "fr_kind f = k" "decode_ack f = Inr (sid, mid)" "sid \<noteq> cd_session_id (ag_codec A)"
  shows "does (handle_ack ck f k) A (Inr True) A"
proof -
  have l: "does (act_lift (decode_ack f)) A (Inr (sid, mid)) A" using does_lift assms(2) by metis
  show ?thesis
    unfolding handle_ack_def
    using assms(1,3) by (auto intro!: does_bind [OF l] does_bind [OF does_codec] does_skip does_return
        does_metrics simp: zero_counters_def)
qed

lemma does_acknowledge:
  "acknowledge (ck_mono ck) mid (ag_sender A) = (x, s) \<Longrightarrow>
   does (sender_acknowledge ck mid) A (Inr x) (A\<lparr>ag_sender := s\<rparr>)"
  by (rule doesI) (auto simp: sender_acknowledge_def)

lemma does_handle_ack_own:
  assumes "fr_kind f = k" "decode_ack f = Inr (cd_session_id (ag_codec A), mid)"
  shows "does (handle_ack ck f k) A (Inr True)
    (A\<lparr>ag_sender := snd (acknowledge (ck_mono ck) mid (ag_sender A))\<rparr>)"
proof -
  have l: "does (act_lift (decode_ack f)) A (Inr (cd_session_id (ag_codec A), mid)) A"
    using does_lift assms(2) by metis
  have set_ok: "settable [(''last_ack_rtt_ms'', v)]" for v by (simp add: settable_def zero_counters_def)
  obtain accepted latency s where a: "acknowledge (ck_mono ck) mid (ag_sender A) = ((accepted, latency), s)"
    by (metis prod.exhaust)
  have m: "does (if accepted then
      act_block [metric_increment ck ''acked_messages'' 1,
        (case latency of None \<Rightarrow> act_return ()
         | Some l \<Rightarrow> metric_set ck [(''last_ack_rtt_ms'', JFloat (Fin (round3 (l * 1000))))])]
      else metric_increment ck ''unknown_ack_drops'' 1) B (Inr ()) B" for B
    by (auto intro!: does_then does_return does_metrics set_ok simp: zero_counters_def split: option.splits)
  show ?thesis
    unfolding handle_ack_def
    using assms(1)
    by (auto intro!: does_bind [OF l] does_bind [OF does_codec] does_bind [OF does_acknowledge [OF a]]
        does_then [OF m] does_return simp: a)
qed

section \<open>The virtual method\<close>

text \<open>
  What the base class relies on in \<open>_transport_send\<close>: one datagram goes to the configured peer over
  the role's socket, or the error of the socket is raised and nothing else happens.
\<close>

definition can_encode :: "clock \<Rightarrow> agent \<Rightarrow> bool" where
  "can_encode ck A \<longleftrightarrow> codec_ok (ag_codec A) \<and> 0 \<le> ag_sequence A \<and> ag_sequence A + 1 < 2 ^ 64 \<and>
     0 \<le> wall_ms ck \<and> wall_ms ck < 2 ^ 64"

definition ack_packet :: "crypto \<Rightarrow> clock \<Rightarrow> int \<Rightarrow> frame \<Rightarrow> agent \<Rightarrow> bytes" where
  "ack_packet X ck kind f A =
     seal X (cd_key (ag_codec A)) (ack_frame (ag_codec A) (wall_ms ck) kind (ag_sequence A + 1)
       (fr_session_id f) (fr_message_id f))"

locale transport_link =
  fixes send :: transport and link :: sock and peer :: address
  assumes sends: "ag_faults A = [] \<Longrightarrow> does (send packet b) A (Inr ()) (with_sent [(link, packet, peer)] A)"
    and fails: "ag_faults A = Some msg # rest \<Longrightarrow> does (send packet b) A (Inl (OSError msg)) (A\<lparr>ag_faults := rest\<rparr>)"
begin

lemma does_send_ack:
  assumes "can_encode ck A" "is_ack_kind kind" "frame_ok f" "ag_faults A = []"
  shows "does (send_ack X ck send kind f) A (Inr ())
    (with_sent [(link, ack_packet X ck kind f A, peer)] (A\<lparr>ag_sequence := ag_sequence A + 1\<rparr>))"
proof -
  let ?A = "A\<lparr>ag_sequence := ag_sequence A + 1\<rparr>"
  have enc: "does (act_lift (encode_ack X (ag_codec A) (wall_ms ck) kind (ag_sequence A + 1) (fr_session_id f)
      (fr_message_id f))) ?A (Inr (ack_packet X ck kind f A)) ?A"
    using does_lift encode_ack_ok(1) assms(1,2) frame_ok_ids [OF assms(3)]
    by (fastforce simp: can_encode_def ack_packet_def)
  have codec: "does (act_get ag_codec) ?A (Inr (ag_codec A)) ?A"
    using does_codec [of ?A] by simp
  have out: "does (send (ack_packet X ck kind f A) False) ?A (Inr ())
      (with_sent [(link, ack_packet X ck kind f A, peer)] ?A)"
    by (rule sends) (simp add: assms(4))
  show ?thesis
    unfolding send_ack_def act_block.simps
    by (intro does_bind [OF does_next(1)] does_bind [OF codec] does_bind [OF enc] does_then [OF out]
        does_skip [OF does_metric_increment] does_return) (simp add: zero_counters_def)
qed

lemma does_send_ack_fault:
  assumes "can_encode ck A" "is_ack_kind kind" "frame_ok f" "ag_faults A = Some msg # rest"
  shows "does (send_ack X ck send kind f) A (Inl (OSError msg))
    (A\<lparr>ag_sequence := ag_sequence A + 1, ag_faults := rest\<rparr>)"
proof -
  let ?A = "A\<lparr>ag_sequence := ag_sequence A + 1\<rparr>"
  have "does (act_lift (encode_ack X (ag_codec A) (wall_ms ck) kind (ag_sequence A + 1) (fr_session_id f)
      (fr_message_id f))) ?A (Inr (ack_packet X ck kind f A)) ?A"
    using does_lift encode_ack_ok(1) assms(1,2) frame_ok_ids [OF assms(3)]
    by (fastforce simp: can_encode_def ack_packet_def)
  moreover have "does (act_get ag_codec) ?A (Inr (ag_codec A)) ?A"
    using does_codec [of ?A] by simp
  moreover have "does (send (ack_packet X ck kind f A) False) ?A (Inl (OSError msg)) (?A\<lparr>ag_faults := rest\<rparr>)"
    by (rule fails) (simp add: assms(4))
  ultimately show ?thesis
    unfolding send_ack_def
    by (auto intro!: does_bind [OF does_next(1)] does_bind does_then_Inl)
qed

text \<open>A rejected frame: its acknowledgement is repeated when its message was completed.\<close>

lemma does_duplicate_frame:
  assumes "fr_kind f = data_kind"
    "is_completed (ck_mono ck) (fr_session_id f) (fr_message_id f) (ag_reassembler A) = (b, R)"
    and "b \<Longrightarrow> can_encode ck A" "is_ack_kind ack_kind" "frame_ok f" "ag_faults A = []"
  shows "does (duplicate_frame X ck send data_kind ack_kind f) A (Inr ())
    (if b then with_sent [(link, ack_packet X ck ack_kind f A, peer)]
        (A\<lparr>ag_reassembler := R, ag_sequence := ag_sequence A + 1\<rparr>)
     else A\<lparr>ag_reassembler := R\<rparr>)"
proof -
  have "can_encode ck (A\<lparr>ag_reassembler := R\<rparr>)" "ack_packet X ck ack_kind f (A\<lparr>ag_reassembler := R\<rparr>) =
      ack_packet X ck ack_kind f A" if b
    using assms(3) that by (simp_all add: can_encode_def ack_packet_def)
  then show ?thesis
    using does_send_ack [of ck "A\<lparr>ag_reassembler := R\<rparr>" ack_kind f X] assms
    unfolding duplicate_frame_def
    by (cases b) (auto intro!: does_bind [OF does_is_completed [OF assms(2)]] does_try does_return
        simp: act_simps)
qed

lemma does_duplicate_other:
  "fr_kind f \<noteq> data_kind \<Longrightarrow> does (duplicate_frame X ck send data_kind ack_kind f) A (Inr ()) A"
  by (simp add: duplicate_frame_def does_return)

end

interpretation iran_link: transport_link "iran_transport_send ck cfg" UplinkSock "ir_foreign_uplink cfg"
  for ck and cfg :: iran_config
  by unfold_locales (rule does_iran_transport does_iran_transport_fault; assumption)+

interpretation foreign_link: transport_link "foreign_transport_send ck cfg" DownlinkSock "fo_iran_downlink cfg"
  for ck and cfg :: foreign_config
  by unfold_locales (rule does_foreign_transport does_foreign_transport_fault; assumption)+


section \<open>One datagram at a receiving loop\<close>

text \<open>
  What the two receive loops have in common, as the contract of a receiver: \<open>admits\<close> are the source
  addresses it looks at, \<open>ack_kind\<close> answers \<open>data_kind\<close> over the link to the tunnel peer, messages go to
  the inner peer.
\<close>

locale tunnel_receiver =
  fixes X :: crypto and handle :: "clock \<Rightarrow> bytes \<Rightarrow> address \<Rightarrow> unit agent_act"
    and admits :: "address \<Rightarrow> bool" and data_kind ack_kind :: int
    and link :: sock and remote :: address and reliable :: bool
  assumes undecodable: "admits a \<Longrightarrow> decode X (ag_codec A) packet (wall_ms ck) = Inl e \<Longrightarrow>
      does (handle ck packet a) A (Inr ()) A"
    and rejected: "admits a \<Longrightarrow> decode X (ag_codec A) packet (wall_ms ck) = Inr f \<Longrightarrow>
      \<not> replay_closing (ag_replay A) \<Longrightarrow>
      replay_decide (ck_mono ck) (ag_replay A) (fr_sequence f) (fr_session_id f) = (False, r) \<Longrightarrow>
      fr_kind f = data_kind \<Longrightarrow>
      is_completed (ck_mono ck) (fr_session_id f) (fr_message_id f) (ag_reassembler A) = (b, R) \<Longrightarrow>
      can_encode ck A \<Longrightarrow> ag_faults A = [] \<Longrightarrow>
      does (handle ck packet a) A (Inr ())
        (if b then with_sent [(link, ack_packet X ck ack_kind f A, remote)]
            (A\<lparr>ag_replay := r, ag_reassembler := R, ag_sequence := ag_sequence A + 1\<rparr>)
         else A\<lparr>ag_replay := r, ag_reassembler := R\<rparr>)"
    and incomplete: "admits a \<Longrightarrow> decode X (ag_codec A) packet (wall_ms ck) = Inr f \<Longrightarrow>
      \<not> replay_closing (ag_replay A) \<Longrightarrow>
      replay_decide (ck_mono ck) (ag_replay A) (fr_sequence f) (fr_session_id f) = (True, r) \<Longrightarrow>
      fr_kind f = data_kind \<Longrightarrow>
      Reassembler_add (ck_mono ck) f (ag_reassembler A) = (Inr res, R) \<Longrightarrow> rr_payload res = None \<Longrightarrow>
      does (handle ck packet a) A (Inr ()) (A\<lparr>ag_replay := r, ag_reassembler := R\<rparr>)"
    and complete: "admits a \<Longrightarrow> decode X (ag_codec A) packet (wall_ms ck) = Inr f \<Longrightarrow>
      \<not> replay_closing (ag_replay A) \<Longrightarrow>
      replay_decide (ck_mono ck) (ag_replay A) (fr_sequence f) (fr_session_id f) = (True, r) \<Longrightarrow>
      fr_kind f = data_kind \<Longrightarrow>
      Reassembler_add (ck_mono ck) f (ag_reassembler A) = (Inr res, R) \<Longrightarrow> rr_payload res = Some p \<Longrightarrow>
      ag_inner_peer A = Some inner \<Longrightarrow> can_encode ck A \<Longrightarrow> ag_faults A = [] \<Longrightarrow>
      does (handle ck packet a) A (Inr ())
        (if reliable then
           with_sent [(InnerSock, p, inner), (link, ack_packet X ck ack_kind f A, remote)]
             (A\<lparr>ag_replay := r, ag_reassembler := R, ag_sequence := ag_sequence A + 1\<rparr>)
         else with_sent [(InnerSock, p, inner)] (A\<lparr>ag_replay := r, ag_reassembler := R\<rparr>))"
    and other_socket: "link \<noteq> InnerSock"

lemma can_encode_cong:
  "ag_codec B = ag_codec A \<Longrightarrow> ag_sequence B = ag_sequence A \<Longrightarrow> can_encode ck B = can_encode ck A"
  "ag_codec B = ag_codec A \<Longrightarrow> ag_sequence B = ag_sequence A \<Longrightarrow> ack_packet X ck k f B = ack_packet X ck k f A"
  by (simp_all add: can_encode_def ack_packet_def)

lemma can_encode_simps [simp]:
  "can_encode ck (A\<lparr>ag_replay := r\<rparr>) = can_encode ck A"
  "can_encode ck (A\<lparr>ag_reassembler := R\<rparr>) = can_encode ck A"
  "ack_packet X ck k f (A\<lparr>ag_replay := r\<rparr>) = ack_packet X ck k f A"
  "ack_packet X ck k f (A\<lparr>ag_reassembler := R\<rparr>) = ack_packet X ck k f A"
  by (simp_all add: can_encode_def ack_packet_def)

subsection \<open>The foreign side\<close>

lemma does_uplink_undecodable:
  "decode X (ag_codec A) packet (wall_ms ck) = Inl e \<Longrightarrow> does (foreign_uplink X ck cfg packet a) A (Inr ()) A"
  unfolding foreign_uplink_def
  by (rule does_bind [OF does_codec])
    (auto intro!: does_metrics dest: decode_error simp: zero_counters_def)

lemma does_uplink_rejected:
  assumes "decode X (ag_codec A) packet (wall_ms ck) = Inr f" "\<not> replay_closing (ag_replay A)"
    and "replay_decide (ck_mono ck) (ag_replay A) (fr_sequence f) (fr_session_id f) = (False, r)"
    and "does (duplicate_frame X ck (foreign_transport_send ck cfg) DATA_UP ACK_UP f) (A\<lparr>ag_replay := r\<rparr>) (Inr ()) B"
  shows "does (foreign_uplink X ck cfg packet a) A (Inr ()) B"
  unfolding foreign_uplink_def
  by (rule does_bind [OF does_codec])
    (simp add: assms(1), rule does_bind [OF does_record [OF assms(2,3)]], simp add: assms(4))

lemma does_uplink_accepted:
  assumes "decode X (ag_codec A) packet (wall_ms ck) = Inr f" "\<not> replay_closing (ag_replay A)"
    and "replay_decide (ck_mono ck) (ag_replay A) (fr_sequence f) (fr_session_id f) = (True, r)"
    and "does (foreign_uplink_frame X ck cfg f) (A\<lparr>ag_replay := r\<rparr>) (Inr ()) B"
  shows "does (foreign_uplink X ck cfg packet a) A (Inr ()) B"
proof -
  have s: "settable [(''last_uplink_peer'', u), (''last_uplink_at'', v)]" for u v
    by (simp add: settable_def zero_counters_def)
  show ?thesis
    unfolding foreign_uplink_def
    by (rule does_bind [OF does_codec])
      (auto intro!: does_bind [OF does_record [OF assms(2,3)]] does_skip [OF does_metric_add]
        does_skip [OF does_metric_increment] does_skip [OF does_metric_set] does_then [OF does_try [OF assms(4)]]
        does_return s simp: assms(1) zero_counters_def)
qed

lemma kinds_distinct [simp]:
  "ACK_DOWN \<noteq> DATA_UP" "PING \<noteq> DATA_UP" "DATA_UP \<noteq> ACK_DOWN" "DATA_UP \<noteq> PING"
  "ACK_UP \<noteq> DATA_DOWN" "PONG \<noteq> DATA_DOWN" "DATA_DOWN \<noteq> ACK_UP" "DATA_DOWN \<noteq> PONG"
  by (simp_all add: kind_defs)

lemma does_uplink_frame_partial:
  assumes "fr_kind f = DATA_UP"
    and "Reassembler_add (ck_mono ck) f (ag_reassembler A) = (Inr res, R)" "rr_payload res = None"
  shows "does (foreign_uplink_frame X ck cfg f) A (Inr ()) (A\<lparr>ag_reassembler := R\<rparr>)"
  unfolding foreign_uplink_frame_def send_ack_up_def send_downlink_control_def
  using assms(1,3)
  by (auto intro!: does_bind [OF does_handle_ack_other] does_bind [OF does_accept_fragment [OF assms(2)]] does_return)

lemma does_uplink_frame_complete:
  assumes f: "fr_kind f = DATA_UP" "frame_ok f"
    and "Reassembler_add (ck_mono ck) f (ag_reassembler A) = (Inr res, R)" "rr_payload res = Some p"
    and "ag_inner_peer A = Some inner" "can_encode ck A" "ag_faults A = []"
  shows "does (foreign_uplink_frame X ck cfg f) A (Inr ())
    (if cf_reliable cfg then
       with_sent [(InnerSock, p, inner), (DownlinkSock, ack_packet X ck ACK_UP f A, fo_iran_downlink cfg)]
         (A\<lparr>ag_reassembler := R, ag_sequence := ag_sequence A + 1\<rparr>)
     else with_sent [(InnerSock, p, inner)] (A\<lparr>ag_reassembler := R\<rparr>))"
proof -
  let ?A = "A\<lparr>ag_reassembler := R\<rparr>" and ?B = "with_sent [(InnerSock, p, inner)] (A\<lparr>ag_reassembler := R\<rparr>)"
  have same: "ag_codec ?B = ag_codec A" "ag_sequence ?B = ag_sequence A" "ag_faults ?B = []"
    using assms(7) by (simp_all add: with_sent_def)
  have peer: "does (act_get (\<lambda>A. the (ag_inner_peer A))) ?A (Inr inner) ?A"
    using does_get [of "\<lambda>A. the (ag_inner_peer A)" ?A] assms(5) by simp
  have out: "does (sendto InnerSock p inner) ?A (Inr ()) ?B"
    by (rule does_sendto) (simp add: assms(7))
  define C where "C = (if cf_reliable cfg then
       with_sent [(DownlinkSock, ack_packet X ck ACK_UP f A, fo_iran_downlink cfg)] (?B\<lparr>ag_sequence := ag_sequence A + 1\<rparr>)
     else ?B)"
  have ack: "does (act_when (cf_reliable cfg) (send_ack X ck (foreign_transport_send ck cfg) ACK_UP f)) ?B (Inr ()) C"
    unfolding C_def using foreign_link.does_send_ack [of ck ?B ACK_UP f X ck cfg] assms(6) f(2)
    by (intro does_when) (simp_all add: same can_encode_cong [OF same(1,2)])
  have s: "settable [(''last_inner_at'', u)]" for u by (simp add: settable_def zero_counters_def)
  have "does (foreign_uplink_frame X ck cfg f) A (Inr ()) C"
    unfolding foreign_uplink_frame_def send_ack_up_def send_downlink_control_def
    using f(1) assms(4)
    by (auto intro!: does_bind [OF does_handle_ack_other] does_bind [OF does_accept_fragment [OF assms(3)]]
        does_bind [OF peer] does_then [OF out] does_skip [OF does_metric_add] does_skip [OF does_metric_set]
        does_then [OF ack] does_return s simp: zero_counters_def)
  then show ?thesis by (cases "cf_reliable cfg") (simp_all add: C_def with_sent_def)
qed


definition foreign_admits :: "address \<Rightarrow> bool" where
  "foreign_admits a \<longleftrightarrow> True"

lemma foreign_receiver_complete:
  assumes "decode X (ag_codec A) packet (wall_ms ck) = Inr f" "\<not> replay_closing (ag_replay A)"
    and "replay_decide (ck_mono ck) (ag_replay A) (fr_sequence f) (fr_session_id f) = (True, r)"
    and "fr_kind f = DATA_UP" "Reassembler_add (ck_mono ck) f (ag_reassembler A) = (Inr res, R)"
    and "rr_payload res = Some p" "ag_inner_peer A = Some inner" "can_encode ck A" "ag_faults A = []"
  shows "does (foreign_uplink X ck cfg packet a) A (Inr ())
    (if cf_reliable cfg then
       with_sent [(InnerSock, p, inner), (DownlinkSock, ack_packet X ck ACK_UP f A, fo_iran_downlink cfg)]
         (A\<lparr>ag_replay := r, ag_reassembler := R, ag_sequence := ag_sequence A + 1\<rparr>)
     else with_sent [(InnerSock, p, inner)] (A\<lparr>ag_replay := r, ag_reassembler := R\<rparr>))"
  by (rule does_uplink_accepted [OF assms(1-3)])
    (use does_uplink_frame_complete [of f ck "A\<lparr>ag_replay := r\<rparr>" res R p inner X cfg] assms
      in \<open>simp add: decode_frame_ok cong: if_cong\<close>)

interpretation foreign_receiver: tunnel_receiver X "\<lambda>ck. foreign_uplink X ck cfg" foreign_admits DATA_UP ACK_UP
    DownlinkSock "fo_iran_downlink cfg" "cf_reliable cfg" for X cfg
proof (unfold_locales, goal_cases)
  case (1 a A packet ck e)
  show ?case by (rule does_uplink_undecodable [OF 1(2)])
next
  case (2 a A packet ck f r b R)
  then show ?case
    using foreign_link.does_duplicate_frame [of f DATA_UP ck "A\<lparr>ag_replay := r\<rparr>" b R ACK_UP X ck cfg]
    by (intro does_uplink_rejected [OF 2(2-4)])
      (simp add: decode_frame_ok with_sent_def cong: if_cong)
next
  case (3 a A packet ck f r res R)
  then show ?case
    using does_uplink_frame_partial [of f ck "A\<lparr>ag_replay := r\<rparr>" res R X cfg]
    by (intro does_uplink_accepted [OF 3(2-4)]) simp
next
  case (4 a A packet ck f r res R p inner)
  then show ?case by (intro foreign_receiver_complete) assumption+
qed simp


subsection \<open>The Iran side\<close>

definition iran_admits :: "iran_config \<Rightarrow> address \<Rightarrow> bool" where
  "iran_admits cfg a \<longleftrightarrow>
     (case ir_expected_downlink_source cfg of
        None \<Rightarrow> True | Some expected \<Rightarrow> expected = [] \<or> fst a = expected)"

lemma iran_downlink_admits:
  "iran_downlink X ck cfg packet a =
     (if iran_admits cfg a then
        act_bind (act_get ag_codec) (\<lambda>c.
        case decode X c packet (wall_ms ck) of
          Inl e \<Rightarrow>
            if is_protocol_error e then metric_increment ck ''auth_failures'' 1 else act_raise e
        | Inr f \<Rightarrow>
            act_bind (record_received_frame ck f) (\<lambda>accepted.
            if \<not> accepted
              then duplicate_frame X ck (iran_transport_send ck cfg) DATA_DOWN ACK_DOWN f
            else
              act_block
                [metric_add ck ''downlink_rx'' (length packet),
                 metric_increment ck ''encrypted_frames_rx'' 1,
                 metric_set ck [(''last_downlink_source'', JStr (fst a)),
                                (''last_downlink_at'', wall_time ck)],
                 act_try (iran_downlink_frame X ck cfg f) is_os_or_protocol_error
                   (\<lambda>e. metric_set ck
                      [(''last_error'', JStr (''downlink handling: '' @ exn_text e))])]))
      else metric_increment ck ''source_mismatch_drops'' 1)"
  by (cases "ir_expected_downlink_source cfg") (simp_all add: iran_downlink_def iran_admits_def)

lemma does_downlink_refused: "\<not> iran_admits cfg a \<Longrightarrow> does (iran_downlink X ck cfg packet a) A (Inr ()) A"
  by (simp add: iran_downlink_admits does_metric_increment zero_counters_def)

lemma does_downlink_undecodable:
  "decode X (ag_codec A) packet (wall_ms ck) = Inl e \<Longrightarrow> does (iran_downlink X ck cfg packet a) A (Inr ()) A"
  unfolding iran_downlink_admits
  by (auto intro!: does_bind [OF does_codec] does_metrics dest: decode_error simp: zero_counters_def)

lemma does_downlink_rejected:
  assumes "iran_admits cfg a" "decode X (ag_codec A) packet (wall_ms ck) = Inr f" "\<not> replay_closing (ag_replay A)"
    and "replay_decide (ck_mono ck) (ag_replay A) (fr_sequence f) (fr_session_id f) = (False, r)"
    and "does (duplicate_frame X ck (iran_transport_send ck cfg) DATA_DOWN ACK_DOWN f) (A\<lparr>ag_replay := r\<rparr>) (Inr ()) B"
  shows "does (iran_downlink X ck cfg packet a) A (Inr ()) B"
proof -
  note rec = does_record [OF assms(3,4)]
  show ?thesis
    unfolding iran_downlink_admits
    by (simp add: assms(1), rule does_bind [OF does_codec])
      (simp add: assms(2), rule does_bind [OF rec], simp add: assms(5))
qed

lemma does_downlink_accepted:
  assumes "iran_admits cfg a" "decode X (ag_codec A) packet (wall_ms ck) = Inr f" "\<not> replay_closing (ag_replay A)"
    and "replay_decide (ck_mono ck) (ag_replay A) (fr_sequence f) (fr_session_id f) = (True, r)"
    and "does (act_try (iran_downlink_frame X ck cfg f) is_os_or_protocol_error
        (\<lambda>e. metric_set ck [(''last_error'', JStr (''downlink handling: '' @ exn_text e))]))
      (A\<lparr>ag_replay := r\<rparr>) (Inr ()) B"
  shows "does (iran_downlink X ck cfg packet a) A (Inr ()) B"
proof -
  have s: "settable [(''last_downlink_source'', u), (''last_downlink_at'', v)]" for u v
    by (simp add: settable_def zero_counters_def)
  show ?thesis
    unfolding iran_downlink_admits
    apply (simp only: assms(1) if_True)
    apply (rule does_bind [OF does_codec])
    apply (simp only: assms(2) sum.case)
    apply (rule does_bind [OF does_record [OF assms(3,4)]])
    apply (simp only: not_True_eq_False if_False act_block.simps)
    apply (intro does_skip [OF does_metric_add] does_skip [OF does_metric_increment]
        does_skip [OF does_metric_set] does_then [OF assms(5)] does_return s)
    by (simp_all add: zero_counters_def)
qed

lemma does_downlink_frame_partial:
  assumes "fr_kind f = DATA_DOWN"
    and "Reassembler_add (ck_mono ck) f (ag_reassembler A) = (Inr res, R)"
    and "rr_payload res = None \<or> ag_inner_peer A = None"
  shows "does (iran_downlink_frame X ck cfg f) A (Inr ()) (A\<lparr>ag_reassembler := R\<rparr>)"
proof -
  have peer: "does (act_get ag_inner_peer) B (Inr (ag_inner_peer B)) B" for B by (rule does_get) simp
  show ?thesis
    unfolding iran_downlink_frame_def send_ack_down_def
    using assms(1,3)
    by (auto intro!: does_bind [OF does_handle_ack_other] does_bind [OF does_accept_fragment [OF assms(2)]]
        does_bind [OF peer] does_return split: option.splits)
qed

lemma does_downlink_frame_complete:
  assumes f: "fr_kind f = DATA_DOWN" "frame_ok f"
    and "Reassembler_add (ck_mono ck) f (ag_reassembler A) = (Inr res, R)" "rr_payload res = Some p"
    and "ag_inner_peer A = Some inner" "can_encode ck A" "ag_faults A = []"
  shows "does (iran_downlink_frame X ck cfg f) A (Inr ())
    (if cf_reliable cfg then
       with_sent [(InnerSock, p, inner), (UplinkSock, ack_packet X ck ACK_DOWN f A, ir_foreign_uplink cfg)]
         (A\<lparr>ag_reassembler := R, ag_sequence := ag_sequence A + 1\<rparr>)
     else with_sent [(InnerSock, p, inner)] (A\<lparr>ag_reassembler := R\<rparr>))"
proof -
  let ?A = "A\<lparr>ag_reassembler := R\<rparr>" and ?B = "with_sent [(InnerSock, p, inner)] (A\<lparr>ag_reassembler := R\<rparr>)"
  have same: "ag_codec ?B = ag_codec A" "ag_sequence ?B = ag_sequence A" "ag_faults ?B = []"
    using assms(7) by (simp_all add: with_sent_def)
  have peer: "does (act_get ag_inner_peer) ?A (Inr (Some inner)) ?A"
    using does_get [of ag_inner_peer ?A] assms(5) by simp
  have out: "does (sendto InnerSock p inner) ?A (Inr ()) ?B"
    by (rule does_sendto) (simp add: assms(7))
  define C where "C = (if cf_reliable cfg then
       with_sent [(UplinkSock, ack_packet X ck ACK_DOWN f A, ir_foreign_uplink cfg)] (?B\<lparr>ag_sequence := ag_sequence A + 1\<rparr>)
     else ?B)"
  have ack: "does (act_when (cf_reliable cfg) (send_ack X ck (iran_transport_send ck cfg) ACK_DOWN f)) ?B (Inr ()) C"
    unfolding C_def using iran_link.does_send_ack [of ck ?B ACK_DOWN f X ck cfg] assms(6) f(2)
    by (intro does_when) (simp_all add: same can_encode_cong [OF same(1,2)])
  have "does (iran_downlink_frame X ck cfg f) A (Inr ()) C"
    unfolding iran_downlink_frame_def send_ack_down_def
    using f(1) assms(4)
    by (auto intro!: does_bind [OF does_handle_ack_other] does_bind [OF does_accept_fragment [OF assms(3)]]
        does_bind [OF peer] does_then [OF out] does_skip [OF does_metric_add]
        does_then [OF ack] does_return simp: zero_counters_def)
  then show ?thesis by (cases "cf_reliable cfg") (simp_all add: C_def with_sent_def)
qed

lemma iran_receiver_complete:
  assumes "iran_admits cfg a" "decode X (ag_codec A) packet (wall_ms ck) = Inr f" "\<not> replay_closing (ag_replay A)"
    and "replay_decide (ck_mono ck) (ag_replay A) (fr_sequence f) (fr_session_id f) = (True, r)"
    and "fr_kind f = DATA_DOWN" "Reassembler_add (ck_mono ck) f (ag_reassembler A) = (Inr res, R)"
    and "rr_payload res = Some p" "ag_inner_peer A = Some inner" "can_encode ck A" "ag_faults A = []"
  shows "does (iran_downlink X ck cfg packet a) A (Inr ())
    (if cf_reliable cfg then
       with_sent [(InnerSock, p, inner), (UplinkSock, ack_packet X ck ACK_DOWN f A, ir_foreign_uplink cfg)]
         (A\<lparr>ag_replay := r, ag_reassembler := R, ag_sequence := ag_sequence A + 1\<rparr>)
     else with_sent [(InnerSock, p, inner)] (A\<lparr>ag_replay := r, ag_reassembler := R\<rparr>))"
  by (rule does_downlink_accepted [OF assms(1-4) does_try])
    (use does_downlink_frame_complete [of f ck "A\<lparr>ag_replay := r\<rparr>" res R p inner X cfg] assms
      in \<open>simp add: decode_frame_ok cong: if_cong\<close>)

interpretation iran_receiver: tunnel_receiver X "\<lambda>ck. iran_downlink X ck cfg" "iran_admits cfg" DATA_DOWN ACK_DOWN
    UplinkSock "ir_foreign_uplink cfg" "cf_reliable cfg" for X cfg
proof (unfold_locales, goal_cases)
  case (1 a A packet ck e)
  show ?case by (rule does_downlink_undecodable [OF 1(2)])
next
  case (2 a A packet ck f r b R)
  then show ?case
    using iran_link.does_duplicate_frame [of f DATA_DOWN ck "A\<lparr>ag_replay := r\<rparr>" b R ACK_DOWN X ck cfg]
    by (intro does_downlink_rejected [OF 2(1-4)])
      (simp add: decode_frame_ok with_sent_def cong: if_cong)
next
  case (3 a A packet ck f r res R)
  then show ?case
    using does_downlink_frame_partial [of f ck "A\<lparr>ag_replay := r\<rparr>" res R X cfg]
    by (intro does_downlink_accepted [OF 3(1-4)] does_try) simp
next
  case (4 a A packet ck f r res R p inner)
  then show ?case by (intro iran_receiver_complete) assumption+
qed simp

end
