(* ===== verification/Agent_Delivery.thy ===== *)
theory Agent_Delivery
  imports Agent_Behaviour
begin

text \<open>
  A message from one agent to the other: what a replay filter leaves open, the frames and packets of
  a message, and a receive loop over a list of datagrams. Inside the locale \<open>tunnel_receiver\<close> it is
  proved once, for both roles, that the loop hands the message to the inner peer exactly once.
\<close>


section \<open>What a replay filter leaves open\<close>

text \<open>Accepting one number of a session does not block the others that are near it.\<close>

lemma win_still_fresh:
  assumes "window_ok w" "\<not> win_blocked w (s, q)" "\<not> win_blocked w (s, x)" "x \<noteq> q" "q - x < int (w_size w)"
  shows "\<not> win_blocked (snd (accept w q s)) (s, x) \<and> w_size (snd (accept w q s)) = w_size w"
proof -
  have step: "win_rel (snd (accept w q s)) (snd (spec_accept (w_size w) (abs_window w) q s))"
    using accept_step [OF abs_window_rel [OF assms(1)], of q s] by simp
  have sz: "w_size (snd (accept w q s)) = w_size w"
    by (auto simp: accept_def accept_locked_def select_session_def Let_def split: option.splits)
  have "\<not> spec_blocked (w_size w) (snd (spec_accept (w_size w) (abs_window w) q s)) (s, x)"
    using assms(2-5) by (auto simp: win_blocked_def spec_accept_def spec_blocked_def spec_seen_def spec_fresh_def
        split: option.splits if_splits)
  then show ?thesis using rel_blocked [OF step, of s x] sz by simp
qed

definition replay_size :: "replay \<Rightarrow> nat" where
  "replay_size r = (case r of Volatile w \<Rightarrow> w_size w | Durable p \<Rightarrow> w_size (pw_window p))"

lemma replay_still_fresh:
  assumes "replay_ok r" "\<not> replay_closing r" "\<not> replay_blocked r (s, q)" "\<not> replay_blocked r (s, x)"
    "x \<noteq> q" "q - x < int (replay_size r)"
  shows "\<not> replay_blocked (snd (replay_decide now r q s)) (s, x)"
  using assms win_still_fresh
  by (cases r) (auto simp: replay_size_def persistent_ok_def persistent_blocked_def persistent_decide_window
      persistent_decide_stopping)

lemma replay_decide_size: "replay_size (snd (replay_decide now r q s)) = replay_size r"
proof -
  have "w_size (snd (accept w q s)) = w_size w" for w
    by (auto simp: accept_def accept_locked_def select_session_def Let_def split: option.splits)
  then show ?thesis by (cases r) (simp_all add: replay_size_def persistent_decide_window)
qed

lemma replay_decide_rejects:
  assumes "replay_ok r" "\<not> replay_closing r" "replay_blocked r (s, q)"
  shows "replay_decide now r q s = (False, r)"
proof (cases r)
  case (Volatile w)
  then have "\<not> fst (accept w q s)" using assms by (simp add: rw.accept_iff)
  with Volatile assms show ?thesis
    using accept_false_same [of w q s] by (cases "accept w q s") (simp add: replay_decide_def)
next
  case (Durable p)
  then have ok: "window_ok (pw_window p)" "\<not> pw_stopping p" using assms by (auto simp: persistent_ok_def)
  then have "\<not> fst (accept (pw_window p) q s)"
    using assms Durable by (simp add: rw.accept_iff persistent_blocked_def)
  then show ?thesis
    using accept_false_same [OF ok(1), of q s] ok Durable
    by (cases "accept (pw_window p) q s")
      (simp add: replay_decide_def persistent_decide_def persistent_accept_def accept_def)
qed

section \<open>The frames of a message\<close>

lemma set_data_frames:
  "set (data_frames c t k m q xs) = {data_frame c t k m (q + 1 + int i) (xs ! i) |i. i < length xs}"
proof (induction xs arbitrary: q)
  case (Cons x xs)
  show ?case
  proof (intro set_eqI iffI)
    fix f assume "f \<in> set (data_frames c t k m q (x # xs))"
    then consider "f = data_frame c t k m (q + 1) x"
      | i where "i < length xs" "f = data_frame c t k m (q + 1 + 1 + int i) (xs ! i)"
      using Cons by auto
    then show "f \<in> {data_frame c t k m (q + 1 + int i) ((x # xs) ! i) |i. i < length (x # xs)}"
    proof cases
      case 1
      then show ?thesis by (intro CollectI exI [of _ 0]) simp
    next
      case (2 i)
      then show ?thesis by (intro CollectI exI [of _ "Suc i"]) (simp add: algebra_simps)
    qed
  next
    fix f assume "f \<in> {data_frame c t k m (q + 1 + int i) ((x # xs) ! i) |i. i < length (x # xs)}"
    then obtain i where i: "i < length (x # xs)" "f = data_frame c t k m (q + 1 + int i) ((x # xs) ! i)" by blast
    then show "f \<in> set (data_frames c t k m q (x # xs))"
      using Cons by (cases i) (auto simp: algebra_simps)
  qed
qed simp

lemma data_frame_simps [simp]:
  "fr_kind (data_frame c t k m q x) = k" "fr_session_id (data_frame c t k m q x) = cd_session_id c"
  "fr_sequence (data_frame c t k m q x) = q" "fr_message_id (data_frame c t k m q x) = m"
  "fr_tunnel_id (data_frame c t k m q x) = cd_tunnel_id c" "fr_timestamp_ms (data_frame c t k m q x) = t"
  "fr_fragment_index (data_frame c t k m q x) = fs_fragment_index x" "fr_payload (data_frame c t k m q x) = fs_payload x"
  "fr_flags (data_frame c t k m q x) = fs_flags x" "fr_message_len (data_frame c t k m q x) = fs_message_len x"
  "fr_fragment_count (data_frame c t k m q x) = fs_fragment_count x"
  "frame_key (data_frame c t k m q x) = (cd_session_id c, m)"
  by (simp_all add: data_frame_def arg_frame_def frame_key_def)

lemma fragment_index_nth:
  assumes "fragment_message p s fec = Inr fs" "i < length fs"
  shows "fs_fragment_index (fs ! i) = int i"
proof -
  let ?n = "fragment_count (nat s) p"
  have fs: "fs = map (data_spec (nat s) p) [0..<?n] @ (if has_parity (nat s) p fec then [parity_spec (nat s) p] else [])"
    using assms(1) by (simp add: fragment_message_iff)
  show ?thesis
  proof (cases "i < ?n")
    case True
    then show ?thesis using fs by (simp add: nth_append)
  next
    case False
    then have "i = ?n" "has_parity (nat s) p fec" using assms(2) fs by (auto split: if_splits)
    then show ?thesis using fs by (simp add: nth_append)
  qed
qed

lemma fragment_fits:
  assumes "fragment_message p s fec = Inr fs" "x \<in> set fs"
  shows "length (fs_payload x) \<le> 1391" "fs_message_len x = int (length p)" "length p \<le> 60000"
    "fs_flags x = 0 \<or> fs_flags x = 1" "1 \<le> fs_fragment_count x" "fs_fragment_count x \<le> 235"
    "if fs_flags x = 1 then 2 \<le> fs_fragment_count x \<and> fs_fragment_index x = fs_fragment_count x
     else 0 \<le> fs_fragment_index x \<and> fs_fragment_index x < fs_fragment_count x"
proof -
  have s: "256 \<le> s" "s \<le> 1391" "length p \<le> 60000"
    and x: "x \<in> data_spec (nat s) p ` {0..<fragment_count (nat s) p} \<or>
      x = parity_spec (nat s) p \<and> 1 < fragment_count (nat s) p"
    using assms by (auto simp: fragment_message_iff has_parity_def split: if_splits)
  have n: "fragment_count (nat s) p \<le> 235"
    using fragment_count_bound [of "nat s" p] s by simp
  have l: "length (piece (nat s) p i) \<le> 1391" for i
    using length_piece_le [of "nat s" p i] s(2) by linarith
  show "length p \<le> 60000" by (rule s(3))
  show "length (fs_payload x) \<le> 1391" "fs_message_len x = int (length p)"
    "fs_flags x = 0 \<or> fs_flags x = 1" "1 \<le> fs_fragment_count x" "fs_fragment_count x \<le> 235"
    "if fs_flags x = 1 then 2 \<le> fs_fragment_count x \<and> fs_fragment_index x = fs_fragment_count x
     else 0 \<le> fs_fragment_index x \<and> fs_fragment_index x < fs_fragment_count x"
    using x n l s parity_bytes_ok(2) [of "nat s" p] by (auto simp: FLAG_PARITY_def)
qed

lemma data_frame_ok:
  assumes "fragment_message p s fec = Inr fs" "x \<in> set fs" "is_data_kind k" "codec_ok c"
    and "0 \<le> t" "t < 2 ^ 64" "0 \<le> m" "m < 2 ^ 64" "0 \<le> q" "q < 2 ^ 64"
  shows "frame_ok (data_frame c t k m q x)"
proof -
  note f = fragment_fits [OF assms(1,2)]
  have k: "k = 1 \<or> k = 2" using assms(3) by (auto simp: is_data_kind_def kind_defs)
  have "0 \<le> fs_fragment_index x" "fs_fragment_index x \<le> 235" using f(5-7) by (auto split: if_splits)
  then show ?thesis
    using f k assms(3-) unfolding frame_ok_def wire_ok_def header_valid_def header_of_frame_def
    by (auto simp: const_defs codec_ok_def split: if_splits)
qed


section \<open>A loop that receives a message\<close>

text \<open>A receive loop on a list of datagrams; an exception ends it.\<close>

fun serve :: "(clock \<Rightarrow> bytes \<Rightarrow> address \<Rightarrow> unit agent_act) \<Rightarrow> (clock \<times> bytes \<times> address) list \<Rightarrow> unit agent_act" where
  "serve handle [] = act_return ()"
| "serve handle ((ck, packet, peer) # ds) = act_then (handle ck packet peer) (serve handle ds)"

text \<open>
  The state of a receiver while the frames \<open>F\<close> of the message \<open>p\<close> arrive, of which \<open>G\<close> have: the replay
  filter blocks exactly \<open>G\<close>, and the reassembler holds exactly the fragments of \<open>G\<close>.
\<close>

definition receiving ::
  "codec \<Rightarrow> address \<Rightarrow> rat \<Rightarrow> rat \<Rightarrow> key set \<Rightarrow> nat \<Rightarrow> bytes \<Rightarrow> key \<Rightarrow> frame set \<Rightarrow> frame set \<Rightarrow> agent \<Rightarrow> bool"
where
  "receiving c inner t0 t1 K sz p k F G A \<longleftrightarrow>
     ag_codec A = c \<and> ag_inner_peer A = Some inner \<and> ag_faults A = [] \<and> G \<subseteq> F \<and>
     replay_ok (ag_replay A) \<and> \<not> replay_closing (ag_replay A) \<and>
     (\<forall>f \<in> F. replay_blocked (ag_replay A) (fst k, fr_sequence f) \<longleftrightarrow> f \<in> G) \<and>
     (\<forall>f \<in> F. \<forall>g \<in> F. fr_sequence f - fr_sequence g < int (replay_size (ag_replay A))) \<and>
     roomy t0 t1 K (ag_reassembler A) \<and> tracks t0 sz p k (fr_fragment_index ` G) (ag_reassembler A)"

text \<open>The frames of one message: genuine fragments under consecutive numbers.\<close>

definition message_frames :: "nat \<Rightarrow> bytes \<Rightarrow> key \<Rightarrow> int \<Rightarrow> frame set \<Rightarrow> bool" where
  "message_frames sz p k kind F \<longleftrightarrow>
     finite F \<and> inj_on fr_sequence F \<and> inj_on fr_fragment_index F \<and>
     (\<forall>f \<in> F. fr_kind f = kind \<and> frame_key f = k \<and> genuine sz p f)"

definition to_inner :: "(sock \<times> bytes \<times> address) list \<Rightarrow> (sock \<times> bytes \<times> address) list" where
  "to_inner ds = filter (\<lambda>(s, _, _). s = InnerSock) ds"

text \<open>The frames among \<open>ds\<close> that decode.\<close>

definition decoded :: "crypto \<Rightarrow> codec \<Rightarrow> (clock \<times> bytes \<times> address) list \<Rightarrow> frame set" where
  "decoded X c ds = {f. \<exists>(ck, packet, peer) \<in> set ds. decode X c packet (wall_ms ck) = Inr f}"

lemma decoded_simps [simp]:
  "decoded X c [] = {}"
  "decoded X c ((ck, packet, peer) # ds) =
    (case decode X c packet (wall_ms ck) of Inl _ \<Rightarrow> {} | Inr f \<Rightarrow> {f}) \<union> decoded X c ds"
  by (auto simp: decoded_def split: sum.splits)

lemma receiving_accepts:
  assumes F: "message_frames sz p k kind F" and R: "receiving c inner t0 t1 K sz p k F G A"
    and f: "f \<in> F" "f \<notin> G" and k: "k \<in> K" and now: "t0 \<le> now" "now \<le> t1"
  obtains r res R where "replay_decide now (ag_replay A) (fr_sequence f) (fr_session_id f) = (True, r)"
    "Reassembler_add now f (ag_reassembler A) = (Inr res, R)"
    "rr_payload res = (if card G < fragment_count sz p \<and> fragment_count sz p \<le> card (insert f G) then Some p else None)"
    "\<And>B. ag_codec B = c \<Longrightarrow> ag_inner_peer B = Some inner \<Longrightarrow> ag_faults B = [] \<Longrightarrow> ag_replay B = r \<Longrightarrow>
       ag_reassembler B = R \<Longrightarrow> receiving c inner t0 t1 K sz p k F (insert f G) B"
proof -
  have ff: "frame_key f = k" "genuine sz p f" "fr_session_id f = fst k"
    using F f(1) by (auto simp: message_frames_def frame_key_def)
  have rep: "replay_ok (ag_replay A)" "\<not> replay_closing (ag_replay A)"
    "\<not> replay_blocked (ag_replay A) (fst k, fr_sequence f)"
    using R f by (auto simp: receiving_def)
  have inj: "inj_on fr_fragment_index F" and G: "G \<subseteq> F" "finite G"
    using F R finite_subset by (auto simp: message_frames_def receiving_def)
  have card: "card (fr_fragment_index ` H) = card H" if "H \<subseteq> F" for H
    using card_image [OF inj_on_subset [OF inj that]] .
  obtain r where d: "replay_decide now (ag_replay A) (fr_sequence f) (fst k) = (True, r)"
    using arw.accept_iff [OF rep(1), of now "fr_sequence f" "fst k"] rep(3)
    by (cases "replay_decide now (ag_replay A) (fr_sequence f) (fst k)") auto
  have r: "r = snd (replay_decide now (ag_replay A) (fr_sequence f) (fst k))" using d by simp
  have legal: "\<forall>i \<in> fr_fragment_index ` G. legal_index sz p i"
    using F G(1) genuineD(3) by (fastforce simp: message_frames_def)
  obtain q S where add: "Reassembler_add now f (ag_reassembler A) = (q, S)" by fastforce
  have room: "roomy t0 t1 K (ag_reassembler A)"
    and tr: "tracks t0 sz p (frame_key f) (fr_fragment_index ` G) (ag_reassembler A)"
    using R ff(1) by (simp_all add: receiving_def)
  obtain res where own: "roomy t0 t1 K S" "tracks t0 sz p k (fr_fragment_index ` insert f G) S" "q = Inr res"
    "rr_payload res = (if card G < fragment_count sz p \<and> fragment_count sz p \<le> card (insert f G) then Some p else None)"
    using Reassembler_add_own [OF room _ now ff(2) legal tr add] k ff(1) card [OF G(1)] card [of "insert f G"] f(1) G(1)
    by auto
  have blocked: "replay_blocked r (fst k, fr_sequence g) \<longleftrightarrow> g \<in> insert f G" if "g \<in> F" for g
  proof (cases "g = f \<or> g \<in> G")
    case True
    then have "g = f \<or> replay_blocked (ag_replay A) (fst k, fr_sequence g)"
      using R that by (auto simp: receiving_def)
    then show ?thesis
      using arw.accept_mono [OF rep(1)] arw.accept_blocks [OF rep(1)] True unfolding r by blast
  next
    case False
    have "fr_sequence g \<noteq> fr_sequence f"
      using F that f(1) False by (auto simp: message_frames_def dest: inj_onD)
    moreover have "\<not> replay_blocked (ag_replay A) (fst k, fr_sequence g)"
      "fr_sequence f - fr_sequence g < int (replay_size (ag_replay A))"
      using R that f(1) False by (auto simp: receiving_def)
    ultimately show ?thesis
      using replay_still_fresh [OF rep] False unfolding r by simp
  qed
  have "receiving c inner t0 t1 K sz p k F (insert f G) B"
    if "ag_codec B = c" "ag_inner_peer B = Some inner" "ag_faults B = []" "ag_replay B = r" "ag_reassembler B = S" for B
    using that R f(1) blocked own(1,2) arw.accept_ok [OF rep(1)] replay_decide_closing [of now "ag_replay A" "fr_sequence f" "fst k"]
      replay_decide_size [of now "ag_replay A" "fr_sequence f" "fst k"]
    unfolding receiving_def by (auto simp: r)
  then show thesis using that [of r res S] d add own(3,4) ff(3) by simp
qed


lemma receiving_completes:
  assumes "receiving c inner t0 t1 K sz p k F G A" "frame_key f = k" "now \<le> t1"
    and "is_completed now (fr_session_id f) (fr_message_id f) (ag_reassembler A) = (b, R)"
    and "ag_codec B = c" "ag_inner_peer B = Some inner" "ag_faults B = []" "ag_replay B = ag_replay A"
      "ag_reassembler B = R"
  shows "receiving c inner t0 t1 K sz p k F G B"
proof -
  have "R = snd (purge now (ag_reassembler A))"
    using assms(4) by (simp add: is_completed_def Let_def)
  moreover have room: "roomy t0 t1 K (ag_reassembler A)"
    "tracks t0 sz p k (fr_fragment_index ` G) (ag_reassembler A)"
    using assms(1) by (auto simp: receiving_def)
  ultimately show ?thesis
    using assms roomy_purge [OF room(1), of now] tracks_purge [OF room assms(3)]
    unfolding receiving_def by simp
qed

context tunnel_receiver
begin

text \<open>One datagram: what it adds to the fragments that arrived, and what it makes the agent send.\<close>

lemma one_datagram:
  assumes F: "message_frames sz p k data_kind F" and R: "receiving c inner t0 t1 K sz p k F G A"
    and k: "k \<in> K" and now: "t0 \<le> ck_mono ck" "ck_mono ck \<le> t1" and a: "admits a" and enc: "can_encode ck A"
    and d: "\<And>f. decode X c packet (wall_ms ck) = Inr f \<Longrightarrow> f \<in> F"
  shows "\<exists>B new. does (handle ck packet a) A (Inr ()) B \<and>
    receiving c inner t0 t1 K sz p k F (G \<union> decoded X c [(ck, packet, a)]) B \<and>
    ag_sequence A \<le> ag_sequence B \<and> ag_sequence B \<le> ag_sequence A + 1 \<and> ag_sent B = ag_sent A @ new \<and>
    to_inner new = (if card G < fragment_count sz p \<and>
      fragment_count sz p \<le> card (G \<union> decoded X c [(ck, packet, a)]) then [(InnerSock, p, inner)] else [])"
proof -
  have A: "ag_codec A = c" "ag_inner_peer A = Some inner" "ag_faults A = []" "\<not> replay_closing (ag_replay A)"
    "replay_ok (ag_replay A)"
    using R by (simp_all add: receiving_def)
  show ?thesis
  proof (cases "decode X c packet (wall_ms ck)")
    case (Inl e)
    then have "does (handle ck packet a) A (Inr ()) A" using undecodable [OF a] A(1) by blast
    then show ?thesis using R Inl by (intro exI [of _ A] exI [of _ "[]"]) (simp add: to_inner_def)
  next
    case (Inr f)
    then have f: "f \<in> F" "fr_kind f = data_kind" "frame_key f = k"
      using d F by (auto simp: message_frames_def)
    have dec: "decode X (ag_codec A) packet (wall_ms ck) = Inr f" using Inr A(1) by simp
    show ?thesis
    proof (cases "f \<in> G")
      case True
      then have "replay_blocked (ag_replay A) (fr_session_id f, fr_sequence f)"
        using R f by (auto simp: receiving_def frame_key_def)
      then have rep: "replay_decide (ck_mono ck) (ag_replay A) (fr_sequence f) (fr_session_id f) = (False, ag_replay A)"
        by (rule replay_decide_rejects [OF A(5,4)])
      obtain b S where comp: "is_completed (ck_mono ck) (fr_session_id f) (fr_message_id f) (ag_reassembler A) = (b, S)"
        by fastforce
      define B where "B = (if b then with_sent [(link, ack_packet X ck ack_kind f A, remote)]
            (A\<lparr>ag_replay := ag_replay A, ag_reassembler := S, ag_sequence := ag_sequence A + 1\<rparr>)
         else A\<lparr>ag_replay := ag_replay A, ag_reassembler := S\<rparr>)"
      have "does (handle ck packet a) A (Inr ()) B"
        unfolding B_def by (rule rejected [OF a dec A(4) rep f(2) comp enc A(3)])
      moreover have "receiving c inner t0 t1 K sz p k F G B"
        by (rule receiving_completes [OF R f(3) now(2) comp]) (use A in \<open>auto simp: B_def with_sent_def\<close>)
      moreover have "G \<union> decoded X c [(ck, packet, a)] = G" using Inr True by auto
      ultimately show ?thesis
        using other_socket
        by (intro exI [of _ B] exI [of _ "if b then [(link, ack_packet X ck ack_kind f A, remote)] else []"])
          (auto simp: B_def with_sent_def to_inner_def)
    next
      case False
      obtain r res S where acc: "replay_decide (ck_mono ck) (ag_replay A) (fr_sequence f) (fr_session_id f) = (True, r)"
        "Reassembler_add (ck_mono ck) f (ag_reassembler A) = (Inr res, S)"
        "rr_payload res = (if card G < fragment_count sz p \<and> fragment_count sz p \<le> card (insert f G) then Some p else None)"
        "\<And>B. ag_codec B = c \<Longrightarrow> ag_inner_peer B = Some inner \<Longrightarrow> ag_faults B = [] \<Longrightarrow> ag_replay B = r \<Longrightarrow>
           ag_reassembler B = S \<Longrightarrow> receiving c inner t0 t1 K sz p k F (insert f G) B"
        by (rule receiving_accepts [OF F R f(1) False k now], rule that)
      have G: "G \<union> decoded X c [(ck, packet, a)] = insert f G" using Inr by auto
      show ?thesis
      proof (cases "rr_payload res")
        case None
        let ?B = "A\<lparr>ag_replay := r, ag_reassembler := S\<rparr>"
        have "does (handle ck packet a) A (Inr ()) ?B"
          by (rule incomplete [OF a dec A(4) acc(1) f(2) acc(2) None])
        moreover have "receiving c inner t0 t1 K sz p k F (insert f G) ?B"
          by (rule acc(4)) (use A in simp_all)
        ultimately show ?thesis
          using None acc(3) by (intro exI [of _ ?B] exI [of _ "[]"]) (simp add: Inr to_inner_def split: if_splits)
      next
        case (Some q)
        define new where "new = (InnerSock, q, inner) #
          (if reliable then [(link, ack_packet X ck ack_kind f A, remote)] else [])"
        define B where "B = (if reliable then
           with_sent [(InnerSock, q, inner), (link, ack_packet X ck ack_kind f A, remote)]
             (A\<lparr>ag_replay := r, ag_reassembler := S, ag_sequence := ag_sequence A + 1\<rparr>)
         else with_sent [(InnerSock, q, inner)] (A\<lparr>ag_replay := r, ag_reassembler := S\<rparr>))"
        have "does (handle ck packet a) A (Inr ()) B"
          unfolding B_def by (rule complete [OF a dec A(4) acc(1) f(2) acc(2) Some A(2) enc A(3)])
        moreover have "receiving c inner t0 t1 K sz p k F (insert f G) B"
          by (rule acc(4)) (use A in \<open>simp_all add: B_def with_sent_def\<close>)
        moreover have "q = p" "card G < fragment_count sz p \<and> fragment_count sz p \<le> card (insert f G)"
          using Some acc(3) by (auto split: if_splits)
        moreover have "ag_sent B = ag_sent A @ new" "to_inner new = [(InnerSock, q, inner)]"
          "ag_sequence A \<le> ag_sequence B" "ag_sequence B \<le> ag_sequence A + 1"
          using other_socket by (auto simp: B_def new_def with_sent_def to_inner_def)
        ultimately show ?thesis by (intro exI [of _ B] exI [of _ new]) (simp add: Inr)
      qed
    qed
  qed
qed

lemma delivers:
  assumes F: "message_frames sz p k data_kind F" and R: "receiving c inner t0 t1 K sz p k F G A"
    and c: "codec_ok c" and k: "k \<in> K"
    and q: "0 \<le> ag_sequence A" "ag_sequence A + int (length ds) < 2 ^ 64"
    and ds: "\<forall>(ck, packet, a) \<in> set ds. admits a \<and> t0 \<le> ck_mono ck \<and> ck_mono ck \<le> t1 \<and>
      0 \<le> wall_ms ck \<and> wall_ms ck < 2 ^ 64" "decoded X c ds \<subseteq> F"
  shows "\<exists>B new. does (serve handle ds) A (Inr ()) B \<and>
    receiving c inner t0 t1 K sz p k F (G \<union> decoded X c ds) B \<and> ag_sent B = ag_sent A @ new \<and>
    to_inner new = (if card G < fragment_count sz p \<and> fragment_count sz p \<le> card (G \<union> decoded X c ds)
      then [(InnerSock, p, inner)] else [])"
  using R q ds
proof (induction ds arbitrary: A G)
  case Nil
  then show ?case by (intro exI [of _ A] exI [of _ "[]"]) (auto simp: does_return to_inner_def)
next
  case (Cons d ds)
  obtain ck packet a where d: "d = (ck, packet, a)" by (cases d)
  have fin: "finite F" "G \<subseteq> F" using F Cons.prems(1) by (auto simp: message_frames_def receiving_def)
  have "can_encode ck A"
    using Cons.prems c by (auto simp: can_encode_def d receiving_def)
  then obtain B new1 where B: "does (handle ck packet a) A (Inr ()) B"
    "receiving c inner t0 t1 K sz p k F (G \<union> decoded X c [d]) B"
    "ag_sequence A \<le> ag_sequence B" "ag_sequence B \<le> ag_sequence A + 1" "ag_sent B = ag_sent A @ new1"
    "to_inner new1 = (if card G < fragment_count sz p \<and>
      fragment_count sz p \<le> card (G \<union> decoded X c [d]) then [(InnerSock, p, inner)] else [])"
    using one_datagram [OF F Cons.prems(1) k, of ck a packet] Cons.prems(4,5) unfolding d
    by (auto split: sum.splits)
  obtain C new2 where C: "does (serve handle ds) B (Inr ()) C"
    "receiving c inner t0 t1 K sz p k F (G \<union> decoded X c [d] \<union> decoded X c ds) C" "ag_sent C = ag_sent B @ new2"
    "to_inner new2 = (if card (G \<union> decoded X c [d]) < fragment_count sz p \<and>
      fragment_count sz p \<le> card (G \<union> decoded X c [d] \<union> decoded X c ds) then [(InnerSock, p, inner)] else [])"
    using Cons.IH [OF B(2)] B(3,4) Cons.prems d by (auto split: sum.splits)
  have un: "decoded X c (d # ds) = decoded X c [d] \<union> decoded X c ds" by (simp add: d)
  have "decoded X c [d] \<subseteq> F" "decoded X c ds \<subseteq> F" using Cons.prems(5) unfolding un by simp_all
  then have "finite (G \<union> decoded X c [d] \<union> decoded X c ds)"
    using fin finite_subset by blast
  then have mono: "card G \<le> card (G \<union> decoded X c [d])"
    "card (G \<union> decoded X c [d]) \<le> card (G \<union> decoded X c [d] \<union> decoded X c ds)"
    by (intro card_mono; blast)+
  have "to_inner (new1 @ new2) = (if card G < fragment_count sz p \<and>
      fragment_count sz p \<le> card (G \<union> decoded X c (d # ds)) then [(InnerSock, p, inner)] else [])"
    using B(6) C(4) mono unfolding un by (auto simp: to_inner_def Un_assoc)
  moreover have "does (serve handle (d # ds)) A (Inr ()) C"
    unfolding d serve.simps by (rule does_then [OF B(1) C(1)])
  ultimately show ?case
    using B(5) C(2,3) by (intro exI [of _ C] exI [of _ "new1 @ new2"]) (simp add: un Un_assoc)
qed

end


section \<open>From one agent to the other\<close>

definition message_packets :: "crypto \<Rightarrow> clock \<Rightarrow> int \<Rightarrow> fragment_spec list \<Rightarrow> agent \<Rightarrow> bytes list" where
  "message_packets X ck kind fs A =
     map (seal X (cd_key (ag_codec A)))
       (data_frames (ag_codec A) (wall_ms ck) kind (ag_message_id A + 1) (ag_sequence A) fs)"

text \<open>Counters and clock with room for one more message.\<close>

definition can_send :: "clock \<Rightarrow> agent \<Rightarrow> bool" where
  "can_send ck A \<longleftrightarrow> codec_ok (ag_codec A) \<and> 0 \<le> ag_sequence A \<and> ag_sequence A + 256 < 2 ^ 64 \<and>
     0 \<le> ag_message_id A \<and> ag_message_id A + 1 < 2 ^ 64 \<and> 0 \<le> wall_ms ck \<and> wall_ms ck < 2 ^ 64"

lemma fragment_message_length:
  assumes "fragment_message p s fec = Inr fs"
  shows "length fs \<le> 236"
proof -
  have "256 \<le> nat s" "length p \<le> 60000" using assms by (auto simp: fragment_message_iff)
  note n = fragment_count_bound [OF this]
  have "length fs \<le> fragment_count (nat s) p + 1" using assms by (auto simp: fragment_message_iff)
  with n show ?thesis by simp
qed

lemma message_frames_ok:
  assumes "fragment_message p s fec = Inr fs" "is_data_kind kind" "can_send ck A"
    and "f \<in> set (data_frames (ag_codec A) (wall_ms ck) kind (ag_message_id A + 1) (ag_sequence A) fs)"
  shows "frame_ok f"
proof -
  obtain i where "i < length fs"
    "f = data_frame (ag_codec A) (wall_ms ck) kind (ag_message_id A + 1) (ag_sequence A + 1 + int i) (fs ! i)"
    using assms(4) by (auto simp: set_data_frames)
  then show ?thesis
    using data_frame_ok [OF assms(1) _ assms(2)] fragment_message_length [OF assms(1)] assms(3)
    by (simp add: can_send_def)
qed

lemma build_data_packets_ok:
  assumes fs: "fragment_message p (cf_fragment_payload_bytes cfg) (cf_fec_enabled cfg) = Inr fs"
    and "is_data_kind kind" "can_send ck A"
  shows "build_data_packets X ck cfg kind p A = (Inr (ag_message_id A + 1, message_packets X ck kind fs A),
    A\<lparr>ag_message_id := ag_message_id A + 1, ag_sequence := ag_sequence A + int (length fs)\<rparr>)"
proof -
  let ?A = "A\<lparr>ag_message_id := ag_message_id A + 1\<rparr>"
  have m: "act_map (encode_fragment X ck kind (ag_message_id A + 1)) fs ?A =
    (Inr (message_packets X ck kind fs A), ?A\<lparr>ag_sequence := ag_sequence A + int (length fs)\<rparr>)"
    using encode_fragments_ok [of ?A ck kind "ag_message_id A + 1" fs X] assms(3) message_frames_ok [OF assms]
    by (simp add: message_packets_def can_send_def)
  have l: "act_lift (Inr fs) ?A = (Inr fs, ?A)" by (simp add: act_lift_def)
  have n: "next_message_id A = (Inr (ag_message_id A + 1), ?A)" by (simp add: next_message_id_def)
  show ?thesis
    unfolding build_data_packets_eq fs
    by (simp add: act_bind_Inr [where m = next_message_id, OF n] act_bind_Inr [where m = "act_lift _", OF l]
        act_bind_Inr [where m = "act_map _ _", OF m] act_return_def)
qed

lemma sent_message_frames:
  assumes "fragment_message p s fec = Inr fs"
  shows "message_frames (nat s) p (cd_session_id (ag_codec A), ag_message_id A + 1) kind
    (set (data_frames (ag_codec A) (wall_ms ck) kind (ag_message_id A + 1) (ag_sequence A) fs))"
proof -
  have s: "256 \<le> s" "s \<le> 1391" "length p \<le> 60000" using assms by (auto simp: fragment_message_iff)
  obtain gs where gs: "fragment_message p (int (nat s)) True = Inr gs" "set fs \<subseteq> set gs"
  proof
    show "fragment_message p (int (nat s)) True = Inr (map (data_spec (nat s) p) [0..<fragment_count (nat s) p] @
        (if has_parity (nat s) p True then [parity_spec (nat s) p] else []))"
      using s by (simp add: fragment_message_iff)
    show "set fs \<subseteq> set (map (data_spec (nat s) p) [0..<fragment_count (nat s) p] @
        (if has_parity (nat s) p True then [parity_spec (nat s) p] else []))"
      using assms by (auto simp: fragment_message_iff has_parity_def)
  qed
  have "genuine (nat s) p (data_frame c t k m q (fs ! i))" if "i < length fs" for c t k m q i
    using that gs by (auto simp: genuine_def carries_def intro!: bexI [of _ "fs ! i"])
  then show ?thesis
    using fragment_index_nth [OF assms]
    by (auto simp: message_frames_def set_data_frames inj_on_def)
qed

context tunnel_receiver
begin

text \<open>
  The packets of one message from agent \<open>S\<close> at the receiver \<open>A\<close>: every datagram of \<open>ds\<close> is one of
  them, repeated or not, in whatever order, or one that does not decode.
\<close>

lemma delivers_message:
  assumes X: "aead_ok X" and S: "can_send cks S" "is_data_kind data_kind"
    and fs: "fragment_message p (cf_fragment_payload_bytes cfg) (cf_fec_enabled cfg) = Inr fs"
    and A: "agent_ok A" "ag_inner_peer A = Some inner" "ag_faults A = []"
      "cd_key (ag_codec A) = cd_key (ag_codec S)" "cd_tunnel_id (ag_codec A) = cd_tunnel_id (ag_codec S)"
      "0 \<le> ag_sequence A" "ag_sequence A + int (length ds) < 2 ^ 64"
    and rep: "\<forall>q. ag_sequence S < q \<and> q \<le> ag_sequence S + 256 \<longrightarrow>
        \<not> replay_blocked (ag_replay A) (cd_session_id (ag_codec S), q)" "256 \<le> replay_size (ag_replay A)"
    and k: "k = (cd_session_id (ag_codec S), ag_message_id S + 1)"
    and new: "dict_get (ra_assemblies (ag_reassembler A)) k = None" "dict_get (ra_completed (ag_reassembler A)) k = None"
    and room: "int (card (insert k (fst ` set (ra_assemblies (ag_reassembler A)) \<union>
        fst ` set (ra_completed (ag_reassembler A))))) \<le> ra_max_messages (ag_reassembler A)"
    and t: "t1 - t0 \<le> ra_timeout_seconds (ag_reassembler A)" "t1 - t0 \<le> ra_completed_ttl_seconds (ag_reassembler A)"
    and ds: "\<forall>(ck, packet, a) \<in> set ds. admits a \<and> t0 \<le> ck_mono ck \<and> ck_mono ck \<le> t1 \<and>
      0 \<le> wall_ms ck \<and> wall_ms ck < 2 ^ 64 \<and> \<bar>wall_ms ck - wall_ms cks\<bar> \<le> cd_max_clock_skew_ms (ag_codec A) \<and>
      (packet \<in> set (message_packets X cks data_kind fs S) \<or> (\<forall>f. decode X (ag_codec A) packet (wall_ms ck) \<noteq> Inr f))"
  shows "\<exists>B new. serve handle ds A = (Inr (), B) \<and> ag_sent B = ag_sent A @ new \<and>
    to_inner new = (if fragment_count (nat (cf_fragment_payload_bytes cfg)) p
        \<le> card (set (message_packets X cks data_kind fs S) \<inter> (fst \<circ> snd) ` set ds)
      then [(InnerSock, p, inner)] else [])"
proof -
  let ?c = "ag_codec A" and ?sz = "nat (cf_fragment_payload_bytes cfg)"
  let ?F = "set (data_frames (ag_codec S) (wall_ms cks) data_kind (ag_message_id S + 1) (ag_sequence S) fs)"
  let ?K = "insert k (fst ` set (ra_assemblies (ag_reassembler A)) \<union> fst ` set (ra_completed (ag_reassembler A)))"
  let ?seal = "seal X (cd_key ?c)"
  have F: "message_frames ?sz p k data_kind ?F"
    using sent_message_frames [OF fs] by (simp add: k)
  have ok: "replay_ok (ag_replay A)" "\<not> replay_closing (ag_replay A)" "reassembler_ok (ag_reassembler A)"
    "codec_ok ?c" "metrics_ok (ag_metrics A)"
    using A(1) by (simp_all add: agent_ok_def)
  have seqs: "ag_sequence S < fr_sequence f" "fr_sequence f \<le> ag_sequence S + 256"
    "fr_timestamp_ms f = wall_ms cks" "fr_tunnel_id f = cd_tunnel_id ?c" if "f \<in> ?F" for f
    using that fragment_message_length [OF fs] A(5) by (auto simp: set_data_frames)
  have R: "receiving ?c inner t0 t1 ?K ?sz p k ?F {} A"
  proof -
    have "roomy t0 t1 ?K (ag_reassembler A)"
      using ok(3) t room by (auto simp: roomy_def reassembler_ok_def)
    moreover have "tracks t0 ?sz p k {} (ag_reassembler A)"
      using new by (simp add: tracks_def)
    moreover have "fr_sequence f - fr_sequence g < int (replay_size (ag_replay A))" if "f \<in> ?F" "g \<in> ?F" for f g
      using seqs(1,2) [OF that(1)] seqs(1,2) [OF that(2)] rep(2) by linarith
    moreover have "\<not> replay_blocked (ag_replay A) (fst k, fr_sequence f)" if "f \<in> ?F" for f
      using seqs(1,2) [OF that] rep(1) by (simp add: k)
    ultimately show ?thesis
      using A(2,3) ok by (auto simp: receiving_def)
  qed
  have seal: "decode X ?c (?seal f) now = Inr f" if "f \<in> ?F" "\<bar>now - wall_ms cks\<bar> \<le> cd_max_clock_skew_ms ?c" for f now
    using message_frames_ok [OF fs S(2,1)] that seqs(3,4) opens_seal [OF X] by (auto simp: decode_iff fresh_def)
  have packets: "set (message_packets X cks data_kind fs S) = ?seal ` ?F"
    by (simp add: message_packets_def A(4))
  have dec: "decoded X ?c ds = {f \<in> ?F. ?seal f \<in> (fst \<circ> snd) ` set ds}"
  proof (intro set_eqI iffI)
    fix f assume "f \<in> decoded X ?c ds"
    then obtain ck packet a where d: "(ck, packet, a) \<in> set ds" "decode X ?c packet (wall_ms ck) = Inr f"
      by (auto simp: decoded_def)
    then have "packet \<in> ?seal ` ?F" "\<bar>wall_ms ck - wall_ms cks\<bar> \<le> cd_max_clock_skew_ms ?c"
      using ds unfolding packets by fastforce+
    then obtain g where "g \<in> ?F" "packet = ?seal g" "f = g" using seal d(2) by force
    moreover have "packet \<in> (fst \<circ> snd) ` set ds" using d(1) by force
    ultimately show "f \<in> {f \<in> ?F. ?seal f \<in> (fst \<circ> snd) ` set ds}" by simp
  next
    fix f assume "f \<in> {f \<in> ?F. ?seal f \<in> (fst \<circ> snd) ` set ds}"
    then obtain ck a where d: "(ck, ?seal f, a) \<in> set ds" "f \<in> ?F" by force
    then have "\<bar>wall_ms ck - wall_ms cks\<bar> \<le> cd_max_clock_skew_ms ?c" using ds by fastforce
    then show "f \<in> decoded X ?c ds" using d seal by (force simp: decoded_def)
  qed
  have inj: "inj_on ?seal ?F"
  proof (rule inj_onI)
    fix f g assume "f \<in> ?F" "g \<in> ?F" "?seal f = ?seal g"
    moreover have "\<bar>wall_ms cks - wall_ms cks\<bar> \<le> cd_max_clock_skew_ms ?c" using ok(4) by (simp add: codec_ok_def)
    ultimately show "f = g" using seal by (metis sum.inject(2))
  qed
  have "set (message_packets X cks data_kind fs S) \<inter> (fst \<circ> snd) ` set ds = ?seal ` decoded X ?c ds"
    unfolding packets dec by auto
  then have count: "card (set (message_packets X cks data_kind fs S) \<inter> (fst \<circ> snd) ` set ds) = card (decoded X ?c ds)"
    using card_image [OF inj_on_subset [OF inj, of "decoded X ?c ds"]] dec by auto
  have arrive: "\<forall>(ck, packet, a) \<in> set ds. admits a \<and> t0 \<le> ck_mono ck \<and> ck_mono ck \<le> t1 \<and>
      0 \<le> wall_ms ck \<and> wall_ms ck < 2 ^ 64" "decoded X ?c ds \<subseteq> ?F"
    using ds dec by auto
  obtain B sent where B: "does (serve handle ds) A (Inr ()) B" "ag_sent B = ag_sent A @ sent"
    "to_inner sent = (if fragment_count ?sz p \<le> card (decoded X ?c ds) then [(InnerSock, p, inner)] else [])"
    using delivers [OF F R ok(4) insertI1 A(6,7) arrive] by (elim exE conjE) (rule that, simp_all)
  obtain M where M: "serve handle ds A = (Inr (), B\<lparr>ag_metrics := M\<rparr>)"
    by (rule does_result [OF B(1) ok(5)])
  show ?thesis
    unfolding count using M B(2,3) by (intro exI [of _ "B\<lparr>ag_metrics := M\<rparr>"] exI [of _ sent]) simp
qed

end

section \<open>The completed entry of a message\<close>

lemma trim_last: "1 \<le> limit \<Longrightarrow> \<exists>ys. trim limit (xs @ [x]) = ys @ [x]"
  by (induction xs) auto

lemma complete_message_last:
  assumes "1 \<le> ra_max_messages R" "dict_ok (ra_completed R)"
  obtains ys where "ra_completed (complete_message now k R) = ys @ [(k, now)]" "dict_ok (ys @ [(k, now)])"
proof -
  have "map_of (dict_put k now (ra_completed R)) k = Some now" by (simp add: dict_simps)
  then have "dict_move_to_end k (dict_put k now (ra_completed R)) =
      dict_del k (dict_put k now (ra_completed R)) @ [(k, now)]"
    by (simp add: dict_move_to_end_def)
  then obtain ys where ys: "ra_completed (complete_message now k R) = ys @ [(k, now)]"
    using trim_last [of "ra_max_messages R * 2" "dict_del k (dict_put k now (ra_completed R))" "(k, now)"] assms(1)
    by (auto simp: complete_message_def)
  have "dict_ok (ra_completed (complete_message now k R))"
    using assms(2) by (auto simp: complete_message_def intro: dict_ok_trim)
  then show thesis using that ys by simp
qed

lemma complete_message_ttl: "ra_completed_ttl_seconds (complete_message now k R) = ra_completed_ttl_seconds R"
  by (simp add: complete_message_def)

lemma put_assembly_ttl: "ra_completed_ttl_seconds (put_assembly k b R) = ra_completed_ttl_seconds R"
  by (simp add: put_assembly_def)

lemma add_completes:
  assumes ok: "reassembler_ok R" and add: "Reassembler_add now f R = (Inr res, R')" "rr_payload res = Some p"
  obtains ys where "ra_completed R' = ys @ [(frame_key f, now)]" "dict_ok (ra_completed R')"
    "ra_completed_ttl_seconds R' = ra_completed_ttl_seconds R"
proof -
  let ?k = "frame_key f"
  have pok: "reassembler_ok (snd (purge now R))" using purge_ok [OF ok] by simp
  obtain a R1 where R1: "add_to now ?k f a R1 = (Inr res, R')" "ra_completed R1 = ra_completed (snd (purge now R))"
    "ra_max_messages R1 = ra_max_messages R" "ra_completed_ttl_seconds R1 = ra_completed_ttl_seconds R"
    using add by (auto simp: Reassembler_add_def Let_def make_room_def split: if_splits option.splits sum.splits)
  obtain b where "R' = complete_message now ?k (put_assembly ?k b R1)"
    using R1(1) add(2) by (auto simp: add_to_def Let_def split: sum.splits prod.splits option.splits)
  moreover have "1 \<le> ra_max_messages (put_assembly ?k b R1)" "dict_ok (ra_completed (put_assembly ?k b R1))"
    using pok ok by (auto simp: put_assembly_def R1 reassembler_ok_def)
  ultimately show thesis
    using complete_message_last [of "put_assembly ?k b R1" now ?k] that
    by (metis R1(4) complete_message_ttl put_assembly_ttl)
qed

lemma is_completed_last:
  assumes "ra_completed R = ys @ [((sid, mid), t)]" "dict_ok (ra_completed R)" "now - t \<le> ra_completed_ttl_seconds R"
  shows "fst (is_completed now sid mid R)"
proof -
  obtain zs where "dropWhile (\<lambda>(k, t). \<not> now - t \<le> ra_completed_ttl_seconds R) (ra_completed R) = zs @ [((sid, mid), t)]"
    using assms(1,3) by (cases "\<forall>x \<in> set ys. \<not> now - snd x \<le> ra_completed_ttl_seconds R")
      (auto simp: dropWhile_append split_beta)
  then show ?thesis
    by (simp add: is_completed_def Let_def purge_completed drop_stale_eq dict_has_def)
qed

end
