(* ===== verification/Agent_Properties.thy ===== *)
theory Agent_Properties
  imports Agent_Delivery
begin

text \<open>
  Properties of the agents: what a running agent keeps, what unauthenticated datagrams can do, the
  delivery of a message from one agent to the other, and two ways in which the code loses a message
  or a thread. The witnesses use two concrete agents of one tunnel.
\<close>


section \<open>Concrete agents\<close>

definition demo_common :: "string \<Rightarrow> bool \<Rightarrow> common_config" where
  "demo_common role reliable =
     \<lparr>cf_role = role, cf_tunnel_id = demo_tunnel, cf_shared_secret = replicate 32 9,
      cf_health_listen = (''127.0.0.1'', 9081), cf_metrics_file = ''m.json'',
      cf_keepalive_seconds = 5, cf_health_timeout_seconds = 20, cf_recv_buffer_bytes = 65536,
      cf_fragment_payload_bytes = 256, cf_fec_enabled = True, cf_reliable = reliable,
      cf_retransmit_timeout_seconds = 1 / 2, cf_max_retries = 8, cf_max_pending_messages = 16,
      cf_reassembly_timeout_seconds = 30, cf_replay_checkpoint_interval_seconds = 1,
      cf_replay_checkpoint_batch_frames = 128\<rparr>"

definition demo_iran_config :: "bool \<Rightarrow> iran_config" where
  "demo_iran_config reliable = common_config.extend (demo_common ''iran'' reliable)
     \<lparr>ir_inner_listen = (''127.0.0.1'', 1), ir_uplink_bind = (''0.0.0.0'', 0),
      ir_foreign_uplink = (''198.51.100.2'', 2), ir_downlink_listen = (''0.0.0.0'', 3),
      ir_expected_downlink_source = None, ir_expected_inner_peer = None, ir_replay_state_file = None\<rparr>"

definition demo_foreign_config :: "bool \<Rightarrow> foreign_config" where
  "demo_foreign_config reliable = common_config.extend (demo_common ''foreign'' reliable)
     \<lparr>fo_uplink_listen = (''0.0.0.0'', 2), fo_inner_bridge_listen = (''127.0.0.1'', 4),
      fo_inner_peer = (''127.0.0.1'', 5), fo_iran_downlink = (''198.51.100.1'', 3),
      fo_downlink_mode = ''udp'', fo_downlink_source = None, fo_downlink_source_port = 0,
      fo_replay_state_file = None\<rparr>"

definition demo_clock :: "rat \<Rightarrow> clock" where
  "demo_clock t = \<lparr>ck_wall = t, ck_mono = t\<rparr>"

definition demo_window :: window where
  "demo_window = \<lparr>w_size = 4096, w_session_id = None, w_retired_sessions = {}, w_highest = -1,
     w_bitmap = 0\<rparr>"

definition demo_agent :: "string \<Rightarrow> int \<Rightarrow> address option \<Rightarrow> agent" where
  "demo_agent role session_id peer =
     \<lparr>ag_codec = demo_codec\<lparr>cd_session_id := session_id\<rparr>,
      ag_metrics = Metrics_init role ''m.json'' 100, ag_sequence = 40, ag_message_id = 7,
      ag_replay = Volatile demo_window,
      ag_reassembler = \<lparr>ra_timeout_seconds = 30, ra_max_messages = 16, ra_completed_ttl_seconds = 120,
        ra_assemblies = [], ra_completed = []\<rparr>,
      ag_sender = \<lparr>sn_retransmit_timeout_seconds = 1 / 2, sn_max_attempts = 9,
        sn_max_pending_messages = 16, sn_max_window = 512, sn_cwnd = 64, sn_queue = [],
        sn_pending = []\<rparr>,
      ag_expected_inner_peer = None, ag_inner_peer = peer, ag_sent = [], ag_faults = [],
      ag_metrics_file = None\<rparr>"

definition demo_iran :: agent where "demo_iran = demo_agent ''iran'' 1234 None"
definition demo_foreign :: agent where "demo_foreign = demo_agent ''foreign'' 5678 (Some (''127.0.0.1'', 5))"

definition demo_token :: "nat \<Rightarrow> bytes" where "demo_token n = be_bytes 8 n"

lemmas demo_defs = demo_iran_def demo_foreign_def demo_agent_def demo_clock_def demo_iran_config_def
  demo_foreign_config_def demo_common_def demo_token_def demo_window_def

lemma demo_iran_init:
  "agent_init demo_crypto (Iran (demo_iran_config b)) (demo_clock 100) Inr None (demo_token 1234) 40 7 =
   Inr demo_iran"
  by (simp add: demo_defs demo_codec_def demo_crypto_def demo_tunnel_def IranAgent_init_def BaseAgent_init_def FrameCodec_init_def ReplayWindow_init_def
   Reassembler_init_def ReliableSender_init_def common_config.defs Let_def result_simps
      be_nat_be_bytes)

lemma demo_foreign_init:
  "agent_init demo_crypto (Foreign (demo_foreign_config b)) (demo_clock 100) Inr None (demo_token 5678) 40 7 =
   Inr demo_foreign"
  by (simp add: demo_defs demo_codec_def demo_crypto_def demo_tunnel_def ForeignAgent_init_def BaseAgent_init_def FrameCodec_init_def ReplayWindow_init_def
   Reassembler_init_def ReliableSender_init_def common_config.defs Let_def result_simps
      be_nat_be_bytes)

lemma demo_reach:
  "reach demo_crypto (Iran (demo_iran_config b)) demo_iran"
  "reach demo_crypto (Foreign (demo_foreign_config b)) demo_foreign"
  by (rule reach.start [OF demo_iran_init] reach.start [OF demo_foreign_init]; simp add: replay_file_ok_def)+

lemma demo_agents_ok: "agent_ok demo_iran" "agent_ok demo_foreign"
  using reach_ok [OF demo_reach(1)] reach_ok [OF demo_reach(2)] by simp_all


section \<open>Properties of a running agent\<close>

text \<open>
  C18. A running agent of either role keeps its invariant in every round of every thread, whatever
  datagrams, clocks and failures of sockets, files and writer it meets: the tables stay bounded and
  consistent, counters exist, sequence and message numbers only grow, nothing sent is forgotten. Only
  \<open>struct.error\<close> (a counter or clock outside its 64 bits) can leave a round of a reliable agent; an
  agent without reliability lets the \<open>OSError\<close> of a failing send out as well.
\<close>

theorem running_agent_stays_ok:
  assumes "reach X role A" "round X role A r B"
  shows "agent_ok B \<and> agent_step A B \<and> raises_only (escaping (is_reliable role)) r"
  using round_ok [OF assms(2)] reach_ok [OF assms(1)] by blast

theorem running_agent_stays_ok_witness:
  "agent_ok (snd (iran_downlink demo_crypto (demo_clock 1) (demo_iran_config True) [1, 2, 3] (''x'', 9) demo_iran))"
  using running_agent_stays_ok [OF demo_reach(1) round.iran_downlink [OF prod.collapse [symmetric]]] by blast

text \<open>
  All that \<open>B\<close> differs in from \<open>A\<close> is that the counter \<open>key\<close> is one higher and the metrics' time of the last
  change is the time of day: no other metric (the times of the last packets, which health is judged by, the last
  error) and nothing else of the agent.
\<close>

definition only_counts :: "clock \<Rightarrow> string \<Rightarrow> agent \<Rightarrow> agent \<Rightarrow> bool" where
  "only_counts ck key A B \<longleftrightarrow>
     (\<exists>d n. B = A\<lparr>ag_metrics := (ag_metrics A)\<lparr>mt_data := d\<rparr>\<rparr> \<and>
        dict_get (mt_data (ag_metrics A)) key = Some (JInt n) \<and> dict_get d key = Some (JInt (n + 1)) \<and>
        dict_get d ''updated_at'' = Some (JFloat (Fin (ck_wall ck))) \<and>
        (\<forall>k. k \<noteq> key \<and> k \<noteq> ''updated_at'' \<longrightarrow> dict_get d k = dict_get (mt_data (ag_metrics A)) k))"

lemma metric_increment_counts:
  assumes "agent_ok A" "key \<in> set zero_counters"
  obtains B where "metric_increment ck key 1 A = (Inr (), B)" "only_counts ck key A B"
proof -
  obtain n where n: "dict_get (mt_data (ag_metrics A)) key = Some (JInt n)"
    using assms by (auto simp: agent_ok_def metrics_ok_def)
  have key: "key \<noteq> ''updated_at''" using assms(2) by (auto simp: zero_counters_def)
  let ?d = "dict_put ''updated_at'' (JFloat (Fin (ck_wall ck))) (dict_put key (JInt (n + 1)) (mt_data (ag_metrics A)))"
  have "metric_increment ck key 1 A = (Inr (), A\<lparr>ag_metrics := (ag_metrics A)\<lparr>mt_data := ?d\<rparr>\<rparr>)"
    by (simp add: metric_increment_def on_metrics_def Metrics_increment_def touch_def act_simps data_plus_def n)
  moreover have "only_counts ck key A (A\<lparr>ag_metrics := (ag_metrics A)\<lparr>mt_data := ?d\<rparr>\<rparr>)"
    unfolding only_counts_def by (intro exI [of _ ?d] exI [of _ n]) (simp add: n key dict_simps)
  ultimately show thesis by (rule that)
qed

text \<open>
  C19. Authentication: a datagram that is not the sealed encoding, under the shared key, of a
  well-formed fresh frame of the tunnel raises nothing in an agent of either role and changes exactly
  one counter, \<open>auth_failures\<close>, by one (and the metrics' \<open>updated_at\<close>): nothing is sent, delivered, recorded or
  reassembled, and the times and texts among the metrics, which health is judged by, stay. On the Iran
  side any datagram at all from an address it does not expect likewise only counts a \<open>source_mismatch_drops\<close>.
\<close>

theorem unauthenticated_datagrams_only_count:
  assumes "aead_ok X" "aead_canonical X" "agent_ok A"
  shows "(\<not> iran_admits icfg peer \<longrightarrow>
      (\<exists>B. iran_downlink X ck icfg packet peer A = (Inr (), B) \<and> only_counts ck ''source_mismatch_drops'' A B)) \<and>
    (\<not> (\<exists>f. frame_ok f \<and> fr_tunnel_id f = cd_tunnel_id (ag_codec A) \<and> fresh (ag_codec A) (wall_ms ck) f \<and>
           packet = seal X (cd_key (ag_codec A)) f) \<longrightarrow>
      (iran_admits icfg peer \<longrightarrow>
        (\<exists>B. iran_downlink X ck icfg packet peer A = (Inr (), B) \<and> only_counts ck ''auth_failures'' A B)) \<and>
      (\<exists>B. foreign_uplink X ck fcfg packet peer A = (Inr (), B) \<and> only_counts ck ''auth_failures'' A B))"
proof (intro conjI impI)
  show "\<exists>B. iran_downlink X ck icfg packet peer A = (Inr (), B) \<and> only_counts ck ''source_mismatch_drops'' A B"
    if "\<not> iran_admits icfg peer"
    using that metric_increment_counts [OF assms(3), of "''source_mismatch_drops''" ck]
    by (auto simp: iran_downlink_admits zero_counters_def)
next
  assume bad: "\<not> (\<exists>f. frame_ok f \<and> fr_tunnel_id f = cd_tunnel_id (ag_codec A) \<and> fresh (ag_codec A) (wall_ms ck) f \<and>
           packet = seal X (cd_key (ag_codec A)) f)"
  have "decode X (ag_codec A) packet (wall_ms ck) \<noteq> Inr f" for f
    using bad opens_canonical [OF assms(2)] by (auto simp: decode_iff)
  then obtain e where e: "decode X (ag_codec A) packet (wall_ms ck) = Inl e" "is_protocol_error e"
    by (cases "decode X (ag_codec A) packet (wall_ms ck)") (auto dest: decode_error)
  obtain B where B: "metric_increment ck ''auth_failures'' 1 A = (Inr (), B)" "only_counts ck ''auth_failures'' A B"
    using metric_increment_counts [OF assms(3), of "''auth_failures''" ck] by (auto simp: zero_counters_def)
  show "\<exists>B. iran_downlink X ck icfg packet peer A = (Inr (), B) \<and> only_counts ck ''auth_failures'' A B"
    if "iran_admits icfg peer"
    using B e that by (simp add: iran_downlink_admits act_simps)
  show "\<exists>B. foreign_uplink X ck fcfg packet peer A = (Inr (), B) \<and> only_counts ck ''auth_failures'' A B"
    using B e by (simp add: foreign_uplink_def act_simps)
qed

theorem unauthenticated_datagrams_only_count_witness:
  "\<exists>B. foreign_uplink demo_crypto (demo_clock 1) (demo_foreign_config True) [1, 2, 3] (''x'', 9) demo_foreign =
     (Inr (), B) \<and> only_counts (demo_clock 1) ''auth_failures'' demo_foreign B"
proof -
  have "length (seal demo_crypto k f) \<noteq> length [1 :: byte, 2, 3]" if "frame_ok f" for k f
    using length_seal [OF demo_aead_ok frame_okD(2) [OF that]] by simp
  then have "\<not> (\<exists>f. frame_ok f \<and> fr_tunnel_id f = cd_tunnel_id (ag_codec demo_foreign) \<and>
      fresh (ag_codec demo_foreign) (wall_ms (demo_clock 1)) f \<and> [1, 2, 3] = seal demo_crypto (cd_key (ag_codec demo_foreign)) f)"
    by metis
  then show ?thesis
    using unauthenticated_datagrams_only_count [OF demo_aead_ok demo_aead_canonical demo_agents_ok(2),
        of "demo_iran_config True" "(''x'', 9)" "demo_clock 1" "[1, 2, 3]" "demo_foreign_config True"] by blast
qed

text \<open>
  C20. Delivery from end to end, Iran to foreign: the packets that one agent builds from a message are
  sent over a network that loses, repeats and reorders them and mixes in datagrams that do not decode.
  The foreign agent's receive loop then raises nothing, and hands to its inner peer exactly the
  message, once, if at least as many different packets arrived as the message has data fragments (the
  parity packet counts), and nothing otherwise. The receiver must not have seen these numbers, must
  have room, and the arrivals must lie within the reassembly timeout and the clock window.
\<close>

theorem uplink_delivers_exactly_once:
  assumes "aead_ok X" "can_send cks S"
    and "fragment_message p (cf_fragment_payload_bytes cfg) (cf_fec_enabled cfg) = Inr fs"
    and "build_data_packets X cks cfg DATA_UP p S = (Inr (mid, packets), S')"
    and "agent_ok A" "ag_inner_peer A = Some inner" "ag_faults A = []"
      "cd_key (ag_codec A) = cd_key (ag_codec S)" "cd_tunnel_id (ag_codec A) = cd_tunnel_id (ag_codec S)"
      "0 \<le> ag_sequence A" "ag_sequence A + int (length ds) < 2 ^ 64"
    and "\<forall>q. ag_sequence S < q \<and> q \<le> ag_sequence S + 256 \<longrightarrow>
        \<not> replay_blocked (ag_replay A) (cd_session_id (ag_codec S), q)" "256 \<le> replay_size (ag_replay A)"
    and "dict_get (ra_assemblies (ag_reassembler A)) (cd_session_id (ag_codec S), mid) = None"
      "dict_get (ra_completed (ag_reassembler A)) (cd_session_id (ag_codec S), mid) = None"
    and "int (card (insert (cd_session_id (ag_codec S), mid) (fst ` set (ra_assemblies (ag_reassembler A)) \<union>
        fst ` set (ra_completed (ag_reassembler A))))) \<le> ra_max_messages (ag_reassembler A)"
    and "t1 - t0 \<le> ra_timeout_seconds (ag_reassembler A)" "t1 - t0 \<le> ra_completed_ttl_seconds (ag_reassembler A)"
    and "\<forall>(ck, packet, a) \<in> set ds. t0 \<le> ck_mono ck \<and> ck_mono ck \<le> t1 \<and>
      0 \<le> wall_ms ck \<and> wall_ms ck < 2 ^ 64 \<and> \<bar>wall_ms ck - wall_ms cks\<bar> \<le> cd_max_clock_skew_ms (ag_codec A) \<and>
      (packet \<in> set packets \<or> (\<forall>f. decode X (ag_codec A) packet (wall_ms ck) \<noteq> Inr f))"
  shows "\<exists>B new. serve (\<lambda>ck. foreign_uplink X ck fcfg) ds A = (Inr (), B) \<and> ag_sent B = ag_sent A @ new \<and>
    to_inner new = (if fragment_count (nat (cf_fragment_payload_bytes cfg)) p
        \<le> card (set packets \<inter> {packet. \<exists>ck a. (ck, packet, a) \<in> set ds})
      then [(InnerSock, p, inner)] else [])"
proof -
  have data: "is_data_kind DATA_UP" by (simp add: is_data_kind_def)
  have "mid = ag_message_id S + 1" "packets = message_packets X cks DATA_UP fs S"
    using assms(4) build_data_packets_ok [OF assms(3) data assms(2), of X] by simp_all
  moreover have "(fst \<circ> snd) ` set ds = {packet. \<exists>ck a. (ck, packet, a) \<in> set ds}" by force
  ultimately show ?thesis
    using foreign_receiver.delivers_message [OF assms(1,2) data assms(3,5-13) refl _ _ _ assms(17,18)] assms(14-16,19)
    by (simp add: foreign_admits_def)
qed


lemma demo_fragments: "fragment_message [1, 2, 3] 256 True = Inr [data_spec 256 [1, 2, 3] 0]"
  by (simp add: fragment_message_iff has_parity_def fragment_count_def)

definition demo_packet_of :: "int \<Rightarrow> agent \<Rightarrow> bytes" where
  "demo_packet_of kind A = hd (message_packets demo_crypto (demo_clock 100) kind [data_spec 256 [1, 2, 3] 0] A)"

lemma demo_packets: "message_packets demo_crypto (demo_clock 100) kind [data_spec 256 [1, 2, 3] 0] A = [demo_packet_of kind A]"
  by (simp add: demo_packet_of_def message_packets_def)

lemma demo_wall: "wall_ms (demo_clock t) = truncate_rat (t * 1000)"
  by (simp add: wall_ms_def demo_clock_def)

lemma demo_can_send: "can_send (demo_clock 100) demo_iran" "can_send (demo_clock 100) demo_foreign"
  unfolding can_send_def demo_wall
  by (simp_all add: truncate_rat_def demo_iran_def demo_foreign_def demo_agent_def codec_ok_def
      demo_codec_def demo_tunnel_def)

lemma demo_not_sealed: "decode demo_crypto c [1, 2, 3] now \<noteq> Inr f"
proof
  assume "decode demo_crypto c [1, 2, 3] now = Inr f"
  then have "frame_ok f" "opens demo_crypto (cd_key c) [1, 2, 3] f" by (simp_all add: decode_iff)
  then show False
    using opens_canonical [OF demo_aead_canonical] length_seal [OF demo_aead_ok frame_okD(2), of f "cd_key c"]
    by fastforce
qed

lemma demo_fresh: "0 \<le> q \<Longrightarrow> \<not> win_blocked demo_window (s, q)"
  by (simp add: win_blocked_def spec_blocked_def abs_window_def demo_window_def spec_seen_def spec_fresh_def)

theorem uplink_delivers_exactly_once_witness:
  "\<exists>B new. serve (\<lambda>ck. foreign_uplink demo_crypto ck (demo_foreign_config True))
      [(demo_clock 101, [1, 2, 3], (''x'', 9)), (demo_clock 102, demo_packet_of DATA_UP demo_iran, (''x'', 9)),
       (demo_clock 103, demo_packet_of DATA_UP demo_iran, (''x'', 9))] demo_foreign = (Inr (), B) \<and>
    ag_sent B = ag_sent demo_foreign @ new \<and> to_inner new = [(InnerSock, [1, 2, 3], (''127.0.0.1'', 5))]"
proof -
  let ?ds = "[(demo_clock 101, [1, 2, 3], (''x'', 9)), (demo_clock 102, demo_packet_of DATA_UP demo_iran, (''x'', 9)),
       (demo_clock 103, demo_packet_of DATA_UP demo_iran, (''x'', 9))] :: (clock \<times> bytes \<times> address) list"
  have cfg: "fragment_message [1, 2, 3] (cf_fragment_payload_bytes (demo_iran_config True))
      (cf_fec_enabled (demo_iran_config True)) = Inr [data_spec 256 [1, 2, 3] 0]"
    using demo_fragments by (simp add: demo_defs common_config.defs)
  have build: "build_data_packets demo_crypto (demo_clock 100) (demo_iran_config True) DATA_UP [1, 2, 3] demo_iran =
      (Inr (8, [demo_packet_of DATA_UP demo_iran]), snd (build_data_packets demo_crypto (demo_clock 100)
        (demo_iran_config True) DATA_UP [1, 2, 3] demo_iran))"
    using build_data_packets_ok [OF cfg _ demo_can_send(1), of DATA_UP demo_crypto]
    by (simp add: demo_packets is_data_kind_def) (simp add: demo_defs)
  have one: "fragment_count (nat (cf_fragment_payload_bytes (demo_iran_config True))) ([1, 2, 3] :: bytes) = 1"
    by (simp add: demo_defs common_config.defs fragment_count_def)
  have arrived: "set [demo_packet_of DATA_UP demo_iran] \<inter> {packet. \<exists>ck a. (ck, packet, a) \<in> set ?ds} =
      {demo_packet_of DATA_UP demo_iran}" by auto
  have ds: "\<forall>(ck, packet, a) \<in> set ?ds. 101 \<le> ck_mono ck \<and> ck_mono ck \<le> 103 \<and>
      0 \<le> wall_ms ck \<and> wall_ms ck < 2 ^ 64 \<and>
      \<bar>wall_ms ck - wall_ms (demo_clock 100)\<bar> \<le> cd_max_clock_skew_ms (ag_codec demo_foreign) \<and>
      (packet \<in> set [demo_packet_of DATA_UP demo_iran] \<or>
       (\<forall>f. decode demo_crypto (ag_codec demo_foreign) packet (wall_ms ck) \<noteq> Inr f))"
    using demo_not_sealed by (simp add: demo_wall truncate_rat_def) (simp add: demo_defs demo_codec_def)
  show ?thesis
    using uplink_delivers_exactly_once [OF demo_aead_ok demo_can_send(1) cfg build demo_agents_ok(2), of "(''127.0.0.1'', 5)"
        ?ds 103 101 "demo_foreign_config True"] ds demo_fresh
    unfolding one arrived
    by (simp add: demo_foreign_def demo_iran_def demo_agent_def replay_size_def demo_window_def)
qed

section \<open>Two ways to lose\<close>

lemma does_build_data_packets:
  assumes "fragment_message p (cf_fragment_payload_bytes cfg) (cf_fec_enabled cfg) = Inr fs"
    and "is_data_kind kind" "can_send ck A"
  shows "does (build_data_packets X ck cfg kind p) A (Inr (ag_message_id A + 1, message_packets X ck kind fs A))
    (A\<lparr>ag_message_id := ag_message_id A + 1, ag_sequence := ag_sequence A + int (length fs)\<rparr>)"
proof (rule doesI)
  fix M assume "metrics_ok M"
  have "can_send ck (A\<lparr>ag_metrics := M\<rparr>)" using assms(3) by (simp add: can_send_def)
  from build_data_packets_ok [OF assms(1,2) this, of X] \<open>metrics_ok M\<close>
  show "\<exists>M1. metrics_ok M1 \<and> build_data_packets X ck cfg kind p (A\<lparr>ag_metrics := M\<rparr>) =
      (Inr (ag_message_id A + 1, message_packets X ck kind fs A),
       A\<lparr>ag_message_id := ag_message_id A + 1, ag_sequence := ag_sequence A + int (length fs), ag_metrics := M1\<rparr>)"
    by (intro exI [of _ M]) (simp add: message_packets_def)
qed

context transport_link
begin

text \<open>Without reliability the packets are sent at once; the first failing send ends \<open>send_data\<close>.\<close>

lemma does_send_data_fault:
  assumes fs: "fragment_message p (cf_fragment_payload_bytes cfg) (cf_fec_enabled cfg) = Inr fs"
    and "is_data_kind kind" "can_send ck A" "\<not> cf_reliable cfg" "ag_faults A = Some msg # rest"
  shows "\<exists>B. does (send_data X ck cfg send kind p) A (Inl (OSError msg)) B"
proof -
  let ?A = "A\<lparr>ag_message_id := ag_message_id A + 1, ag_sequence := ag_sequence A + int (length fs)\<rparr>"
  obtain packet packets where ps: "message_packets X ck kind fs A = packet # packets"
    using fragment_message_nonempty [OF fs]
    by (cases fs) (auto simp: message_packets_def)
  have "does (send packet False) ?A (Inl (OSError msg)) (?A\<lparr>ag_faults := rest\<rparr>)"
    by (rule fails) (simp add: assms(5))
  then have sending: "does (act_then (act_for (packet # packets) (\<lambda>packet. send packet False)) (act_return True)) ?A
      (Inl (OSError msg)) (?A\<lparr>ag_faults := rest\<rparr>)"
    by (auto intro: does_then_Inl)
  have "does (send_data X ck cfg send kind p) A (Inl (OSError msg)) (?A\<lparr>ag_faults := rest\<rparr>)"
    unfolding send_data_def
    by (rule does_bind [OF does_build_data_packets [OF assms(1-3)]], unfold prod.case ps,
        intro does_skip [OF does_metric_increment])
      (use sending in \<open>simp_all add: zero_counters_def assms(4)\<close>)
  then show ?thesis by blast
qed

end

text \<open>
  Without reliability a failing send ends the thread that reads the local socket: the
  \<open>OSError\<close> passes through \<open>send_data\<close> and leaves \<open>inner_loop\<close>, which expects \<open>ProtocolError\<close> only.
\<close>

theorem unreliable_send_fault_escapes:
  assumes "agent_ok A" "can_send ck A" "\<not> cf_reliable cfg"
    and "fragment_message p (cf_fragment_payload_bytes cfg) (cf_fec_enabled cfg) = Inr fs"
    and "ag_expected_inner_peer A \<in> {None, Some peer}" "ag_faults A = Some msg # rest"
  shows "fst (iran_inner X ck cfg p peer A) = Inl (OSError msg)"
proof -
  let ?A = "A\<lparr>ag_inner_peer := Some peer\<rparr>"
  have data: "is_data_kind DATA_UP" by (simp add: is_data_kind_def)
  have "can_send ck ?A" "ag_faults ?A = Some msg # rest" using assms(2,6) by (simp_all add: can_send_def)
  from iran_link.does_send_data_fault [OF assms(4) data this(1) assms(3) this(2)]
  obtain B where B: "does (send_data X ck cfg (iran_transport_send ck cfg) DATA_UP p) ?A (Inl (OSError msg)) B"
    by blast
  have up: "does (act_update (\<lambda>A. A\<lparr>ag_inner_peer := Some peer\<rparr>)) A (Inr ()) ?A"
    by (rule does_update) simp
  have ex: "does (act_get ag_expected_inner_peer) A (Inr (ag_expected_inner_peer A)) A"
    by (rule does_get) simp
  have cond: "\<not> (ag_expected_inner_peer A \<noteq> None \<and> Some peer \<noteq> ag_expected_inner_peer A)"
    using assms(5) by auto
  have fault: "does (act_try (act_bind (send_data X ck cfg (iran_transport_send ck cfg) DATA_UP p) (\<lambda>_. act_return ()))
      is_protocol_error (\<lambda>_. metric_increment ck ''oversize_drops'' 1)) ?A (Inl (OSError msg)) B"
    by (rule does_try_escapes [OF does_bind_Inl [OF B]]) simp
  have run: "does (iran_inner X ck cfg p peer) A (Inl (OSError msg)) B"
    unfolding iran_inner_def
    by (rule does_bind [OF ex], simp only: cond if_False act_block.simps,
        intro does_then [OF up] does_skip [OF does_metric_add] does_skip [OF does_metric_set]
          does_then_Inl [OF fault]) (simp_all add: zero_counters_def settable_def)
  have "metrics_ok (ag_metrics A)" using assms(1) by (simp add: agent_ok_def)
  then obtain M where "iran_inner X ck cfg p peer A = (Inl (OSError msg), B\<lparr>ag_metrics := M\<rparr>)"
    by (rule does_result [OF run])
  then show ?thesis by simp
qed

theorem unreliable_send_fault_escapes_witness:
  "fst (iran_inner demo_crypto (demo_clock 100) (demo_iran_config False) [1, 2, 3] (''127.0.0.1'', 6)
     (demo_iran\<lparr>ag_faults := [Some ''network is unreachable'']\<rparr>)) = Inl (OSError ''network is unreachable'')"
proof (rule unreliable_send_fault_escapes [where rest = "[]"])
  show "fragment_message [1, 2, 3] (cf_fragment_payload_bytes (demo_iran_config False))
      (cf_fec_enabled (demo_iran_config False)) = Inr [data_spec 256 [1, 2, 3] 0]"
    using demo_fragments by (simp add: demo_defs common_config.defs)
qed (use demo_agents_ok(1) demo_can_send(1) in \<open>simp_all add: agent_ok_def can_send_def demo_defs common_config.defs\<close>)


text \<open>
  C21. A message that completes at the Iran side before the local application has sent anything is lost:
  no inner peer is known, the payload is dropped, yet the message counts as completed. When the sender
  retransmits, the repeated frame is answered with an acknowledgement, so the sender stops, and the
  message is never handed to anyone.
\<close>

theorem message_lost_without_inner_peer:
  assumes "agent_ok A" "ag_inner_peer A = None" "ag_faults A = []" "iran_admits cfg a"
    and "decode X (ag_codec A) packet (wall_ms ck) = Inr f" "fr_kind f = DATA_DOWN"
    and "\<not> replay_blocked (ag_replay A) (fr_session_id f, fr_sequence f)"
    and "Reassembler_add (ck_mono ck) f (ag_reassembler A) = (Inr res, R)" "rr_payload res = Some p"
    and "can_encode ck' A" "decode X (ag_codec A) packet (wall_ms ck') = Inr f"
    and "ck_mono ck' - ck_mono ck \<le> ra_completed_ttl_seconds (ag_reassembler A)"
  shows "\<exists>B C. iran_downlink X ck cfg packet a A = (Inr (), B) \<and> ag_sent B = ag_sent A \<and>
    iran_downlink X ck' cfg packet a B = (Inr (), C) \<and>
    ag_sent C = ag_sent A @ [(UplinkSock, ack_packet X ck' ACK_DOWN f A, ir_foreign_uplink cfg)]"
proof -
  have ok: "replay_ok (ag_replay A)" "\<not> replay_closing (ag_replay A)" "reassembler_ok (ag_reassembler A)"
    "metrics_ok (ag_metrics A)"
    using assms(1) by (simp_all add: agent_ok_def)
  obtain r where acc: "replay_decide (ck_mono ck) (ag_replay A) (fr_sequence f) (fr_session_id f) = (True, r)"
    using arw.accept_iff [OF ok(1)] assms(7)
    by (cases "replay_decide (ck_mono ck) (ag_replay A) (fr_sequence f) (fr_session_id f)") (metis fst_conv)
  have r: "replay_ok r" "\<not> replay_closing r" "replay_blocked r (fr_session_id f, fr_sequence f)"
    using arw.accept_ok [OF ok(1)] arw.accept_blocks [OF ok(1)] replay_decide_closing ok(2) acc
    by (metis snd_conv)+
  let ?B = "A\<lparr>ag_replay := r, ag_reassembler := R\<rparr>"
  have "does (iran_downlink_frame X ck cfg f) (A\<lparr>ag_replay := r\<rparr>) (Inr ()) ?B"
    using does_downlink_frame_partial [OF assms(6), of ck "A\<lparr>ag_replay := r\<rparr>" res R X cfg] assms(2,8) by simp
  then have first: "does (iran_downlink X ck cfg packet a) A (Inr ()) ?B"
    by (intro does_downlink_accepted [OF assms(4,5) ok(2) acc] does_try)
  obtain ys where ys: "ra_completed R = ys @ [((fr_session_id f, fr_message_id f), ck_mono ck)]"
    "dict_ok (ra_completed R)" "ra_completed_ttl_seconds R = ra_completed_ttl_seconds (ag_reassembler A)"
    by (rule add_completes [OF ok(3) assms(8,9)]) (rule that, simp_all add: frame_key_def)
  obtain S where comp: "is_completed (ck_mono ck') (fr_session_id f) (fr_message_id f) R = (True, S)"
    using is_completed_last [OF ys(1,2), of "ck_mono ck'"] ys(3) assms(12)
    by (cases "is_completed (ck_mono ck') (fr_session_id f) (fr_message_id f) R") simp
  let ?C = "with_sent [(UplinkSock, ack_packet X ck' ACK_DOWN f A, ir_foreign_uplink cfg)]
    (?B\<lparr>ag_replay := r, ag_reassembler := S, ag_sequence := ag_sequence A + 1\<rparr>)"
  have second: "does (iran_downlink X ck' cfg packet a) ?B (Inr ()) ?C"
    using iran_receiver.rejected [of cfg a X ?B packet ck' f r True S] assms(3,4,6,10,11) comp r
      replay_decide_rejects [OF r]
    by simp
  obtain M where M: "iran_downlink X ck cfg packet a A = (Inr (), ?B\<lparr>ag_metrics := M\<rparr>)" "metrics_ok M"
    by (rule does_result [OF first ok(4)])
  obtain N where "iran_downlink X ck' cfg packet a (?B\<lparr>ag_metrics := M\<rparr>) = (Inr (), ?C\<lparr>ag_metrics := N\<rparr>)"
    by (rule doesE [OF second M(2)])
  then show ?thesis
    using M(1) by (intro exI [of _ "?B\<lparr>ag_metrics := M\<rparr>"] exI [of _ "?C\<lparr>ag_metrics := N\<rparr>"]) (simp add: with_sent_def)
qed

definition demo_down :: frame where
  "demo_down = data_frame (ag_codec demo_foreign) 100000 DATA_DOWN 8 41 (data_spec 256 [1, 2, 3] 0)"

lemma demo_down_ok: "frame_ok demo_down"
  unfolding demo_down_def
  by (rule data_frame_ok [OF demo_fragments])
    (simp_all add: is_data_kind_def demo_foreign_def demo_agent_def codec_ok_def demo_codec_def demo_tunnel_def)

lemma demo_down_decodes:
  "\<bar>now - 100000\<bar> \<le> 600000 \<Longrightarrow> decode demo_crypto (ag_codec demo_iran) (demo_packet_of DATA_DOWN demo_foreign) now = Inr demo_down"
  using demo_down_ok opens_seal [OF demo_aead_ok]
  by (simp add: decode_iff fresh_def demo_packet_of_def message_packets_def demo_wall truncate_rat_def)
    (simp add: demo_down_def demo_iran_def demo_foreign_def demo_agent_def demo_codec_def)

theorem message_lost_without_inner_peer_witness:
  "\<exists>B C. iran_downlink demo_crypto (demo_clock 101) (demo_iran_config True) (demo_packet_of DATA_DOWN demo_foreign) (''x'', 9) demo_iran = (Inr (), B) \<and>
    ag_sent B = [] \<and>
    iran_downlink demo_crypto (demo_clock 102) (demo_iran_config True) (demo_packet_of DATA_DOWN demo_foreign) (''x'', 9) B = (Inr (), C) \<and>
    ag_sent C = [(UplinkSock, ack_packet demo_crypto (demo_clock 102) ACK_DOWN demo_down demo_iran, (''198.51.100.2'', 2))]"
proof -
  let ?R = "ag_reassembler demo_iran"
  have "genuine 256 [1, 2, 3] demo_down"
    using demo_fragments by (auto simp: genuine_def carries_def demo_down_def)
  moreover have "frame_key demo_down = (5678, 8)"
    by (simp add: demo_down_def demo_foreign_def demo_agent_def)
  moreover have "roomy 101 101 {(5678, 8)} ?R" "tracks 101 256 [1, 2, 3] (5678, 8) {} ?R"
    by (simp_all add: roomy_def tracks_def demo_iran_def demo_agent_def dict_ok_def)
  moreover have "fragment_count 256 ([1, 2, 3] :: bytes) = 1" by (simp add: fragment_count_def)
  ultimately obtain res R where "Reassembler_add 101 demo_down ?R = (Inr res, R)" "rr_payload res = Some [1, 2, 3]"
    using Reassembler_add_own [of 101 101 "{(5678, 8)}" ?R demo_down 101 256 "[1, 2, 3]" "{}"]
    by (cases "Reassembler_add 101 demo_down ?R") auto
  then show ?thesis
    using message_lost_without_inner_peer [OF demo_agents_ok(1), of "demo_iran_config True" "(''x'', 9)" demo_crypto
        "demo_packet_of DATA_DOWN demo_foreign" "demo_clock 101" demo_down res R "[1, 2, 3]" "demo_clock 102"]
      demo_down_decodes demo_fresh demo_can_send(1)
    by (simp add: demo_wall truncate_rat_def can_encode_def can_send_def)
      (simp add: demo_defs demo_down_def common_config.defs iran_admits_def)
qed

end
