(* ===== verification/Py_Net.thy ===== *)
theory Py_Net
  imports Py_Json
begin

text \<open>
  IPv4 addresses as text, the way \<open>ipaddress\<close> reads and prints them, and the splitting and joining
  of strings it is made of.
\<close>

section \<open>Addresses as text\<close>

text \<open>\<open>s.split(c)\<close> for one character, and \<open>c.join(parts)\<close>.\<close>

fun split_on :: "char \<Rightarrow> string \<Rightarrow> string list" where
  "split_on c [] = [[]]"
| "split_on c (x # xs) =
     (if x = c then [] # split_on c xs
      else (case split_on c xs of [] \<Rightarrow> [[x]] | y # ys \<Rightarrow> (x # y) # ys))"

fun join_with :: "char \<Rightarrow> string list \<Rightarrow> string" where
  "join_with c [] = []"
| "join_with c [s] = s"
| "join_with c (s # ss) = s @ c # join_with c ss"

text \<open>
  \<open>ipaddress.IPv4Address(text).packed\<close>: four decimal octets of at most three digits without leading
  zeros; \<open>None\<close> is its \<open>AddressValueError\<close>. Then \<open>str\<close> of an address.
\<close>

definition octet_of_text :: "string \<Rightarrow> byte option" where
  "octet_of_text s =
     (if s = [] \<or> \<not> list_all (\<lambda>c. digit_val 10 c \<noteq> None) s \<or> length s > 3 \<or> s \<noteq> ''0'' \<and> hd s = CHR ''0''
      then None
      else (case parse_nat 10 s of
              None \<Rightarrow> None
            | Some v \<Rightarrow> if v > 255 then None else Some (word_of_nat v)))"

fun octets_of_texts :: "string list \<Rightarrow> bytes option" where
  "octets_of_texts [] = Some []"
| "octets_of_texts (s # ss) =
     (case octet_of_text s of
        None \<Rightarrow> None
      | Some b \<Rightarrow> map_option (\<lambda>bs. b # bs) (octets_of_texts ss))"

definition ipv4_of_text :: "string \<Rightarrow> bytes option" where
  "ipv4_of_text s =
     (let octets = split_on CHR ''.'' s in
      if length octets \<noteq> 4 then None else octets_of_texts octets)"

definition text_of_ipv4 :: "bytes \<Rightarrow> string" where
  "text_of_ipv4 bs = join_with CHR ''.'' (map (\<lambda>b. digits 10 (unat b)) bs)"

lemma octets_length: "octets_of_texts ss = Some bs \<Longrightarrow> length bs = length ss"
  by (induction ss arbitrary: bs) (auto split: option.splits)

lemma ipv4_length: "ipv4_of_text s = Some bs \<Longrightarrow> length bs = 4"
  by (auto simp: ipv4_of_text_def Let_def split: if_splits dest: octets_length)

lemma split_on_nonempty [simp]: "split_on c s \<noteq> []"
  by (induction s) (auto split: list.splits)

lemma split_on_join:
  "ss \<noteq> [] \<Longrightarrow> (\<forall>s \<in> set ss. c \<notin> set s) \<Longrightarrow> split_on c (join_with c ss) = ss"
proof (induction c ss rule: join_with.induct)
  case (2 c s)
  then have "c \<notin> set s" by simp
  then show ?case by (induction s) auto
next
  case (3 c s t ts)
  then have IH: "split_on c (join_with c (t # ts)) = t # ts" by simp
  have "c \<notin> set s" using 3 by simp
  then have "split_on c (s @ c # join_with c (t # ts)) = s # t # ts"
    by (induction s) (use IH in auto)
  then show ?case by simp
qed simp

lemma join_with_split [simp]: "join_with c (split_on c s) = s"
proof (induction s)
  case (Cons x xs)
  obtain y ys where y: "split_on c xs = y # ys" by (cases "split_on c xs") auto
  show ?case
  proof (cases "x = c")
    case True
    then show ?thesis using Cons y by simp
  next
    case False
    then have "split_on c (x # xs) = (x # y) # ys" using y by simp
    moreover have "join_with c ((x # y) # ys) = x # join_with c (y # ys)" by (cases ys) simp_all
    ultimately show ?thesis using Cons y by simp
  qed
qed simp

text \<open>The octets: every byte has one text, and only that one is accepted.\<close>

lemma digits_one: "v < 10 \<Longrightarrow> digits 10 v = [digit_char v]"
  by (subst digits.simps) simp

lemma digits_snoc: "0 < n \<Longrightarrow> v < 10 \<Longrightarrow> digits 10 (10 * n + v) = digits 10 n @ [digit_char v]"
  by (subst digits.simps) simp

lemma digit_char_zero: "v < 10 \<Longrightarrow> digit_char v = CHR ''0'' \<longleftrightarrow> v = 0"
proof -
  assume "v < 10"
  moreover have "list_all (\<lambda>v. digit_char v = CHR ''0'' \<longleftrightarrow> v = 0) [0..<10]" by code_simp
  ultimately show ?thesis unfolding list_all_iff by auto
qed

lemma digit_char_dot: "v < 10 \<Longrightarrow> digit_char v \<noteq> CHR ''.''"
proof -
  assume "v < 10"
  moreover have "list_all (\<lambda>v. digit_char v \<noteq> CHR ''.'') [0..<10]" by code_simp
  ultimately show ?thesis unfolding list_all_iff by auto
qed

text \<open>The digits of an octet: one, two or three, the first not zero unless it is alone.\<close>

lemma octet_digits:
  assumes "n < 256"
  shows "length (digits 10 n) \<le> 3" "digits 10 n = ''0'' \<or> hd (digits 10 n) \<noteq> CHR ''0''"
proof -
  have one: "length (digits 10 m) = 1 \<and> (digits 10 m = ''0'' \<or> hd (digits 10 m) \<noteq> CHR ''0'')" if "m < 10" for m
    using that digit_char_zero [of m] by (auto simp: digits_one digit_char_def)
  have two: "length (digits 10 m) \<le> 2 \<and> (digits 10 m = ''0'' \<or> hd (digits 10 m) \<noteq> CHR ''0'')" if "m < 100" for m
  proof (cases "m < 10")
    case False
    then have "digits 10 m = digits 10 (m div 10) @ [digit_char (m mod 10)]" by (subst digits.simps) simp
    moreover have "m div 10 < 10" "digits 10 (m div 10) \<noteq> ''0''"
      using that False digit_char_zero [of "m div 10"] by (auto simp: digits_one)
    ultimately show ?thesis using one [of "m div 10"] by auto
  qed (use one [of m] in auto)
  have "length (digits 10 n) \<le> 3 \<and> (digits 10 n = ''0'' \<or> hd (digits 10 n) \<noteq> CHR ''0'')"
  proof (cases "n < 10")
    case False
    then have n: "digits 10 n = digits 10 (n div 10) @ [digit_char (n mod 10)]" by (subst digits.simps) simp
    have "n div 10 < 100" "n div 10 \<noteq> 0" using assms False by auto
    moreover from this have "digits 10 (n div 10) \<noteq> ''0''"
      using digit_char_zero [of "n div 10"] digits_one [of "n div 10"] digits.simps [of 10 "n div 10"]
      by (auto split: if_splits)
    ultimately show ?thesis using two [of "n div 10"] n by auto
  qed (use one [of n] in auto)
  then show "length (digits 10 n) \<le> 3" "digits 10 n = ''0'' \<or> hd (digits 10 n) \<noteq> CHR ''0''" by auto
qed

lemma octet_of_text_digits: "octet_of_text (digits 10 (unat b)) = Some b" "CHR ''.'' \<notin> set (digits 10 (unat b))"
proof -
  have range: "unat b < 256" using unsigned_less [of b] by simp
  have set: "set (digits 10 (unat b)) \<subseteq> digit_char ` {..<10}" by (rule digits_set) simp
  then have "list_all (\<lambda>c. digit_val 10 c \<noteq> None) (digits 10 (unat b))"
    by (auto simp: list_all_iff digit_val_char)
  then show "octet_of_text (digits 10 (unat b)) = Some b"
    using octet_digits [OF range] range by (auto simp: octet_of_text_def parse_nat_digits)
  show "CHR ''.'' \<notin> set (digits 10 (unat b))" using set digit_char_dot by fastforce
qed

lemma digit_valE: "digit_val 10 c = Some v \<Longrightarrow> c = digit_char v \<and> v < 10"
  by (auto simp: digit_val_def digit_char_def Let_def split: if_splits)

lemma octet_text_unique:
  assumes "octet_of_text s = Some b"
  shows "digits 10 (unat b) = s"
proof -
  have s: "s \<noteq> []" "list_all (\<lambda>c. digit_val 10 c \<noteq> None) s" "length s \<le> 3" "s = ''0'' \<or> hd s \<noteq> CHR ''0''"
    using assms by (auto simp: octet_of_text_def split: if_splits)
  obtain v where v: "parse_nat 10 s = Some v" "v \<le> 255" "b = word_of_nat v"
    using assms by (auto simp: octet_of_text_def not_less split: if_splits option.splits)
  have no: "digit_char d \<noteq> CHR ''_''" if "d < 10" for d using digit_char_props(1) [of d] that by simp
  have "digits 10 v = s"
  proof (cases s)
    case (Cons c cs)
    then obtain x where x: "c = digit_char x" "x < 10" using s(2) digit_valE by fastforce
    show ?thesis
    proof (cases cs)
      case Nil
      then show ?thesis using Cons v(1) x by (simp add: parse_nat_def digit_val_char digits_one)
    next
      case (Cons d ds)
      then obtain y where y: "d = digit_char y" "y < 10" using s(2) \<open>s = c # cs\<close> digit_valE by fastforce
      have "0 < x" using s(4) x Cons \<open>s = c # cs\<close> digit_char_zero [of x] by auto
      show ?thesis
      proof (cases ds)
        case Nil
        then show ?thesis
          using Cons \<open>s = c # cs\<close> v(1) x y \<open>0 < x\<close> no digits_snoc [of x y]
          by (auto simp: parse_nat_def digit_val_char digits_one mult.commute)
      next
        case third: (Cons e es)
        then obtain z where z: "e = digit_char z" "z < 10" "es = []"
          using s(2,3) Cons \<open>s = c # cs\<close> digit_valE by fastforce
        then show ?thesis
          using Cons third \<open>s = c # cs\<close> v(1) x y \<open>0 < x\<close> no digits_snoc [of "10 * x + y" z] digits_snoc [of x y]
          by (auto simp: parse_nat_def digit_val_char digits_one mult.commute)
      qed
    qed
  qed (use s in simp)
  then show ?thesis using v by (simp add: unat_of_nat)
qed

lemma octets_of_texts_digits: "octets_of_texts (map (\<lambda>b. digits 10 (unat b)) bs) = Some bs"
  by (induction bs) (simp_all add: octet_of_text_digits)

lemma octets_text_unique: "octets_of_texts ss = Some bs \<Longrightarrow> map (\<lambda>b. digits 10 (unat b)) bs = ss"
  by (induction ss arbitrary: bs) (auto split: option.splits dest: octet_text_unique)

lemma ipv4_of_text_of_ipv4:
  assumes "length bs = 4"
  shows "ipv4_of_text (text_of_ipv4 bs) = Some bs"
proof -
  have "map (\<lambda>b. digits 10 (unat b)) bs \<noteq> []" using assms by auto
  then have "split_on CHR ''.'' (text_of_ipv4 bs) = map (\<lambda>b. digits 10 (unat b)) bs"
    unfolding text_of_ipv4_def by (rule split_on_join) (auto simp: octet_of_text_digits)
  then show ?thesis by (simp add: ipv4_of_text_def octets_of_texts_digits assms)
qed

lemma text_of_ipv4_of_text: "ipv4_of_text s = Some bs \<Longrightarrow> text_of_ipv4 bs = s"
proof -
  assume "ipv4_of_text s = Some bs"
  then have "octets_of_texts (split_on CHR ''.'' s) = Some bs"
    by (simp add: ipv4_of_text_def Let_def split: if_splits)
  then have "map (\<lambda>b. digits 10 (unat b)) bs = split_on CHR ''.'' s" by (rule octets_text_unique)
  then show ?thesis unfolding text_of_ipv4_def by simp
qed

end
