(* ===== verification/Raw_Udp.thy ===== *)
theory Raw_Udp
  imports Py_Net Py_Struct "HOL-Library.While_Combinator"
begin

text \<open>
  \<open>h3ntun/raw_udp.py\<close>: the internet checksum and the builder of an IPv4 packet with a UDP segment. The
  headers are two more instances of the locale \<open>packed_record\<close>. Shown: the checksum is the one's
  complement sum of RFC 1071, its loop ends, and a built packet parses back and verifies.
\<close>

section \<open>The internet checksum\<close>

text \<open>The sum of the 16-bit words of the padded data, and the loop that folds the carries in.\<close>

definition padded :: "bytes \<Rightarrow> bytes" where
  "padded data = (if length data mod 2 \<noteq> 0 then data @ [0] else data)"

definition word_total :: "bytes \<Rightarrow> int" where
  "word_total data =
     sum_list (map as_int (unpack_fields (replicate (length (padded data) div 2) (FUInt 2)) (padded data)))"

definition carry_step :: "nat \<Rightarrow> nat" where
  "carry_step n = (n AND 0xFFFF) + drop_bit 16 n"

lemma carry_step_eq: "carry_step t = t mod 65536 + t div 65536"
  using take_bit_eq_mask [of 16 t] by (simp add: carry_step_def take_bit_eq_mod drop_bit_eq_div mask_eq_exp_minus_1)

lemma carry_step_less: "drop_bit 16 t \<noteq> 0 \<Longrightarrow> carry_step t < t"
proof -
  assume "drop_bit 16 t \<noteq> 0"
  then have "0 < t div 65536" by (simp add: drop_bit_eq_div)
  moreover have "t = 65536 * (t div 65536) + t mod 65536" by simp
  ultimately show ?thesis unfolding carry_step_eq by linarith
qed

function carry_loop :: "nat \<Rightarrow> nat" where
  "carry_loop n = (if drop_bit 16 n \<noteq> 0 then carry_loop (carry_step n) else n)"
  by auto
termination by (relation "measure id") (auto simp: carry_step_less)

declare carry_loop.simps [simp del]

definition internet_checksum :: "bytes \<Rightarrow> int" where
  "internet_checksum data = (NOT (int (carry_loop (nat (word_total data))))) AND 0xFFFF"


subsection \<open>What the checksum is\<close>

fun word_sum :: "bytes \<Rightarrow> nat" where
  "word_sum [] = 0"
| "word_sum [a] = 256 * unat a"
| "word_sum (a # b # bs) = 256 * unat a + unat b + word_sum bs"

lemma padded_Cons: "padded (a # b # bs) = a # b # padded bs"
  by (simp add: padded_def)

lemma word_total_eq: "word_total bs = int (word_sum bs)"
proof (induction bs rule: word_sum.induct)
  case 1
  then show ?case by (simp add: word_total_def padded_def)
next
  case (2 a)
  then show ?case by (simp add: word_total_def padded_def be_nat_def)
next
  case (3 a b bs)
  then show ?case by (simp add: word_total_def padded_Cons be_nat_def)
qed

lemma word_sum_append: "even (length xs) \<Longrightarrow> word_sum (xs @ ys) = word_sum xs + word_sum ys"
  by (induction xs rule: word_sum.induct) simp_all

lemma word_sum_be_bytes: "v < 65536 \<Longrightarrow> word_sum (be_bytes 2 v) = v"
  by (simp add: numeral_2_eq_2 unat_of_nat)

lemma carry_step_split: "n = carry_step n + 65535 * (n div 65536)"
  unfolding carry_step_eq using mod_mult_div_eq [of n 65536] by linarith

lemma carry_loop_eq: "carry_loop n = (if n = 0 then 0 else (n - 1) mod 65535 + 1)"
proof (induction n rule: carry_loop.induct)
  case (1 n)
  show ?case
  proof (cases "drop_bit 16 n = 0")
    case True
    then have "n < 65536" by (simp add: drop_bit_eq_div div_eq_0_iff)
    with True show ?thesis by (subst carry_loop.simps) auto
  next
    case False
    then have "65536 \<le> n" by (simp add: drop_bit_eq_div div_eq_0_iff)
    then have "1 \<le> n div 65536" using div_le_mono [of 65536 n 65536] by simp
    then have pos: "0 < carry_step n" "0 < n" using \<open>65536 \<le> n\<close> by (simp_all add: carry_step_eq)
    have "n - 1 = (carry_step n - 1) + 65535 * (n div 65536)"
      using carry_step_split [of n] pos by linarith
    then have "(n - 1) mod 65535 = (carry_step n - 1) mod 65535" by (metis mod_mult_self2)
    then show ?thesis using 1 False pos by (subst carry_loop.simps) simp
  qed
qed


lemma carry_loop_less: "carry_loop n < 65536"
  by (simp add: carry_loop_eq)

lemma internet_checksum_eq: "internet_checksum bs = 65535 - int (carry_loop (word_sum bs))"
proof -
  have "NOT (int n) AND 0xFFFF = 65535 - int n" if "n < 65536" for n
  proof -
    have "NOT (int n) AND 0xFFFF = (- int n - 1) mod 65536"
      by (simp add: not_int_def flip: take_bit_eq_mask take_bit_eq_mod [of 16, simplified] mask_eq_exp_minus_1 [of 16, where 'a = int, simplified])
    also have "- int n - 1 = (65535 - int n) + 65536 * (- 1)" by simp
    also have "((65535 - int n) + 65536 * (- 1)) mod 65536 = (65535 - int n) mod 65536"
      by (rule mod_mult_self2)
    also have "\<dots> = 65535 - int n" using that by (intro mod_pos_pos_trivial) simp_all
    finally show ?thesis .
  qed
  then show ?thesis using carry_loop_less by (simp add: internet_checksum_def word_total_eq)
qed

text \<open>Writing the checksum of the rest into its field makes the checksum of the whole zero.\<close>

lemma checksum_verifies:
  assumes "word_sum whole = word_sum rest + nat c" "c = internet_checksum rest \<or> c = 65535 \<and> internet_checksum rest = 0"
  shows "internet_checksum whole = 0"
proof -
  let ?s = "word_sum rest"
  have c: "nat c = 65535 - carry_loop ?s \<or> c = 65535 \<and> carry_loop ?s = 65535"
    using assms(2) carry_loop_less [of ?s] by (auto simp: internet_checksum_eq)
  have "carry_loop (word_sum whole) = 65535"
  proof (cases "?s = 0")
    case True
    then have "word_sum whole = 65535" using c assms(1) by (auto simp: carry_loop_eq)
    then show ?thesis by (simp add: carry_loop_eq)
  next
    case False
    define q r where "q = (?s - 1) div 65535" and "r = (?s - 1) mod 65535"
    have s: "?s = 65535 * q + r + 1" "r < 65535"
      using False div_mult_mod_eq [of "?s - 1" 65535] by (simp_all add: q_def r_def)
    have loop: "carry_loop ?s = r + 1" using False by (simp add: carry_loop_eq r_def)
    have "\<exists>k. word_sum whole = 65535 * k \<and> 0 < k"
    proof (cases "c = 65535 \<and> carry_loop ?s = 65535")
      case True
      then have "word_sum whole = 65535 * (q + 2)" using s loop assms(1) by simp
      then show ?thesis by (metis add_2_eq_Suc' zero_less_Suc)
    next
      case False
      then have "nat c = 65535 - (r + 1)" using c loop by auto
      then have "word_sum whole = 65535 * (q + 1)" using s assms(1) by simp
      then show ?thesis by (metis Suc_eq_plus1 zero_less_Suc)
    qed
    then obtain k where k: "word_sum whole = 65535 * k" "0 < k" by blast
    then have "word_sum whole - 1 = 65534 + 65535 * (k - 1)" by (cases k) simp_all
    moreover have "(65534 + 65535 * (k - 1)) mod 65535 = 65534 mod (65535 :: nat)" by (rule mod_mult_self2)
    ultimately have "(word_sum whole - 1) mod 65535 = 65534" by simp
    then show ?thesis using k by (simp add: carry_loop_eq)
  qed
  then show ?thesis by (simp add: internet_checksum_eq)
qed

section \<open>The packet\<close>

record udp_header =
  uh_source_port :: int
  uh_destination_port :: int
  uh_length :: int
  uh_checksum :: int

record ip_header =
  ih_version :: int
  ih_tos :: int
  ih_total_len :: int
  ih_packet_id :: int
  ih_fragment :: int
  ih_ttl :: int
  ih_protocol :: int
  ih_checksum :: int
  ih_source :: bytes
  ih_destination :: bytes

definition UDP_HEADER :: "sfield list" where
  "UDP_HEADER = [FUInt 2, FUInt 2, FUInt 2, FUInt 2]"

definition IP_HEADER :: "sfield list" where
  "IP_HEADER = [FUInt 1, FUInt 1, FUInt 2, FUInt 2, FUInt 2, FUInt 1, FUInt 1, FUInt 2, FStr 4, FStr 4]"

definition udp_vals :: "udp_header \<Rightarrow> sval list" where
  "udp_vals h = [VInt (uh_source_port h), VInt (uh_destination_port h), VInt (uh_length h), VInt (uh_checksum h)]"

definition udp_of_vals :: "sval list \<Rightarrow> udp_header" where
  "udp_of_vals vs = \<lparr>uh_source_port = as_int (vs ! 0), uh_destination_port = as_int (vs ! 1),
     uh_length = as_int (vs ! 2), uh_checksum = as_int (vs ! 3)\<rparr>"

definition ip_vals :: "ip_header \<Rightarrow> sval list" where
  "ip_vals h = [VInt (ih_version h), VInt (ih_tos h), VInt (ih_total_len h), VInt (ih_packet_id h),
     VInt (ih_fragment h), VInt (ih_ttl h), VInt (ih_protocol h), VInt (ih_checksum h),
     VBytes (ih_source h), VBytes (ih_destination h)]"

definition ip_of_vals :: "sval list \<Rightarrow> ip_header" where
  "ip_of_vals vs = \<lparr>ih_version = as_int (vs ! 0), ih_tos = as_int (vs ! 1), ih_total_len = as_int (vs ! 2),
     ih_packet_id = as_int (vs ! 3), ih_fragment = as_int (vs ! 4), ih_ttl = as_int (vs ! 5),
     ih_protocol = as_int (vs ! 6), ih_checksum = as_int (vs ! 7), ih_source = as_bytes (vs ! 8),
     ih_destination = as_bytes (vs ! 9)\<rparr>"

definition udp_valid :: "udp_header \<Rightarrow> bool" where
  "udp_valid h = list_all2 fits UDP_HEADER (udp_vals h)"

definition ip_valid :: "ip_header \<Rightarrow> bool" where
  "ip_valid h = list_all2 fits IP_HEADER (ip_vals h)"

interpretation udp: packed_record UDP_HEADER udp_vals udp_of_vals udp_valid
  by unfold_locales
    (auto simp: udp_valid_def UDP_HEADER_def list_all2_Cons1 udp_of_vals_def udp_vals_def)

interpretation ip: packed_record IP_HEADER ip_vals ip_of_vals ip_valid
  by unfold_locales
    (auto simp: ip_valid_def IP_HEADER_def list_all2_Cons1 ip_of_vals_def ip_vals_def)

text \<open>\<open>random_id\<close> is the value of \<open>random.randint(0, 65535)\<close>.\<close>

definition build_ipv4_udp_packet ::
  "int \<Rightarrow> string \<Rightarrow> int \<Rightarrow> string \<Rightarrow> int \<Rightarrow> bytes \<Rightarrow> int option \<Rightarrow> bytes result" where
  "build_ipv4_udp_packet random_id source_ip source_port destination_ip destination_port payload packet_id =
     (case ipv4_of_text source_ip of
        None \<Rightarrow> Inl (ValueError ''invalid IPv4 address'')
      | Some src \<Rightarrow>
     (case ipv4_of_text destination_ip of
        None \<Rightarrow> Inl (ValueError ''invalid IPv4 address'')
      | Some dst \<Rightarrow>
      if \<not> (0 \<le> source_port \<and> source_port \<le> 65535) \<or> \<not> (0 \<le> destination_port \<and> destination_port \<le> 65535)
        then Inl (ValueError ''UDP port is outside 0..65535'')
      else if length payload > 65507 then Inl (ValueError ''UDP payload is too large'')
      else
        (let udp_len = 8 + int (length payload);
             udp_zero = \<lparr>uh_source_port = source_port, uh_destination_port = destination_port,
               uh_length = udp_len, uh_checksum = 0\<rparr> in
         and_then (struct_pack UDP_HEADER (udp_vals udp_zero)) (\<lambda>udp_header_zero.
         and_then (struct_pack [FUInt 1, FUInt 1, FUInt 2] [VInt 0, VInt 17, VInt udp_len]) (\<lambda>tail.
         let pseudo = src @ dst @ tail;
             sum = internet_checksum (pseudo @ udp_header_zero @ payload);
             udp_checksum = (if sum = 0 then 0xFFFF else sum) in
         and_then (struct_pack UDP_HEADER (udp_vals (udp_zero\<lparr>uh_checksum := udp_checksum\<rparr>))) (\<lambda>udp_header.
         let total_len = 20 + udp_len;
             pid = (case packet_id of None \<Rightarrow> random_id | Some i \<Rightarrow> i);
             ip_zero = \<lparr>ih_version = 0x45, ih_tos = 0, ih_total_len = total_len, ih_packet_id = pid,
               ih_fragment = 0x4000, ih_ttl = 64, ih_protocol = 17, ih_checksum = 0,
               ih_source = src, ih_destination = dst\<rparr> in
         and_then (struct_pack IP_HEADER (ip_vals ip_zero)) (\<lambda>ip_header_zero.
         let ip_checksum = internet_checksum ip_header_zero in
         and_then (struct_pack IP_HEADER (ip_vals (ip_zero\<lparr>ih_checksum := ip_checksum\<rparr>))) (\<lambda>ip_header.
           Inr (ip_header @ udp_header @ payload)))))))))"


section \<open>The headers and their checksums\<close>

lemma udp_slot:
  assumes "struct_pack UDP_HEADER (udp_vals (h\<lparr>uh_checksum := 0\<rparr>)) = Inr z"
    and "struct_pack UDP_HEADER (udp_vals (h\<lparr>uh_checksum := c\<rparr>)) = Inr w"
  shows "word_sum w = word_sum z + nat c" "length w = 8" "length z = 8"
proof -
  have "0 \<le> c" "c < 65536" and w: "w = be_bytes 2 (nat (uh_source_port h)) @ be_bytes 2 (nat (uh_destination_port h)) @
      be_bytes 2 (nat (uh_length h)) @ be_bytes 2 (nat c)"
    and z: "z = be_bytes 2 (nat (uh_source_port h)) @ be_bytes 2 (nat (uh_destination_port h)) @
      be_bytes 2 (nat (uh_length h)) @ be_bytes 2 0"
    using assms by (auto simp: UDP_HEADER_def udp_vals_def split: if_splits)
  then show "word_sum w = word_sum z + nat c" "length w = 8" "length z = 8"
    by (simp_all add: word_sum_append word_sum_be_bytes)
qed

lemma ip_slot:
  assumes "struct_pack IP_HEADER (ip_vals (h\<lparr>ih_checksum := 0\<rparr>)) = Inr z"
    and "struct_pack IP_HEADER (ip_vals (h\<lparr>ih_checksum := c\<rparr>)) = Inr w"
    and "length (ih_source h) = 4" "length (ih_destination h) = 4"
  shows "word_sum w = word_sum z + nat c" "length w = 20"
proof -
  let ?front = "(be_bytes 1 (nat (ih_version h)) @ be_bytes 1 (nat (ih_tos h))) @ be_bytes 2 (nat (ih_total_len h)) @
      be_bytes 2 (nat (ih_packet_id h)) @ be_bytes 2 (nat (ih_fragment h)) @
      (be_bytes 1 (nat (ih_ttl h)) @ be_bytes 1 (nat (ih_protocol h)))"
  have c: "0 \<le> c" "c < 65536" and w: "w = ?front @ be_bytes 2 (nat c) @ ih_source h @ ih_destination h"
    and z: "z = ?front @ be_bytes 2 0 @ ih_source h @ ih_destination h"
    using assms by (auto simp: IP_HEADER_def ip_vals_def split: if_splits)
  have front: "even (length ?front)" by simp
  have sum: "word_sum (?front @ be_bytes 2 v @ ih_source h @ ih_destination h) =
      word_sum ?front + (v + word_sum (ih_source h @ ih_destination h))" if "v < 65536" for v
    unfolding word_sum_append [OF front] using word_sum_append [of "be_bytes 2 v"] word_sum_be_bytes [OF that]
    by (simp del: be_bytes.simps)
  have "nat c < 65536" using c by simp
  then show "word_sum w = word_sum z + nat c" unfolding w z by (simp only: sum)
  show "length w = 20" by (simp add: w assms(3,4))
qed

text \<open>The two headers as the builder fills them, for \<open>n\<close> bytes after the IPv4 header.\<close>

abbreviation udp_hdr :: "int \<Rightarrow> int \<Rightarrow> int \<Rightarrow> int \<Rightarrow> udp_header" where
  "udp_hdr source_port destination_port n c \<equiv> \<lparr>uh_source_port = source_port,
     uh_destination_port = destination_port, uh_length = n, uh_checksum = c\<rparr>"

abbreviation ip_hdr :: "int \<Rightarrow> int \<Rightarrow> bytes \<Rightarrow> bytes \<Rightarrow> int \<Rightarrow> ip_header" where
  "ip_hdr n pid src dst c \<equiv> \<lparr>ih_version = 0x45, ih_tos = 0, ih_total_len = 20 + n, ih_packet_id = pid,
     ih_fragment = 0x4000, ih_ttl = 64, ih_protocol = 17, ih_checksum = c, ih_source = src, ih_destination = dst\<rparr>"

text \<open>What a successful call went through.\<close>

lemma build_parts:
  assumes "build_ipv4_udp_packet random_id source_ip source_port destination_ip destination_port payload packet_id = Inr packet"
  obtains src dst pid uz u tail i z c where "ipv4_of_text source_ip = Some src" "ipv4_of_text destination_ip = Some dst"
    "length payload \<le> 65507" "pid = (case packet_id of None \<Rightarrow> random_id | Some i \<Rightarrow> i)"
    "struct_pack [FUInt 1, FUInt 1, FUInt 2] [VInt 0, VInt 17, VInt (8 + int (length payload))] = Inr tail"
    "struct_pack UDP_HEADER (udp_vals (udp_hdr source_port destination_port (8 + int (length payload)) 0)) = Inr uz"
    "c = (if internet_checksum ((src @ dst @ tail) @ uz @ payload) = 0 then 0xFFFF
       else internet_checksum ((src @ dst @ tail) @ uz @ payload))"
    "struct_pack UDP_HEADER (udp_vals (udp_hdr source_port destination_port (8 + int (length payload)) c)) = Inr u"
    "struct_pack IP_HEADER (ip_vals (ip_hdr (8 + int (length payload)) pid src dst 0)) = Inr z"
    "struct_pack IP_HEADER (ip_vals (ip_hdr (8 + int (length payload)) pid src dst (internet_checksum z))) = Inr i"
    "packet = i @ u @ payload"
proof -
  obtain src dst where addr: "ipv4_of_text source_ip = Some src" "ipv4_of_text destination_ip = Some dst"
    using assms by (cases "ipv4_of_text source_ip"; cases "ipv4_of_text destination_ip")
      (simp_all add: build_ipv4_udp_packet_def)
  have len: "length payload \<le> 65507"
    using assms by (simp add: build_ipv4_udp_packet_def addr not_less split: if_splits)
  have "0 \<le> source_port \<and> source_port \<le> 65535" "0 \<le> destination_port \<and> destination_port \<le> 65535"
    using assms by (auto simp: build_ipv4_udp_packet_def addr split: if_splits)
  note steps = assms [unfolded build_ipv4_udp_packet_def Let_def addr option.case]
  from steps \<open>length payload \<le> 65507\<close> this show thesis
    by (simp only: not_less [symmetric] if_False simp_thms result_simps udp_header.simps ip_header.simps)
      (elim exE conjE, rule that, rule addr, rule addr, rule len, rule refl, assumption, assumption, rule refl, assumption,
        assumption, assumption, simp)
qed

lemma pack_tail: "n < 65536 \<Longrightarrow> struct_pack [FUInt 1, FUInt 1, FUInt 2] [VInt 0, VInt 17, VInt (int n)] = Inr ([0, 17] @ be_bytes 2 n)"
  by simp

lemma build_accepts:
  "((\<exists>packet. build_ipv4_udp_packet random_id source_ip source_port destination_ip destination_port payload packet_id = Inr packet) \<longleftrightarrow>
     ipv4_of_text source_ip \<noteq> None \<and> ipv4_of_text destination_ip \<noteq> None \<and>
     source_port \<in> {0..65535} \<and> destination_port \<in> {0..65535} \<and> length payload \<le> 65507 \<and>
     (case packet_id of None \<Rightarrow> random_id | Some i \<Rightarrow> i) \<in> {0..65535}) \<and>
   raises_only (\<lambda>e. is_value_error e \<or> e = StructError)
     (build_ipv4_udp_packet random_id source_ip source_port destination_ip destination_port payload packet_id)"
proof (cases "ipv4_of_text source_ip = None \<or> ipv4_of_text destination_ip = None \<or>
    source_port \<notin> {0..65535} \<or> destination_port \<notin> {0..65535} \<or> 65507 < length payload")
  case True
  then show ?thesis
    by (auto simp: build_ipv4_udp_packet_def raises_only_def split: option.splits)
next
  case False
  let ?n = "8 + int (length payload)"
  obtain src dst where a: "ipv4_of_text source_ip = Some src" "ipv4_of_text destination_ip = Some dst"
    using False by auto
  have sp: "0 \<le> source_port" "source_port \<le> 65535" "0 \<le> destination_port" "destination_port \<le> 65535"
    "length payload \<le> 65507"
    using False by auto
  have ck: "0 \<le> internet_checksum bs" "internet_checksum bs < 65536" for bs
    using carry_loop_less [of "word_sum bs"] by (simp_all add: internet_checksum_eq)
  have udp: "\<exists>bs. struct_pack UDP_HEADER (udp_vals (udp_hdr source_port destination_port ?n c)) = Inr bs" if "0 \<le> c" "c < 65536" for c
    using sp that by (simp add: UDP_HEADER_def udp_vals_def)
  obtain uz where uz: "struct_pack UDP_HEADER (udp_vals (udp_hdr source_port destination_port ?n 0)) = Inr uz"
    using udp [of 0] by auto
  obtain tail where tail: "struct_pack [FUInt 1, FUInt 1, FUInt 2] [VInt 0, VInt 17, VInt ?n] = Inr tail"
    using sp by simp
  define c where "c = (if internet_checksum ((src @ dst @ tail) @ uz @ payload) = 0 then 0xFFFF
       else internet_checksum ((src @ dst @ tail) @ uz @ payload))"
  have crange: "0 \<le> c" "c < 65536" using ck by (simp_all add: c_def)
  obtain u where u: "struct_pack UDP_HEADER (udp_vals (udp_hdr source_port destination_port ?n c)) = Inr u"
    using udp [OF crange] by blast
  define pid where "pid = (case packet_id of None \<Rightarrow> random_id | Some i \<Rightarrow> i)"
  let ?ip = "\<lambda>k. struct_pack IP_HEADER (ip_vals (ip_hdr ?n pid src dst k))"
  have ip: "if pid \<in> {0..65535} then \<exists>bs. ?ip k = Inr bs else ?ip k = Inl StructError"
    if "0 \<le> k" "k < 65536" for k
    using sp that by (auto simp: IP_HEADER_def ip_vals_def)
  have build: "build_ipv4_udp_packet random_id source_ip source_port destination_ip destination_port payload packet_id =
      and_then (?ip 0) (\<lambda>z. and_then (?ip (internet_checksum z)) (\<lambda>i. Inr (i @ u @ payload)))"
  proof -
    have guards: "\<not> (\<not> (0 \<le> source_port \<and> source_port \<le> 65535) \<or> \<not> (0 \<le> destination_port \<and> destination_port \<le> 65535))"
      "\<not> 65507 < length payload" using sp by simp_all
    show ?thesis
      by (simp only: build_ipv4_udp_packet_def Let_def a option.case guards if_False uz tail and_then_simps(1)
          c_def [symmetric] pid_def [symmetric] udp_header.simps ip_header.simps u)
  qed
  show ?thesis
  proof (cases "pid \<in> {0..65535}")
    case True
    then obtain z where "?ip 0 = Inr z" using ip [of 0] by auto
    moreover obtain i where "?ip (internet_checksum z) = Inr i" using ip [of "internet_checksum z"] ck True by auto
    ultimately show ?thesis
      unfolding build using True False by (simp add: raises_only_def pid_def)
  next
    case out: False
    with ip [of 0] have "?ip 0 = Inl StructError" by (simp only: if_False)
    then show ?thesis unfolding build using out by (simp add: raises_only_def pid_def)
  qed
qed

section \<open>Properties\<close>

text \<open>One's complement addition of 16-bit words, with the carry added back at each step.\<close>

definition ones_add :: "nat \<Rightarrow> nat \<Rightarrow> nat" where
  "ones_add a b = (if a + b < 65536 then a + b else a + b - 65535)"

fun ones_sum :: "bytes \<Rightarrow> nat" where
  "ones_sum [] = 0"
| "ones_sum [a] = 256 * unat a"
| "ones_sum (a # b # bs) = ones_add (256 * unat a + unat b) (ones_sum bs)"

lemma ones_add_loop: "w < 65536 \<Longrightarrow> ones_add w (carry_loop n) = carry_loop (w + n)"
proof -
  assume w: "w < 65536"
  show ?thesis
  proof (cases "n = 0 \<or> w = 0")
    case True
    then show ?thesis using w by (auto simp: ones_add_def carry_loop_eq)
  next
    case False
    define r where "r = (n - 1) mod 65535"
    have "w + n - 1 = w + r + 65535 * ((n - 1) div 65535)"
      using False div_mult_mod_eq [of "n - 1" 65535] unfolding r_def by linarith
    then have "(w + n - 1) mod 65535 = (w + r) mod 65535" by (metis mod_mult_self2)
    also have "\<dots> = (if w + r < 65535 then w + r else w + r - 65535)"
      using w pos_mod_bound [of 65535 "int (n - 1)"] by (auto simp: r_def mod_if [of "w + _"])
    finally have mod: "(w + n - 1) mod 65535 = (if w + r < 65535 then w + r else w + r - 65535)" .
    have "Suc (w + r - 65535) = w + r - 65534" if "\<not> w + r < 65535" using that by linarith
    moreover have "(n - Suc 0) mod 65535 = r" by (simp add: r_def)
    ultimately show ?thesis using w False mod by (auto simp: ones_add_def carry_loop_eq)
  qed
qed

lemma ones_sum_eq: "ones_sum bs = carry_loop (word_sum bs)"
proof (induction bs rule: ones_sum.induct)
  case (2 a)
  have "(256 * unat a - 1) mod 65535 = 256 * unat a - 1"
    by (rule mod_less) (use unat_byte_less [of a] in linarith)
  then show ?case by (auto simp: carry_loop_eq)
next
  case (3 a b bs)
  have "256 * unat a + unat b < 65536" using unat_byte_less [of a] unat_byte_less [of b] by linarith
  then show ?case using 3 by (simp add: ones_add_loop)
qed (simp add: carry_loop_eq)


text \<open>
  C22. The checksum is the one of RFC 1071 on every byte string, of odd length too: the complement of
  the sum of the 16-bit words in one's complement arithmetic, where the code adds all words first and
  folds the carries at the end.
\<close>

theorem checksum_is_ones_complement_sum: "internet_checksum data = 65535 - int (ones_sum data)"
  by (simp add: internet_checksum_eq ones_sum_eq)

lemma carry_loop_while: "while_option (\<lambda>n. drop_bit 16 n \<noteq> 0) carry_step n = Some (carry_loop n)"
proof (induction n rule: carry_loop.induct)
  case (1 n)
  then show ?case by (subst while_option_unfold, subst carry_loop.simps) simp
qed

text \<open>
  The folding loop ends on every input, and after at most two rounds for a sum below \<open>2 ^ 32\<close>, which
  every packet of at most 65535 bytes satisfies; what it returns is the state of the loop at its end.
\<close>

theorem checksum_loop_terminates:
  "while_option (\<lambda>n. drop_bit 16 n \<noteq> 0) carry_step n = Some (carry_loop n) \<and> carry_loop n < 65536 \<and>
   (n < 2 ^ 32 \<longrightarrow> (\<exists>k \<le> 2. carry_loop n = (carry_step ^^ k) n))"
proof -
  have stop: "carry_loop m = m" if "m < 65536" for m
    using that by (subst carry_loop.simps) (simp add: drop_bit_eq_div)
  have go: "carry_loop m = carry_loop (carry_step m)" if "65536 \<le> m" for m
    using that div_le_mono [of 65536 m 65536] by (subst carry_loop.simps) (simp add: drop_bit_eq_div)
  have "\<exists>k \<le> 2. carry_loop n = (carry_step ^^ k) n" if n: "n < 2 ^ 32"
  proof (cases "n < 65536")
    case True
    then show ?thesis using stop by (intro exI [of _ 0]) simp
  next
    case big: False
    show ?thesis
    proof (cases "carry_step n < 65536")
      case True
      then show ?thesis using stop go big by (intro exI [of _ 1]) simp
    next
      case False
      have "n div 65536 < 65536" "n mod 65536 < 65536"
        using n by (simp_all add: div_less_iff_less_mult)
      then have "carry_step n \<le> 131070" by (simp add: carry_step_eq)
      then have "carry_step n div 65536 = 1" "carry_step n mod 65536 = carry_step n - 65536"
        using False by (simp_all add: mod_if div_if)
      then have "carry_step (carry_step n) < 65536"
        using \<open>carry_step n \<le> 131070\<close> False by (simp add: carry_step_eq [of "carry_step n"])
      then show ?thesis using stop go big False by (intro exI [of _ 2]) (simp add: numeral_2_eq_2)
    qed
  qed
  then show ?thesis using carry_loop_while carry_loop_less by blast
qed

theorem checksum_loop_terminates_witness:
  "(0x1FFFE :: nat) < 2 ^ 32 \<and> (\<exists>k \<le> 2. carry_loop 0x1FFFE = (carry_step ^^ k) 0x1FFFE)"
  using checksum_loop_terminates [of "0x1FFFE"] by simp

lemma ip_part:
  assumes "struct_pack IP_HEADER (ip_vals (ip_hdr n pid src dst 0)) = Inr z"
    and "struct_pack IP_HEADER (ip_vals (ip_hdr n pid src dst (internet_checksum z))) = Inr i"
    and "length src = 4" "length dst = 4"
  shows "internet_checksum i = 0" "length i = 20" "take 8 (drop 12 i) = src @ dst"
    "ip_of_vals (unpack_fields IP_HEADER (i @ rest)) = ip_hdr n pid src dst (internet_checksum z)"
proof -
  have i: "word_sum i = word_sum z + nat (internet_checksum z)" "length i = 20"
    using ip_slot [of "ip_hdr n pid src dst 0" z "internet_checksum z" i] assms by simp_all
  then show "length i = 20" by simp
  show "internet_checksum i = 0" by (rule checksum_verifies [OF i(1)]) simp
  show "take 8 (drop 12 i) = src @ dst"
    using assms by (auto simp: IP_HEADER_def ip_vals_def split: if_splits)
  show "ip_of_vals (unpack_fields IP_HEADER (i @ rest)) = ip_hdr n pid src dst (internet_checksum z)"
    by (rule ip.parse_pack [OF _ assms(2)])
      (use assms in \<open>auto simp: ip_valid_def IP_HEADER_def ip_vals_def split: if_splits\<close>)
qed

lemma udp_part:
  assumes "struct_pack UDP_HEADER (udp_vals (udp_hdr sp dp n 0)) = Inr uz"
    and "struct_pack UDP_HEADER (udp_vals (udp_hdr sp dp n c)) = Inr u"
    and "c = (if internet_checksum (pseudo @ uz @ payload) = 0 then 0xFFFF
       else internet_checksum (pseudo @ uz @ payload))" "even (length pseudo)"
  shows "internet_checksum (pseudo @ u @ payload) = 0" "length u = 8"
    "udp_of_vals (unpack_fields UDP_HEADER (u @ rest)) = udp_hdr sp dp n c"
proof -
  note us = udp_slot [of "udp_hdr sp dp n 0" uz c u, simplified, OF assms(1,2)]
  then show "length u = 8" by simp
  have even: "even (length u)" "even (length uz)" by (simp_all add: us)
  have "word_sum (pseudo @ u @ payload) = word_sum (pseudo @ uz @ payload) + nat c"
    unfolding word_sum_append [OF assms(4)] word_sum_append [OF even(1)] word_sum_append [OF even(2)] us(1) by simp
  then show "internet_checksum (pseudo @ u @ payload) = 0"
    by (rule checksum_verifies) (auto simp: assms(3))
  show "udp_of_vals (unpack_fields UDP_HEADER (u @ rest)) = udp_hdr sp dp n c"
    by (rule udp.parse_pack [OF _ assms(2)])
      (use assms(2) in \<open>auto simp: udp_valid_def UDP_HEADER_def udp_vals_def split: if_splits\<close>)
qed

text \<open>
  C23. A packet that is built is a valid IPv4 datagram with a UDP segment: both headers parse back to the
  lengths, addresses and ports that were asked for, the payload follows them, and both checksums
  verify, the second one over the pseudo header that a receiver forms from the packet.
\<close>

theorem built_packet_is_valid:
  assumes "build_ipv4_udp_packet random_id source_ip source_port destination_ip destination_port payload packet_id = Inr packet"
  shows "length packet = 28 + length payload \<and> drop 28 packet = payload \<and>
    internet_checksum (take 20 packet) = 0 \<and>
    internet_checksum (take 8 (drop 12 packet) @ [0, 17] @ be_bytes 2 (length packet - 20) @ drop 20 packet) = 0 \<and>
    (let i = ip_of_vals (unpack_fields IP_HEADER packet); u = udp_of_vals (unpack_fields UDP_HEADER (drop 20 packet))
     in ih_version i = 0x45 \<and> ih_protocol i = 17 \<and> ih_total_len i = int (length packet) \<and>
        Some (ih_source i) = ipv4_of_text source_ip \<and> Some (ih_destination i) = ipv4_of_text destination_ip \<and>
        uh_source_port u = source_port \<and> uh_destination_port u = destination_port \<and>
        uh_length u = 8 + int (length payload))"
proof -
  let ?n = "length payload"
  obtain src dst pid uz u tail i z c where p: "ipv4_of_text source_ip = Some src" "ipv4_of_text destination_ip = Some dst"
    "?n \<le> 65507"
    "struct_pack [FUInt 1, FUInt 1, FUInt 2] [VInt 0, VInt 17, VInt (8 + int ?n)] = Inr tail"
    "struct_pack UDP_HEADER (udp_vals (udp_hdr source_port destination_port (8 + int ?n) 0)) = Inr uz"
    "c = (if internet_checksum ((src @ dst @ tail) @ uz @ payload) = 0 then 0xFFFF
       else internet_checksum ((src @ dst @ tail) @ uz @ payload))"
    "struct_pack UDP_HEADER (udp_vals (udp_hdr source_port destination_port (8 + int ?n) c)) = Inr u"
    "struct_pack IP_HEADER (ip_vals (ip_hdr (8 + int ?n) pid src dst 0)) = Inr z"
    "struct_pack IP_HEADER (ip_vals (ip_hdr (8 + int ?n) pid src dst (internet_checksum z))) = Inr i"
    "packet = i @ u @ payload"
    by (rule build_parts [OF assms])
  have sd: "length src = 4" "length dst = 4" using p(1,2) by (simp_all add: ipv4_length)
  note i = ip_part [OF p(8,9) sd]
  have tail: "tail = [0, 17] @ be_bytes 2 (8 + ?n)" using p(4) pack_tail [of "8 + ?n"] p(3) by auto
  have "even (length (src @ dst @ tail))" by (simp add: sd tail)
  note u = udp_part [OF p(5,7,6) this]
  have parts: "take 20 packet = i" "drop 20 packet = u @ payload" "drop 28 packet = payload" "length packet = 28 + ?n"
    "take 8 (drop 12 packet) = src @ dst" "length packet - 20 = 8 + ?n"
    using i(2,3) u(2) by (simp_all add: p(10) sd)
  have pseudo: "take 8 (drop 12 packet) @ [0, 17] @ be_bytes 2 (length packet - 20) @ drop 20 packet =
      (src @ dst @ tail) @ u @ payload"
    by (simp add: parts tail del: be_bytes.simps)
  have ip: "ip_of_vals (unpack_fields IP_HEADER packet) = ip_hdr (8 + int ?n) pid src dst (internet_checksum z)"
    unfolding p(10) by (rule i(4))
  have udp: "udp_of_vals (unpack_fields UDP_HEADER (drop 20 packet)) = udp_hdr source_port destination_port (8 + int ?n) c"
    unfolding parts by (rule u(3))
  show ?thesis
    unfolding pseudo u(1) ip udp Let_def using p(1,2) i(1) by (simp add: parts)
qed

definition demo_ipv4_packet :: bytes where
  "demo_ipv4_packet = (case build_ipv4_udp_packet 0 ''10.0.0.1'' 1000 ''192.0.2.7'' 53 [1, 2, 3] (Some 258) of
     Inl _ \<Rightarrow> [] | Inr p \<Rightarrow> p)"

lemma demo_ipv4_built:
  "build_ipv4_udp_packet 0 ''10.0.0.1'' 1000 ''192.0.2.7'' 53 [1, 2, 3] (Some 258) = Inr demo_ipv4_packet"
proof -
  have "ipv4_of_text ''10.0.0.1'' \<noteq> None" "ipv4_of_text ''192.0.2.7'' \<noteq> None" by code_simp+
  then have "\<exists>packet. build_ipv4_udp_packet 0 ''10.0.0.1'' 1000 ''192.0.2.7'' 53 [1, 2, 3] (Some 258) = Inr packet"
    using build_accepts [of 0 "''10.0.0.1''" 1000 "''192.0.2.7''" 53 "[1, 2, 3]" "Some 258"] by simp
  then show ?thesis by (auto simp: demo_ipv4_packet_def)
qed

theorem built_packet_is_valid_witness:
  "length demo_ipv4_packet = 31 \<and> internet_checksum (take 20 demo_ipv4_packet) = 0"
  using built_packet_is_valid [OF demo_ipv4_built] by simp

text \<open>
  Which calls succeed: both addresses are dotted quads, the ports and the identification fit 16 bits, and
  the payload fits a UDP datagram in IPv4. Everything else raises \<open>ValueError\<close>, or \<open>struct.error\<close> for the
  identification.
\<close>

theorem build_packet_accepts_iff:
  "((\<exists>packet. build_ipv4_udp_packet random_id source_ip source_port destination_ip destination_port payload packet_id = Inr packet) \<longleftrightarrow>
     ipv4_of_text source_ip \<noteq> None \<and> ipv4_of_text destination_ip \<noteq> None \<and>
     source_port \<in> {0..65535} \<and> destination_port \<in> {0..65535} \<and> length payload \<le> 65507 \<and>
     (case packet_id of None \<Rightarrow> random_id | Some i \<Rightarrow> i) \<in> {0..65535}) \<and>
   raises_only (\<lambda>e. is_value_error e \<or> e = StructError)
     (build_ipv4_udp_packet random_id source_ip source_port destination_ip destination_port payload packet_id)"
  by (rule build_accepts)

end
