(* ===== verification/Py_Text.thy ===== *)
theory Py_Text
  imports Py_Net Py_Struct "HOL-Library.Log_Nat"
begin

text \<open>
  What the configuration loader and the tools use of Python's text functions: \<open>str.strip\<close>,
  \<open>str.lower\<close>, \<open>str.replace\<close>, \<open>str.rsplit\<close>, truth values, \<open>str\<close> and \<open>float\<close> of a JSON value,
  \<open>bytes.fromhex\<close>, \<open>base64.b64decode(..., validate=True)\<close> and \<open>ipaddress.ip_address\<close>. A float is the
  rational the IEEE double denotes; the text and integers are rounded to the nearest double.
\<close>


section \<open>Strings\<close>

definition str_whitespace :: "char list" where
  "str_whitespace = whitespace @ [CHR 0x1C, CHR 0x1D, CHR 0x1E, CHR 0x1F]"

definition str_lstrip :: "string \<Rightarrow> string" where
  "str_lstrip s = dropWhile (\<lambda>c. c \<in> set str_whitespace) s"

definition str_strip :: "string \<Rightarrow> string" where
  "str_strip s = rev (str_lstrip (rev (str_lstrip s)))"

definition lower_char :: "char \<Rightarrow> char" where
  "lower_char c =
     (let n = (of_char c :: nat) in
      if 65 \<le> n \<and> n \<le> 90 \<or> 192 \<le> n \<and> n \<le> 222 \<and> n \<noteq> 215 then char_of (n + 32) else c)"

definition lower :: "string \<Rightarrow> string" where
  "lower s = map lower_char s"

text \<open>\<open>s.rsplit(c, 1)\<close> on a text that holds \<open>c\<close>: what stands before and after its last occurrence.\<close>

definition rsplit_last :: "char \<Rightarrow> string \<Rightarrow> string \<times> string" where
  "rsplit_last c s =
     (rev (drop 1 (dropWhile (\<lambda>x. x \<noteq> c) (rev s))), rev (takeWhile (\<lambda>x. x \<noteq> c) (rev s)))"

lemma rsplit_last_join: "c \<in> set s \<Longrightarrow> fst (rsplit_last c s) @ c # snd (rsplit_last c s) = s"
proof -
  assume c: "c \<in> set s"
  then obtain ys zs where s: "rev s = ys @ c # zs" "c \<notin> set ys"
    using split_list_first [of c "rev s"] by auto
  then have "dropWhile (\<lambda>x. x \<noteq> c) (rev s) = c # zs" "takeWhile (\<lambda>x. x \<noteq> c) (rev s) = ys"
    by (auto simp: dropWhile_append3 takeWhile_append2 takeWhile_tail)
  moreover have "s = rev zs @ c # rev ys" using s(1) by (simp add: rev_swap)
  ultimately show ?thesis by (simp add: rsplit_last_def)
qed


section \<open>Truth values and text of JSON values\<close>

fun truthy :: "json \<Rightarrow> bool" where
  "truthy JNull = False"
| "truthy (JBool b) = b"
| "truthy (JInt i) = (i \<noteq> 0)"
| "truthy (JFloat f) = (f \<noteq> Fin 0)"
| "truthy (JStr s) = (s \<noteq> [])"
| "truthy (JArr xs) = (xs \<noteq> [])"
| "truthy (JObj d) = (d \<noteq> [])"

text \<open>\<open>str(x)\<close>; \<open>show_json\<close> gives the text of a float, a list and a dictionary.\<close>

fun py_str :: "(json \<Rightarrow> string) \<Rightarrow> json \<Rightarrow> string" where
  "py_str show_json (JStr s) = s"
| "py_str show_json JNull = ''None''"
| "py_str show_json (JBool b) = (if b then ''True'' else ''False'')"
| "py_str show_json (JInt i) = str_int i"
| "py_str show_json j = show_json j"


section \<open>Floating-point numbers\<close>

text \<open>
  The double nearest to a rational, ties to the even mantissa: \<open>exponent_of q\<close> is the exponent of the
  leading bit of \<open>q\<close>, \<open>ulp_exponent\<close> that of the last bit of the mantissa.
\<close>

definition pow2 :: "int \<Rightarrow> rat" where
  "pow2 e = (if 0 \<le> e then 2 ^ nat e else 1 / 2 ^ nat (- e))"

definition exponent_of :: "rat \<Rightarrow> int" where
  "exponent_of q =
     (let (n, d) = quotient_of q; k = bitlen n - bitlen d in
      if pow2 k \<le> q then k else k - 1)"

definition ulp_exponent :: "rat \<Rightarrow> int" where
  "ulp_exponent q = max (-1074) (exponent_of q - 52)"

definition double_of_rat :: "rat \<Rightarrow> pyfloat" where
  "double_of_rat r =
     (if r = 0 then Fin 0
      else let u = pow2 (ulp_exponent \<bar>r\<bar>);
               q = of_int (round_half_even (\<bar>r\<bar> / u)) * u in
        if q \<ge> 2 ^ 1024 then (if r < 0 then NegInf else PosInf)
        else Fin (if r < 0 then - q else q))"

text \<open>
  \<open>float(s)\<close> on text: white space around it, single underscores between digits, an optional sign,
  then an infinity, a NaN, or digits with an optional point and an optional exponent.
\<close>

definition is_digit :: "char \<Rightarrow> bool" where
  "is_digit c \<longleftrightarrow> digit_val 10 c \<noteq> None"

fun drop_underscores :: "char option \<Rightarrow> string \<Rightarrow> string option" where
  "drop_underscores prev [] = (if prev = Some CHR ''_'' then None else Some [])"
| "drop_underscores prev (c # cs) =
     (if c = CHR ''_'' then
        (case prev of Some p \<Rightarrow> if is_digit p then drop_underscores (Some c) cs else None | None \<Rightarrow> None)
      else if prev = Some CHR ''_'' \<and> \<not> is_digit c then None
      else map_option (\<lambda>r. c # r) (drop_underscores (Some c) cs))"

definition take_sign :: "string \<Rightarrow> bool \<times> string" where
  "take_sign s = (take 1 s = ''-'', if take 1 s = ''-'' \<or> take 1 s = ''+'' then drop 1 s else s)"

definition int_of_digits :: "string \<Rightarrow> int" where
  "int_of_digits ds = foldl (\<lambda>n c. 10 * n + (case digit_val 10 c of None \<Rightarrow> 0 | Some v \<Rightarrow> int v)) 0 ds"

definition exponent_part :: "string \<Rightarrow> int option" where
  "exponent_part s =
     (case s of
        [] \<Rightarrow> Some 0
      | c # cs \<Rightarrow>
          (let (neg, ds) = take_sign cs in
           if lower_char c = CHR ''e'' \<and> ds \<noteq> [] \<and> list_all is_digit ds
           then Some (if neg then - int_of_digits ds else int_of_digits ds)
           else None))"

definition decimal_value :: "string \<Rightarrow> rat option" where
  "decimal_value s =
     (let whole = takeWhile is_digit s; rest = dropWhile is_digit s;
          pointed = (take 1 rest = ''.'');
          fraction = (if pointed then takeWhile is_digit (drop 1 rest) else []);
          tail = (if pointed then dropWhile is_digit (drop 1 rest) else rest) in
      if whole = [] \<and> fraction = [] then None
      else (case exponent_part tail of
              None \<Rightarrow> None
            | Some e \<Rightarrow>
                (let m = of_int (int_of_digits (whole @ fraction)); k = e - int (length fraction) in
                 Some (if 0 \<le> k then m * 10 ^ nat k else m / 10 ^ nat (- k)))))"

definition float_of_text :: "string \<Rightarrow> pyfloat result" where
  "float_of_text s =
     (let bad = Inl (ValueError ''could not convert string to float'') in
      case drop_underscores None (strip s) of
        None \<Rightarrow> bad
      | Some t \<Rightarrow>
          (let (neg, u) = take_sign t in
           if lower u \<in> {''inf'', ''infinity''} then Inr (if neg then NegInf else PosInf)
           else if lower u = ''nan'' then Inr NaN
           else (case decimal_value u of
                   None \<Rightarrow> bad
                 | Some v \<Rightarrow> Inr (double_of_rat (if neg then - v else v)))))"

fun py_float :: "json \<Rightarrow> pyfloat result" where
  "py_float (JFloat f) = Inr f"
| "py_float (JInt i) =
     (case double_of_rat (of_int i) of Fin r \<Rightarrow> Inr (Fin r) | _ \<Rightarrow> Inl OverflowError)"
| "py_float (JBool b) = Inr (Fin (if b then 1 else 0))"
| "py_float (JStr s) = float_of_text s"
| "py_float _ = Inl TypeError"

definition is_finite :: "pyfloat \<Rightarrow> bool" where
  "is_finite f = (case f of Fin _ \<Rightarrow> True | _ \<Rightarrow> False)"

text \<open>\<open>f <= 0\<close>; no comparison with a NaN holds.\<close>

definition not_positive :: "pyfloat \<Rightarrow> bool" where
  "not_positive f = (case f of Fin r \<Rightarrow> r \<le> 0 | NegInf \<Rightarrow> True | _ \<Rightarrow> False)"


section \<open>Bytes from text\<close>

text \<open>
  \<open>bytes.fromhex(s)\<close>: pairs of hexadecimal digits, ASCII white space between the pairs; \<open>None\<close> is its
  \<open>ValueError\<close>.
\<close>

definition ascii_space :: "char list" where
  "ascii_space = [CHR '' '', CHR 0x09, CHR 0x0A, CHR 0x0B, CHR 0x0C, CHR 0x0D]"

fun fromhex :: "string \<Rightarrow> bytes option" where
  "fromhex [] = Some []"
| "fromhex [c] = (if c \<in> set ascii_space then Some [] else None)"
| "fromhex (c # d # cs) =
     (if c \<in> set ascii_space then fromhex (d # cs)
      else (case (digit_val 16 c, digit_val 16 d) of
              (Some x, Some y) \<Rightarrow> map_option (\<lambda>bs. word_of_nat (16 * x + y) # bs) (fromhex cs)
            | _ \<Rightarrow> None))"

text \<open>\<open>bytes.hex()\<close>, which \<open>secrets.token_hex\<close> ends with.\<close>

definition hex_of :: "bytes \<Rightarrow> string" where
  "hex_of bs = concat (map (\<lambda>b. [digit_char (unat b div 16), digit_char (unat b mod 16)]) bs)"

lemma digit_char_no_space: "d < 16 \<Longrightarrow> digit_char d \<notin> set ascii_space"
  using digit_char_props(2) [of d] by (auto simp: ascii_space_def whitespace_def)

lemma fromhex_hex_of: "fromhex (hex_of bs) = Some bs"
proof (induction bs)
  case (Cons b bs)
  have "unat b div 16 < 16"
    using unat_byte_less [of b] by (simp add: less_mult_imp_div_less del: unat_byte_less)
  then show ?case
    using Cons by (simp add: hex_of_def digit_char_no_space digit_val_char del: split_paired_All)
qed (simp add: hex_of_def)

text \<open>
  \<open>base64.b64decode(s, validate=True)\<close>: letters of the alphabet, then padding that completes the last
  group of four. After a complete group further padding is ignored; \<open>None\<close> is its
  \<open>binascii.Error\<close> (Python 3.11).
\<close>

definition sextet :: "char \<Rightarrow> nat option" where
  "sextet c =
     (let n = (of_char c :: nat) in
      if 65 \<le> n \<and> n \<le> 90 then Some (n - 65)
      else if 97 \<le> n \<and> n \<le> 122 then Some (n - 71)
      else if 48 \<le> n \<and> n \<le> 57 then Some (n + 4)
      else if c = CHR ''+'' then Some 62
      else if c = CHR ''/'' then Some 63
      else None)"

fun sextets :: "string \<Rightarrow> nat list option" where
  "sextets [] = Some []"
| "sextets (c # cs) =
     (case sextet c of None \<Rightarrow> None | Some v \<Rightarrow> map_option (\<lambda>vs. v # vs) (sextets cs))"

fun bytes_of_sextets :: "nat list \<Rightarrow> bytes" where
  "bytes_of_sextets (a # b # c # d # vs) =
     word_of_nat (4 * a + b div 16) # word_of_nat (16 * b + c div 4) # word_of_nat (64 * c + d)
       # bytes_of_sextets vs"
| "bytes_of_sextets [a, b, c] = [word_of_nat (4 * a + b div 16), word_of_nat (16 * b + c div 4)]"
| "bytes_of_sextets [a, b] = [word_of_nat (4 * a + b div 16)]"
| "bytes_of_sextets _ = []"

definition b64decode :: "string \<Rightarrow> bytes option" where
  "b64decode s =
     (let data = takeWhile (\<lambda>c. c \<noteq> CHR ''='') s; pad = dropWhile (\<lambda>c. c \<noteq> CHR ''='') s;
          n = length data mod 4 in
      if \<not> list_all (\<lambda>c. c = CHR ''='') pad \<or> data = [] \<and> pad \<noteq> [] then None
      else if n = 1 \<or> n = 2 \<and> length pad \<noteq> 2 \<or> n = 3 \<and> length pad \<noteq> 1 then None
      else map_option bytes_of_sextets (sextets data))"


section \<open>Addresses\<close>

text \<open>
  \<open>ipaddress.ip_address(s)\<close>: an IPv4 address, else an IPv6 address, of which only the validity matters
  here. The text after a percent sign is its scope; a dotted quad at the end counts as two groups, an
  empty group in the middle stands for the missing ones.
\<close>

definition hextet_ok :: "string \<Rightarrow> bool" where
  "hextet_ok s \<longleftrightarrow> s \<noteq> [] \<and> length s \<le> 4 \<and> list_all (\<lambda>c. digit_val 16 c \<noteq> None) s"

definition groups_ok :: "string list \<Rightarrow> bool" where
  "groups_ok parts \<longleftrightarrow>
     (let empties = [i \<leftarrow> [1..<length parts - 1]. parts ! i = []] in
      length parts \<le> 9 \<and>
      (case empties of
         [] \<Rightarrow> length parts = 8 \<and> list_all hextet_ok parts
       | [skip] \<Rightarrow>
           (let hi = take skip parts; lo = drop (skip + 1) parts;
                hi' = (if hd parts = [] then tl hi else hi);
                lo' = (if last parts = [] then butlast lo else lo) in
            (hd parts = [] \<longrightarrow> hi' = []) \<and> (last parts = [] \<longrightarrow> lo' = []) \<and>
            length hi' + length lo' < 8 \<and> list_all hextet_ok hi' \<and> list_all hextet_ok lo')
       | _ \<Rightarrow> False))"

definition is_ipv6_text :: "string \<Rightarrow> bool" where
  "is_ipv6_text s \<longleftrightarrow>
     (let address = takeWhile (\<lambda>c. c \<noteq> CHR ''%'') s; scope = dropWhile (\<lambda>c. c \<noteq> CHR ''%'') s;
          parts = split_on CHR '':'' address in
      CHR ''/'' \<notin> set s \<and>
      (scope \<noteq> [] \<longrightarrow> tl scope \<noteq> [] \<and> CHR ''%'' \<notin> set (tl scope)) \<and>
      address \<noteq> [] \<and> 3 \<le> length parts \<and>
      (if CHR ''.'' \<in> set (last parts)
       then ipv4_of_text (last parts) \<noteq> None \<and> groups_ok (butlast parts @ [''0'', ''0''])
       else groups_ok parts))"

section \<open>Encoding a secret\<close>

text \<open>\<open>base64.b64encode(bs).decode()\<close>, and that \<open>b64decode\<close> undoes it.\<close>

definition b64_char :: "nat \<Rightarrow> char" where
  "b64_char v =
     (if v < 26 then char_of (v + 65) else if v < 52 then char_of (v + 71)
      else if v < 62 then char_of (v - 4) else if v = 62 then CHR ''+'' else CHR ''/'')"

fun b64encode :: "bytes \<Rightarrow> string" where
  "b64encode (x # y # z # bs) =
     b64_char (unat x div 4) # b64_char (16 * (unat x mod 4) + unat y div 16)
       # b64_char (4 * (unat y mod 16) + unat z div 64) # b64_char (unat z mod 64) # b64encode bs"
| "b64encode [x, y] =
     [b64_char (unat x div 4), b64_char (16 * (unat x mod 4) + unat y div 16),
      b64_char (4 * (unat y mod 16)), CHR ''='']"
| "b64encode [x] = [b64_char (unat x div 4), b64_char (16 * (unat x mod 4)), CHR ''='', CHR ''='']"
| "b64encode [] = []"

lemma sextet_b64_char: "v < 64 \<Longrightarrow> sextet (b64_char v) = Some v"
  by (auto simp: b64_char_def sextet_def Let_def)

lemma no_sextet: "c \<in> set (''=_-.'' @ str_whitespace) \<Longrightarrow> sextet c = None"
proof -
  assume "c \<in> set (''=_-.'' @ str_whitespace)"
  moreover have "list_all (\<lambda>c. sextet c = None) (''=_-.'' @ str_whitespace)" by code_simp
  ultimately show ?thesis unfolding list_all_iff by blast
qed

lemma b64_char_plain: "v < 64 \<Longrightarrow> b64_char v \<notin> set (''=_-.'' @ str_whitespace)"
  using no_sextet [of "b64_char v"] sextet_b64_char [of v] by auto

text \<open>The three bytes of a group, from their quotients and remainders.\<close>

lemma byte_parts:
  fixes x :: byte
  shows "unat x div 4 < 64" "16 * (unat x mod 4) < 64" "unat x div 16 < 16" "unat x div 64 < 4"
  using unat_byte_less [of x] by (simp_all add: less_mult_imp_div_less del: unat_byte_less)

lemma sum_less_mult: "a < m \<Longrightarrow> b < k \<Longrightarrow> k * a + b < k * (m :: nat)"
proof -
  assume "a < m" "b < k"
  then have "k * a + b < k * a + k" by simp
  also have "\<dots> = k * Suc a" by simp
  also have "\<dots> \<le> k * m" using \<open>a < m\<close> by (intro mult_le_mono) simp_all
  finally show ?thesis .
qed

lemma group_parts:
  fixes x y z :: byte
  shows "16 * (unat x mod 4) + unat y div 16 < 64" "4 * (unat y mod 16) + unat z div 64 < 64"
    "4 * (unat y mod 16) < 64" "unat z mod 64 < 64"
  using sum_less_mult [of "unat x mod 4" 4 "unat y div 16" 16] sum_less_mult [of "unat y mod 16" 16 "unat z div 64" 4]
    byte_parts [of y] byte_parts [of z] by simp_all

lemma byte_of_nat_eq: "unat (b :: byte) = n \<Longrightarrow> word_of_nat n = b"
  by auto

lemma join_first: "word_of_nat (4 * (unat x div 4) + (16 * (unat x mod 4) + k) div 16) = (x :: byte)" if "k < 16"
proof -
  have "(16 * (unat x mod 4) + k) div 16 = unat x mod 4" using that by simp
  then show ?thesis by (simp add: mult_div_mod_eq)
qed

lemma join_second:
  "word_of_nat (16 * (16 * a + unat y div 16) + (4 * (unat y mod 16) + k) div 4) = (y :: byte)" if "k < 4"
proof -
  have "(4 * (unat y mod 16) + k) div 4 = unat y mod 16" using that by simp
  then have "16 * (16 * a + unat y div 16) + (4 * (unat y mod 16) + k) div 4 = 256 * a + unat y"
    by (simp add: algebra_simps)
  then show ?thesis by (simp add: byte_256_zero)
qed

lemma join_third: "word_of_nat (64 * (4 * a + unat z div 64) + unat z mod 64) = (z :: byte)"
proof -
  have "64 * (4 * a + unat z div 64) + unat z mod 64 = 256 * a + unat z" by (simp add: algebra_simps)
  then show ?thesis by (simp add: byte_256_zero)
qed


lemma sextets_append: "list_all (\<lambda>v. v < 64) vs \<Longrightarrow> sextets (map b64_char vs) = Some vs"
  by (induction vs) (simp_all add: sextet_b64_char)

text \<open>The groups of a message: its sextets, then the padding.\<close>

fun sextets_of :: "bytes \<Rightarrow> nat list" where
  "sextets_of (x # y # z # bs) =
     unat x div 4 # (16 * (unat x mod 4) + unat y div 16) # (4 * (unat y mod 16) + unat z div 64)
       # unat z mod 64 # sextets_of bs"
| "sextets_of [x, y] = [unat x div 4, 16 * (unat x mod 4) + unat y div 16, 4 * (unat y mod 16)]"
| "sextets_of [x] = [unat x div 4, 16 * (unat x mod 4)]"
| "sextets_of [] = []"

definition padding :: "bytes \<Rightarrow> string" where
  "padding bs = replicate ((3 - length bs mod 3) mod 3) (CHR ''='')"

lemma sextets_of_less: "list_all (\<lambda>v. v < 64) (sextets_of bs)"
  by (induction bs rule: sextets_of.induct) (simp_all add: group_parts byte_parts)

lemma b64encode_eq: "b64encode bs = map b64_char (sextets_of bs) @ padding bs"
  by (induction bs rule: sextets_of.induct) (simp_all add: padding_def numeral_2_eq_2)

lemma bytes_of_sextets_of: "bytes_of_sextets (sextets_of bs) = bs"
proof (induction bs rule: sextets_of.induct)
  case (1 x y z bs)
  then show ?case
    using join_first [of "unat y div 16" x] join_second [of "unat z div 64"] byte_parts
    by (simp add: join_third)
next
  case (2 x y)
  then show ?case
    using join_first [of "unat y div 16" x] join_second [of 0 "unat x mod 4" y] byte_parts by simp
next
  case (3 x)
  then show ?case using join_first [of 0 x] by simp
qed simp

lemma length_sextets_of: "length (sextets_of bs) mod 4 = (if length bs mod 3 = 0 then 0 else length bs mod 3 + 1)"
  by (induction bs rule: sextets_of.induct) (simp_all, presburger?)

lemma replicate_first: "n = 0 \<or> hd (replicate n x) = x"
  by (cases n) simp_all

lemma span_append:
  "\<forall>c \<in> set xs. P c \<Longrightarrow> ys = [] \<or> \<not> P (hd ys) \<Longrightarrow> takeWhile P (xs @ ys) = xs \<and> dropWhile P (xs @ ys) = ys"
  by (induction xs) (cases ys; auto)+

lemma b64decode_encode: "b64decode (b64encode bs) = Some bs"
proof -
  let ?vs = "sextets_of bs"
  have no_pad: "\<forall>c \<in> set (map b64_char ?vs). c \<noteq> CHR ''=''"
    using sextets_of_less [of bs] b64_char_plain by (fastforce simp: list_all_iff)
  then have data: "takeWhile (\<lambda>c. c \<noteq> CHR ''='') (b64encode bs) = map b64_char ?vs"
    "dropWhile (\<lambda>c. c \<noteq> CHR ''='') (b64encode bs) = padding bs"
    unfolding b64encode_eq using span_append [OF no_pad, of "padding bs"] by (simp_all add: padding_def replicate_first)
  have "length bs mod 3 = 0 \<or> length bs mod 3 = 1 \<or> length bs mod 3 = 2" by linarith
  moreover have "?vs = [] \<Longrightarrow> bs = []" by (cases bs rule: sextets_of.cases) auto
  ultimately show ?thesis
    unfolding b64decode_def data Let_def
    using sextets_append [OF sextets_of_less] length_sextets_of [of bs]
    by (auto simp: padding_def bytes_of_sextets_of list_all_iff)
qed

end
