(* ===== verification/Config_Loader.thy ===== *)
theory Config_Loader
  imports Config Py_Text
begin

text \<open>
  The loader of \<open>h3ntun/config.py\<close>, from the parsed JSON document to the configuration of a role. Its
  argument is the result of reading and parsing the file, so the errors of those two are the caller's;
  \<open>show_json\<close> is Python's text of a float, a list or a dictionary. Optional settings that hold a false
  value are \<open>None\<close>: the agents only test them.
\<close>


section \<open>Single values\<close>

fun parse_bool :: "json \<Rightarrow> string \<Rightarrow> bool result" where
  "parse_bool (JBool b) field = Inr b"
| "parse_bool _ field = Inl (ConfigError (field @ '' must be true or false''))"

fun split_host_port :: "json \<Rightarrow> string \<Rightarrow> address result" where
  "split_host_port (JStr s) field =
     (if CHR '':'' \<notin> set s then Inl (ConfigError (field @ '' must use host:port format''))
      else
        (let (host, raw_port) = rsplit_last CHR '':'' s in
         if host = [] then Inl (ConfigError (field @ '' host is empty''))
         else (case int_of_text 10 raw_port of
                 Inl _ \<Rightarrow> Inl (ConfigError (field @ '' port is not an integer''))
               | Inr port \<Rightarrow>
                   if \<not> (0 \<le> port \<and> port \<le> 65535) then Inl (ConfigError (field @ '' port is outside 0..65535''))
                   else Inr (host, port))))"
| "split_host_port _ field = Inl (ConfigError (field @ '' must use host:port format''))"

text \<open>
  \<open>PLACEHOLDER_RE.search\<close>: one of the words, in any case, between two separators, where the two ends
  of the text count as separators. \<open>boundary\<close> says whether the text so far ends in one.
\<close>

definition placeholder_words :: "string list" where
  "placeholder_words = [''iran'', ''foreign'', ''spoof'', ''source'', ''authorized'', ''replace'', ''change'', ''example'']"

definition separator :: "char \<Rightarrow> bool" where
  "separator c \<longleftrightarrow> c = CHR ''_'' \<or> c = CHR ''-''"

definition word_at :: "string \<Rightarrow> string \<Rightarrow> bool" where
  "word_at w s \<longleftrightarrow>
     lower (take (length w) s) = w \<and>
     (case drop (length w) s of [] \<Rightarrow> True | c # _ \<Rightarrow> separator c)"

fun placeholder_search :: "bool \<Rightarrow> string \<Rightarrow> bool" where
  "placeholder_search boundary [] = False"
| "placeholder_search boundary (c # cs) \<longleftrightarrow>
     boundary \<and> list_ex (\<lambda>w. word_at w (c # cs)) placeholder_words \<or> placeholder_search (separator c) cs"

definition normalized :: "string \<Rightarrow> string" where
  "normalized value = map (\<lambda>c. if c = CHR ''.'' then CHR ''_'' else c) (str_strip value)"

definition reject_placeholder :: "string \<Rightarrow> string \<Rightarrow> unit result" where
  "reject_placeholder value field =
     (if str_strip value = [] \<or> placeholder_search True (normalized value)
      then Inl (ConfigError (field @ '' still contains a placeholder'')) else Inr ())"

definition remote_host_port :: "json \<Rightarrow> string \<Rightarrow> address result" where
  "remote_host_port value field =
     and_then (split_host_port value field) (\<lambda>(host, port).
     and_then (reject_placeholder host (field @ '' host'')) (\<lambda>_.
       if port = 0 then Inl (ConfigError (field @ '' port cannot be zero'')) else Inr (host, port)))"

definition is_unspecified :: "bytes \<Rightarrow> bool" where
  "is_unspecified ip \<longleftrightarrow> ip = [0, 0, 0, 0]"

definition is_multicast :: "bytes \<Rightarrow> bool" where
  "is_multicast ip \<longleftrightarrow> 224 \<le> unat (hd ip) \<and> unat (hd ip) \<le> 239"

definition parse_ipv4 :: "string \<Rightarrow> string \<Rightarrow> bool \<Rightarrow> string result" where
  "parse_ipv4 value field allow_unspecified =
     and_then (reject_placeholder value field) (\<lambda>_.
     case ipv4_of_text value of
       None \<Rightarrow> Inl (ConfigError (field @ (if is_ipv6_text value then '' must be IPv4''
                                          else '' is not a valid IP address'')))
     | Some ip \<Rightarrow>
         if is_unspecified ip \<and> \<not> allow_unspecified then Inl (ConfigError (field @ '' cannot be unspecified''))
         else if is_multicast ip then Inl (ConfigError (field @ '' cannot be multicast''))
         else Inr (text_of_ipv4 ip))"

fun decode_tunnel_id :: "json \<Rightarrow> bytes result" where
  "decode_tunnel_id (JStr value) =
     and_then (reject_placeholder value ''tunnel_id'') (\<lambda>_.
     case fromhex value of
       None \<Rightarrow> Inl (ConfigError ''tunnel_id must be hexadecimal'')
     | Some decoded \<Rightarrow>
         if length decoded \<noteq> 16 then Inl (ConfigError ''tunnel_id must decode to 16 bytes'') else Inr decoded)"
| "decode_tunnel_id _ = Inl (ConfigError ''tunnel_id must be a 32-character hex string'')"

fun decode_secret :: "json \<Rightarrow> bytes result" where
  "decode_secret (JStr value) =
     and_then (reject_placeholder value ''shared_secret'') (\<lambda>_.
     case b64decode value of
       None \<Rightarrow> Inl (ConfigError ''shared_secret is not valid base64'')
     | Some decoded \<Rightarrow>
         if length decoded < 32 then Inl (ConfigError ''shared_secret must decode to at least 32 bytes'')
         else Inr decoded)"
| "decode_secret _ = Inl (ConfigError ''shared_secret must be base64 text'')"


section \<open>The document\<close>

text \<open>\<open>raw.get(key, default)\<close> on the root object, without a default \<open>None\<close>.\<close>

definition setting :: "(string \<times> json) list \<Rightarrow> string \<Rightarrow> json \<Rightarrow> json" where
  "setting raw key fallback = (case map_of raw key of None \<Rightarrow> fallback | Some v \<Rightarrow> v)"

definition required :: "(string \<times> json) list \<Rightarrow> string \<Rightarrow> json result" where
  "required raw key = subscript (JObj raw) key"

text \<open>
  The two stages of the common part: the conversions in the order of the keyword arguments, then the
  range checks. A setting that is read as a float may still be infinite or no number after the
  first stage. The fallback of the checkpoint interval is the double that \<open>0.05\<close> denotes.
\<close>

record timeouts =
  to_keepalive :: pyfloat
  to_health :: pyfloat
  to_retransmit :: pyfloat
  to_reassembly :: pyfloat
  to_checkpoint :: pyfloat

definition timeouts_list :: "timeouts \<Rightarrow> pyfloat list" where
  "timeouts_list t = [to_keepalive t, to_health t, to_retransmit t, to_reassembly t, to_checkpoint t]"

fun seconds :: "pyfloat \<Rightarrow> rat" where
  "seconds (Fin r) = r"
| "seconds _ = 0"

definition read_common ::
  "(json \<Rightarrow> string) \<Rightarrow> string \<Rightarrow> (string \<times> json) list \<Rightarrow> (timeouts \<times> common_config) result" where
  "read_common show_json role raw =
     and_then (decode_tunnel_id (setting raw ''tunnel_id'' JNull)) (\<lambda>tunnel_id.
     and_then (decode_secret (setting raw ''shared_secret'' JNull)) (\<lambda>shared_secret.
     and_then (split_host_port (setting raw ''health_listen'' (JStr ''127.0.0.1:9081'')) ''health_listen'')
       (\<lambda>health_listen.
     let metrics_file = py_str show_json (setting raw ''metrics_file'' (JStr ''/var/lib/h3ntun/metrics.json'')) in
     and_then (py_float (setting raw ''keepalive_seconds'' (JFloat (Fin 5)))) (\<lambda>keepalive.
     and_then (py_float (setting raw ''health_timeout_seconds'' (JFloat (Fin 20)))) (\<lambda>health_timeout.
     and_then (py_int (setting raw ''recv_buffer_bytes'' (JInt (4 * 1024 * 1024)))) (\<lambda>recv_buffer.
     and_then (py_int (setting raw ''fragment_payload_bytes'' (JInt 1200))) (\<lambda>fragment_payload.
     and_then (parse_bool (setting raw ''fec_enabled'' (JBool True)) ''fec_enabled'') (\<lambda>fec.
     and_then (parse_bool (setting raw ''reliable'' (JBool True)) ''reliable'') (\<lambda>reliable.
     and_then (py_float (setting raw ''retransmit_timeout_seconds'' (JFloat (Fin (1 / 2))))) (\<lambda>retransmit.
     and_then (py_int (setting raw ''max_retries'' (JInt 8))) (\<lambda>max_retries.
     and_then (py_int (setting raw ''max_pending_messages'' (JInt 2048))) (\<lambda>max_pending.
     and_then (py_float (setting raw ''reassembly_timeout_seconds'' (JFloat (Fin 30)))) (\<lambda>reassembly.
     and_then (py_float (setting raw ''replay_checkpoint_interval_seconds'' (JFloat (Fin (3602879701896397 / 2 ^ 56)))))
       (\<lambda>checkpoint_interval.
     and_then (py_int (setting raw ''replay_checkpoint_batch_frames'' (JInt 128))) (\<lambda>checkpoint_batch.
     Inr (\<lparr>to_keepalive = keepalive, to_health = health_timeout, to_retransmit = retransmit,
            to_reassembly = reassembly, to_checkpoint = checkpoint_interval\<rparr>,
          \<lparr>cf_role = role, cf_tunnel_id = tunnel_id, cf_shared_secret = shared_secret,
            cf_health_listen = health_listen, cf_metrics_file = metrics_file,
            cf_keepalive_seconds = seconds keepalive, cf_health_timeout_seconds = seconds health_timeout,
            cf_recv_buffer_bytes = recv_buffer, cf_fragment_payload_bytes = fragment_payload,
            cf_fec_enabled = fec, cf_reliable = reliable, cf_retransmit_timeout_seconds = seconds retransmit,
            cf_max_retries = max_retries, cf_max_pending_messages = max_pending,
            cf_reassembly_timeout_seconds = seconds reassembly,
            cf_replay_checkpoint_interval_seconds = seconds checkpoint_interval,
            cf_replay_checkpoint_batch_frames = checkpoint_batch\<rparr>))))))))))))))))"

definition check_common :: "timeouts \<Rightarrow> common_config \<Rightarrow> unit result" where
  "check_common t c =
     (if \<not> list_all (\<lambda>f. is_finite f \<and> \<not> not_positive f) (timeouts_list t)
        then Inl (ConfigError ''all timeout values must be finite and positive'')
      else if cf_recv_buffer_bytes c < 65536 then Inl (ConfigError ''recv_buffer_bytes is too small'')
      else if \<not> (256 \<le> cf_fragment_payload_bytes c \<and> cf_fragment_payload_bytes c \<le> 1391)
        then Inl (ConfigError ''fragment_payload_bytes must be between 256 and 1391'')
      else if \<not> (0 \<le> cf_max_retries c \<and> cf_max_retries c \<le> 100)
        then Inl (ConfigError ''max_retries must be between 0 and 100'')
      else if \<not> (1 \<le> cf_max_pending_messages c \<and> cf_max_pending_messages c \<le> 100000)
        then Inl (ConfigError ''max_pending_messages must be between 1 and 100000'')
      else if \<not> (1 \<le> cf_replay_checkpoint_batch_frames c \<and> cf_replay_checkpoint_batch_frames c \<le> 100000)
        then Inl (ConfigError ''replay_checkpoint_batch_frames must be between 1 and 100000'')
      else Inr ())"

definition optional :: "json \<Rightarrow> (json \<Rightarrow> 'a result) \<Rightarrow> 'a option result" where
  "optional v f = (if truthy v then and_then (f v) (\<lambda>x. Inr (Some x)) else Inr None)"

definition replay_state_file :: "(json \<Rightarrow> string) \<Rightarrow> (string \<times> json) list \<Rightarrow> string \<Rightarrow> string option" where
  "replay_state_file show_json raw fallback =
     (let v = setting raw ''replay_state_file'' (JStr fallback) in
      if truthy v then Some (py_str show_json v) else None)"

definition load_iran ::
  "(json \<Rightarrow> string) \<Rightarrow> common_config \<Rightarrow> (string \<times> json) list \<Rightarrow> iran_config result" where
  "load_iran show_json common raw =
     and_then (optional (setting raw ''expected_downlink_source'' JNull)
       (\<lambda>v. parse_ipv4 (py_str show_json v) ''expected_downlink_source'' False)) (\<lambda>expected.
     and_then (optional (setting raw ''expected_inner_peer'' JNull)
       (\<lambda>v. remote_host_port (JStr (py_str show_json v)) ''expected_inner_peer'')) (\<lambda>expected_inner_peer.
     and_then (and_then (required raw ''inner_listen'') (\<lambda>v. split_host_port v ''inner_listen'')) (\<lambda>inner_listen.
     and_then (split_host_port (setting raw ''uplink_bind'' (JStr ''0.0.0.0:0'')) ''uplink_bind'') (\<lambda>uplink_bind.
     and_then (and_then (required raw ''foreign_uplink'') (\<lambda>v. remote_host_port v ''foreign_uplink'')) (\<lambda>foreign_uplink.
     and_then (and_then (required raw ''downlink_listen'') (\<lambda>v. split_host_port v ''downlink_listen'')) (\<lambda>downlink_listen.
     Inr (common_config.extend common
       \<lparr>ir_inner_listen = inner_listen, ir_uplink_bind = uplink_bind, ir_foreign_uplink = foreign_uplink,
        ir_downlink_listen = downlink_listen, ir_expected_downlink_source = expected,
        ir_expected_inner_peer = expected_inner_peer,
        ir_replay_state_file = replay_state_file show_json raw ''/var/lib/h3ntun/iran-replay.json''\<rparr>)))))))"

definition load_foreign ::
  "(json \<Rightarrow> string) \<Rightarrow> common_config \<Rightarrow> (string \<times> json) list \<Rightarrow> foreign_config result" where
  "load_foreign show_json common raw =
     (let mode = lower (str_strip (py_str show_json (setting raw ''downlink_mode'' (JStr ''udp'')))) in
      if mode \<noteq> ''udp'' then Inl (ConfigError
        ''downlink_mode must be udp; live forged-source raw mode is intentionally not implemented'')
      else
     and_then (optional (setting raw ''downlink_source'' JNull)
       (\<lambda>v. parse_ipv4 (py_str show_json v) ''downlink_source'' False)) (\<lambda>source.
     and_then (py_int (setting raw ''downlink_source_port'' (JInt 0))) (\<lambda>source_port.
      if \<not> (0 \<le> source_port \<and> source_port \<le> 65535)
        then Inl (ConfigError ''downlink_source_port is outside 0..65535'')
      else
     and_then (and_then (required raw ''uplink_listen'') (\<lambda>v. split_host_port v ''uplink_listen'')) (\<lambda>uplink_listen.
     and_then (and_then (required raw ''inner_bridge_listen'') (\<lambda>v. split_host_port v ''inner_bridge_listen''))
       (\<lambda>inner_bridge_listen.
     and_then (and_then (required raw ''inner_peer'') (\<lambda>v. split_host_port v ''inner_peer'')) (\<lambda>inner_peer.
     and_then (and_then (required raw ''iran_downlink'') (\<lambda>v. remote_host_port v ''iran_downlink'')) (\<lambda>iran_downlink.
     Inr (common_config.extend common
       \<lparr>fo_uplink_listen = uplink_listen, fo_inner_bridge_listen = inner_bridge_listen,
        fo_inner_peer = inner_peer, fo_iran_downlink = iran_downlink, fo_downlink_mode = mode,
        fo_downlink_source = source, fo_downlink_source_port = source_port,
        fo_replay_state_file = replay_state_file show_json raw ''/var/lib/h3ntun/foreign-replay.json''\<rparr>))))))))"

text \<open>\<open>loaded\<close> is the outcome of \<open>json.loads(Path(path).read_text())\<close>.\<close>

definition load_config :: "(json \<Rightarrow> string) \<Rightarrow> json result \<Rightarrow> role result" where
  "load_config show_json loaded =
     and_then loaded (\<lambda>document.
     case document of
       JObj raw \<Rightarrow>
         (let role = lower (str_strip (py_str show_json (setting raw ''role'' (JStr '''')))) in
          if role \<notin> {''iran'', ''foreign''} then Inl (ConfigError ''role must be iran or foreign'')
          else
            and_then (read_common show_json role raw) (\<lambda>(timeouts, common).
            and_then (check_common timeouts common) (\<lambda>_.
              if role = ''iran'' then and_then (load_iran show_json common raw) (\<lambda>c. Inr (Iran c))
              else and_then (load_foreign show_json common raw) (\<lambda>c. Inr (Foreign c)))))
     | _ \<Rightarrow> Inl (ConfigError ''configuration root must be an object''))"

section \<open>Placeholders\<close>

text \<open>The words of a text, separated by underscores and hyphens.\<close>

fun tokens :: "string \<Rightarrow> string list" where
  "tokens [] = [[]]"
| "tokens (c # cs) =
     (if separator c then [] # tokens cs else (case tokens cs of [] \<Rightarrow> [[c]] | t # ts \<Rightarrow> (c # t) # ts))"

lemma tokens_nonempty [simp]: "tokens s \<noteq> []"
  by (induction s) (auto split: list.splits)

definition plain_word :: "string \<Rightarrow> bool" where
  "plain_word w \<longleftrightarrow> w \<noteq> [] \<and> (\<forall>c \<in> set w. \<not> separator c \<and> lower_char c = c)"

lemma placeholder_words_plain: "w \<in> set placeholder_words \<Longrightarrow> plain_word w"
proof -
  assume "w \<in> set placeholder_words"
  moreover have "list_all (\<lambda>w. w \<noteq> [] \<and> list_all (\<lambda>c. \<not> separator c \<and> lower_char c = c) w) placeholder_words"
    by code_simp
  ultimately show ?thesis by (auto simp: list_all_iff plain_word_def)
qed

lemma of_char_lower:
  "(of_char (lower_char c) :: nat) =
     (let n = of_char c in if 65 \<le> n \<and> n \<le> 90 \<or> 192 \<le> n \<and> n \<le> 222 \<and> n \<noteq> 215 then n + 32 else n)"
  by (simp add: lower_char_def Let_def)

lemma char_of_nat_codes: "(of_char CHR ''_'' :: nat) = 95" "(of_char CHR ''-'' :: nat) = 45"
  by simp_all

lemma separator_code: "separator c \<longleftrightarrow> (of_char c :: nat) = 95 \<or> (of_char c :: nat) = 45"
proof -
  have "c = d \<longleftrightarrow> (of_char c :: nat) = of_char d" for d by simp
  from this [of "CHR ''_''"] this [of "CHR ''-''"] show ?thesis
    unfolding separator_def by (simp only: char_of_nat_codes)
qed

lemma separator_lower [simp]: "separator (lower_char c) \<longleftrightarrow> separator c"
  unfolding separator_code of_char_lower Let_def by auto

lemma hd_tokens: "hd (tokens s) = takeWhile (\<lambda>c. \<not> separator c) s"
proof (induction s)
  case (Cons c cs)
  then show ?case by (cases "tokens cs") auto
qed simp

lemma word_at_iff:
  assumes "plain_word w"
  shows "word_at w s \<longleftrightarrow> lower (hd (tokens s)) = w"
proof
  let ?n = "length w"
  assume w: "word_at w s"
  have plain: "\<forall>c \<in> set (take ?n s). \<not> separator c"
  proof
    fix c
    assume "c \<in> set (take ?n s)"
    then have "lower_char c \<in> set (lower (take ?n s))" by (simp add: lower_def)
    then have "\<not> separator (lower_char c)" using w assms by (simp only: word_at_def plain_word_def) blast
    then show "\<not> separator c" by simp
  qed
  have "drop ?n s = [] \<or> separator (hd (drop ?n s))"
    using w by (auto simp: word_at_def split: list.splits)
  then have "takeWhile (\<lambda>c. \<not> separator c) (take ?n s @ drop ?n s) = take ?n s"
    using span_append [OF plain, of "drop ?n s"] by simp
  then show "lower (hd (tokens s)) = w" using w by (simp add: hd_tokens word_at_def)
next
  let ?t = "takeWhile (\<lambda>c. \<not> separator c) s"
  assume "lower (hd (tokens s)) = w"
  then have t: "lower ?t = w" by (simp add: hd_tokens)
  then have n: "length w = length ?t" by (auto simp: lower_def)
  have "take (length ?t) s = ?t" by (rule takeWhile_eq_take [symmetric])
  moreover have "drop (length ?t) s = dropWhile (\<lambda>c. \<not> separator c) s" by (rule dropWhile_eq_drop [symmetric])
  ultimately show "word_at w s"
    unfolding word_at_def n using t by (auto simp: dropWhile_eq_Cons_conv split: list.splits)
qed

lemma search_word: "list_ex (\<lambda>w. word_at w s) placeholder_words \<longleftrightarrow> lower (hd (tokens s)) \<in> set placeholder_words"
  using word_at_iff [OF placeholder_words_plain] by (auto simp: list_ex_iff)

lemma empty_no_placeholder: "lower [] \<notin> set placeholder_words"
  using placeholder_words_plain by (auto simp: lower_def plain_word_def)

lemma placeholder_search_iff:
  "placeholder_search b s \<longleftrightarrow>
     (\<exists>t \<in> set (if b then tokens s else tl (tokens s)). lower t \<in> set placeholder_words)"
proof (induction s arbitrary: b)
  case (Cons c cs)
  show ?case
  proof (cases "separator c")
    case True
    then show ?thesis using Cons [of True] empty_no_placeholder by (simp add: search_word)
  next
    case False
    obtain t ts where t: "tokens cs = t # ts" by (cases "tokens cs") auto
    with False have tc: "tokens (c # cs) = (c # t) # ts" by simp
    have "placeholder_search b (c # cs) \<longleftrightarrow>
        b \<and> lower (c # t) \<in> set placeholder_words \<or> (\<exists>t \<in> set ts. lower t \<in> set placeholder_words)"
      using Cons [of False] False unfolding placeholder_search.simps search_word tc by (simp add: t)
    then show ?thesis unfolding tc by auto
  qed
qed (use empty_no_placeholder in simp)

section \<open>What the loader accepts\<close>

lemma tokens_plain: "\<forall>c \<in> set s. \<not> separator c \<Longrightarrow> tokens s = [s]"
  by (induction s) auto

lemma str_strip_id: "\<forall>c \<in> set s. c \<notin> set str_whitespace \<Longrightarrow> str_strip s = s"
proof -
  have "str_lstrip t = t" if "\<forall>c \<in> set t. c \<notin> set str_whitespace" for t
    using that by (cases t) (auto simp: str_lstrip_def)
  then show "\<forall>c \<in> set s. c \<notin> set str_whitespace \<Longrightarrow> str_strip s = s" by (simp add: str_strip_def)
qed

lemma placeholder_words_short: "w \<in> set placeholder_words \<Longrightarrow> length w \<le> 10"
  by (auto simp: placeholder_words_def)

text \<open>A long text of plain characters is never a placeholder.\<close>

lemma reject_placeholder_plain:
  assumes "10 < length s" "\<forall>c \<in> set s. c \<notin> set (''_-.'' @ str_whitespace)"
  shows "reject_placeholder s field = Inr ()"
proof -
  have strip: "str_strip s = s" using assms(2) by (intro str_strip_id) simp
  then have norm: "normalized s = s"
    using map_idI [of s "\<lambda>c. if c = CHR ''.'' then CHR ''_'' else c"] assms(2)
    unfolding normalized_def strip by auto
  have "tokens s = [s]" using assms(2) by (intro tokens_plain) (auto simp: separator_def)
  moreover have "lower s \<notin> set placeholder_words"
    using placeholder_words_short [of "lower s"] assms(1) by (auto simp: lower_def)
  ultimately show ?thesis
    using assms(1) unfolding reject_placeholder_def strip norm placeholder_search_iff by auto
qed

definition port_ok :: "address \<Rightarrow> bool" where
  "port_ok a \<longleftrightarrow> fst a \<noteq> [] \<and> 0 \<le> snd a \<and> snd a \<le> 65535"

text \<open>An address to send to: its port is not zero and its host no placeholder.\<close>

definition remote_ok :: "address \<Rightarrow> bool" where
  "remote_ok a \<longleftrightarrow> port_ok a \<and> snd a \<noteq> 0 \<and> str_strip (fst a) \<noteq> [] \<and>
     (\<forall>t \<in> set (tokens (normalized (fst a))). lower t \<notin> set placeholder_words)"

text \<open>The text of an address of one host.\<close>

definition unicast_text :: "string \<Rightarrow> bool" where
  "unicast_text s \<longleftrightarrow>
     (\<exists>ip. ipv4_of_text s = Some ip \<and> s = text_of_ipv4 ip \<and> \<not> is_unspecified ip \<and> \<not> is_multicast ip)"

definition common_ok :: "'z common_config_scheme \<Rightarrow> bool" where
  "common_ok c \<longleftrightarrow>
     length (cf_tunnel_id c) = 16 \<and> 32 \<le> length (cf_shared_secret c) \<and> port_ok (cf_health_listen c) \<and>
     0 < cf_keepalive_seconds c \<and> 0 < cf_health_timeout_seconds c \<and> 65536 \<le> cf_recv_buffer_bytes c \<and>
     256 \<le> cf_fragment_payload_bytes c \<and> cf_fragment_payload_bytes c \<le> 1391 \<and>
     0 < cf_retransmit_timeout_seconds c \<and> 0 \<le> cf_max_retries c \<and> cf_max_retries c \<le> 100 \<and>
     1 \<le> cf_max_pending_messages c \<and> cf_max_pending_messages c \<le> 100000 \<and>
     0 < cf_reassembly_timeout_seconds c \<and> 0 < cf_replay_checkpoint_interval_seconds c \<and>
     1 \<le> cf_replay_checkpoint_batch_frames c \<and> cf_replay_checkpoint_batch_frames c \<le> 100000"

fun config_ok :: "role \<Rightarrow> bool" where
  "config_ok (Iran c) \<longleftrightarrow>
     common_ok c \<and> cf_role c = ''iran'' \<and> port_ok (ir_inner_listen c) \<and> port_ok (ir_uplink_bind c) \<and>
     remote_ok (ir_foreign_uplink c) \<and> port_ok (ir_downlink_listen c) \<and>
     (\<forall>s. ir_expected_downlink_source c = Some s \<longrightarrow> unicast_text s) \<and>
     (\<forall>a. ir_expected_inner_peer c = Some a \<longrightarrow> remote_ok a)"
| "config_ok (Foreign c) \<longleftrightarrow>
     common_ok c \<and> cf_role c = ''foreign'' \<and> port_ok (fo_uplink_listen c) \<and> port_ok (fo_inner_bridge_listen c) \<and>
     port_ok (fo_inner_peer c) \<and> remote_ok (fo_iran_downlink c) \<and> fo_downlink_mode c = ''udp'' \<and>
     (\<forall>s. fo_downlink_source c = Some s \<longrightarrow> unicast_text s) \<and>
     0 \<le> fo_downlink_source_port c \<and> fo_downlink_source_port c \<le> 65535"

lemma split_host_port_ok: "split_host_port v field = Inr a \<Longrightarrow> port_ok a"
  by (cases v) (auto simp: port_ok_def Let_def split: if_splits prod.splits sum.splits)

lemma reject_placeholder_Inr:
  "reject_placeholder s field = Inr u \<longleftrightarrow>
     str_strip s \<noteq> [] \<and> (\<forall>t \<in> set (tokens (normalized s)). lower t \<notin> set placeholder_words)"
  by (simp add: reject_placeholder_def placeholder_search_iff)

lemma remote_host_port_ok: "remote_host_port v field = Inr a \<Longrightarrow> remote_ok a"
  by (auto simp: remote_host_port_def result_simps remote_ok_def reject_placeholder_Inr
      dest!: split_host_port_ok split: prod.splits if_splits)

lemma parse_ipv4_ok: "parse_ipv4 s field False = Inr t \<Longrightarrow> unicast_text t"
  by (auto simp: parse_ipv4_def result_simps unicast_text_def text_of_ipv4_of_text
      split: option.splits if_splits)

lemma decode_tunnel_id_ok: "decode_tunnel_id v = Inr bs \<Longrightarrow> length bs = 16"
  by (cases v) (auto simp: result_simps split: option.splits if_splits)

lemma decode_secret_ok: "decode_secret v = Inr bs \<Longrightarrow> 32 \<le> length bs"
  by (cases v) (auto simp: result_simps split: option.splits if_splits)

lemma seconds_positive: "is_finite f \<Longrightarrow> \<not> not_positive f \<Longrightarrow> 0 < seconds f"
  by (cases f) (simp_all add: is_finite_def not_positive_def)

lemma read_common_ok:
  assumes "read_common show_json role raw = Inr (t, c)" "check_common t c = Inr ()"
  shows "common_ok c \<and> cf_role c = role"
  using assms unfolding read_common_def Let_def result_simps
  by (auto simp: common_ok_def check_common_def timeouts_list_def seconds_positive split: if_splits
      dest!: decode_tunnel_id_ok decode_secret_ok split_host_port_ok)

lemma optional_ok:
  "optional v f = Inr x \<Longrightarrow> (\<And>y. f v = Inr y \<Longrightarrow> P y) \<Longrightarrow> x = Some y \<Longrightarrow> P y"
  by (auto simp: optional_def result_simps split: if_splits)

lemma common_ok_extend [simp]:
  "common_ok (common_config.extend c (m :: 'z)) \<longleftrightarrow> common_ok c" "cf_role (common_config.extend c m) = cf_role c"
  by (simp_all add: common_ok_def common_config.defs)

lemma load_iran_ok:
  assumes "load_iran show_json c raw = Inr i" "common_ok c" "cf_role c = ''iran''"
  shows "config_ok (Iran i)"
proof -
  from assms(1) obtain e p il ub fu dl where i: "i = common_config.extend c
       \<lparr>ir_inner_listen = il, ir_uplink_bind = ub, ir_foreign_uplink = fu,
        ir_downlink_listen = dl, ir_expected_downlink_source = e, ir_expected_inner_peer = p,
        ir_replay_state_file = replay_state_file show_json raw ''/var/lib/h3ntun/iran-replay.json''\<rparr>"
    and e: "optional (setting raw ''expected_downlink_source'' JNull)
         (\<lambda>v. parse_ipv4 (py_str show_json v) ''expected_downlink_source'' False) = Inr e"
    and p: "optional (setting raw ''expected_inner_peer'' JNull)
         (\<lambda>v. remote_host_port (JStr (py_str show_json v)) ''expected_inner_peer'') = Inr p"
    and a: "port_ok il" "port_ok ub" "remote_ok fu" "port_ok dl"
    unfolding load_iran_def and_then_Inr
    by (elim exE conjE) (drule sum.inject(2) [THEN iffD1], rule that, erule sym, assumption, assumption,
      (erule split_host_port_ok | erule remote_host_port_ok)+)
  have "\<forall>s. e = Some s \<longrightarrow> unicast_text s" using optional_ok [OF e, of unicast_text] parse_ipv4_ok by blast
  moreover have "\<forall>a. p = Some a \<longrightarrow> remote_ok a" using optional_ok [OF p, of remote_ok] remote_host_port_ok by blast
  ultimately show ?thesis using a assms(2,3) by (simp add: i common_config.defs common_ok_def)
qed

lemma load_foreign_ok:
  assumes "load_foreign show_json c raw = Inr f" "common_ok c" "cf_role c = ''foreign''"
  shows "config_ok (Foreign f)"
proof -
  from assms(1) obtain e port ul ib ip dl where
    e: "optional (setting raw ''downlink_source'' JNull)
         (\<lambda>v. parse_ipv4 (py_str show_json v) ''downlink_source'' False) = Inr e"
    and a: "0 \<le> port" "port \<le> 65535" "port_ok ul" "port_ok ib" "port_ok ip" "remote_ok dl"
    and f: "f = common_config.extend c
       \<lparr>fo_uplink_listen = ul, fo_inner_bridge_listen = ib,
        fo_inner_peer = ip, fo_iran_downlink = dl, fo_downlink_mode = ''udp'',
        fo_downlink_source = e, fo_downlink_source_port = port,
        fo_replay_state_file = replay_state_file show_json raw ''/var/lib/h3ntun/foreign-replay.json''\<rparr>"
    unfolding load_foreign_def Let_def
    by (auto simp: result_simps split: if_splits dest!: split_host_port_ok remote_host_port_ok)
  have "\<forall>s. e = Some s \<longrightarrow> unicast_text s"
    using optional_ok [OF e, of unicast_text] parse_ipv4_ok by blast
  with a assms(2,3) show ?thesis by (simp add: f common_config.defs common_ok_def)
qed

text \<open>What a successful call went through.\<close>

lemma load_configE:
  assumes "load_config show_json loaded = Inr role"
  obtains raw name t c where "name = ''iran'' \<or> name = ''foreign''"
    "read_common show_json name raw = Inr (t, c)" "check_common t c = Inr ()"
    "(if name = ''iran'' then and_then (load_iran show_json c raw) (\<lambda>c. Inr (Iran c))
      else and_then (load_foreign show_json c raw) (\<lambda>c. Inr (Foreign c))) = Inr role"
proof -
  obtain document where d: "loaded = Inr document" using assms by (auto simp: load_config_def result_simps)
  then obtain raw where raw: "document = JObj raw" using assms by (cases document) (simp_all add: load_config_def)
  define name where "name = lower (str_strip (py_str show_json (setting raw ''role'' (JStr []))))"
  have name: "name = ''iran'' \<or> name = ''foreign''"
    using assms unfolding load_config_def d raw and_then_simps json.case Let_def name_def [symmetric]
    by (auto split: if_splits)
  then have "and_then (read_common show_json name raw) (\<lambda>(timeouts, common).
            and_then (check_common timeouts common) (\<lambda>_.
              if name = ''iran'' then and_then (load_iran show_json common raw) (\<lambda>c. Inr (Iran c))
              else and_then (load_foreign show_json common raw) (\<lambda>c. Inr (Foreign c)))) = Inr role"
    using assms unfolding load_config_def d raw and_then_simps json.case Let_def name_def [symmetric]
    by (simp split: if_splits)
  then obtain p where p: "read_common show_json name raw = Inr p" "(\<lambda>(timeouts, common).
            and_then (check_common timeouts common) (\<lambda>_.
              if name = ''iran'' then and_then (load_iran show_json common raw) (\<lambda>c. Inr (Iran c))
              else and_then (load_foreign show_json common raw) (\<lambda>c. Inr (Foreign c)))) p = Inr role"
    unfolding and_then_Inr [of "read_common show_json name raw"] by blast
  obtain t c where tc: "p = (t, c)" by (cases p)
  then obtain u where "check_common t c = Inr u" "(if name = ''iran'' then and_then (load_iran show_json c raw) (\<lambda>c. Inr (Iran c))
      else and_then (load_foreign show_json c raw) (\<lambda>c. Inr (Foreign c))) = Inr role"
    using p(2) unfolding tc prod.case and_then_Inr [of "check_common t c"] by blast
  then show thesis using that [OF name] p(1) tc by simp
qed

lemma load_config_ok: "load_config show_json loaded = Inr role \<Longrightarrow> config_ok role"
proof (erule load_configE)
  fix raw name t c
  assume name: "name = ''iran'' \<or> name = ''foreign''"
    and c: "read_common show_json name raw = Inr (t, c)" "check_common t c = Inr ()"
    and r: "(if name = ''iran'' then and_then (load_iran show_json c raw) (\<lambda>c. Inr (Iran c))
              else and_then (load_foreign show_json c raw) (\<lambda>c. Inr (Foreign c))) = Inr role"
  from name show "config_ok role"
  proof
    assume n: "name = ''iran''"
    with r obtain i where "load_iran show_json c raw = Inr i" "role = Iran i" by (auto simp: and_then_Inr)
    then show ?thesis using read_common_ok [OF c] n load_iran_ok by simp
  next
    assume n: "name = ''foreign''"
    with r obtain f where "load_foreign show_json c raw = Inr f" "role = Foreign f" by (auto simp: and_then_Inr)
    then show ?thesis using read_common_ok [OF c] n load_foreign_ok by simp
  qed
qed

end
