(* ===== verification/Config_Properties.thy ===== *)
theory Config_Properties
  imports Config_Loader
begin

text \<open>
  The properties of the configuration loader: what a loaded configuration satisfies, and which errors
  come from which settings.
\<close>


section \<open>Errors\<close>

definition no_number :: "json \<Rightarrow> bool" where
  "no_number v = (case v of JNull \<Rightarrow> True | JArr _ \<Rightarrow> True | JObj _ \<Rightarrow> True | _ \<Rightarrow> False)"

definition infinite_number :: "json \<Rightarrow> bool" where
  "infinite_number v =
     (case v of JFloat f \<Rightarrow> f \<in> {PosInf, NegInf} | JInt i \<Rightarrow> \<not> is_finite (double_of_rat (of_int i)) | _ \<Rightarrow> False)"

definition numeric_settings :: "string list" where
  "numeric_settings = [''keepalive_seconds'', ''health_timeout_seconds'', ''recv_buffer_bytes'',
     ''fragment_payload_bytes'', ''retransmit_timeout_seconds'', ''max_retries'', ''max_pending_messages'',
     ''reassembly_timeout_seconds'', ''replay_checkpoint_interval_seconds'', ''replay_checkpoint_batch_frames'',
     ''downlink_source_port'']"

definition required_settings :: "string list" where
  "required_settings = [''inner_listen'', ''foreign_uplink'', ''downlink_listen'', ''uplink_listen'',
     ''inner_bridge_listen'', ''inner_peer'', ''iran_downlink'']"

definition load_error :: "(string \<times> json) list \<Rightarrow> exn \<Rightarrow> bool" where
  "load_error raw e \<longleftrightarrow>
     is_value_error e \<or>
     e = KeyError \<and> (\<exists>k \<in> set required_settings. map_of raw k = None) \<or>
     e = TypeError \<and> (\<exists>k \<in> set numeric_settings. \<exists>v. map_of raw k = Some v \<and> no_number v) \<or>
     e = OverflowError \<and> (\<exists>k \<in> set numeric_settings. \<exists>v. map_of raw k = Some v \<and> infinite_number v)"

lemma value_load_error: "is_value_error e \<Longrightarrow> load_error raw e"
  by (simp add: load_error_def)

lemma int_of_text_raises: "raises_only is_value_error (int_of_text base s)"
  by (auto simp: int_of_text_def Let_def raises_only_def split: option.splits)

lemma float_of_text_raises: "raises_only is_value_error (float_of_text s)"
  by (auto simp: float_of_text_def Let_def raises_only_def split: option.splits prod.splits if_splits)

lemma py_int_raises:
  "raises_only (\<lambda>e. is_value_error e \<or> e = TypeError \<and> no_number v \<or> e = OverflowError \<and> infinite_number v) (py_int v)"
proof (cases v)
  case (JFloat f)
  then show ?thesis by (cases f) (auto simp: raises_only_def infinite_number_def)
next
  case (JStr s)
  then show ?thesis using int_of_text_raises [of 10 s] by (auto simp: raises_only_def split: sum.splits)
qed (auto simp: raises_only_def no_number_def)

lemma py_float_raises:
  "raises_only (\<lambda>e. is_value_error e \<or> e = TypeError \<and> no_number v \<or> e = OverflowError \<and> infinite_number v) (py_float v)"
proof (cases v)
  case (JInt i)
  then show ?thesis
    by (auto simp: raises_only_def infinite_number_def is_finite_def split: pyfloat.splits)
next
  case (JStr s)
  then show ?thesis using float_of_text_raises [of s] by (auto simp: raises_only_def split: sum.splits)
qed (auto simp: raises_only_def no_number_def)

lemma setting_cases: "setting raw k fallback = fallback \<or> map_of raw k = Some (setting raw k fallback)"
  by (simp add: setting_def split: option.splits)

text \<open>A numeric setting, with a fallback that is a number.\<close>

lemma numeric_setting:
  assumes "k \<in> set numeric_settings" "\<not> no_number fallback" "\<not> infinite_number fallback"
  shows "raises_only (load_error raw) (py_int (setting raw k fallback))"
    "raises_only (load_error raw) (py_float (setting raw k fallback))"
  using py_int_raises [of "setting raw k fallback"] py_float_raises [of "setting raw k fallback"]
    setting_cases [of raw k fallback] assms
  by (auto simp: raises_only_def load_error_def split: sum.splits)

lemma value_raises: "raises_only is_value_error r \<Longrightarrow> raises_only (load_error raw) r"
  by (auto simp: raises_only_def load_error_def split: sum.splits)

lemma required_raises: "k \<in> set required_settings \<Longrightarrow> raises_only (load_error raw) (required raw k)"
  by (auto simp: raises_only_def load_error_def required_def split: option.splits)

lemma split_host_port_raises: "raises_only is_value_error (split_host_port v field)"
  by (cases v) (auto simp: raises_only_def Let_def split: sum.splits prod.splits)

lemma reject_placeholder_raises: "raises_only is_value_error (reject_placeholder s field)"
  by (simp add: reject_placeholder_def raises_only_def)

lemma remote_host_port_raises: "raises_only is_value_error (remote_host_port v field)"
  unfolding remote_host_port_def
  by (auto intro!: raises_only_and_then split_host_port_raises reject_placeholder_raises raises_only_if
      split: prod.splits)

lemma parse_ipv4_raises: "raises_only is_value_error (parse_ipv4 s field b)"
  unfolding parse_ipv4_def
  by (auto intro!: raises_only_and_then reject_placeholder_raises raises_only_if raises_only_option)

lemma credential_raises: "raises_only is_value_error (decode_tunnel_id v)" "raises_only is_value_error (decode_secret v)"
  by (cases v; auto intro!: raises_only_and_then reject_placeholder_raises raises_only_if raises_only_option)+

lemma parse_bool_raises: "raises_only is_value_error (parse_bool v field)"
  by (cases v) (auto simp: raises_only_def)

lemma optional_raises: "(\<And>v. raises_only P (f v)) \<Longrightarrow> raises_only P (optional v f)"
  unfolding optional_def by (auto intro!: raises_only_and_then raises_only_if)

lemmas setting_raises = value_raises [OF split_host_port_raises] value_raises [OF remote_host_port_raises]
  value_raises [OF parse_ipv4_raises] value_raises [OF credential_raises(1)] value_raises [OF credential_raises(2)]
  value_raises [OF parse_bool_raises]

lemma fallback_numbers:
  "\<not> infinite_number (JInt 0)" "\<not> infinite_number (JInt 4194304)" "\<not> infinite_number (JInt 1200)"
  "\<not> infinite_number (JInt 8)" "\<not> infinite_number (JInt 2048)" "\<not> infinite_number (JInt 128)"
  "\<not> infinite_number (JFloat (Fin r))"
  by (simp_all add: infinite_number_def is_finite_def double_of_rat_def exponent_of_def ulp_exponent_def pow2_def
      bitlen_eq_zero_iff compute_bitlen round_half_even_def)

lemma number_fallbacks: "\<not> no_number (JInt i)" "\<not> no_number (JFloat f)"
  by (simp_all add: no_number_def)

lemma read_common_raises: "raises_only (load_error raw) (read_common show_json role raw)"
  unfolding read_common_def Let_def
  by (intro raises_only_and_then raises_only_Inr setting_raises numeric_setting)
    (simp_all add: numeric_settings_def number_fallbacks fallback_numbers)

lemma load_iran_raises: "raises_only (load_error raw) (load_iran show_json c raw)"
  unfolding load_iran_def
  by (intro raises_only_and_then raises_only_Inr optional_raises setting_raises required_raises)
    (auto simp: required_settings_def)

lemma load_foreign_raises: "raises_only (load_error raw) (load_foreign show_json c raw)"
  unfolding load_foreign_def Let_def
  by (intro raises_only_and_then raises_only_Inr raises_only_if raises_only_Inl optional_raises setting_raises
      required_raises numeric_setting value_load_error)
    (simp_all add: required_settings_def numeric_settings_def number_fallbacks fallback_numbers)

lemma check_common_raises: "raises_only is_value_error (check_common t c)"
  by (simp add: check_common_def raises_only_def)

lemma load_config_raises: "raises_only (load_error raw) (load_config show_json (Inr (JObj raw)))"
  unfolding load_config_def Let_def and_then_simps json.case
  by (auto intro!: raises_only_and_then raises_only_if read_common_raises value_raises [OF check_common_raises]
      load_iran_raises load_foreign_raises value_load_error split: prod.splits)

section \<open>The texts of addresses\<close>

definition decimal :: string where "decimal = ''0123456789''"

lemma digits_chars: "set (digits 10 n) \<subseteq> set decimal"
proof (induction n rule: less_induct)
  case (less n)
  have "list_all (\<lambda>d. digit_char d \<in> set decimal) [0..<10]" by code_simp
  then have d: "digit_char v \<in> set decimal" if "v < 10" for v using that unfolding list_all_iff by auto
  show ?case
  proof (cases "n < 10")
    case True
    then show ?thesis using d [of n] by (subst digits.simps) simp
  next
    case False
    then have "set (digits 10 (n div 10)) \<subseteq> set decimal" by (intro less) simp
    moreover have "digit_char (n mod 10) \<in> set decimal" by (rule d) simp
    ultimately show ?thesis using False by (subst digits.simps) simp
  qed
qed

lemma join_with_chars: "set (join_with c ss) \<subseteq> insert c (\<Union> (set ` set ss))"
  by (induction c ss rule: join_with.induct) auto

lemma text_of_ipv4_chars: "set (text_of_ipv4 ip) \<subseteq> insert CHR ''.'' (set decimal)"
proof -
  have "set (text_of_ipv4 ip) \<subseteq> insert CHR ''.'' (\<Union> (set ` set (map (\<lambda>b. digits 10 (unat b)) ip)))"
    unfolding text_of_ipv4_def by (rule join_with_chars)
  also have "\<dots> \<subseteq> insert CHR ''.'' (set decimal)" using digits_chars by fastforce
  finally show ?thesis .
qed

lemma tokens_chars: "t \<in> set (tokens s) \<Longrightarrow> c \<in> set t \<Longrightarrow> c \<in> set s \<and> \<not> separator c"
proof (induction s arbitrary: t)
  case (Cons d s)
  obtain u us where u: "tokens s = u # us" by (cases "tokens s") auto
  show ?case using Cons.prems Cons.IH [of t] Cons.IH [of u] by (auto simp: u split: if_splits)
qed simp

lemma decimal_chars:
  "c \<in> set decimal \<Longrightarrow> lower_char c = c" "c \<in> insert CHR ''.'' (set decimal) \<Longrightarrow> c \<notin> set str_whitespace"
proof -
  have "list_all (\<lambda>c. lower_char c = c) decimal" "list_all (\<lambda>c. c \<notin> set str_whitespace) (CHR ''.'' # decimal)"
    by code_simp+
  then show "c \<in> set decimal \<Longrightarrow> lower_char c = c" "c \<in> insert CHR ''.'' (set decimal) \<Longrightarrow> c \<notin> set str_whitespace"
    unfolding list_all_iff by auto
qed

lemma placeholder_words_letters: "w \<in> set placeholder_words \<Longrightarrow> \<not> set w \<subseteq> set decimal"
proof -
  have "list_all (\<lambda>w. \<not> list_all (\<lambda>c. c \<in> set decimal) w) placeholder_words" by code_simp
  then show "w \<in> set placeholder_words \<Longrightarrow> \<not> set w \<subseteq> set decimal" by (auto simp: list_all_iff subset_iff)
qed

lemma lower_digits: "set s \<subseteq> set decimal \<Longrightarrow> lower s = s"
  unfolding lower_def using decimal_chars(1) by (intro map_idI) blast

lemma normalized_chars:
  "str_strip s = s \<Longrightarrow> c \<in> set (normalized s) \<Longrightarrow> c = CHR ''_'' \<or> c \<in> set s - {CHR ''.''}"
  by (auto simp: normalized_def split: if_splits)

lemma address_no_placeholder:
  assumes "ipv4_of_text s = Some ip"
  shows "reject_placeholder s field = Inr ()"
proof -
  have s: "s = text_of_ipv4 ip" "s \<noteq> []"
    using text_of_ipv4_of_text [OF assms] assms by (auto simp: ipv4_of_text_def)
  have chars: "set s \<subseteq> insert CHR ''.'' (set decimal)" using text_of_ipv4_chars s(1) by simp
  have strip: "str_strip s = s" using chars decimal_chars(2) by (intro str_strip_id) blast
  have "lower t \<notin> set placeholder_words" if t: "t \<in> set (tokens (normalized s))" for t
  proof -
    have "set t \<subseteq> set decimal"
    proof
      fix c assume "c \<in> set t"
      then have "c \<in> set (normalized s)" "\<not> separator c" using tokens_chars [OF t] by blast+
      then show "c \<in> set decimal" using normalized_chars [OF strip, of c] chars by (auto simp: separator_def)
    qed
    then show ?thesis using placeholder_words_letters [of t] lower_digits [of t] by metis
  qed
  then show ?thesis using strip s(2) by (simp add: reject_placeholder_Inr)
qed

lemma parse_ipv4_unicast: "unicast_text s \<Longrightarrow> parse_ipv4 s field False = Inr s"
  by (auto simp: unicast_text_def parse_ipv4_def address_no_placeholder)


section \<open>Properties\<close>

text \<open>A document of each kind: a loadable one, and one with a numeric setting that is null.\<close>

definition demo_document :: "(string \<times> json) list" where
  "demo_document =
     [(''role'', JStr '' Iran''), (''tunnel_id'', JStr ''000102030405060708090a0b0c0d0e0f''),
      (''shared_secret'', JStr ''AAECAwQFBgcICQoLDA0ODxAREhMUFRYXGBkaGxwdHh8=''),
      (''health_listen'', JStr ''127.0.0.1:81''), (''inner_listen'', JStr ''127.0.0.1:50''),
      (''foreign_uplink'', JStr ''198.51.100.7:70''), (''downlink_listen'', JStr ''0.0.0.0:71''),
      (''expected_downlink_source'', JStr ''198.51.100.8'')]"

definition demo_null_document :: "(string \<times> json) list" where
  "demo_null_document = (''recv_buffer_bytes'', JNull) # demo_document"

lemma demo_document_loads: "is_ok (load_config (\<lambda>_. []) (Inr (JObj demo_document)))"
  by code_simp

lemma demo_null_document_raises: "load_config (\<lambda>_. []) (Inr (JObj demo_null_document)) = Inl TypeError"
  by code_simp

text \<open>
  C24. Every configuration the loader returns satisfies the bounds the agents rely on, whatever the
  document: key material of the right length, positive timeouts, sizes and counts in range, ports of 16
  bits, peers with a port and without placeholder, and source addresses that are the canonical text of
  one host.
\<close>

theorem loaded_config_ok: "load_config show_json loaded = Inr role \<Longrightarrow> config_ok role"
  by (rule load_config_ok)

theorem loaded_config_ok_witness:
  "\<exists>role. load_config (\<lambda>_. []) (Inr (JObj demo_document)) = Inr role \<and> config_ok role"
  using demo_document_loads loaded_config_ok by (auto elim: is_okE)

text \<open>
  The scan for placeholders is a test on the words of the text: a value is rejected exactly when it
  is blank or one of the words between its dots, underscores and hyphens is, in any case, a
  placeholder word.
\<close>

theorem placeholder_rejected_iff:
  "is_ok (reject_placeholder value field) \<longleftrightarrow>
     str_strip value \<noteq> [] \<and> lower ` set (tokens (normalized value)) \<inter> set placeholder_words = {}"
  by (auto simp: reject_placeholder_def placeholder_search_iff)

end
