(* ===== verification/Agent_Start.thy ===== *)
theory Agent_Start
  imports Agent_Delivery Config_Properties
begin

text \<open>
  The constructors of the agents on what the loader returns: they raise nothing, and the agent they build
  can send every message of up to 60000 bytes.
\<close>


section \<open>The constructors on a loaded configuration\<close>

lemma PersistentReplayWindow_init_total:
  assumes "window_ok w" "file_shows fp f w" "f \<noteq> Missing \<longrightarrow> w_size w = 4096" "0 < i" "1 \<le> b"
  shows "is_ok (PersistentReplayWindow_init f fp 4096 (Fin i) b now)"
proof -
  define w0 where "w0 = \<lparr>w_size = 4096, w_session_id = None, w_retired_sessions = {}, w_highest = -1, w_bitmap = 0\<rparr>"
  have w0: "ReplayWindow_init 4096 = Inr w0" by (simp add: ReplayWindow_init_def w0_def)
  have "is_ok (if f = Missing then Inr w0 else load_state fp w0 f)"
    using assms(2,3) load_state_envelope [OF assms(1), of w0 fp] by (auto simp: file_shows_def w0_def)
  then show ?thesis
    using assms(4,5) by (auto simp: PersistentReplayWindow_init_def w0 elim!: is_okE)
qed

text \<open>A replay file an agent can start from: none, or one that shows a window of the agents' size.\<close>

definition replay_file_readable :: "(string \<times> checkpoint_file) option \<Rightarrow> bool" where
  "replay_file_readable rf \<longleftrightarrow>
     (case rf of None \<Rightarrow> True
      | Some (fp, f) \<Rightarrow> \<exists>w. window_ok w \<and> file_shows fp f w \<and> w_size w = 4096)"

lemma readable_ok: "replay_file_readable rf \<Longrightarrow> replay_file_ok rf"
  by (auto simp: replay_file_readable_def replay_file_ok_def split: option.splits)

lemma FrameCodec_init_total:
  assumes "length tid = 16" "32 \<le> length secret" "length token = 8"
  shows "is_ok (FrameCodec_init X tid secret 600 None token)"
proof -
  have "be_nat token < 2 ^ 64" using be_nat_less [of token] assms(3) by simp
  then have "int (be_nat token) \<le> 0xFFFFFFFFFFFFFFFF" by simp
  then show ?thesis using assms by (simp add: FrameCodec_init_def Let_def)
qed

lemma is_ok_and_then: "is_ok r \<Longrightarrow> (\<And>x. r = Inr x \<Longrightarrow> is_ok (f x)) \<Longrightarrow> is_ok (and_then r f)"
  by (cases r) simp_all

lemma BaseAgent_init_total:
  assumes "common_ok cfg" "replay_file_readable rf" "length token = 8"
  shows "is_ok (BaseAgent_init X ck cfg rf token sequence message_id)"
proof -
  have replay: "is_ok (case rf of
          None \<Rightarrow> and_then (ReplayWindow_init 4096) (\<lambda>w. Inr (Volatile w))
        | Some (fingerprint, f) \<Rightarrow>
            and_then (PersistentReplayWindow_init f fingerprint 4096
                (Fin (cf_replay_checkpoint_interval_seconds cfg))
                (cf_replay_checkpoint_batch_frames cfg) (ck_mono ck)) (\<lambda>p. Inr (Durable p)))"
    using assms(1,2)
    by (auto simp: replay_file_readable_def ReplayWindow_init_def common_ok_def split: option.splits
        intro!: is_ok_and_then PersistentReplayWindow_init_total)
  show ?thesis
    unfolding BaseAgent_init_def
    using assms replay
    by (intro is_ok_and_then FrameCodec_init_total)
      (auto simp: common_ok_def Reassembler_init_def ReliableSender_init_def)
qed

lemma agent_init_total:
  assumes "config_ok role" "replay_file_readable rf" "length token = 8" "\<And>host. is_ok (resolve host)"
  shows "is_ok (agent_init X role ck resolve rf token sequence message_id)"
proof (cases role)
  case (Iran cfg)
  then have "is_ok (BaseAgent_init X ck cfg rf token sequence message_id)"
    using assms by (intro BaseAgent_init_total) simp_all
  then show ?thesis using assms(4) unfolding Iran agent_init.simps IranAgent_init_def
    by (intro is_ok_and_then) (auto split: option.splits intro!: is_ok_and_then)
next
  case (Foreign cfg)
  then have "is_ok (BaseAgent_init X ck cfg rf token sequence message_id)"
    using assms by (intro BaseAgent_init_total) simp_all
  then show ?thesis using assms(4) unfolding Foreign agent_init.simps ForeignAgent_init_def
    by (intro is_ok_and_then) (auto intro!: is_ok_and_then)
qed

text \<open>What the constructor sets.\<close>

lemma BaseAgent_init_fields:
  assumes "BaseAgent_init X ck cfg rf token sequence message_id = Inr A"
  shows "ag_sequence A = sequence" "ag_message_id A = message_id" "codec_ok (ag_codec A)"
  using assms unfolding BaseAgent_init_def by (auto simp: result_simps dest: FrameCodec_init_ok)

lemma agent_init_fields:
  assumes "agent_init X role ck resolve rf token sequence message_id = Inr A"
  shows "ag_sequence A = sequence" "ag_message_id A = message_id" "codec_ok (ag_codec A)"
  using assms
  by (cases role; auto simp: IranAgent_init_def ForeignAgent_init_def result_simps split: option.splits
      dest: BaseAgent_init_fields)+

text \<open>The packets of any message a loaded configuration lets through.\<close>

lemma message_packets_fit:
  assumes "aead_ok X" "fragment_message p s fec = Inr fs" "is_data_kind kind" "can_send ck A"
    and "packet \<in> set (message_packets X ck kind fs A)"
  shows "length packet + 28 \<le> 1500"
proof -
  obtain f where f: "f \<in> set (data_frames (ag_codec A) (wall_ms ck) kind (ag_message_id A + 1) (ag_sequence A) fs)"
    "packet = seal X (cd_key (ag_codec A)) f"
    using assms(5) by (auto simp: message_packets_def)
  then have "frame_ok f" using message_frames_ok [OF assms(2-4)] by blast
  then have "length packet = FRAME_OVERHEAD + length (fr_payload f)" "length (fr_payload f) \<le> 1391"
    using length_seal [OF assms(1), of f] f(2) by (simp_all add: frame_ok_def wire_ok_def MAX_FRAGMENT_PAYLOAD_def)
  then show ?thesis by (simp add: FRAME_OVERHEAD_def)
qed

lemma common_message_packets:
  assumes "aead_ok X" "common_ok cfg" "length p \<le> 60000" "is_data_kind kind" "can_send ck A"
  shows "\<exists>packets B. build_data_packets X ck cfg kind p A = (Inr (ag_message_id A + 1, packets), B) \<and>
    (\<forall>packet \<in> set packets. length packet + 28 \<le> 1500)"
proof -
  obtain fs where fs: "fragment_message p (cf_fragment_payload_bytes cfg) (cf_fec_enabled cfg) = Inr fs"
    using assms(2,3) by (auto simp: fragment_message_iff common_ok_def)
  show ?thesis
    using build_data_packets_ok [OF fs assms(4,5), of X] message_packets_fit [OF assms(1) fs assms(4,5)] by blast
qed

section \<open>Properties\<close>

text \<open>
  An agent in the state \<open>A\<close> turns every message of at most 60000 bytes into packets that fit an Ethernet frame
  with their IPv4 and UDP headers.
\<close>

definition sends_any ::
  "crypto \<Rightarrow> clock \<Rightarrow> 'z common_config_scheme \<Rightarrow> int \<Rightarrow> agent \<Rightarrow> bool" where
  "sends_any X ck cfg kind A \<longleftrightarrow>
     (\<forall>p. length p \<le> 60000 \<longrightarrow>
       (\<exists>packets B. build_data_packets X ck cfg kind p A = (Inr (ag_message_id A + 1, packets), B) \<and>
          (\<forall>packet \<in> set packets. length packet + 28 \<le> 1500)))"

lemma common_sends_any:
  "aead_ok X \<Longrightarrow> common_ok cfg \<Longrightarrow> can_send ck A \<Longrightarrow> is_data_kind kind \<Longrightarrow> sends_any X ck cfg kind A"
  unfolding sends_any_def by (intro allI impI common_message_packets)

text \<open>
  From the document to a running agent: on every configuration the loader returns the constructor of the
  agent raises nothing, provided the hosts resolve and the replay file is absent or a checkpoint of an
  agent, and the agent it builds can send every message of up to 60000 bytes without an error, in
  packets that fit the MTU.
\<close>

theorem loaded_agent_starts:
  assumes "load_config show_json loaded = Inr role" "replay_file_readable rf" "length token = 8"
    and "\<And>host. is_ok (resolve host)" "aead_ok X"
    and "0 \<le> sequence" "sequence < 2 ^ 63" "0 \<le> message_id" "message_id < 2 ^ 63"
    and "0 \<le> wall_ms ck'" "wall_ms ck' < 2 ^ 64"
  shows "\<exists>A. agent_init X role ck resolve rf token sequence message_id = Inr A \<and> reach X role A \<and>
    (case role of Iran cfg \<Rightarrow> sends_any X ck' cfg DATA_UP A | Foreign cfg \<Rightarrow> sends_any X ck' cfg DATA_DOWN A)"
proof -
  have ok: "config_ok role" by (rule load_config_ok [OF assms(1)])
  obtain A where A: "agent_init X role ck resolve rf token sequence message_id = Inr A"
    using agent_init_total [of role rf token resolve] ok assms(2,3,4) by (blast elim: is_okE)
  have "can_send ck' A" using agent_init_fields [OF A] assms(6-) by (simp add: can_send_def)
  then have "case role of Iran cfg \<Rightarrow> sends_any X ck' cfg DATA_UP A | Foreign cfg \<Rightarrow> sends_any X ck' cfg DATA_DOWN A"
    using ok by (cases role) (simp_all add: common_sends_any [OF assms(5)] is_data_kind_def)
  then show ?thesis using A reach.start [OF A readable_ok [OF assms(2)]] by blast
qed

theorem loaded_agent_starts_witness:
  "\<exists>role A. load_config (\<lambda>_. []) (Inr (JObj demo_document)) = Inr role \<and>
    agent_init demo_crypto role \<lparr>ck_wall = 1, ck_mono = 1\<rparr> Inr None (replicate 8 0) 5 6 = Inr A"
proof -
  obtain role where role: "load_config (\<lambda>_. []) (Inr (JObj demo_document)) = Inr role"
    using demo_document_loads by (rule is_okE)
  show ?thesis
    using role loaded_agent_starts [OF role, of None "replicate 8 0" Inr demo_crypto 5 6
        "\<lparr>ck_wall = 1, ck_mono = 1\<rparr>" "\<lparr>ck_wall = 1, ck_mono = 1\<rparr>"]
    by (auto simp: replay_file_readable_def demo_aead_ok wall_ms_def truncate_rat_def)
qed

end
