(* ===== verification/Agent_Process.thy ===== *)
theory Agent_Process
  imports Agent_Start Agent_Properties
begin

text \<open>
  An agent as a process: the sockets its constructor opens, the threads it starts, the loops they run around the
  handlers of \<open>Agent\<close>, and \<open>stop\<close>. A run is a sequence of events, one turn of a thread or one part of \<open>stop\<close>,
  in any order. Shown: every turn is a round of the agent or changes nothing, a thread ends only for a known
  reason, and after the stop event each ends within two turns.
\<close>


section \<open>Sockets\<close>

text \<open>
  A UDP socket as the program sees it: what it is bound to, the receive buffer and the timeout it was given, and whether
  \<open>close\<close> was called. \<open>bind opened address\<close> is the operating system's answer to \<open>bind\<close>, given the sockets that
  are already open. \<open>setsockopt\<close> takes a C \<open>int\<close> for the size of the buffer and refuses any other integer with
  a \<open>TypeError\<close>.
\<close>

record udp_socket =
  so_address :: address
  so_recv_buffer :: "int option"
  so_timeout :: "rat option"
  so_closed :: bool

type_synonym bind_call = "udp_socket list \<Rightarrow> address \<Rightarrow> unit result"

definition open_udp :: "bind_call \<Rightarrow> udp_socket list \<Rightarrow> address \<Rightarrow> udp_socket result" where
  "open_udp bind opened a =
     and_then (bind opened a) (\<lambda>_.
       Inr \<lparr>so_address = a, so_recv_buffer = None, so_timeout = None, so_closed = False\<rparr>)"

definition fits_c_int :: "int \<Rightarrow> bool" where
  "fits_c_int n \<longleftrightarrow> - (2 ^ 31) \<le> n \<and> n < 2 ^ 31"

definition configure_udp_socket :: "int \<Rightarrow> udp_socket \<Rightarrow> udp_socket result" where
  "configure_udp_socket recv_buffer s =
     (if fits_c_int recv_buffer then Inr (s\<lparr>so_recv_buffer := Some recv_buffer, so_timeout := Some 1\<rparr>)
      else Inl TypeError)"

definition open_configured :: "bind_call \<Rightarrow> udp_socket list \<Rightarrow> address \<Rightarrow> int \<Rightarrow> udp_socket result" where
  "open_configured bind opened a recv_buffer =
     and_then (open_udp bind opened a) (configure_udp_socket recv_buffer)"

text \<open>\<open>NormalUDPSender\<close>: a socket that only sends, with neither buffer nor timeout set.\<close>

definition NormalUDPSender_init :: "bind_call \<Rightarrow> udp_socket list \<Rightarrow> address \<Rightarrow> udp_socket result" where
  "NormalUDPSender_init bind opened a = open_udp bind opened a"

definition close_socket :: "udp_socket \<Rightarrow> udp_socket" where
  "close_socket s = s\<lparr>so_closed := True\<rparr>"


section \<open>The process of an agent\<close>

text \<open>
  The threads of the agents, one for each loop, and where a thread is: about to test the stop event (or to wait on it),
  blocked in \<open>recvfrom\<close>, or ended, by returning or by an exception.
\<close>

datatype loop = MetricsWriter | Reliability | IranInner | IranDownlink | IranKeepalive | ForeignUplink | ForeignInner

fun loop_name :: "loop \<Rightarrow> string" where
  "loop_name MetricsWriter = ''metrics-writer''"
| "loop_name Reliability = ''reliability''"
| "loop_name IranInner = ''iran-inner''"
| "loop_name IranDownlink = ''iran-downlink''"
| "loop_name IranKeepalive = ''iran-keepalive''"
| "loop_name ForeignUplink = ''foreign-uplink''"
| "loop_name ForeignInner = ''foreign-inner''"

datatype thread = AtTest | InRecv | Ended "exn option"

text \<open>The agent with its \<open>Runtime\<close>: the stop event, the threads in the order they were spawned, the sockets and
  the health server, with the address it listens on.\<close>

record process =
  pr_agent :: agent
  pr_stop :: bool
  pr_threads :: "(loop \<times> thread) list"
  pr_sockets :: "udp_socket list"
  pr_health :: "address option"

definition process_of :: "agent \<Rightarrow> udp_socket list \<Rightarrow> process" where
  "process_of A socks = \<lparr>pr_agent = A, pr_stop = False, pr_threads = [], pr_sockets = socks, pr_health = None\<rparr>"

text \<open>The constructors. The foreign one opens two of its sockets before it resolves the inner peer.\<close>

definition IranAgent_open ::
  "crypto \<Rightarrow> clock \<Rightarrow> (string \<Rightarrow> string result) \<Rightarrow> bind_call \<Rightarrow> iran_config \<Rightarrow> (string \<times> checkpoint_file) option \<Rightarrow>
     bytes \<Rightarrow> int \<Rightarrow> int \<Rightarrow> process result" where
  "IranAgent_open X ck resolve bind cfg replay_file token sequence message_id =
     and_then (IranAgent_init X ck resolve cfg replay_file token sequence message_id) (\<lambda>A.
     and_then (open_configured bind [] (ir_inner_listen cfg) (cf_recv_buffer_bytes cfg)) (\<lambda>inner_sock.
     and_then (open_configured bind [inner_sock] (ir_downlink_listen cfg) (cf_recv_buffer_bytes cfg)) (\<lambda>downlink_sock.
     and_then (NormalUDPSender_init bind [inner_sock, downlink_sock] (ir_uplink_bind cfg)) (\<lambda>uplink.
     Inr (process_of A [inner_sock, downlink_sock, uplink])))))"

definition ForeignAgent_open ::
  "crypto \<Rightarrow> clock \<Rightarrow> (string \<Rightarrow> string result) \<Rightarrow> bind_call \<Rightarrow> foreign_config \<Rightarrow> (string \<times> checkpoint_file) option \<Rightarrow>
     bytes \<Rightarrow> int \<Rightarrow> int \<Rightarrow> process result" where
  "ForeignAgent_open X ck resolve bind cfg replay_file token sequence message_id =
     and_then (BaseAgent_init X ck cfg replay_file token sequence message_id) (\<lambda>A.
     and_then (open_configured bind [] (fo_uplink_listen cfg) (cf_recv_buffer_bytes cfg)) (\<lambda>uplink_sock.
     and_then (open_configured bind [uplink_sock] (fo_inner_bridge_listen cfg) (cf_recv_buffer_bytes cfg)) (\<lambda>inner_sock.
     and_then (resolve (fst (fo_inner_peer cfg))) (\<lambda>ip.
     let source_address = (case fo_downlink_source cfg of None \<Rightarrow> ''0.0.0.0''
       | Some source \<Rightarrow> if source = [] then ''0.0.0.0'' else source) in
     and_then (NormalUDPSender_init bind [uplink_sock, inner_sock] (source_address, fo_downlink_source_port cfg))
       (\<lambda>downlink.
     Inr (process_of (A\<lparr>ag_inner_peer := Some (ip, snd (fo_inner_peer cfg))\<rparr>)
            [uplink_sock, inner_sock, downlink]))))))"

fun agent_open ::
  "crypto \<Rightarrow> role \<Rightarrow> clock \<Rightarrow> (string \<Rightarrow> string result) \<Rightarrow> bind_call \<Rightarrow> (string \<times> checkpoint_file) option \<Rightarrow> bytes \<Rightarrow>
     int \<Rightarrow> int \<Rightarrow> process result" where
  "agent_open X (Iran cfg) ck resolve bind rf token sequence message_id =
     IranAgent_open X ck resolve bind cfg rf token sequence message_id"
| "agent_open X (Foreign cfg) ck resolve bind rf token sequence message_id =
     ForeignAgent_open X ck resolve bind cfg rf token sequence message_id"

text \<open>
  \<open>start\<close>: the health server first (\<open>listen\<close> is the operating system's answer to its socket), then the threads.
\<close>

definition spawn :: "loop \<Rightarrow> process \<Rightarrow> process" where
  "spawn l P = P\<lparr>pr_threads := pr_threads P @ [(l, AtTest)]\<rparr>"

definition start_common :: "(address \<Rightarrow> unit result) \<Rightarrow> address \<Rightarrow> process \<Rightarrow> process result" where
  "start_common listen health_listen P =
     and_then (listen health_listen) (\<lambda>_.
       Inr (spawn Reliability (spawn MetricsWriter (P\<lparr>pr_health := Some health_listen\<rparr>))))"

definition IranAgent_start :: "(address \<Rightarrow> unit result) \<Rightarrow> iran_config \<Rightarrow> process \<Rightarrow> process result" where
  "IranAgent_start listen cfg P =
     and_then (start_common listen (cf_health_listen cfg) P) (\<lambda>P1.
       Inr (spawn IranKeepalive (spawn IranDownlink (spawn IranInner P1))))"

definition ForeignAgent_start :: "(address \<Rightarrow> unit result) \<Rightarrow> foreign_config \<Rightarrow> process \<Rightarrow> process result" where
  "ForeignAgent_start listen cfg P =
     and_then (start_common listen (cf_health_listen cfg) P) (\<lambda>P1.
       Inr (spawn ForeignInner (spawn ForeignUplink P1)))"

fun agent_start :: "(address \<Rightarrow> unit result) \<Rightarrow> role \<Rightarrow> process \<Rightarrow> process result" where
  "agent_start listen (Iran cfg) P = IranAgent_start listen cfg P"
| "agent_start listen (Foreign cfg) P = ForeignAgent_start listen cfg P"


section \<open>The loops\<close>

text \<open>
  A thread runs in turns. \<open>recvfrom\<close> returns a datagram, times out or raises \<open>OSError\<close>; \<open>tn_faults\<close> says which calls of
  \<open>sendto\<close> fail in this turn (a closed socket makes them all fail) and \<open>tn_failing\<close> what the file operations
  of the metrics raise.
\<close>

datatype recv = RecvData bytes address | RecvTimeout | RecvError

record turn =
  tn_clock :: clock
  tn_recv :: recv
  tn_faults :: "string option list"
  tn_failing :: "exn option"

text \<open>A turn of \<open>while not stop.is_set(): recvfrom ...\<close>: the test, or the end of \<open>recvfrom\<close> and the handling.\<close>

definition recv_turn ::
  "(clock \<Rightarrow> bytes \<Rightarrow> address \<Rightarrow> unit agent_act) \<Rightarrow> turn \<Rightarrow> bool \<Rightarrow> thread \<Rightarrow> agent \<Rightarrow> thread \<times> agent" where
  "recv_turn handler t stop th A =
     (case th of
        AtTest \<Rightarrow> (if stop then Ended None else InRecv, A)
      | InRecv \<Rightarrow>
          (case tn_recv t of
             RecvTimeout \<Rightarrow> (AtTest, A)
           | RecvError \<Rightarrow> (Ended None, A)
           | RecvData payload peer \<Rightarrow>
               (case handler (tn_clock t) payload peer A of
                  (Inr _, B) \<Rightarrow> (AtTest, B)
                | (Inl e, B) \<Rightarrow> (Ended (Some e), B)))
      | Ended e \<Rightarrow> (Ended e, A))"

text \<open>
  A turn of \<open>while not stop.wait(interval): ...\<close>: a wait on an event that is not set takes a lock with the interval as
  its timeout, which must not exceed \<open>threading.TIMEOUT_MAX\<close>; it ends with the state of the event.
\<close>

definition TIMEOUT_MAX :: rat where
  "TIMEOUT_MAX = 9223372036"

definition timer_turn ::
  "rat \<Rightarrow> (turn \<Rightarrow> unit agent_act) \<Rightarrow> turn \<Rightarrow> bool \<Rightarrow> thread \<Rightarrow> agent \<Rightarrow> thread \<times> agent" where
  "timer_turn interval body t stop th A =
     (case th of
        Ended e \<Rightarrow> (Ended e, A)
      | _ \<Rightarrow>
          (if stop then (Ended None, A)
           else if TIMEOUT_MAX < interval then (Ended (Some OverflowError), A)
           else (case body t A of
                   (Inr _, B) \<Rightarrow> (AtTest, B)
                 | (Inl e, B) \<Rightarrow> (Ended (Some e), B))))"

type_synonym turns = "turn \<Rightarrow> bool \<Rightarrow> thread \<Rightarrow> agent \<Rightarrow> thread \<times> agent"

text \<open>The loops of \<open>BaseAgent\<close>.\<close>

definition persist_loop :: turns where
  "persist_loop = timer_turn 2 (\<lambda>t. persist_round (tn_clock t) (tn_failing t))"

definition reliability_loop :: "(clock \<Rightarrow> transport) \<Rightarrow> 'z common_config_scheme \<Rightarrow> turns" where
  "reliability_loop transport_send cfg =
     timer_turn (min (1 / 20) (cf_retransmit_timeout_seconds cfg / 4))
       (\<lambda>t. reliability_round (tn_clock t) cfg (transport_send (tn_clock t)))"

text \<open>Those of \<open>IranAgent\<close>.\<close>

definition iran_inner_loop :: "crypto \<Rightarrow> iran_config \<Rightarrow> turns" where
  "iran_inner_loop X cfg = recv_turn (\<lambda>ck. iran_inner X ck cfg)"

definition iran_downlink_loop :: "crypto \<Rightarrow> iran_config \<Rightarrow> turns" where
  "iran_downlink_loop X cfg = recv_turn (\<lambda>ck. iran_downlink X ck cfg)"

definition iran_keepalive_loop :: "crypto \<Rightarrow> iran_config \<Rightarrow> turns" where
  "iran_keepalive_loop X cfg = timer_turn (cf_keepalive_seconds cfg) (\<lambda>t. iran_keepalive X (tn_clock t) cfg)"

text \<open>And those of \<open>ForeignAgent\<close>.\<close>

definition foreign_uplink_loop :: "crypto \<Rightarrow> foreign_config \<Rightarrow> turns" where
  "foreign_uplink_loop X cfg = recv_turn (\<lambda>ck. foreign_uplink X ck cfg)"

definition foreign_inner_loop :: "crypto \<Rightarrow> foreign_config \<Rightarrow> turns" where
  "foreign_inner_loop X cfg = recv_turn (\<lambda>ck. foreign_inner X ck cfg)"

fun loop_turn :: "crypto \<Rightarrow> role \<Rightarrow> loop \<Rightarrow> turns" where
  "loop_turn X role MetricsWriter = persist_loop"
| "loop_turn X (Iran cfg) Reliability = reliability_loop (\<lambda>ck. iran_transport_send ck cfg) cfg"
| "loop_turn X (Iran cfg) IranInner = iran_inner_loop X cfg"
| "loop_turn X (Iran cfg) IranDownlink = iran_downlink_loop X cfg"
| "loop_turn X (Iran cfg) IranKeepalive = iran_keepalive_loop X cfg"
| "loop_turn X (Foreign cfg) Reliability = reliability_loop (\<lambda>ck. foreign_transport_send ck cfg) cfg"
| "loop_turn X (Foreign cfg) ForeignUplink = foreign_uplink_loop X cfg"
| "loop_turn X (Foreign cfg) ForeignInner = foreign_inner_loop X cfg"
| "loop_turn X role l = (\<lambda>t stop th A. (th, A))"

lemmas loop_defs = persist_loop_def reliability_loop_def iran_inner_loop_def iran_downlink_loop_def
  iran_keepalive_loop_def foreign_uplink_loop_def foreign_inner_loop_def


section \<open>Runs\<close>

text \<open>
  What happens to a process: a turn of one of its threads, a step of the writer thread of the replay window, and the
  parts of \<open>stop\<close>. \<open>StopFirst\<close> sets the event, closes the sockets and shuts the health server down; the threads are
  joined meanwhile; \<open>StopClose\<close> asks the replay window to finish and \<open>StopEnd\<close> is the rest.
\<close>

datatype event =
    Turn loop turn
  | WriterTake rat rat
  | WriterEnd clock bool string
  | StopFirst
  | StopClose
  | StopEnd clock "exn option"

definition on_agent :: "unit agent_act \<Rightarrow> process \<Rightarrow> process" where
  "on_agent m P = P\<lparr>pr_agent := snd (m (pr_agent P))\<rparr>"

definition stop_first :: "process \<Rightarrow> process" where
  "stop_first P = P\<lparr>pr_stop := True, pr_sockets := map close_socket (pr_sockets P), pr_health := None\<rparr>"

definition set_thread :: "loop \<Rightarrow> thread \<Rightarrow> (loop \<times> thread) list \<Rightarrow> (loop \<times> thread) list" where
  "set_thread l th = map (\<lambda>(k, x). (k, if k = l then th else x))"

definition thread_turn :: "crypto \<Rightarrow> role \<Rightarrow> loop \<Rightarrow> turn \<Rightarrow> process \<Rightarrow> process" where
  "thread_turn X role l t P =
     (case map_of (pr_threads P) l of
        None \<Rightarrow> P
      | Some th \<Rightarrow>
          (case loop_turn X role l t (pr_stop P) th ((pr_agent P)\<lparr>ag_faults := tn_faults t\<rparr>) of
             (th1, B) \<Rightarrow> P\<lparr>pr_agent := B, pr_threads := set_thread l th1 (pr_threads P)\<rparr>))"

fun handle :: "crypto \<Rightarrow> role \<Rightarrow> event \<Rightarrow> process \<Rightarrow> process" where
  "handle X role (Turn l t) P = thread_turn X role l t P"
| "handle X role (WriterTake now started_at) P = on_agent (replay_writer (writer_take now started_at)) P"
| "handle X role (WriterEnd ck success msg) P = on_agent (writer_finished ck success msg) P"
| "handle X role StopFirst P = stop_first P"
| "handle X role StopClose P = on_agent stop_begin P"
| "handle X role (StopEnd ck failing) P = on_agent (stop_end ck failing) P"

definition runs :: "crypto \<Rightarrow> role \<Rightarrow> event list \<Rightarrow> process \<Rightarrow> process" where
  "runs X role es P = fold (handle X role) es P"



section \<open>Opening and starting\<close>

text \<open>The threads of a role, in the order they are spawned, and the addresses its sockets are bound to.\<close>

fun loops_of :: "role \<Rightarrow> loop list" where
  "loops_of (Iran cfg) = [MetricsWriter, Reliability, IranInner, IranDownlink, IranKeepalive]"
| "loops_of (Foreign cfg) = [MetricsWriter, Reliability, ForeignUplink, ForeignInner]"

fun bound_addresses :: "role \<Rightarrow> address list" where
  "bound_addresses (Iran cfg) = [ir_inner_listen cfg, ir_downlink_listen cfg, ir_uplink_bind cfg]"
| "bound_addresses (Foreign cfg) =
     [fo_uplink_listen cfg, fo_inner_bridge_listen cfg,
      (case fo_downlink_source cfg of None \<Rightarrow> ''0.0.0.0'' | Some s \<Rightarrow> if s = [] then ''0.0.0.0'' else s,
       fo_downlink_source_port cfg)]"

fun recv_buffer :: "role \<Rightarrow> int" where
  "recv_buffer (Iran cfg) = cf_recv_buffer_bytes cfg"
| "recv_buffer (Foreign cfg) = cf_recv_buffer_bytes cfg"

fun health_address :: "role \<Rightarrow> address" where
  "health_address (Iran cfg) = cf_health_listen cfg"
| "health_address (Foreign cfg) = cf_health_listen cfg"

lemmas open_simps = open_configured_def open_udp_def configure_udp_socket_def NormalUDPSender_init_def
  IranAgent_open_def ForeignAgent_open_def process_of_def

lemma agent_open_Inr:
  assumes "agent_open X role ck resolve bind rf token sequence message_id = Inr P"
  shows "agent_init X role ck resolve rf token sequence message_id = Inr (pr_agent P)"
    "\<not> pr_stop P" "pr_threads P = []" "pr_health P = None"
    "map so_address (pr_sockets P) = bound_addresses role" "list_all (\<lambda>s. \<not> so_closed s) (pr_sockets P)"
    "fits_c_int (recv_buffer role)"
  using assms
  by (cases role; auto simp: open_simps ForeignAgent_init_def result_simps Let_def split: if_splits)+

lemma agent_open_total:
  assumes "agent_init X role ck resolve rf token sequence message_id = Inr A" "fits_c_int (recv_buffer role)"
    and "\<And>opened a. is_ok (bind opened a)"
  shows "is_ok (agent_open X role ck resolve bind rf token sequence message_id)"
proof -
  have bind: "bind opened a = Inr ()" for opened a using assms(3) [of opened a] by (cases "bind opened a") auto
  show ?thesis
    using assms(1,2) by (cases role) (auto simp: open_simps ForeignAgent_init_def result_simps bind Let_def)
qed

lemma agent_start_Inr:
  assumes "agent_start listen role P = Inr Q"
  shows "Q = P\<lparr>pr_threads := pr_threads P @ map (\<lambda>l. (l, AtTest)) (loops_of role), pr_health := Some (health_address role)\<rparr>"
    "listen (health_address role) = Inr ()"
  using assms by (cases role; auto simp: IranAgent_start_def ForeignAgent_start_def start_common_def spawn_def result_simps)+

lemma agent_start_total: "is_ok (listen (health_address role)) \<Longrightarrow> is_ok (agent_start listen role P)"
  by (cases role) (auto simp: IranAgent_start_def ForeignAgent_start_def start_common_def elim!: is_okE)


section \<open>Turns are rounds of the agent\<close>

fun is_recv_loop :: "loop \<Rightarrow> bool" where
  "is_recv_loop l \<longleftrightarrow> l = IranInner \<or> l = IranDownlink \<or> l = ForeignUplink \<or> l = ForeignInner"

definition ran :: "crypto \<Rightarrow> role \<Rightarrow> agent \<Rightarrow> thread \<Rightarrow> agent \<Rightarrow> bool" where
  "ran X role A th B \<longleftrightarrow>
     (th = AtTest \<and> round X role A (Inr ()) B) \<or> (\<exists>e. th = Ended (Some e) \<and> round X role A (Inl e) B)"

lemma recv_turn_ran:
  assumes "recv_turn handler t stop th A = (th1, B)"
    and "\<And>ck b p r B. handler ck b p A = (r, B) \<Longrightarrow> round X role A r B"
  shows "ran X role A th1 B \<or> B = A \<and> (th1 = th \<and> (\<exists>e. th = Ended e) \<or> th = AtTest \<and> stop \<and> th1 = Ended None
    \<or> th = AtTest \<and> \<not> stop \<and> th1 = InRecv \<or> th = InRecv \<and> (th1 = AtTest \<or> th1 = Ended None))"
  using assms by (fastforce simp: recv_turn_def ran_def split: thread.splits recv.splits prod.splits sum.splits if_splits)

lemma timer_turn_ran:
  assumes "timer_turn interval body t stop th A = (th1, B)"
    and "\<And>r B. body t A = (r, B) \<Longrightarrow> round X role A r B"
  shows "ran X role A th1 B \<and> \<not> stop \<or> B = A \<and> (th1 = th \<and> (\<exists>e. th = Ended e) \<or> stop \<and> th1 = Ended None
    \<or> \<not> stop \<and> TIMEOUT_MAX < interval \<and> th1 = Ended (Some OverflowError))"
  using assms by (fastforce simp: timer_turn_def ran_def split: thread.splits prod.splits sum.splits if_splits)

text \<open>
  Why a thread may end: a receive loop by an error of \<open>recvfrom\<close>, every loop by the stop event, and some loops by an exception
  that leaves their round.
\<close>

fun ends_with :: "role \<Rightarrow> loop \<Rightarrow> exn \<Rightarrow> bool" where
  "ends_with role MetricsWriter e \<longleftrightarrow> False"
| "ends_with role Reliability e \<longleftrightarrow> False"
| "ends_with role IranDownlink e \<longleftrightarrow> is_struct_error e"
| "ends_with role ForeignUplink e \<longleftrightarrow> is_struct_error e"
| "ends_with role IranInner e \<longleftrightarrow> escaping (is_reliable role) e"
| "ends_with role ForeignInner e \<longleftrightarrow> escaping (is_reliable role) e"
| "ends_with role IranKeepalive e \<longleftrightarrow> is_struct_error e \<or> e = OverflowError \<and>
     (case role of Iran cfg \<Rightarrow> TIMEOUT_MAX < cf_keepalive_seconds cfg | Foreign cfg \<Rightarrow> False)"

definition thread_ok :: "role \<Rightarrow> bool \<Rightarrow> loop \<Rightarrow> thread \<Rightarrow> bool" where
  "thread_ok role stop l th \<longleftrightarrow>
     (case th of
        AtTest \<Rightarrow> True
      | InRecv \<Rightarrow> is_recv_loop l
      | Ended None \<Rightarrow> stop \<or> is_recv_loop l
      | Ended (Some e) \<Rightarrow> ends_with role l e)"

lemma recv_turn_ok:
  assumes "recv_turn handler t stop th A = (th1, B)" "\<And>ck b p. safe (ends_with role l) (handler ck b p)" "is_recv_loop l"
    and "agent_ok A" "thread_ok role stop l th"
  shows "thread_ok role stop l th1"
proof -
  have "handler (tn_clock t) payload peer A = (Inl e, C) \<Longrightarrow> ends_with role l e" for payload peer e C
    using keepsD [OF assms(2,4)] by (fastforce simp: raises_only_def)
  then show ?thesis
    using assms(1,3,5)
    by (auto simp: recv_turn_def thread_ok_def split: thread.splits recv.splits prod.splits sum.splits if_splits)
qed

lemma timer_turn_ok:
  assumes "timer_turn interval body t stop th A = (th1, B)" "safe (ends_with role l) (body t)"
    and "TIMEOUT_MAX < interval \<Longrightarrow> ends_with role l OverflowError"
    and "agent_ok A" "thread_ok role stop l th"
  shows "thread_ok role stop l th1"
proof -
  have "body t A = (Inl e, C) \<Longrightarrow> ends_with role l e" for e C
    using keepsD [OF assms(2,4)] by (fastforce simp: raises_only_def)
  then show ?thesis
    using assms(1,3,5) by (auto simp: timer_turn_def thread_ok_def split: thread.splits prod.splits sum.splits if_splits)
qed

lemma short_intervals: "\<not> TIMEOUT_MAX < 2" "\<not> TIMEOUT_MAX < min (1 / 20) x"
  by (simp_all add: TIMEOUT_MAX_def min_def)

lemma safe_ends:
  "safe is_struct_error m \<Longrightarrow> safe (ends_with role IranDownlink) m" "safe is_struct_error m \<Longrightarrow> safe (ends_with role ForeignUplink) m"
  "safe (escaping (is_reliable role)) m \<Longrightarrow> safe (ends_with role IranInner) m"
  "safe (escaping (is_reliable role)) m \<Longrightarrow> safe (ends_with role ForeignInner) m"
  by (erule ags.keeps_weaken, simp)+

lemma loop_turn_ok:
  assumes "loop_turn X role l t stop th A = (th1, B)" "agent_ok A" "thread_ok role stop l th" "l \<in> set (loops_of role)"
  shows "thread_ok role stop l th1"
proof (cases role)
  case (Iran cfg)
  have sends: "safe is_os_error (iran_transport_send ck cfg b p)" for ck b p by (rule safe_iran_transport)
  consider "l = MetricsWriter" | "l = Reliability" | "l = IranInner" | "l = IranDownlink" | "l = IranKeepalive"
    using assms(4) Iran by auto
  then show ?thesis
  proof cases
    case 1
    show ?thesis by (rule timer_turn_ok [OF _ _ _ assms(2,3)]) (use assms(1) 1 short_intervals in \<open>auto simp: loop_defs intro: safe_persist_round\<close>)
  next
    case 2
    show ?thesis
      by (rule timer_turn_ok [OF _ _ _ assms(2,3)])
        (use assms(1) 2 Iran short_intervals in \<open>auto simp: loop_defs intro: safe_reliability_round sends\<close>)
  next
    case 3
    have "safe (ends_with role l) (iran_inner X ck cfg b p)" for ck b p
      using safe_iran_inner 3 Iran by (simp add: safe_ends)
    moreover have "recv_turn (\<lambda>ck. iran_inner X ck cfg) t stop th A = (th1, B)" using assms(1) 3 Iran by (simp add: loop_defs)
    moreover have "is_recv_loop l" using 3 by simp
    ultimately show ?thesis using recv_turn_ok [OF _ _ _ assms(2,3)] by blast
  next
    case 4
    have "safe (ends_with role l) (iran_downlink X ck cfg b p)" for ck b p
      using safe_iran_downlink 4 Iran by (simp add: safe_ends)
    moreover have "recv_turn (\<lambda>ck. iran_downlink X ck cfg) t stop th A = (th1, B)" using assms(1) 4 Iran by (simp add: loop_defs)
    moreover have "is_recv_loop l" using 4 by simp
    ultimately show ?thesis using recv_turn_ok [OF _ _ _ assms(2,3)] by blast
  next
    case 5
    have weak: "is_struct_error e \<Longrightarrow> ends_with role l e" for e using 5 by auto
    show ?thesis
      by (rule timer_turn_ok [OF _ _ _ assms(2,3)])
        (use assms(1) 5 Iran weak in \<open>auto simp: loop_defs intro: ags.keeps_weaken [OF safe_iran_keepalive]\<close>)
  qed
next
  case (Foreign cfg)
  have sends: "safe is_os_error (foreign_transport_send ck cfg b p)" for ck b p by (rule safe_foreign_transport)
  consider "l = MetricsWriter" | "l = Reliability" | "l = ForeignInner" | "l = ForeignUplink"
    using assms(4) Foreign by auto
  then show ?thesis
  proof cases
    case 1
    show ?thesis by (rule timer_turn_ok [OF _ _ _ assms(2,3)]) (use assms(1) 1 short_intervals in \<open>auto simp: loop_defs intro: safe_persist_round\<close>)
  next
    case 2
    show ?thesis
      by (rule timer_turn_ok [OF _ _ _ assms(2,3)])
        (use assms(1) 2 Foreign short_intervals in \<open>auto simp: loop_defs intro: safe_reliability_round sends\<close>)
  next
    case 3
    have "safe (ends_with role l) (foreign_inner X ck cfg b p)" for ck b p
      using safe_foreign_inner 3 Foreign by (simp add: safe_ends)
    moreover have "recv_turn (\<lambda>ck. foreign_inner X ck cfg) t stop th A = (th1, B)" using assms(1) 3 Foreign by (simp add: loop_defs)
    moreover have "is_recv_loop l" using 3 by simp
    ultimately show ?thesis using recv_turn_ok [OF _ _ _ assms(2,3)] by blast
  next
    case 4
    have "safe (ends_with role l) (foreign_uplink X ck cfg b p)" for ck b p
      using safe_foreign_uplink 4 Foreign by (simp add: safe_ends)
    moreover have "recv_turn (\<lambda>ck. foreign_uplink X ck cfg) t stop th A = (th1, B)" using assms(1) 4 Foreign by (simp add: loop_defs)
    moreover have "is_recv_loop l" using 4 by simp
    ultimately show ?thesis using recv_turn_ok [OF _ _ _ assms(2,3)] by blast
  qed
qed

lemma loop_turn_ran:
  assumes "loop_turn X role l t stop th A = (th1, B)"
  shows "B = A \<or> ran X role A th1 B"
proof (cases role)
  case (Iran cfg)
  note rounds = round.iran_inner round.iran_downlink round.iran_keepalive round.iran_reliability round.persist
  show ?thesis
    using assms Iran
    by (cases l) (auto simp: loop_defs dest!: timer_turn_ran [where role = role] recv_turn_ran [where role = role] intro: rounds)
next
  case (Foreign cfg)
  note rounds = round.foreign_inner round.foreign_uplink round.foreign_reliability round.persist
  show ?thesis
    using assms Foreign
    by (cases l) (auto simp: loop_defs dest!: timer_turn_ran [where role = role] recv_turn_ran [where role = role] intro: rounds)
qed



section \<open>Runs of a process\<close>

text \<open>Opening and starting an agent, as \<open>run_agent\<close> does.\<close>

definition launch ::
  "crypto \<Rightarrow> role \<Rightarrow> clock \<Rightarrow> (string \<Rightarrow> string result) \<Rightarrow> bind_call \<Rightarrow> (address \<Rightarrow> unit result) \<Rightarrow>
     (string \<times> checkpoint_file) option \<Rightarrow> bytes \<Rightarrow> int \<Rightarrow> int \<Rightarrow> process result" where
  "launch X role ck resolve bind listen rf token sequence message_id =
     and_then (agent_open X role ck resolve bind rf token sequence message_id) (agent_start listen role)"

definition process_ok :: "crypto \<Rightarrow> role \<Rightarrow> process \<Rightarrow> bool" where
  "process_ok X role P \<longleftrightarrow> reach X role (pr_agent P) \<and> map fst (pr_threads P) = loops_of role \<and>
     list_all (\<lambda>(l, th). thread_ok role (pr_stop P) l th) (pr_threads P)"

fun shuts_down :: "event \<Rightarrow> bool" where
  "shuts_down StopClose \<longleftrightarrow> True"
| "shuts_down (StopEnd ck failing) \<longleftrightarrow> True"
| "shuts_down _ \<longleftrightarrow> False"

lemma distinct_loops [simp]: "distinct (loops_of role)"
  by (cases role) simp_all

lemma launch_Inr:
  assumes "launch X role ck resolve bind listen rf token sequence message_id = Inr P"
  shows "agent_init X role ck resolve rf token sequence message_id = Inr (pr_agent P)" "\<not> pr_stop P"
    "pr_threads P = map (\<lambda>l. (l, AtTest)) (loops_of role)" "pr_health P = Some (health_address role)"
    "map so_address (pr_sockets P) = bound_addresses role" "list_all (\<lambda>s. \<not> so_closed s) (pr_sockets P)"
proof -
  obtain P0 where P0: "agent_open X role ck resolve bind rf token sequence message_id = Inr P0"
    "agent_start listen role P0 = Inr P"
    using assms by (auto simp: launch_def result_simps)
  show "agent_init X role ck resolve rf token sequence message_id = Inr (pr_agent P)" "\<not> pr_stop P"
    "pr_threads P = map (\<lambda>l. (l, AtTest)) (loops_of role)" "pr_health P = Some (health_address role)"
    "map so_address (pr_sockets P) = bound_addresses role" "list_all (\<lambda>s. \<not> so_closed s) (pr_sockets P)"
    using agent_open_Inr [OF P0(1)] agent_start_Inr [OF P0(2)] by auto
qed

lemma launch_total:
  assumes "agent_init X role ck resolve rf token sequence message_id = Inr A" "fits_c_int (recv_buffer role)"
    and "\<And>opened a. is_ok (bind opened a)" "is_ok (listen (health_address role))"
  shows "is_ok (launch X role ck resolve bind listen rf token sequence message_id)"
  unfolding launch_def
  by (intro is_ok_and_then agent_open_total [where bind = bind, OF assms(1-3)] agent_start_total [where listen = listen, OF assms(4)])

lemma launch_ok:
  assumes "launch X role ck resolve bind listen rf token sequence message_id = Inr P" "replay_file_ok rf"
  shows "process_ok X role P"
  using launch_Inr [OF assms(1)] reach.start [OF _ assms(2)]
  by (auto simp: process_ok_def list_all_iff thread_ok_def comp_def)

lemma set_thread_simps [simp]:
  "map fst (set_thread l th ts) = map fst ts"
  "(k, x) \<in> set (set_thread l th ts) \<longleftrightarrow> (if k = l then k \<in> fst ` set ts \<and> x = th else (k, x) \<in> set ts)"
  "map_of (set_thread l th ts) k = (if k = l then map_option (\<lambda>_. th) (map_of ts k) else map_of ts k)"
  by (induction ts) (force simp: set_thread_def)+

lemma thread_turn_ok:
  assumes "process_ok X role P"
  shows "process_ok X role (thread_turn X role l t P)"
proof (cases "map_of (pr_threads P) l")
  case None
  then show ?thesis using assms by (simp add: thread_turn_def)
next
  case (Some th)
  define A where "A = (pr_agent P)\<lparr>ag_faults := tn_faults t\<rparr>"
  have A: "reach X role A"
    using assms reach.step [OF _ round.socket_faults] by (simp add: process_ok_def A_def)
  obtain th1 B where turn: "loop_turn X role l t (pr_stop P) th A = (th1, B)" by fastforce
  have mem: "(l, th) \<in> set (pr_threads P)" using Some by (rule map_of_SomeD)
  then have "l \<in> set (map fst (pr_threads P))" by force
  then have l: "l \<in> set (loops_of role)" using assms by (simp add: process_ok_def del: set_map)
  have th: "thread_ok role (pr_stop P) l th" using assms mem by (auto simp: process_ok_def list_all_iff)
  have "reach X role B"
    using loop_turn_ran [OF turn] A by (auto simp: ran_def intro: reach.step)
  moreover have "thread_ok role (pr_stop P) l th1"
    using loop_turn_ok [OF turn _ th l] reach_ok [OF A] by blast
  ultimately show ?thesis
    using assms turn by (auto simp: thread_turn_def Some A_def [symmetric] process_ok_def list_all_iff
        split: if_splits)
qed

lemma thread_ok_stop: "thread_ok role stop l th \<Longrightarrow> thread_ok role True l th"
  by (auto simp: thread_ok_def split: thread.splits option.splits)

lemma handle_ok:
  assumes "process_ok X role P" "\<not> shuts_down e"
  shows "process_ok X role (handle X role e P)"
proof (cases e)
  case (Turn l t)
  then show ?thesis using thread_turn_ok [OF assms(1)] by simp
next
  case StopFirst
  then show ?thesis using assms(1) thread_ok_stop by (fastforce simp: process_ok_def stop_first_def list_all_iff)
next
  case (WriterTake now started_at)
  then show ?thesis using assms(1) round.writer_takes [of now started_at "pr_agent P"]
    by (cases "replay_writer (writer_take now started_at) (pr_agent P)")
      (auto simp: process_ok_def on_agent_def intro: reach.step)
next
  case (WriterEnd ck success msg)
  then show ?thesis using assms(1) round.writer_ends [of ck success msg "pr_agent P"]
    by (cases "writer_finished ck success msg (pr_agent P)")
      (auto simp: process_ok_def on_agent_def intro: reach.step)
qed (use assms(2) in simp_all)

lemma runs_simps [simp]:
  "runs X role [] P = P" "runs X role (e # es) P = runs X role es (handle X role e P)"
  "runs X role (es @ fs) P = runs X role fs (runs X role es P)"
  by (simp_all add: runs_def)

lemma runs_ok:
  "process_ok X role P \<Longrightarrow> list_all (\<lambda>e. \<not> shuts_down e) es \<Longrightarrow> process_ok X role (runs X role es P)"
  by (induction es arbitrary: P) (simp_all add: handle_ok)


section \<open>Stopping\<close>

text \<open>How many turns a thread still takes once the stop event is set.\<close>

fun turns_left :: "thread \<Rightarrow> nat" where
  "turns_left (Ended e) = 0"
| "turns_left AtTest = 1"
| "turns_left InRecv = 2"

definition turns_of :: "loop \<Rightarrow> event list \<Rightarrow> nat" where
  "turns_of l es = length (filter (\<lambda>e. case e of Turn k t \<Rightarrow> k = l | _ \<Rightarrow> False) es)"

lemma turns_of_simps [simp]:
  "turns_of l [] = 0" "turns_of l (Turn k t # es) = (if k = l then Suc (turns_of l es) else turns_of l es)"
  "turns_of l (StopFirst # es) = turns_of l es" "turns_of l (StopClose # es) = turns_of l es"
  "turns_of l (StopEnd ck failing # es) = turns_of l es"
  "turns_of l (WriterTake now started_at # es) = turns_of l es" "turns_of l (WriterEnd ck success msg # es) = turns_of l es"
  by (simp_all add: turns_of_def)

lemma recv_turn_left: "recv_turn handler t True th A = (th1, B) \<Longrightarrow> turns_left th1 \<le> turns_left th - 1"
  by (auto simp: recv_turn_def split: thread.splits recv.splits prod.splits sum.splits)

lemma timer_turn_left: "timer_turn interval body t True th A = (th1, B) \<Longrightarrow> turns_left th1 = 0"
  by (auto simp: timer_turn_def split: thread.splits)

definition stops :: "(turn \<Rightarrow> bool \<Rightarrow> thread \<Rightarrow> agent \<Rightarrow> thread \<times> agent) \<Rightarrow> bool" where
  "stops f \<longleftrightarrow> (\<forall>t th A. turns_left (fst (f t True th A)) \<le> turns_left th - 1)"

lemma stops_turns [simp]: "stops (recv_turn handler)" "stops (timer_turn interval body)"
  by (metis stops_def prod.collapse recv_turn_left) (metis stops_def prod.collapse timer_turn_left le0)

lemma loop_turn_left:
  assumes "loop_turn X role l t True th A = (th1, B)" "l \<in> set (loops_of role)"
  shows "turns_left th1 \<le> turns_left th - 1"
proof -
  have "stops (loop_turn X role l)" using assms(2) by (cases role) (auto simp: loop_defs)
  then show ?thesis using assms(1) by (metis stops_def fst_conv)
qed

lemma handle_threads:
  assumes "map_of (pr_threads P) l = Some th" "pr_stop P" "l \<in> set (loops_of role)"
  shows "\<exists>th1. map_of (pr_threads (handle X role e P)) l = Some th1 \<and> pr_stop (handle X role e P) \<and>
    turns_left th1 \<le> turns_left th - turns_of l [e]"
proof (cases e)
  case (Turn k t)
  show ?thesis
  proof (cases "map_of (pr_threads P) k")
    case None
    then show ?thesis using Turn assms by (auto simp: thread_turn_def)
  next
    case (Some thk)
    obtain th1 B where turn: "loop_turn X role k t (pr_stop P) thk ((pr_agent P)\<lparr>ag_faults := tn_faults t\<rparr>) = (th1, B)"
      by fastforce
    then have "k = l \<Longrightarrow> turns_left th1 \<le> turns_left th - 1"
      using loop_turn_left assms Some by auto
    then show ?thesis
      using Turn Some turn assms by (auto simp: thread_turn_def)
  qed
qed (use assms in \<open>simp_all add: on_agent_def stop_first_def\<close>)

lemma runs_threads:
  assumes "map_of (pr_threads P) l = Some th" "pr_stop P" "l \<in> set (loops_of role)"
  shows "\<exists>th1. map_of (pr_threads (runs X role es P)) l = Some th1 \<and> turns_left th1 \<le> turns_left th - turns_of l es"
  using assms
proof (induction es arbitrary: P th)
  case (Cons e es)
  obtain th1 where th1: "map_of (pr_threads (handle X role e P)) l = Some th1" "pr_stop (handle X role e P)"
    "turns_left th1 \<le> turns_left th - turns_of l [e]"
    using handle_threads [OF Cons.prems] by blast
  have "turns_of l (e # es) = turns_of l [e] + turns_of l es" by (simp add: turns_of_def)
  moreover obtain th2 where "map_of (pr_threads (runs X role (e # es) P)) l = Some th2"
    "turns_left th2 \<le> turns_left th1 - turns_of l es"
    using Cons.IH [OF th1(1,2) Cons.prems(3)] by auto
  ultimately show ?case using th1(3) by fastforce
qed simp

lemma map_of_loops:
  "map fst ts = loops_of role \<Longrightarrow> l \<in> set (loops_of role) \<Longrightarrow> \<exists>th. map_of ts l = Some th"
  by (metis map_of_eq_None_iff not_None_eq set_map)

text \<open>A thread that ended stays as it ended.\<close>

lemma loop_turn_ended: "loop_turn X role l t stop (Ended x) A = (th1, B) \<Longrightarrow> th1 = Ended x"
  by (cases role; cases l) (simp_all add: loop_defs recv_turn_def timer_turn_def)

lemma handle_ended:
  "map_of (pr_threads P) l = Some (Ended x) \<Longrightarrow> map_of (pr_threads (handle X role e P)) l = Some (Ended x)"
  by (cases e) (auto simp: on_agent_def stop_first_def thread_turn_def
      dest: loop_turn_ended split: option.splits prod.splits)

lemma runs_ended:
  "map_of (pr_threads P) l = Some (Ended x) \<Longrightarrow> map_of (pr_threads (runs X role es P)) l = Some (Ended x)"
  by (induction es arbitrary: P) (simp_all add: handle_ended)


text \<open>
  \<open>stop\<close>: the event, the sockets and the health server; the turns that the threads take while they are joined; the
  request to the writer of the replay window and its last steps; the last statistics and the metrics file.
\<close>

definition agent_stop ::
  "crypto \<Rightarrow> role \<Rightarrow> event list \<Rightarrow> event list \<Rightarrow> clock \<Rightarrow> exn option \<Rightarrow> process \<Rightarrow> process" where
  "agent_stop X role joining writing ck failing P =
     runs X role (StopFirst # joining @ StopClose # writing @ [StopEnd ck failing]) P"

lemma loop_of_thread: "map fst ts = loops_of role \<Longrightarrow> (l, th) \<in> set ts \<Longrightarrow> l \<in> set (loops_of role) \<and> map_of ts l = Some th"
  by (metis distinct_loops map_of_eq_Some_iff image_eqI fst_conv set_map)

lemma thread_turn_fields [simp]:
  "map fst (pr_threads (thread_turn X role l t P)) = map fst (pr_threads P)"
  "pr_stop (thread_turn X role l t P) = pr_stop P" "pr_sockets (thread_turn X role l t P) = pr_sockets P"
  "pr_health (thread_turn X role l t P) = pr_health P"
  by (simp_all add: thread_turn_def split: option.splits prod.splits)

lemma handle_names:
  "map fst (pr_threads (handle X role e P)) = map fst (pr_threads P) \<and> (pr_stop P \<longrightarrow> pr_stop (handle X role e P)) \<and>
   (list_all so_closed (pr_sockets P) \<longrightarrow> list_all so_closed (pr_sockets (handle X role e P))) \<and>
   (pr_health P = None \<longrightarrow> pr_health (handle X role e P) = None)"
  by (cases e) (simp_all add: on_agent_def stop_first_def close_socket_def list_all_iff)

lemma runs_names:
  "map fst (pr_threads (runs X role es P)) = map fst (pr_threads P) \<and> (pr_stop P \<longrightarrow> pr_stop (runs X role es P)) \<and>
   (list_all so_closed (pr_sockets P) \<longrightarrow> list_all so_closed (pr_sockets (runs X role es P))) \<and>
   (pr_health P = None \<longrightarrow> pr_health (runs X role es P) = None)"
proof (induction es arbitrary: P)
  case (Cons e es)
  show ?case using Cons.IH [of "handle X role e P"] handle_names [of X role e P] by simp
qed simp

lemma stopped_threads_end:
  assumes "map fst (pr_threads P) = loops_of role" "pr_stop P" "(l, th) \<in> set (pr_threads (runs X role es P))"
    and "\<And>l. l \<in> set (loops_of role) \<Longrightarrow> 2 \<le> turns_of l es"
  shows "\<exists>x. th = Ended x"
proof -
  have "map fst (pr_threads (runs X role es P)) = loops_of role" using assms(1) runs_names by metis
  from loop_of_thread [OF this assms(3)] have l: "l \<in> set (loops_of role)"
    and th: "map_of (pr_threads (runs X role es P)) l = Some th" by simp_all
  obtain th0 where th0: "map_of (pr_threads P) l = Some th0" using map_of_loops [OF assms(1) l] by blast
  have "turns_left th0 \<le> 2" by (cases th0) simp_all
  then have "turns_left th = 0"
    using runs_threads [OF th0 assms(2) l, of X es] th assms(4) [OF l] by auto
  then show ?thesis by (cases th) simp_all
qed

lemma metric_set_total: "\<exists>M. metric_set ck values A = (Inr (), A\<lparr>ag_metrics := M\<rparr>)"
  by (simp add: metric_set_def on_metrics_def Metrics_set_def touch_def act_simps act_then_def act_bind_def)
    blast

lemma publish_replay_stats_total: "\<exists>M. publish_replay_stats ck A = (Inr (), A\<lparr>ag_metrics := M\<rparr>)"
  by (cases "ag_replay A") (auto simp: publish_replay_stats_def act_bind_def act_simps metric_set_total
      intro: exI [of _ "ag_metrics A"])

lemma stop_end_writes_metrics:
  "ag_metrics_file (snd (stop_end ck None A)) = Some (JObj (Metrics_snapshot (ag_metrics (snd (stop_end ck None A)))))"
proof -
  let ?warn = "case ag_replay A of Volatile w \<Rightarrow> act_return () | Durable p \<Rightarrow> act_when (\<not> close_result (ck_mono ck) p)
    (metric_set ck [(''last_error'', JStr ''replay checkpoint did not finish during shutdown'')])"
  have "\<exists>M. ?warn A = (Inr (), A\<lparr>ag_metrics := M\<rparr>)"
    by (auto simp: act_simps act_when_def metric_set_total intro: exI [of _ "ag_metrics A"] split: replay.split)
  then obtain M where M: "?warn A = (Inr (), A\<lparr>ag_metrics := M\<rparr>)" by blast
  obtain N where N: "publish_replay_stats ck (A\<lparr>ag_metrics := M\<rparr>) = (Inr (), A\<lparr>ag_metrics := M, ag_metrics := N\<rparr>)"
    using publish_replay_stats_total by blast
  show ?thesis
    using M N
    by (simp add: stop_end_def act_simps act_bind_def act_then_def act_try_def metrics_persist_def Metrics_persist_def)
qed

lemma agent_stop_ends:
  assumes "map fst (pr_threads P) = loops_of role" "\<And>l. l \<in> set (loops_of role) \<Longrightarrow> 2 \<le> turns_of l joining"
  shows "let Q = agent_stop X role joining writing ck failing P in
    map fst (pr_threads Q) = loops_of role \<and> list_all (\<lambda>(l, th). \<exists>x. th = Ended x) (pr_threads Q) \<and>
    list_all so_closed (pr_sockets Q) \<and> pr_health Q = None \<and>
    (failing = None \<longrightarrow>
       ag_metrics_file (pr_agent Q) = Some (JObj (Metrics_snapshot (ag_metrics (pr_agent Q)))))"
proof -
  define rest where "rest = joining @ StopClose # writing @ [StopEnd ck failing]"
  define Q where "Q = agent_stop X role joining writing ck failing P"
  have Q: "Q = runs X role rest (stop_first P)" by (simp add: Q_def agent_stop_def rest_def)
  have P1: "map fst (pr_threads (stop_first P)) = loops_of role" "pr_stop (stop_first P)"
    "list_all so_closed (pr_sockets (stop_first P))" "pr_health (stop_first P) = None"
    using assms(1) by (simp_all add: stop_first_def close_socket_def list_all_length)
  have turns: "2 \<le> turns_of l rest" if "l \<in> set (loops_of role)" for l
    using assms(2) [OF that] by (simp add: rest_def turns_of_def)
  have "list_all (\<lambda>(l, th). \<exists>x. th = Ended x) (pr_threads Q)"
    using stopped_threads_end [OF P1(1,2) _ turns] by (fastforce simp: Q list_all_iff)
  moreover have "failing = None \<longrightarrow> ag_metrics_file (pr_agent Q) = Some (JObj (Metrics_snapshot (ag_metrics (pr_agent Q))))"
    by (simp add: Q rest_def on_agent_def stop_end_writes_metrics)
  ultimately show ?thesis
    using runs_names [of X role rest "stop_first P"] P1 by (simp add: Q_def [symmetric] Q Let_def)
qed

lemma large_buffer_refused:
  assumes "agent_init X role ck resolve rf token sequence message_id = Inr A" "\<And>opened a. is_ok (bind opened a)"
    and "2 ^ 31 \<le> recv_buffer role"
  shows "launch X role ck resolve bind listen rf token sequence message_id = Inl TypeError"
proof -
  have "bind opened a = Inr ()" for opened a using assms(2) [of opened a] by (cases "bind opened a") auto
  then show ?thesis
    using assms(1,3)
    by (cases role) (auto simp: launch_def open_simps ForeignAgent_init_def result_simps fits_c_int_def)
qed

end
