(* ===== verification/Process_Properties.thy ===== *)
theory Process_Properties
  imports Agent_Process
begin

text \<open>
  The properties of a running process: it starts on every loadable configuration, its threads refine the agent,
  why a thread can end, that \<open>stop\<close> ends them all, and two settings the loader lets through that the process does
  not survive.
\<close>


section \<open>Properties\<close>

text \<open>
  C25. From the document to a running process: on every configuration the loader returns, when the hosts resolve, the
  addresses can be bound, the receive buffer is a C \<open>int\<close> and the replay file is absent or a checkpoint of an agent,
  opening and starting the agent raises nothing. The sockets are open at the configured addresses, the health
  server listens, every loop of the role has its thread, and the agent can send every message of up to 60000
  bytes in packets that fit the MTU.
\<close>

theorem loaded_process_runs:
  assumes "load_config show_json loaded = Inr role" "replay_file_readable rf" "length token = 8" "aead_ok X"
    and "\<And>host. is_ok (resolve host)" "\<And>opened a. is_ok (bind opened a)" "is_ok (listen (health_address role))"
    and "recv_buffer role < 2 ^ 31"
    and "0 \<le> sequence" "sequence < 2 ^ 63" "0 \<le> message_id" "message_id < 2 ^ 63"
    and "0 \<le> wall_ms ck'" "wall_ms ck' < 2 ^ 64"
  shows "\<exists>P. launch X role ck resolve bind listen rf token sequence message_id = Inr P \<and>
    pr_threads P = map (\<lambda>l. (l, AtTest)) (loops_of role) \<and>
    map so_address (pr_sockets P) = bound_addresses role \<and> list_all (\<lambda>s. \<not> so_closed s) (pr_sockets P) \<and>
    pr_health P = Some (health_address role) \<and>
    (case role of
       Iran cfg \<Rightarrow> sends_any X ck' cfg DATA_UP (pr_agent P)
     | Foreign cfg \<Rightarrow> sends_any X ck' cfg DATA_DOWN (pr_agent P))"
proof -
  obtain A where A: "agent_init X role ck resolve rf token sequence message_id = Inr A"
    and sends: "case role of Iran cfg \<Rightarrow> sends_any X ck' cfg DATA_UP A | Foreign cfg \<Rightarrow> sends_any X ck' cfg DATA_DOWN A"
    using loaded_agent_starts [where resolve = resolve and ck = ck, OF assms(1,2,3,5,4,9-14)] by blast
  have "65536 \<le> recv_buffer role" using load_config_ok [OF assms(1)] by (cases role) (simp_all add: common_ok_def)
  then have "fits_c_int (recv_buffer role)" using assms(8) by (simp add: fits_c_int_def)
  then obtain P where "launch X role ck resolve bind listen rf token sequence message_id = Inr P"
    using launch_total [where bind = bind and listen = listen, OF A _ assms(6,7)] by (blast elim: is_okE)
  then show ?thesis using launch_Inr sends A by fastforce
qed

theorem loaded_process_runs_witness:
  "\<exists>role P. load_config (\<lambda>_. []) (Inr (JObj demo_document)) = Inr role \<and>
    launch demo_crypto role (demo_clock 1) Inr (\<lambda>_ _. Inr ()) (\<lambda>_. Inr ()) None (replicate 8 0) 5 6 = Inr P"
proof -
  have "case load_config (\<lambda>_. []) (Inr (JObj demo_document)) of Inl _ \<Rightarrow> False | Inr role \<Rightarrow> recv_buffer role < 2 ^ 31"
    by code_simp
  then obtain role where "load_config (\<lambda>_. []) (Inr (JObj demo_document)) = Inr role" "recv_buffer role < 2 ^ 31"
    by (auto split: sum.splits)
  then show ?thesis
    using loaded_process_runs [of "\<lambda>_. []" "Inr (JObj demo_document)" role None "replicate 8 0" demo_crypto Inr "\<lambda>_ _. Inr ()"
        "\<lambda>_. Inr ()" 5 6 "demo_clock 1" "demo_clock 1"]
    by (auto simp: replay_file_readable_def demo_aead_ok wall_ms_def truncate_rat_def demo_clock_def)
qed

text \<open>
  C26. The threads refine the agent: whatever turns the threads of a started process take, in whatever order, with
  whatever datagrams, failures and clocks, and whether or not the stop event is set meanwhile, the agent is in a
  state that its rounds reach, so that it keeps its invariant, and the threads are those that were spawned.
\<close>

theorem process_refines_agent:
  assumes "launch X role ck resolve bind listen rf token sequence message_id = Inr P" "replay_file_ok rf"
    and "list_all (\<lambda>e. \<not> shuts_down e) es"
  shows "reach X role (pr_agent (runs X role es P)) \<and> agent_ok (pr_agent (runs X role es P)) \<and>
    map fst (pr_threads (runs X role es P)) = loops_of role"
  using runs_ok [OF launch_ok [OF assms(1,2)] assms(3)] reach_ok by (auto simp: process_ok_def)

lemma demo_launch:
  "\<exists>P. launch demo_crypto (Iran (demo_iran_config b)) (demo_clock 100) Inr (\<lambda>_ _. Inr ()) (\<lambda>_. Inr ()) None (demo_token 1234) 40 7 =
     Inr P \<and> pr_agent P = demo_iran"
proof -
  have buffer: "fits_c_int (recv_buffer (Iran (demo_iran_config b)))"
    by (simp add: fits_c_int_def demo_defs common_config.defs)
  obtain P where P: "launch demo_crypto (Iran (demo_iran_config b)) (demo_clock 100) Inr (\<lambda>_ _. Inr ()) (\<lambda>_. Inr ()) None (demo_token 1234) 40 7 = Inr P"
    using launch_total [OF demo_iran_init buffer, of "\<lambda>_ _. Inr ()" "\<lambda>_. Inr ()"] by (auto elim: is_okE)
  then show ?thesis using launch_Inr(1) [OF P] demo_iran_init [of b] by simp
qed

text \<open>A keepalive turn, then a turn of the receive loop and the stop.\<close>

definition demo_turn :: "recv \<Rightarrow> string option list \<Rightarrow> turn" where
  "demo_turn r faults = \<lparr>tn_clock = demo_clock 100, tn_recv = r, tn_faults = faults, tn_failing = None\<rparr>"

definition demo_events :: "event list" where
  "demo_events =
     [Turn IranKeepalive (demo_turn RecvTimeout []), Turn IranInner (demo_turn RecvTimeout []),
      Turn IranInner (demo_turn (RecvData [1, 2, 3] (''127.0.0.1'', 6)) []), StopFirst]"

theorem process_refines_agent_witness:
  "\<exists>P. pr_agent P = demo_iran \<and> agent_ok (pr_agent (runs demo_crypto (Iran (demo_iran_config True)) demo_events P))"
proof -
  obtain P where P: "launch demo_crypto (Iran (demo_iran_config True)) (demo_clock 100) Inr (\<lambda>_ _. Inr ()) (\<lambda>_. Inr ()) None
      (demo_token 1234) 40 7 = Inr P" "pr_agent P = demo_iran"
    using demo_launch by blast
  then show ?thesis
    using process_refines_agent [OF P(1), of demo_events] by (auto simp: replay_file_ok_def demo_events_def)
qed

text \<open>
  C27. Why a thread of a running process can end. The metrics writer and the reliability loop never end before
  the stop event is set. A receive loop ends by an \<open>OSError\<close> of \<open>recvfrom\<close>, or with a \<open>struct.error\<close>
  (a sequence number or clock outside its 64 bits); the loops that read the local application also with the
  \<open>OSError\<close> of a send, without reliability; the keepalive loop with \<open>struct.error\<close>, or with \<open>OverflowError\<close>
  when its interval exceeds the longest timeout of a lock.
\<close>

theorem thread_ends_only_for_reason:
  assumes "launch X role ck resolve bind listen rf token sequence message_id = Inr P" "replay_file_ok rf"
    and "list_all (\<lambda>e. \<not> shuts_down e) es" "\<not> pr_stop (runs X role es P)"
    and "(l, Ended x) \<in> set (pr_threads (runs X role es P))"
  shows "l \<noteq> MetricsWriter \<and> l \<noteq> Reliability \<and>
    (case x of
       None \<Rightarrow> is_recv_loop l
     | Some e \<Rightarrow> is_struct_error e \<or>
         (l = IranInner \<or> l = ForeignInner) \<and> \<not> is_reliable role \<and> is_os_error e \<or>
         l = IranKeepalive \<and> e = OverflowError \<and>
           (\<exists>cfg. role = Iran cfg \<and> TIMEOUT_MAX < cf_keepalive_seconds cfg))"
proof -
  have "thread_ok role False l (Ended x)"
    using runs_ok [OF launch_ok [OF assms(1,2)] assms(3)] assms(4,5) by (auto simp: process_ok_def list_all_iff)
  then show ?thesis
    by (cases l) (auto simp: thread_ok_def escaping_def split: option.splits role.splits)
qed

text \<open>
  C28. Without reliability a failing send ends the thread that reads the local socket, for good: the \<open>OSError\<close>
  passes through \<open>send_data\<close>, leaves \<open>inner_loop\<close>, which expects \<open>ProtocolError\<close> only, and nothing that happens
  later lets the thread read another datagram, though the process goes on.
\<close>

theorem failed_send_ends_inner_thread:
  assumes "map_of (pr_threads P) IranInner = Some InRecv" "agent_ok (pr_agent P)" "can_send (tn_clock t) (pr_agent P)"
    and "\<not> cf_reliable cfg" "fragment_message p (cf_fragment_payload_bytes cfg) (cf_fec_enabled cfg) = Inr fs"
    and "ag_expected_inner_peer (pr_agent P) \<in> {None, Some peer}"
    and "tn_recv t = RecvData p peer" "tn_faults t = Some msg # rest"
  shows "map_of (pr_threads (runs X (Iran cfg) (Turn IranInner t # es) P)) IranInner = Some (Ended (Some (OSError msg)))"
proof -
  let ?A = "(pr_agent P)\<lparr>ag_faults := tn_faults t\<rparr>"
  have "agent_ok ?A" "can_send (tn_clock t) ?A" using assms(2,3) by (simp_all add: agent_ok_def can_send_def)
  then have "fst (iran_inner X (tn_clock t) cfg p peer ?A) = Inl (OSError msg)"
    using unreliable_send_fault_escapes [of ?A "tn_clock t" cfg p fs peer msg rest X] assms(4-8) by simp
  then have "map_of (pr_threads (thread_turn X (Iran cfg) IranInner t P)) IranInner = Some (Ended (Some (OSError msg)))"
    using assms(1,7) by (auto simp: thread_turn_def loop_defs recv_turn_def split: prod.splits)
  then show ?thesis by (simp add: runs_ended)
qed


definition demo_process :: process where
  "demo_process = \<lparr>pr_agent = demo_iran, pr_stop = False, pr_threads = [(IranInner, InRecv)], pr_sockets = [], pr_health = None\<rparr>"

theorem failed_send_ends_inner_thread_witness:
  "map_of (pr_threads (runs demo_crypto (Iran (demo_iran_config False))
     [Turn IranInner (demo_turn (RecvData [1, 2, 3] (''127.0.0.1'', 6)) [Some ''network is unreachable'']),
      Turn IranInner (demo_turn RecvTimeout [])] demo_process)) IranInner =
   Some (Ended (Some (OSError ''network is unreachable'')))"
proof (rule failed_send_ends_inner_thread [where rest = "[]"])
  show "fragment_message [1, 2, 3] (cf_fragment_payload_bytes (demo_iran_config False))
      (cf_fec_enabled (demo_iran_config False)) = Inr [data_spec 256 [1, 2, 3] 0]"
    using demo_fragments by (simp add: demo_defs common_config.defs)
qed (use demo_agents_ok(1) demo_can_send(1) in \<open>simp_all add: demo_process_def demo_turn_def agent_ok_def can_send_def demo_defs common_config.defs\<close>)

theorem thread_ends_only_for_reason_witness:
  "\<exists>P. let Q = runs demo_crypto (Iran (demo_iran_config True))
       [Turn IranDownlink (demo_turn RecvTimeout []), Turn IranDownlink (demo_turn RecvError [])] P in
     pr_agent P = demo_iran \<and> \<not> pr_stop Q \<and> (IranDownlink, Ended None) \<in> set (pr_threads Q) \<and> is_recv_loop IranDownlink"
proof -
  obtain P where P: "launch demo_crypto (Iran (demo_iran_config True)) (demo_clock 100) Inr (\<lambda>_ _. Inr ()) (\<lambda>_. Inr ()) None
      (demo_token 1234) 40 7 = Inr P" "pr_agent P = demo_iran"
    using demo_launch by blast
  define Q where "Q = runs demo_crypto (Iran (demo_iran_config True))
       [Turn IranDownlink (demo_turn RecvTimeout []), Turn IranDownlink (demo_turn RecvError [])] P"
  have Q: "\<not> pr_stop Q" "(IranDownlink, Ended None) \<in> set (pr_threads Q)"
    using launch_Inr(2,3) [OF P(1)]
    by (simp_all add: Q_def thread_turn_def loop_defs recv_turn_def set_thread_def demo_turn_def)
  have "is_recv_loop IranDownlink"
    using thread_ends_only_for_reason [OF P(1), of _ IranDownlink None] Q by (auto simp: Q_def replay_file_ok_def)
  then show ?thesis using P(2) Q by (auto simp: Q_def Let_def simp del: runs_simps)
qed

text \<open>
  C29. Stopping ends every thread: after the stop event each thread of a process ends within two of its turns
  (a receive loop first leaves \<open>recvfrom\<close>), whatever the process did before and whatever else happens; then
  the sockets are closed, the health server is down, and the metrics file holds the final metrics when it can
  be written.
\<close>

theorem stop_ends_every_thread:
  assumes "launch X role ck resolve bind listen rf token sequence message_id = Inr P"
    and "\<And>l. l \<in> set (loops_of role) \<Longrightarrow> 2 \<le> turns_of l joining"
  shows "let Q = agent_stop X role joining writing ck' failing (runs X role es P) in
    map fst (pr_threads Q) = loops_of role \<and> list_all (\<lambda>(l, th). \<exists>x. th = Ended x) (pr_threads Q) \<and>
    list_all so_closed (pr_sockets Q) \<and> pr_health Q = None \<and>
    (failing = None \<longrightarrow>
       ag_metrics_file (pr_agent Q) = Some (JObj (Metrics_snapshot (ag_metrics (pr_agent Q)))))"
  using agent_stop_ends [OF _ assms(2), where P = "runs X role es P"] launch_Inr(3) [OF assms(1)] runs_names [of X role es P]
  by (simp add: comp_def)

theorem stop_ends_every_thread_witness:
  "\<exists>P. pr_agent P = demo_iran \<and>
    list_all (\<lambda>(l, th). \<exists>x. th = Ended x)
      (pr_threads (agent_stop demo_crypto (Iran (demo_iran_config True))
         (concat (map (\<lambda>l. replicate 2 (Turn l (demo_turn RecvTimeout []))) (loops_of (Iran (demo_iran_config True)))))
         [] (demo_clock 101) None (runs demo_crypto (Iran (demo_iran_config True)) demo_events P)))"
proof -
  obtain P where P: "launch demo_crypto (Iran (demo_iran_config True)) (demo_clock 100) Inr (\<lambda>_ _. Inr ()) (\<lambda>_. Inr ()) None
      (demo_token 1234) 40 7 = Inr P" "pr_agent P = demo_iran"
    using demo_launch by blast
  have "2 \<le> turns_of l (concat (map (\<lambda>l. replicate 2 (Turn l (demo_turn RecvTimeout []))) (loops_of (Iran (demo_iran_config True)))))"
    if "l \<in> set (loops_of (Iran (demo_iran_config True)))" for l
    using that by (auto simp: numeral_2_eq_2)
  from stop_ends_every_thread [OF P(1) this, where writing = "[]" and ck' = "demo_clock 101" and failing = None and es = demo_events]
  show ?thesis using P(2) by (auto simp: Let_def simp del: runs_simps)
qed

text \<open>
  C30. The loader bounds neither \<open>recv_buffer_bytes\<close> nor \<open>keepalive_seconds\<close> from above. A receive buffer that is no C
  \<open>int\<close> lets the constructor end with the \<open>TypeError\<close> of \<open>setsockopt\<close>, though the configuration loaded; a keepalive
  interval beyond the longest timeout of a lock ends the keepalive thread of a started agent at its first wait,
  before it has sent anything, and for good.
\<close>

theorem oversized_settings_escape:
  assumes "agent_init X role ck resolve rf token sequence message_id = Inr A" "\<And>opened a. is_ok (bind opened a)"
  shows "(2 ^ 31 \<le> recv_buffer role \<longrightarrow>
      launch X role ck resolve bind listen rf token sequence message_id = Inl TypeError) \<and>
    (\<forall>cfg P t es. role = Iran cfg \<and> TIMEOUT_MAX < cf_keepalive_seconds cfg \<and>
      launch X role ck resolve bind listen rf token sequence message_id = Inr P \<longrightarrow>
      ag_sent (pr_agent (runs X role [Turn IranKeepalive t] P)) = ag_sent (pr_agent P) \<and>
      map_of (pr_threads (runs X role (Turn IranKeepalive t # es) P)) IranKeepalive = Some (Ended (Some OverflowError)))"
proof (intro conjI impI allI)
  show "2 ^ 31 \<le> recv_buffer role \<Longrightarrow> launch X role ck resolve bind listen rf token sequence message_id = Inl TypeError"
    using large_buffer_refused [where bind = bind, OF assms] by blast
next
  fix cfg P t es
  assume P: "role = Iran cfg \<and> TIMEOUT_MAX < cf_keepalive_seconds cfg \<and>
      launch X role ck resolve bind listen rf token sequence message_id = Inr P"
  then have threads: "map_of (pr_threads P) IranKeepalive = Some AtTest" "\<not> pr_stop P"
    using launch_Inr(2,3) [of X role ck resolve bind listen rf token sequence message_id P] by auto
  then show "ag_sent (pr_agent (runs X role [Turn IranKeepalive t] P)) = ag_sent (pr_agent P)"
    using P by (simp add: thread_turn_def loop_defs timer_turn_def)
  have "map_of (pr_threads (thread_turn X role IranKeepalive t P)) IranKeepalive = Some (Ended (Some OverflowError))"
    using P threads by (simp add: thread_turn_def loop_defs timer_turn_def)
  then show "map_of (pr_threads (runs X role (Turn IranKeepalive t # es) P)) IranKeepalive = Some (Ended (Some OverflowError))"
    by (simp add: runs_ended)
qed

text \<open>Documents that load and set one of the two too high.\<close>

definition demo_large_buffer :: "(string \<times> json) list" where
  "demo_large_buffer = (''recv_buffer_bytes'', JInt (2 ^ 31)) # demo_document"

definition demo_long_keepalive :: "(string \<times> json) list" where
  "demo_long_keepalive = (''keepalive_seconds'', JFloat (Fin 10000000000)) # demo_document"

lemma demo_large_buffer_loads:
  "case load_config (\<lambda>_. []) (Inr (JObj demo_large_buffer)) of Inl _ \<Rightarrow> False | Inr role \<Rightarrow> recv_buffer role = 2 ^ 31"
  by code_simp

lemma demo_long_keepalive_loads:
  "case load_config (\<lambda>_. []) (Inr (JObj demo_long_keepalive)) of Inl _ \<Rightarrow> False
   | Inr role \<Rightarrow> (case role of Foreign _ \<Rightarrow> False | Iran cfg \<Rightarrow> TIMEOUT_MAX < cf_keepalive_seconds cfg \<and> fits_c_int (recv_buffer role))"
  by code_simp

lemma demo_role_init:
  assumes "load_config (\<lambda>_. []) (Inr (JObj d)) = Inr role"
  obtains A where "agent_init demo_crypto role (demo_clock 1) Inr None (replicate 8 0) 5 6 = Inr A"
  using agent_init_total [OF load_config_ok [OF assms], of None "replicate 8 0" Inr demo_crypto "demo_clock 1" 5 6]
  by (auto simp: replay_file_readable_def elim: is_okE)

theorem oversized_settings_escape_witness:
  "(\<exists>role. load_config (\<lambda>_. []) (Inr (JObj demo_large_buffer)) = Inr role \<and>
     launch demo_crypto role (demo_clock 1) Inr (\<lambda>_ _. Inr ()) (\<lambda>_. Inr ()) None (replicate 8 0) 5 6 = Inl TypeError) \<and>
   (\<exists>role P. load_config (\<lambda>_. []) (Inr (JObj demo_long_keepalive)) = Inr role \<and>
     map_of (pr_threads (runs demo_crypto role [Turn IranKeepalive (demo_turn RecvTimeout [])] P)) IranKeepalive =
       Some (Ended (Some OverflowError)))"
proof
  obtain role where role: "load_config (\<lambda>_. []) (Inr (JObj demo_large_buffer)) = Inr role" "recv_buffer role = 2 ^ 31"
    using demo_large_buffer_loads by (auto split: sum.splits)
  obtain A where "agent_init demo_crypto role (demo_clock 1) Inr None (replicate 8 0) 5 6 = Inr A"
    using demo_role_init [OF role(1)] .
  then show "\<exists>role. load_config (\<lambda>_. []) (Inr (JObj demo_large_buffer)) = Inr role \<and>
     launch demo_crypto role (demo_clock 1) Inr (\<lambda>_ _. Inr ()) (\<lambda>_. Inr ()) None (replicate 8 0) 5 6 = Inl TypeError"
    using oversized_settings_escape [of demo_crypto role "demo_clock 1" Inr None "replicate 8 0" 5 6 A "\<lambda>_ _. Inr ()" "\<lambda>_. Inr ()"]
      role by auto
next
  obtain cfg where role: "load_config (\<lambda>_. []) (Inr (JObj demo_long_keepalive)) = Inr (Iran cfg)"
    "TIMEOUT_MAX < cf_keepalive_seconds cfg" "fits_c_int (recv_buffer (Iran cfg))"
    using demo_long_keepalive_loads by (auto split: sum.splits role.splits)
  obtain A where A: "agent_init demo_crypto (Iran cfg) (demo_clock 1) Inr None (replicate 8 0) 5 6 = Inr A"
    using demo_role_init [OF role(1)] .
  obtain P where "launch demo_crypto (Iran cfg) (demo_clock 1) Inr (\<lambda>_ _. Inr ()) (\<lambda>_. Inr ()) None (replicate 8 0) 5 6 = Inr P"
    using launch_total [OF A role(3), of "\<lambda>_ _. Inr ()" "\<lambda>_. Inr ()"] by (auto elim: is_okE)
  then have "map_of (pr_threads (runs demo_crypto (Iran cfg) [Turn IranKeepalive (demo_turn RecvTimeout [])] P)) IranKeepalive =
      Some (Ended (Some OverflowError))"
    using oversized_settings_escape [OF A, of "\<lambda>_ _. Inr ()" "\<lambda>_. Inr ()", THEN conjunct2, rule_format,
        of cfg P "demo_turn RecvTimeout []" "[]"] role(2) by (simp del: runs_simps)
  then show "\<exists>role P. load_config (\<lambda>_. []) (Inr (JObj demo_long_keepalive)) = Inr role \<and>
     map_of (pr_threads (runs demo_crypto role [Turn IranKeepalive (demo_turn RecvTimeout [])] P)) IranKeepalive =
       Some (Ended (Some OverflowError))"
    using role(1) by blast
qed

end
