(* ===== verification/Scan_Targets.thy ===== *)
theory Scan_Targets
  imports Py_Text
begin

text \<open>
  The candidate addresses of \<open>scripts/source_scanner.py\<close>: \<open>parse_ip_targets\<close> with its four sources and the
  bounded sampling. Shown: the list is bounded and free of duplicates, and without sampling it is
  exactly what the network, range, file or pool stands for. Error texts that print a number are abridged.
\<close>


section \<open>Networks and lines\<close>

text \<open>
  \<open>ipaddress.ip_network(text, strict=False)\<close>: an address with an optional prefix length, netmask or host
  mask. The result is the number of the network and its prefix length; \<open>None\<close> is the \<open>ValueError\<close>,
  which an IPv6 network also ends in.
\<close>

definition prefix_of_mask :: "nat \<Rightarrow> nat option" where
  "prefix_of_mask m = find (\<lambda>p. m = 2 ^ 32 - 2 ^ (32 - p)) [0..<33]"

definition prefix_of_text :: "string \<Rightarrow> nat option" where
  "prefix_of_text s =
     (if s \<noteq> [] \<and> list_all is_digit s
      then (if int_of_digits s \<le> 32 then Some (nat (int_of_digits s)) else None)
      else (case ipv4_of_text s of
              None \<Rightarrow> None
            | Some m \<Rightarrow>
                (case prefix_of_mask (be_nat m) of
                   Some p \<Rightarrow> Some p
                 | None \<Rightarrow> prefix_of_mask (2 ^ 32 - 1 - be_nat m))))"

definition ipv4_network_of_text :: "string \<Rightarrow> (int \<times> nat) option" where
  "ipv4_network_of_text s =
     (let network = (\<lambda>address prefix. int (be_nat address) div 2 ^ (32 - prefix) * 2 ^ (32 - prefix)) in
      case split_on CHR ''/'' s of
        [a] \<Rightarrow> map_option (\<lambda>ip. (int (be_nat ip), 32)) (ipv4_of_text a)
      | [a, m] \<Rightarrow>
          (case (ipv4_of_text a, prefix_of_text m) of
             (Some ip, Some p) \<Rightarrow> Some (network ip p, p)
           | _ \<Rightarrow> None)
      | _ \<Rightarrow> None)"

text \<open>\<open>str(ipaddress.IPv4Address(n))\<close> and \<open>int(ipaddress.IPv4Address(s))\<close>.\<close>

definition text_of_number :: "int \<Rightarrow> string" where
  "text_of_number n = text_of_ipv4 (be_bytes 4 (nat n))"

definition number_of_text :: "string \<Rightarrow> int result" where
  "number_of_text s =
     (case ipv4_of_text s of None \<Rightarrow> Inl (ValueError ''invalid IPv4 address'') | Some ip \<Rightarrow> Inr (int (be_nat ip)))"

text \<open>\<open>str.splitlines\<close>: a carriage return with a line feed is one line end.\<close>

definition line_end :: "char \<Rightarrow> bool" where
  "line_end c \<longleftrightarrow> c \<in> set [CHR 0x0A, CHR 0x0B, CHR 0x0C, CHR 0x0D, CHR 0x1C, CHR 0x1D, CHR 0x1E, CHR 0x85]"

fun splitlines :: "string \<Rightarrow> string list" where
  "splitlines [] = []"
| "splitlines (c # cs) =
     (if line_end c then
        [] # (if c = CHR 0x0D \<and> take 1 cs = [CHR 0x0A] then splitlines (drop 1 cs) else splitlines cs)
      else (case splitlines cs of
              [] \<Rightarrow> [[c]]
            | l # ls \<Rightarrow> (c # l) # ls))"

section \<open>Candidates\<close>

definition MAX_CANDIDATES :: int where "MAX_CANDIDATES = 4096"

definition DEFAULT_CANDIDATE_POOLS :: "(string \<times> string list) list" where
  "DEFAULT_CANDIDATE_POOLS = [(''loopback'', [''127.0.0.1'', ''127.0.0.2''])]"

text \<open>
  \<open>random.sample(population, k)\<close> takes the elements at the positions \<open>sample n k\<close> of a population of \<open>n\<close>:
  \<open>k\<close> different positions.
\<close>

definition sample_ok :: "(nat \<Rightarrow> nat \<Rightarrow> nat list) \<Rightarrow> bool" where
  "sample_ok sample \<longleftrightarrow>
     (\<forall>n k. k \<le> n \<longrightarrow> length (sample n k) = k \<and> distinct (sample n k) \<and> set (sample n k) \<subseteq> {..<n})"

definition sample_integer_range ::
  "(nat \<Rightarrow> nat \<Rightarrow> nat list) \<Rightarrow> int \<Rightarrow> int \<Rightarrow> int option \<Rightarrow> int list result" where
  "sample_integer_range sample first count limit =
     (let whole = (if count > MAX_CANDIDATES then Inl (ValueError ''candidate set is too large; use --sample'')
                   else Inr (map (\<lambda>i. first + int i) [0..<nat count])) in
      if count \<le> 0 then Inr []
      else (case limit of
              None \<Rightarrow> whole
            | Some l \<Rightarrow>
                if l \<le> 0 \<or> l > MAX_CANDIDATES then Inl (ValueError ''sample limit must be within 1..4096'')
                else if count > l then Inr (sort (map (\<lambda>i. first + int i) (sample (nat count) (nat l))))
                else whole))"

definition cidr_targets :: "(nat \<Rightarrow> nat \<Rightarrow> nat list) \<Rightarrow> string \<Rightarrow> int option \<Rightarrow> string list result" where
  "cidr_targets sample cidr sample_limit =
     (case ipv4_network_of_text cidr of
        None \<Rightarrow> Inl (ValueError ''not an IPv4 network'')
      | Some (network_address, prefixlen) \<Rightarrow>
          let num_addresses = 2 ^ (32 - prefixlen);
              (first, count) = (if prefixlen < 31 then (network_address + 1, num_addresses - 2)
                                else (network_address, num_addresses)) in
          and_then (sample_integer_range sample first count sample_limit) (\<lambda>numbers.
            Inr (map text_of_number numbers)))"

definition range_targets :: "(nat \<Rightarrow> nat \<Rightarrow> nat list) \<Rightarrow> string \<Rightarrow> int option \<Rightarrow> string list result" where
  "range_targets sample ip_range sample_limit =
     (let (start_text, end_text) =
        (if CHR ''-'' \<in> set ip_range
         then (takeWhile (\<lambda>c. c \<noteq> CHR ''-'') ip_range, drop 1 (dropWhile (\<lambda>c. c \<noteq> CHR ''-'') ip_range))
         else (ip_range, ip_range)) in
      and_then (number_of_text (str_strip start_text)) (\<lambda>a.
      and_then (number_of_text (str_strip end_text)) (\<lambda>b.
      let (start, end) = (if a > b then (b, a) else (a, b)) in
      and_then (sample_integer_range sample start (end - start + 1) sample_limit) (\<lambda>numbers.
        Inr (map text_of_number numbers)))))"

fun texts_of_addresses :: "string list \<Rightarrow> string list result" where
  "texts_of_addresses [] = Inr []"
| "texts_of_addresses (v # vs) =
     (case ipv4_of_text v of
        None \<Rightarrow> Inl (ValueError ''invalid IPv4 address'')
      | Some ip \<Rightarrow> and_then (texts_of_addresses vs) (\<lambda>ts. Inr (text_of_ipv4 ip # ts)))"

definition candidate_lines :: "string \<Rightarrow> string list" where
  "candidate_lines content =
     map str_strip (filter (\<lambda>line. str_strip line \<noteq> [] \<and> take 1 (str_lstrip line) \<noteq> ''#'') (splitlines content))"

definition file_targets ::
  "(nat \<Rightarrow> nat \<Rightarrow> nat list) \<Rightarrow> string result \<Rightarrow> int option \<Rightarrow> string list result" where
  "file_targets sample contents sample_limit =
     and_then contents (\<lambda>content.
     let raw_values = candidate_lines content in
      if int (length raw_values) > MAX_CANDIDATES then Inl (ValueError ''candidate file exceeds 4096 entries'')
      else
        and_then (texts_of_addresses raw_values) (\<lambda>values.
        case sample_limit of
          None \<Rightarrow> Inr values
        | Some l \<Rightarrow>
            if \<not> (1 \<le> l \<and> l \<le> MAX_CANDIDATES) then Inl (ValueError ''sample limit must be within 1..4096'')
            else if int (length values) > l
              then Inr (map (\<lambda>i. values ! i) (sample (length values) (nat l)))
            else Inr values))"

definition pool_targets :: "string \<Rightarrow> string list result" where
  "pool_targets pool =
     (case map_of DEFAULT_CANDIDATE_POOLS pool of
        None \<Rightarrow> Inl (ValueError ''unknown safe candidate pool'') | Some vs \<Rightarrow> Inr vs)"

text \<open>\<open>list(dict.fromkeys(values))\<close>: the first occurrence of every value.\<close>

definition fromkeys :: "'a list \<Rightarrow> 'a list" where
  "fromkeys xs = rev (remdups (rev xs))"

text \<open>\<open>candidates_file\<close> is the outcome of reading the named file.\<close>

definition parse_ip_targets ::
  "(nat \<Rightarrow> nat \<Rightarrow> nat list) \<Rightarrow> string result option \<Rightarrow> string option \<Rightarrow> string option \<Rightarrow> string option
     \<Rightarrow> int option \<Rightarrow> string list result" where
  "parse_ip_targets sample candidates_file cidr ip_range pool sample_limit =
     (let selected = (if candidates_file \<noteq> None then 1 else 0) + (if cidr \<noteq> None then 1 else 0) +
           (if ip_range \<noteq> None then 1 else 0) + (if pool \<noteq> None then 1 else 0 :: nat) in
      if selected \<noteq> 1 then Inl (ValueError ''select exactly one candidate source'')
      else
        and_then
          (case cidr of Some c \<Rightarrow> cidr_targets sample c sample_limit
           | None \<Rightarrow>
          (case ip_range of Some r \<Rightarrow> range_targets sample r sample_limit
           | None \<Rightarrow>
          (case candidates_file of Some f \<Rightarrow> file_targets sample f sample_limit
           | None \<Rightarrow> pool_targets (case pool of Some p \<Rightarrow> p | None \<Rightarrow> []))))
          (\<lambda>values. Inr (fromkeys values)))"


section \<open>What is selected\<close>

lemma fromkeys_simps [simp]: "set (fromkeys xs) = set xs" "distinct (fromkeys xs)" "length (fromkeys xs) \<le> length xs"
  by (simp_all add: fromkeys_def) (metis length_remdups_leq length_rev)

lemma whole_range: "set (map (\<lambda>i. first + int i) [0..<nat count]) = {first..<first + count}"
proof
  show "{first..<first + count} \<subseteq> set (map (\<lambda>i. first + int i) [0..<nat count])"
  proof
    fix n
    assume "n \<in> {first..<first + count}"
    then have "n = first + int (nat (n - first))" "nat (n - first) < nat count" by auto
    then show "n \<in> set (map (\<lambda>i. first + int i) [0..<nat count])"
      unfolding set_map set_upt by (intro image_eqI [of _ _ "nat (n - first)"]) simp_all
  qed
qed auto

lemma sample_integer_range_ok:
  assumes "sample_integer_range sample first count limit = Inr ns" "sample_ok sample"
  shows "int (length ns) \<le> MAX_CANDIDATES" "set ns \<subseteq> {first..<first + count}"
    "\<And>l. limit = Some l \<Longrightarrow> int (length ns) \<le> max l 0"
    "limit = None \<or> limit = Some l \<and> count \<le> l \<Longrightarrow> set ns = {first..<first + count}"
    "sorted ns" "distinct ns"
proof -
  note whole = whole_range [of first count]
  have sorted_whole: "sorted (map (\<lambda>i. first + int i) [0..<nat count])"
    by (simp add: sorted_map sorted_wrt_upt)
  have inj: "distinct (map (\<lambda>i. first + int i) is) \<longleftrightarrow> distinct is" for "is"
    by (simp add: distinct_map inj_on_def)
  consider (none) "count \<le> 0" "ns = []"
    | (all) "0 < count" "count \<le> MAX_CANDIDATES" "ns = map (\<lambda>i. first + int i) [0..<nat count]"
      "\<And>l. limit = Some l \<Longrightarrow> count \<le> l"
    | (some) l where "limit = Some l" "0 < l" "l \<le> MAX_CANDIDATES" "l < count"
      "ns = sort (map (\<lambda>i. first + int i) (sample (nat count) (nat l)))"
    using assms(1) by (auto simp: sample_integer_range_def Let_def split: if_splits option.splits)
  then have "int (length ns) \<le> MAX_CANDIDATES \<and> set ns \<subseteq> {first..<first + count} \<and>
    (\<forall>l. limit = Some l \<longrightarrow> int (length ns) \<le> max l 0) \<and>
    (limit = None \<or> limit = Some l \<and> count \<le> l \<longrightarrow> set ns = {first..<first + count}) \<and> sorted ns \<and> distinct ns"
  proof cases
    case none
    then show ?thesis by (auto simp: MAX_CANDIDATES_def)
  next
    case all
    then show ?thesis using whole sorted_whole by (auto simp: inj simp del: set_map)
  next
    case (some l')
    then have "nat l' \<le> nat count" by simp
    then have "length (sample (nat count) (nat l')) = nat l' \<and> distinct (sample (nat count) (nat l')) \<and>
        set (sample (nat count) (nat l')) \<subseteq> {..<nat count}"
      using assms(2) unfolding sample_ok_def by blast
    then show ?thesis using some by (auto simp: inj)
  qed
  then show "int (length ns) \<le> MAX_CANDIDATES" "set ns \<subseteq> {first..<first + count}"
    "\<And>l. limit = Some l \<Longrightarrow> int (length ns) \<le> max l 0"
    "limit = None \<or> limit = Some l \<and> count \<le> l \<Longrightarrow> set ns = {first..<first + count}"
    "sorted ns" "distinct ns" by blast+
qed

lemma ipv4_number_less: "ipv4_of_text s = Some ip \<Longrightarrow> be_nat ip < 2 ^ 32"
  using be_nat_less [of ip] ipv4_length [of s ip] by simp

lemma ipv4_of_text_of_number: "ipv4_of_text (text_of_number n) = Some (be_bytes 4 (nat n))"
  unfolding text_of_number_def by (rule ipv4_of_text_of_ipv4) simp

lemma be_nat_be_bytes_4: "0 \<le> n \<Longrightarrow> n < 2 ^ 32 \<Longrightarrow> int (be_nat (be_bytes 4 (nat n))) = n"
  by (simp add: be_nat_be_bytes)

lemma text_of_number_unique:
  "ipv4_of_text s = Some ip \<Longrightarrow> text_of_number (int (be_nat ip)) = s"
  using be_bytes_be_nat [of ip] ipv4_length [of s ip] text_of_ipv4_of_text [of s ip]
  by (simp add: text_of_number_def)

text \<open>The texts of a range of addresses.\<close>

lemma texts_of_numbers:
  assumes "0 \<le> a" "b \<le> 2 ^ 32"
  shows "text_of_number ` {a..<b} = {s. \<exists>ip. ipv4_of_text s = Some ip \<and> int (be_nat ip) \<in> {a..<b}}" (is "?L = ?R")
proof
  show "?L \<subseteq> ?R"
    using assms ipv4_of_text_of_number be_nat_be_bytes_4 by fastforce
  show "?R \<subseteq> ?L"
  proof
    fix s
    assume "s \<in> ?R"
    then obtain ip where "ipv4_of_text s = Some ip" "int (be_nat ip) \<in> {a..<b}" by blast
    then show "s \<in> ?L" using text_of_number_unique by (intro image_eqI [of _ _ "int (be_nat ip)"]) auto
  qed
qed

lemma prefix_of_text_le: "prefix_of_text s = Some p \<Longrightarrow> p \<le> 32"
  by (auto simp: prefix_of_text_def prefix_of_mask_def find_Some_iff split: if_splits option.splits)

lemma network_range:
  assumes "ipv4_network_of_text s = Some (net, p)"
  shows "p \<le> 32" "0 \<le> net" "net + 2 ^ (32 - p) \<le> 2 ^ 32"
proof -
  have aligned: "int n div 2 ^ k * 2 ^ k + 2 ^ k \<le> 2 ^ 32" if "n < 2 ^ 32" "k \<le> 32" for n k :: nat
  proof -
    have split: "(2 :: int) ^ 32 = 2 ^ (32 - k) * 2 ^ k" using that(2) by (simp flip: power_add)
    have "int n < 2 ^ (32 - k) * 2 ^ k" using that(1) unfolding split [symmetric] by simp
    moreover have "int n div 2 ^ k * 2 ^ k \<le> int n"
      by (simp flip: minus_mod_eq_div_mult)
    ultimately have "int n div 2 ^ k * 2 ^ k < 2 ^ (32 - k) * 2 ^ k" by linarith
    then have "int n div 2 ^ k < 2 ^ (32 - k)" by (rule mult_right_less_imp_less) simp
    then have "(int n div 2 ^ k + 1) * 2 ^ k \<le> 2 ^ (32 - k) * 2 ^ k" by (intro mult_right_mono) simp_all
    then show ?thesis unfolding split by (simp add: algebra_simps)
  qed
  obtain a ip where ip: "ipv4_of_text a = Some ip" and
    net: "p = 32 \<and> net = int (be_nat ip) \<or> p \<le> 32 \<and> net = int (be_nat ip) div 2 ^ (32 - p) * 2 ^ (32 - p)"
    using assms
    by (auto simp: ipv4_network_of_text_def Let_def split: list.splits option.splits dest: prefix_of_text_le)
  note n = ipv4_number_less [OF ip]
  show "p \<le> 32" "0 \<le> net" "net + 2 ^ (32 - p) \<le> 2 ^ 32"
    using net n aligned [OF n, of "32 - p"] aligned [OF n, of 0]
    by (auto intro!: mult_nonneg_nonneg simp: pos_imp_zdiv_nonneg_iff)
qed

text \<open>What a run of each source yields.\<close>

lemma cidr_targets_ok:
  assumes "cidr_targets sample cidr limit = Inr vs" "sample_ok sample"
  obtains net p first count where "ipv4_network_of_text cidr = Some (net, p)"
    "first = (if p < 31 then net + 1 else net)" "count = (if p < 31 then 2 ^ (32 - p) - 2 else 2 ^ (32 - p))"
    "int (length vs) \<le> 4096" "set vs \<subseteq> text_of_number ` {first..<first + count}"
    "limit = None \<Longrightarrow> set vs = text_of_number ` {first..<first + count}"
proof -
  obtain net p where n: "ipv4_network_of_text cidr = Some (net, p)"
    using assms(1) by (auto simp: cidr_targets_def split: option.splits)
  define first where "first = (if p < 31 then net + 1 else net)"
  define count :: int where "count = (if p < 31 then 2 ^ (32 - p) - 2 else 2 ^ (32 - p))"
  obtain ns where ns: "sample_integer_range sample first count limit = Inr ns" "vs = map text_of_number ns"
    using assms(1) by (auto simp: cidr_targets_def n first_def count_def Let_def and_then_Inr split: if_splits)
  note r = sample_integer_range_ok [OF ns(1) assms(2)]
  show thesis
    by (rule that [OF n first_def count_def]) (use r(1,2,4) in \<open>auto simp: ns(2) MAX_CANDIDATES_def\<close>)
qed

lemma range_targets_ok:
  assumes "range_targets sample ip_range limit = Inr vs" "sample_ok sample"
  obtains a b where "{a, b} \<subseteq> {0..<2 ^ 32}" "int (length vs) \<le> 4096"
    "set vs \<subseteq> text_of_number ` {min a b..<max a b + 1}"
    "limit = None \<Longrightarrow> set vs = text_of_number ` {min a b..<max a b + 1}"
    "number_of_text (str_strip (takeWhile (\<lambda>c. c \<noteq> CHR ''-'') ip_range)) = Inr a"
    "number_of_text (str_strip (if CHR ''-'' \<in> set ip_range
       then drop 1 (dropWhile (\<lambda>c. c \<noteq> CHR ''-'') ip_range) else ip_range)) = Inr b"
proof -
  define st where "st = takeWhile (\<lambda>c. c \<noteq> CHR ''-'') ip_range"
  define en where "en = (if CHR ''-'' \<in> set ip_range
       then drop 1 (dropWhile (\<lambda>c. c \<noteq> CHR ''-'') ip_range) else ip_range)"
  have "(if CHR ''-'' \<in> set ip_range
         then (takeWhile (\<lambda>c. c \<noteq> CHR ''-'') ip_range, drop 1 (dropWhile (\<lambda>c. c \<noteq> CHR ''-'') ip_range))
         else (ip_range, ip_range)) = (st, en)"
    by (auto simp: st_def en_def intro: takeWhile_eq_all_conv [THEN iffD2, symmetric])
  with assms(1) have run: "and_then (number_of_text (str_strip st)) (\<lambda>a.
      and_then (number_of_text (str_strip en)) (\<lambda>b.
      let (start, end) = (if a > b then (b, a) else (a, b)) in
      and_then (sample_integer_range sample start (end - start + 1) limit) (\<lambda>numbers.
        Inr (map text_of_number numbers)))) = Inr vs"
    by (simp add: range_targets_def)
  then obtain a b where ab: "number_of_text (str_strip st) = Inr a" "number_of_text (str_strip en) = Inr b"
    unfolding and_then_Inr by blast
  obtain ns where ns: "sample_integer_range sample (min a b) (max a b + 1 - min a b) limit = Inr ns"
    and vs: "vs = map text_of_number ns"
    using run by (cases "a > b") (auto simp: ab and_then_Inr algebra_simps)
  note r = sample_integer_range_ok [OF ns assms(2)]
  have "{a, b} \<subseteq> {0..<2 ^ 32}"
    using ab by (auto simp: number_of_text_def split: option.splits dest: ipv4_number_less)
  moreover have "set vs \<subseteq> text_of_number ` {min a b..<max a b + 1}" using r(2) by (auto simp: vs)
  ultimately show thesis
    using that [of a b] r(1,4) ab unfolding st_def en_def by (simp add: vs MAX_CANDIDATES_def)
qed

lemma texts_of_addresses_ok:
  "texts_of_addresses vs = Inr ts \<Longrightarrow> length ts = length vs \<and> (\<forall>t \<in> set ts. ipv4_of_text t \<noteq> None)"
  by (induction vs arbitrary: ts)
    (auto simp: and_then_Inr text_of_ipv4_of_text split: option.splits)

lemma file_targets_ok:
  assumes "file_targets sample contents limit = Inr vs" "sample_ok sample"
  shows "int (length vs) \<le> 4096" "\<forall>v \<in> set vs. ipv4_of_text v \<noteq> None"
proof -
  obtain content where c: "contents = Inr content" using assms(1) by (auto simp: file_targets_def and_then_Inr)
  define raw where "raw = candidate_lines content"
  have "int (length raw) \<le> 4096"
    using assms(1) by (auto simp: file_targets_def c raw_def MAX_CANDIDATES_def Let_def split: if_splits)
  with assms(1) have run: "and_then (texts_of_addresses raw) (\<lambda>values.
        case limit of
          None \<Rightarrow> Inr values
        | Some l \<Rightarrow>
            if \<not> (1 \<le> l \<and> l \<le> MAX_CANDIDATES) then Inl (ValueError ''sample limit must be within 1..4096'')
            else if int (length values) > l
              then Inr (map (\<lambda>i. values ! i) (sample (length values) (nat l)))
            else Inr values) = Inr vs"
    by (simp add: file_targets_def c MAX_CANDIDATES_def flip: raw_def)
  then obtain ts where ts': "texts_of_addresses raw = Inr ts" by (auto simp: and_then_Inr)
  with run have vs: "vs = ts \<or> (\<exists>l. 1 \<le> l \<and> l < int (length ts) \<and> vs = map (\<lambda>i. ts ! i) (sample (length ts) (nat l)))"
    by (cases limit) (auto split: if_splits)
  note raw = \<open>int (length raw) \<le> 4096\<close> ts'
  note ts = texts_of_addresses_ok [OF raw(2)]
  have "int (length vs) \<le> 4096 \<and> (\<forall>v \<in> set vs. ipv4_of_text v \<noteq> None)"
  proof (cases "vs = ts")
    case True
    then show ?thesis using ts raw(1) by simp
  next
    case False
    then obtain l where l: "1 \<le> l" "l < int (length ts)" "vs = map (\<lambda>i. ts ! i) (sample (length ts) (nat l))"
      using vs by blast
    then have "nat l \<le> length ts" by simp
    then have "length (sample (length ts) (nat l)) = nat l" "set (sample (length ts) (nat l)) \<subseteq> {..<length ts}"
      using assms(2) unfolding sample_ok_def by blast+
    then show ?thesis using l ts raw(1) by auto
  qed
  then show "int (length vs) \<le> 4096" "\<forall>v \<in> set vs. ipv4_of_text v \<noteq> None" by blast+
qed

lemma pool_targets_ok:
  assumes "pool_targets pool = Inr vs"
  shows "int (length vs) \<le> 4096" "\<forall>v \<in> set vs. ipv4_of_text v \<noteq> None"
proof -
  have vs: "vs = [''127.0.0.1'', ''127.0.0.2'']"
    using assms by (auto simp: pool_targets_def DEFAULT_CANDIDATE_POOLS_def split: option.splits if_splits)
  have "ipv4_of_text ''127.0.0.1'' \<noteq> None" "ipv4_of_text ''127.0.0.2'' \<noteq> None" by code_simp+
  then show "int (length vs) \<le> 4096" "\<forall>v \<in> set vs. ipv4_of_text v \<noteq> None" by (simp_all add: vs)
qed

lemma number_texts: "set vs \<subseteq> text_of_number ` A \<Longrightarrow> \<forall>v \<in> set vs. ipv4_of_text v \<noteq> None"
  by (auto simp: subset_iff image_iff ipv4_of_text_of_number dest!: bspec)

section \<open>What each source stands for\<close>

text \<open>A result that is exactly the set \<open>S\<close> of addresses, each once; and a refusal.\<close>

definition yields :: "string list result \<Rightarrow> string set \<Rightarrow> bool" where
  "yields r S \<longleftrightarrow> (\<exists>vs. r = Inr vs \<and> distinct vs \<and> set vs = S)"

definition refused :: "string list result \<Rightarrow> bool" where
  "refused r \<longleftrightarrow> (\<exists>e. r = Inl e)"

lemma yields_fromkeys: "yields (and_then r (\<lambda>vs. Inr (fromkeys vs))) S \<longleftrightarrow> (\<exists>vs. r = Inr vs \<and> set vs = S)"
  by (auto simp: yields_def and_then_Inr)

lemma refused_fromkeys: "refused (and_then r (\<lambda>vs. Inr (fromkeys vs))) \<longleftrightarrow> refused r"
  by (cases r) (auto simp: refused_def)

lemma one_source:
  "parse_ip_targets sample None (Some c) None None limit = and_then (cidr_targets sample c limit) (\<lambda>vs. Inr (fromkeys vs))"
  "parse_ip_targets sample None None (Some r) None limit = and_then (range_targets sample r limit) (\<lambda>vs. Inr (fromkeys vs))"
  "parse_ip_targets sample (Some f) None None None limit = and_then (file_targets sample f limit) (\<lambda>vs. Inr (fromkeys vs))"
  "parse_ip_targets sample None None None (Some p) limit = and_then (pool_targets p) (\<lambda>vs. Inr (fromkeys vs))"
  by (simp_all add: parse_ip_targets_def)

text \<open>Without a sample limit a range of numbers is taken as a whole, unless it is too large.\<close>

lemma unsampled_range:
  assumes "0 \<le> first" "first + count \<le> 2 ^ 32"
  shows "count \<le> 4096 \<Longrightarrow> \<exists>vs. and_then (sample_integer_range sample first count None) (\<lambda>ns. Inr (map text_of_number ns)) = Inr vs \<and>
      set vs = {s. \<exists>ip. ipv4_of_text s = Some ip \<and> first \<le> int (be_nat ip) \<and> int (be_nat ip) < first + count}"
    and "4096 < count \<Longrightarrow> refused (and_then (sample_integer_range sample first count None) (\<lambda>ns. Inr (map text_of_number ns)))"
proof -
  assume "count \<le> 4096"
  then have r: "sample_integer_range sample first count None = Inr (map (\<lambda>i. first + int i) [0..<nat count])"
    by (simp add: sample_integer_range_def MAX_CANDIDATES_def Let_def)
  have "set (map text_of_number (map (\<lambda>i. first + int i) [0..<nat count])) = text_of_number ` {first..<first + count}"
    by (simp only: set_map flip: whole_range)
  also have "\<dots> = {s. \<exists>ip. ipv4_of_text s = Some ip \<and> first \<le> int (be_nat ip) \<and> int (be_nat ip) < first + count}"
    using texts_of_numbers [OF assms] by simp
  finally show "\<exists>vs. and_then (sample_integer_range sample first count None) (\<lambda>ns. Inr (map text_of_number ns)) = Inr vs \<and>
      set vs = {s. \<exists>ip. ipv4_of_text s = Some ip \<and> first \<le> int (be_nat ip) \<and> int (be_nat ip) < first + count}"
    by (simp add: r)
next
  assume "4096 < count"
  then show "refused (and_then (sample_integer_range sample first count None) (\<lambda>ns. Inr (map text_of_number ns)))"
    by (simp add: sample_integer_range_def MAX_CANDIDATES_def refused_def)
qed

lemma cidr_exact:
  "case ipv4_network_of_text cidr of
     None \<Rightarrow> refused (cidr_targets sample cidr None)
   | Some (net, p) \<Rightarrow>
       if p < 20 then refused (cidr_targets sample cidr None)
       else \<exists>vs. cidr_targets sample cidr None = Inr vs \<and>
         set vs = {s. \<exists>ip. ipv4_of_text s = Some ip \<and>
           (if p < 31 then net < int (be_nat ip) \<and> int (be_nat ip) < net + 2 ^ (32 - p) - 1
            else net \<le> int (be_nat ip) \<and> int (be_nat ip) < net + 2 ^ (32 - p))}"
proof (cases "ipv4_network_of_text cidr")
  case (Some np)
  obtain net p where np: "np = (net, p)" by (cases np)
  define first where "first = (if p < 31 then net + 1 else net)"
  define num :: int where "num = (if p < 31 then 2 ^ (32 - p) - 2 else 2 ^ (32 - p))"
  note r = network_range [OF Some [unfolded np]]
  have fits: "0 \<le> first" "first + num \<le> 2 ^ 32" using r by (auto simp: first_def num_def)
  have large: "4096 < num \<longleftrightarrow> p < 20"
  proof (cases "p < 20")
    case True
    then have "(2 :: int) ^ 13 \<le> 2 ^ (32 - p)" by (intro power_increasing) auto
    then show ?thesis using True by (simp add: num_def)
  next
    case False
    then have "(2 :: int) ^ (32 - p) \<le> 2 ^ 12" by (intro power_increasing) auto
    then show ?thesis using False by (auto simp: num_def)
  qed
  have run: "cidr_targets sample cidr None =
      and_then (sample_integer_range sample first num None) (\<lambda>ns. Inr (map text_of_number ns))"
    by (simp add: cidr_targets_def Some np first_def num_def)
  show ?thesis
  proof (cases "p < 20")
    case True
    then show ?thesis using unsampled_range(2) [OF fits, of sample] large by (simp add: Some np run)
  next
    case False
    have "(first \<le> int (be_nat ip) \<and> int (be_nat ip) < first + num) \<longleftrightarrow>
        (if p < 31 then net < int (be_nat ip) \<and> int (be_nat ip) < net + 2 ^ (32 - p) - 1
         else net \<le> int (be_nat ip) \<and> int (be_nat ip) < net + 2 ^ (32 - p))" for ip
      by (auto simp: first_def num_def)
    then show ?thesis
      using unsampled_range(1) [OF fits, of sample] large False by (simp add: Some np run not_less)
  qed
qed (simp add: cidr_targets_def refused_def)

text \<open>The two ends of a range.\<close>

lemma range_exact:
  assumes "ip_range = x \<and> y = x \<and> CHR ''-'' \<notin> set x \<or> ip_range = x @ ''-'' @ y \<and> CHR ''-'' \<notin> set x"
  shows "case (ipv4_of_text (str_strip x), ipv4_of_text (str_strip y)) of
      (Some a, Some b) \<Rightarrow>
        if 4096 \<le> \<bar>int (be_nat a) - int (be_nat b)\<bar> then refused (range_targets sample ip_range None)
        else \<exists>vs. range_targets sample ip_range None = Inr vs \<and>
          set vs = {s. \<exists>ip. ipv4_of_text s = Some ip \<and>
            min (be_nat a) (be_nat b) \<le> be_nat ip \<and> be_nat ip \<le> max (be_nat a) (be_nat b)}
    | _ \<Rightarrow> refused (range_targets sample ip_range None)"
proof -
  have "takeWhile (\<lambda>c. c \<noteq> CHR ''-'') (x @ ''-'' @ y) = x" "dropWhile (\<lambda>c. c \<noteq> CHR ''-'') (x @ ''-'' @ y) = ''-'' @ y"
    if "CHR ''-'' \<notin> set x"
    using that by (auto intro: takeWhile_append2 [THEN trans] dropWhile_append2 [THEN trans])
  then have "(if CHR ''-'' \<in> set ip_range
         then (takeWhile (\<lambda>c. c \<noteq> CHR ''-'') ip_range, drop 1 (dropWhile (\<lambda>c. c \<noteq> CHR ''-'') ip_range))
         else (ip_range, ip_range)) = (x, y)"
    using assms by (elim disjE conjE) simp_all
  then have run: "range_targets sample ip_range None =
      and_then (number_of_text (str_strip x)) (\<lambda>a.
      and_then (number_of_text (str_strip y)) (\<lambda>b.
      and_then (sample_integer_range sample (min a b) (max a b + 1 - min a b) None) (\<lambda>numbers.
        Inr (map text_of_number numbers))))"
    unfolding range_targets_def by (auto simp: min_def max_def algebra_simps intro!: and_then_cong)
  show ?thesis
  proof (cases "ipv4_of_text (str_strip x)")
    case (Some a)
    show ?thesis
    proof (cases "ipv4_of_text (str_strip y)")
      case y: (Some b)
      let ?a = "int (be_nat a)" and ?b = "int (be_nat b)"
      have fits: "0 \<le> min ?a ?b" "min ?a ?b + (max ?a ?b + 1 - min ?a ?b) \<le> 2 ^ 32"
        using ipv4_number_less [OF Some] ipv4_number_less [OF y] by auto
      have "{s. \<exists>ip. ipv4_of_text s = Some ip \<and> min ?a ?b \<le> int (be_nat ip) \<and>
          int (be_nat ip) < min ?a ?b + (max ?a ?b + 1 - min ?a ?b)} =
        {s. \<exists>ip. ipv4_of_text s = Some ip \<and> min (be_nat a) (be_nat b) \<le> be_nat ip \<and> be_nat ip \<le> max (be_nat a) (be_nat b)}"
        by (rule Collect_cong, rule ex_cong) auto
      then show ?thesis
        using unsampled_range [OF fits, of sample] by (auto simp: run number_of_text_def Some y)
    qed (simp add: run number_of_text_def Some refused_def)
  qed (simp add: run number_of_text_def refused_def)
qed

lemma texts_of_addresses_exact:
  "texts_of_addresses vs = (if \<forall>v \<in> set vs. ipv4_of_text v \<noteq> None then Inr vs else Inl (ValueError ''invalid IPv4 address''))"
  by (induction vs) (auto simp: text_of_ipv4_of_text split: option.splits)

lemma str_strip_hd: "str_strip line \<noteq> [] \<Longrightarrow> take 1 (str_lstrip line) = [hd (str_strip line)]"
proof -
  assume ne: "str_strip line \<noteq> []"
  have "rev (str_lstrip line) = takeWhile (\<lambda>c. c \<in> set str_whitespace) (rev (str_lstrip line)) @ rev (str_strip line)"
    by (simp add: str_strip_def str_lstrip_def del: rev_append)
  then obtain r where "str_lstrip line = str_strip line @ r" by (metis rev_append rev_rev_ident)
  then show ?thesis using ne by (cases "str_strip line") simp_all
qed

lemma candidate_lines_eq:
  "candidate_lines content = [v \<leftarrow> map str_strip (splitlines content). v \<noteq> [] \<and> hd v \<noteq> CHR ''#'']"
  unfolding candidate_lines_def filter_map
  by (rule arg_cong [of _ _ "map str_strip"], rule filter_cong) (use str_strip_hd in \<open>auto simp: comp_def\<close>)

lemma single_address:
  "ipv4_of_text v = Some a \<Longrightarrow>
   {s. \<exists>ip. ipv4_of_text s = Some ip \<and> min (be_nat a) (be_nat a) \<le> be_nat ip \<and> be_nat ip \<le> max (be_nat a) (be_nat a)} = {v}"
  using text_of_number_unique [of v a] text_of_number_unique by (auto simp: order_antisym_conv) (metis order_antisym)

lemma file_exact:
  assumes "vs = candidate_lines content"
  shows "if 4096 < length vs \<or> (\<exists>v \<in> set vs. ipv4_of_text v = None)
    then refused (file_targets sample (Inr content) None) else file_targets sample (Inr content) None = Inr vs"
  by (auto simp: file_targets_def Let_def MAX_CANDIDATES_def texts_of_addresses_exact refused_def assms)

section \<open>Properties\<close>

definition demo_sample :: "nat \<Rightarrow> nat \<Rightarrow> nat list" where
  "demo_sample n k = [0..<k]"

lemma demo_sample_ok: "sample_ok demo_sample"
  by (auto simp: sample_ok_def demo_sample_def)

lemma demo_targets:
  "parse_ip_targets demo_sample None (Some ''0.0.0.8/30'') None None None = Inr [''0.0.0.9'', ''0.0.0.10'']"
  "parse_ip_targets demo_sample None None (Some (''0.0.0.9'' @ ''-'' @ '' 0.0.0.8'')) None None = Inr [''0.0.0.8'', ''0.0.0.9'']"
  by code_simp+

text \<open>
  Every source of candidates yields at most 4096 addresses, each the text of an IPv4 address and none
  twice, whatever the file, network, range or pool and whatever the sampling chooses.
\<close>

theorem targets_bounded:
  assumes "parse_ip_targets sample candidates_file cidr ip_range pool limit = Inr vs" "sample_ok sample"
  shows "int (length vs) \<le> 4096 \<and> distinct vs \<and> (\<forall>v \<in> set vs. ipv4_of_text v \<noteq> None)"
proof -
  have "\<exists>us. vs = fromkeys us \<and> ((\<exists>c. cidr_targets sample c limit = Inr us) \<or>
      (\<exists>r. range_targets sample r limit = Inr us) \<or> (\<exists>f. file_targets sample f limit = Inr us) \<or>
      (\<exists>p. pool_targets p = Inr us))"
    using assms(1) by (auto simp: parse_ip_targets_def and_then_Inr Let_def split: if_splits option.splits)
  then obtain us where us: "vs = fromkeys us"
    and source: "(\<exists>c. cidr_targets sample c limit = Inr us) \<or> (\<exists>r. range_targets sample r limit = Inr us) \<or>
      (\<exists>f. file_targets sample f limit = Inr us) \<or> (\<exists>p. pool_targets p = Inr us)"
    by blast
  have "int (length us) \<le> 4096 \<and> (\<forall>v \<in> set us. ipv4_of_text v \<noteq> None)"
    using source
  proof (elim disjE exE)
    fix c
    assume "cidr_targets sample c limit = Inr us"
    then show ?thesis using assms(2) by (rule cidr_targets_ok) (simp add: number_texts)
  next
    fix r
    assume "range_targets sample r limit = Inr us"
    then show ?thesis using assms(2) by (rule range_targets_ok) (simp add: number_texts)
  qed (use file_targets_ok [OF _ assms(2)] pool_targets_ok in blast)+
  moreover have "length (fromkeys us) \<le> length us" by (rule fromkeys_simps)
  ultimately show ?thesis unfolding us by (auto simp del: fromkeys_simps(3))
qed

theorem targets_bounded_witness: "distinct [''0.0.0.9'', ''0.0.0.10''] \<and> ipv4_of_text ''0.0.0.9'' \<noteq> None"
  using targets_bounded [OF demo_targets(1) demo_sample_ok] by simp

text \<open>
  C31. Without sampling every source of candidates yields exactly what it stands for, each address once, or is refused. A network
  stands for its hosts, from which the network and the broadcast address are left out down to a prefix of
  30 bits, and is refused beyond 4096 of them, that is below a prefix of 20 bits; a range for the addresses between
  its two ends, in either order, and a single address for itself; a file for the addresses
  on its lines, stripped, but for empty lines and comments, and is refused if it has more than 4096 of them
  or one that is no address, or cannot be read; and the only pool, \<open>loopback\<close>, for its two addresses.
\<close>

theorem targets_exact:
  "(case ipv4_network_of_text cidr of
      None \<Rightarrow> refused (parse_ip_targets sample None (Some cidr) None None None)
    | Some (net, p) \<Rightarrow>
        if p < 20 then refused (parse_ip_targets sample None (Some cidr) None None None)
        else yields (parse_ip_targets sample None (Some cidr) None None None)
          {s. \<exists>ip. ipv4_of_text s = Some ip \<and>
            (if p < 31 then net < int (be_nat ip) \<and> int (be_nat ip) < net + 2 ^ (32 - p) - 1
             else net \<le> int (be_nat ip) \<and> int (be_nat ip) < net + 2 ^ (32 - p))}) \<and>
   (CHR ''-'' \<notin> set x \<longrightarrow>
      (case (ipv4_of_text (str_strip x), ipv4_of_text (str_strip y)) of
         (Some a, Some b) \<Rightarrow>
           if 4096 \<le> \<bar>int (be_nat a) - int (be_nat b)\<bar>
           then refused (parse_ip_targets sample None None (Some (x @ ''-'' @ y)) None None)
           else yields (parse_ip_targets sample None None (Some (x @ ''-'' @ y)) None None)
             {s. \<exists>ip. ipv4_of_text s = Some ip \<and>
               min (be_nat a) (be_nat b) \<le> be_nat ip \<and> be_nat ip \<le> max (be_nat a) (be_nat b)}
       | _ \<Rightarrow> refused (parse_ip_targets sample None None (Some (x @ ''-'' @ y)) None None)) \<and>
      (if ipv4_of_text (str_strip x) = None then refused (parse_ip_targets sample None None (Some x) None None)
       else yields (parse_ip_targets sample None None (Some x) None None) {str_strip x})) \<and>
   (let entries = [v \<leftarrow> map str_strip (splitlines content). v \<noteq> [] \<and> hd v \<noteq> CHR ''#''] in
      if 4096 < length entries \<or> (\<exists>v \<in> set entries. ipv4_of_text v = None)
      then refused (parse_ip_targets sample (Some (Inr content)) None None None None)
      else yields (parse_ip_targets sample (Some (Inr content)) None None None None) (set entries)) \<and>
   refused (parse_ip_targets sample (Some (Inl e)) None None None None) \<and>
   (if pool = ''loopback''
    then yields (parse_ip_targets sample None None None (Some pool) None) {''127.0.0.1'', ''127.0.0.2''}
    else refused (parse_ip_targets sample None None None (Some pool) None))"
proof (intro conjI impI)
  show "case ipv4_network_of_text cidr of
      None \<Rightarrow> refused (parse_ip_targets sample None (Some cidr) None None None)
    | Some (net, p) \<Rightarrow>
        if p < 20 then refused (parse_ip_targets sample None (Some cidr) None None None)
        else yields (parse_ip_targets sample None (Some cidr) None None None)
          {s. \<exists>ip. ipv4_of_text s = Some ip \<and>
            (if p < 31 then net < int (be_nat ip) \<and> int (be_nat ip) < net + 2 ^ (32 - p) - 1
             else net \<le> int (be_nat ip) \<and> int (be_nat ip) < net + 2 ^ (32 - p))}"
    unfolding one_source yields_fromkeys refused_fromkeys by (rule cidr_exact)
  show "case (ipv4_of_text (str_strip x), ipv4_of_text (str_strip y)) of
         (Some a, Some b) \<Rightarrow>
           if 4096 \<le> \<bar>int (be_nat a) - int (be_nat b)\<bar>
           then refused (parse_ip_targets sample None None (Some (x @ ''-'' @ y)) None None)
           else yields (parse_ip_targets sample None None (Some (x @ ''-'' @ y)) None None)
             {s. \<exists>ip. ipv4_of_text s = Some ip \<and>
               min (be_nat a) (be_nat b) \<le> be_nat ip \<and> be_nat ip \<le> max (be_nat a) (be_nat b)}
       | _ \<Rightarrow> refused (parse_ip_targets sample None None (Some (x @ ''-'' @ y)) None None)"
    if "CHR ''-'' \<notin> set x"
    unfolding one_source yields_fromkeys refused_fromkeys by (rule range_exact) (simp add: that)
  show "if ipv4_of_text (str_strip x) = None then refused (parse_ip_targets sample None None (Some x) None None)
       else yields (parse_ip_targets sample None None (Some x) None None) {str_strip x}"
    if "CHR ''-'' \<notin> set x"
    unfolding one_source yields_fromkeys refused_fromkeys
    using range_exact [of x x x sample] that single_address by (auto split: option.splits)
  show "refused (parse_ip_targets sample (Some (Inl e)) None None None None)"
    by (simp add: one_source refused_fromkeys file_targets_def refused_def)
  show "if pool = ''loopback''
    then yields (parse_ip_targets sample None None None (Some pool) None) {''127.0.0.1'', ''127.0.0.2''}
    else refused (parse_ip_targets sample None None None (Some pool) None)"
    unfolding one_source yields_fromkeys refused_fromkeys
    by (auto simp: pool_targets_def DEFAULT_CANDIDATE_POOLS_def refused_def)
  show "let entries = [v \<leftarrow> map str_strip (splitlines content). v \<noteq> [] \<and> hd v \<noteq> CHR ''#''] in
      if 4096 < length entries \<or> (\<exists>v \<in> set entries. ipv4_of_text v = None)
      then refused (parse_ip_targets sample (Some (Inr content)) None None None None)
      else yields (parse_ip_targets sample (Some (Inr content)) None None None None) (set entries)"
    unfolding one_source yields_fromkeys refused_fromkeys Let_def
    using file_exact [OF candidate_lines_eq [symmetric], of content sample] by (auto split: if_splits)
qed

theorem targets_exact_witness:
  "yields (parse_ip_targets demo_sample None None (Some ''0.0.0.9'') None None) {''0.0.0.9''} \<and>
   yields (parse_ip_targets demo_sample (Some (Inr ''#a\<newline> 0.0.0.7 '')) None None None None) {''0.0.0.7''}"
proof -
  have "ipv4_of_text (str_strip ''0.0.0.9'') \<noteq> None" "CHR ''-'' \<notin> set ''0.0.0.9''" "str_strip ''0.0.0.9'' = ''0.0.0.9''"
    "[v \<leftarrow> map str_strip (splitlines ''#a\<newline> 0.0.0.7 ''). v \<noteq> [] \<and> hd v \<noteq> CHR ''#''] = [''0.0.0.7'']"
    "(ipv4_of_text ''0.0.0.7'' = None) = False"
    by code_simp+
  then show ?thesis
    using targets_exact [of demo_sample "''0.0.0.8/30''" "''0.0.0.9''" "''0.0.0.9''" "''#a\<newline> 0.0.0.7 ''" TypeError "''x''"]
    by (simp add: Let_def del: not_None_eq)
qed

end
