(* ===== verification/Scan_Probe.thy ===== *)
theory Scan_Probe
  imports Py_Net Frame_Codec
begin

text \<open>
  The probe packets of \<open>scripts/source_scanner.py\<close>: \<open>encode_probe\<close>, \<open>decode_probe\<close>, and what a packet that
  decodes is. HMAC-SHA256 is a parameter of which only the length of its digest matters
  (\<open>hmac_ok\<close>).
\<close>


section \<open>The probe\<close>

definition PROBE_MAGIC :: bytes where "PROBE_MAGIC = ascii ''HYPROBE1''"

definition PROBE_PREFIX :: "sfield list" where
  "PROBE_PREFIX = [FStr 8, FStr 16, FStr 4, FUInt 4, FUInt 4, FUInt 8]"

definition PROBE_HEADER :: "sfield list" where
  "PROBE_HEADER = [FStr 8, FStr 16, FStr 4, FUInt 4, FUInt 4, FUInt 8, FStr 16]"

definition MAX_CLOCK_SKEW_SECONDS :: int where "MAX_CLOCK_SKEW_SECONDS = 600"

record probe =
  pb_candidate_ip :: string
  pb_sequence :: int
  pb_total_probes :: int
  pb_timestamp_ns :: int

text \<open>The fields of the packet before the tag, and with it.\<close>

record probe_prefix =
  px_magic :: bytes
  px_tunnel :: bytes
  px_candidate :: bytes
  px_sequence :: int
  px_total :: int
  px_timestamp_ns :: int

record probe_header = probe_prefix +
  px_tag :: bytes

definition prefix_vals :: "'z probe_prefix_scheme \<Rightarrow> sval list" where
  "prefix_vals h = [VBytes (px_magic h), VBytes (px_tunnel h), VBytes (px_candidate h),
     VInt (px_sequence h), VInt (px_total h), VInt (px_timestamp_ns h)]"

definition prefix_of_vals :: "sval list \<Rightarrow> probe_prefix" where
  "prefix_of_vals vs = \<lparr>px_magic = as_bytes (vs ! 0), px_tunnel = as_bytes (vs ! 1),
     px_candidate = as_bytes (vs ! 2), px_sequence = as_int (vs ! 3), px_total = as_int (vs ! 4),
     px_timestamp_ns = as_int (vs ! 5)\<rparr>"

definition probe_vals :: "probe_header \<Rightarrow> sval list" where
  "probe_vals h = prefix_vals h @ [VBytes (px_tag h)]"

definition probe_of_vals :: "sval list \<Rightarrow> probe_header" where
  "probe_of_vals vs = probe_prefix.extend (prefix_of_vals vs) \<lparr>px_tag = as_bytes (vs ! 6)\<rparr>"

definition prefix_valid :: "probe_prefix \<Rightarrow> bool" where
  "prefix_valid h = list_all2 fits PROBE_PREFIX (prefix_vals h)"

definition probe_valid :: "probe_header \<Rightarrow> bool" where
  "probe_valid h = list_all2 fits PROBE_HEADER (probe_vals h)"

interpretation prefix: packed_record PROBE_PREFIX prefix_vals prefix_of_vals prefix_valid
  by unfold_locales
    (auto simp: prefix_valid_def PROBE_PREFIX_def list_all2_Cons1 prefix_of_vals_def prefix_vals_def)

interpretation sealed: packed_record PROBE_HEADER probe_vals probe_of_vals probe_valid
  by unfold_locales
    (auto simp: probe_valid_def PROBE_HEADER_def list_all2_Cons1 probe_of_vals_def probe_vals_def
      prefix_of_vals_def prefix_vals_def probe_prefix.defs)

text \<open>\<open>hmac\<close> is HMAC-SHA256: key, message, digest of 32 bytes. \<open>now_ns\<close> is \<open>time.time_ns()\<close>.\<close>

definition encode_probe ::
  "(bytes \<Rightarrow> bytes \<Rightarrow> bytes) \<Rightarrow> int \<Rightarrow> bytes \<Rightarrow> bytes \<Rightarrow> string \<Rightarrow> int \<Rightarrow> int \<Rightarrow> int option \<Rightarrow> bytes result" where
  "encode_probe hmac now_ns tunnel_id secret candidate_ip sequence total_probes timestamp_ns =
     (if length tunnel_id \<noteq> 16 \<or> length secret < 32 then Inl (ProbeError ''invalid tunnel credentials'')
      else if \<not> (1 \<le> sequence \<and> sequence \<le> total_probes) then Inl (ProbeError ''invalid probe sequence'')
      else
        let timestamp = (case timestamp_ns of None \<Rightarrow> now_ns | Some t \<Rightarrow> t) in
        case ipv4_of_text candidate_ip of
          None \<Rightarrow> Inl (ValueError ''invalid IPv4 address'')
        | Some candidate \<Rightarrow>
            let h = \<lparr>px_magic = PROBE_MAGIC, px_tunnel = tunnel_id, px_candidate = candidate,
                     px_sequence = sequence, px_total = total_probes, px_timestamp_ns = timestamp\<rparr> in
            and_then (struct_pack PROBE_PREFIX (prefix_vals h)) (\<lambda>prefix.
            let tag = take 16 (hmac secret prefix) in
            struct_pack PROBE_HEADER (probe_vals (probe_prefix.extend h \<lparr>px_tag = tag\<rparr>))))"

definition decode_probe ::
  "(bytes \<Rightarrow> bytes \<Rightarrow> bytes) \<Rightarrow> int \<Rightarrow> bytes \<Rightarrow> bytes \<Rightarrow> bytes \<Rightarrow> int option \<Rightarrow> probe result" where
  "decode_probe hmac clock_ns packet tunnel_id secret now_ns =
     (if length packet \<noteq> calcsize PROBE_HEADER then Inl (ProbeError ''invalid probe length'')
      else
        and_then (struct_unpack PROBE_HEADER packet) (\<lambda>vs.
        let h = probe_of_vals vs in
        if px_magic h \<noteq> PROBE_MAGIC \<or> px_tunnel h \<noteq> tunnel_id then Inl (ProbeError ''unexpected probe identity'')
        else
        and_then (struct_pack PROBE_PREFIX (prefix_vals h)) (\<lambda>prefix.
        let expected = take 16 (hmac secret prefix) in
        if px_tag h \<noteq> expected then Inl (ProbeError ''probe authentication failed'')
        else if \<not> (1 \<le> px_sequence h \<and> px_sequence h \<le> px_total h) then Inl (ProbeError ''invalid probe sequence'')
        else
          let now = (case now_ns of None \<Rightarrow> clock_ns | Some t \<Rightarrow> t) in
          if \<bar>now - px_timestamp_ns h\<bar> > MAX_CLOCK_SKEW_SECONDS * 1000000000
            then Inl (ProbeError ''probe timestamp is stale'')
          else Inr \<lparr>pb_candidate_ip = text_of_ipv4 (px_candidate h), pb_sequence = px_sequence h,
                    pb_total_probes = px_total h, pb_timestamp_ns = px_timestamp_ns h\<rparr>)))"


section \<open>What a packet means\<close>

text \<open>A probe as the sender may build it, and the packet it is sealed in.\<close>

definition probe_ok :: "probe \<Rightarrow> bool" where
  "probe_ok p \<longleftrightarrow> ipv4_of_text (pb_candidate_ip p) \<noteq> None \<and> 1 \<le> pb_sequence p \<and>
     pb_sequence p \<le> pb_total_probes p \<and> pb_total_probes p < 2 ^ 32 \<and>
     0 \<le> pb_timestamp_ns p \<and> pb_timestamp_ns p < 2 ^ 64"

definition probe_fresh :: "int \<Rightarrow> probe \<Rightarrow> bool" where
  "probe_fresh now_ns p \<longleftrightarrow> \<bar>now_ns - pb_timestamp_ns p\<bar> \<le> 600000000000"

definition prefix_of_probe :: "bytes \<Rightarrow> probe \<Rightarrow> probe_prefix" where
  "prefix_of_probe tunnel_id p =
     \<lparr>px_magic = PROBE_MAGIC, px_tunnel = tunnel_id, px_candidate = the (ipv4_of_text (pb_candidate_ip p)),
      px_sequence = pb_sequence p, px_total = pb_total_probes p, px_timestamp_ns = pb_timestamp_ns p\<rparr>"

definition hmac_ok :: "(bytes \<Rightarrow> bytes \<Rightarrow> bytes) \<Rightarrow> bool" where
  "hmac_ok hmac \<longleftrightarrow> (\<forall>k m. length (hmac k m) = 32)"

definition probe_packet :: "(bytes \<Rightarrow> bytes \<Rightarrow> bytes) \<Rightarrow> bytes \<Rightarrow> bytes \<Rightarrow> probe \<Rightarrow> bytes" where
  "probe_packet hmac tunnel_id secret p =
     (let h = prefix_of_probe tunnel_id p;
          prefix = px_magic h @ px_tunnel h @ px_candidate h @ be_bytes 4 (nat (px_sequence h)) @
            be_bytes 4 (nat (px_total h)) @ be_bytes 8 (nat (px_timestamp_ns h)) in
      prefix @ take 16 (hmac secret prefix))"

lemma length_PROBE_MAGIC [simp]: "length PROBE_MAGIC = 8"
  by (simp add: PROBE_MAGIC_def ascii_def)

lemma probe_header_eq:
  "probe_prefix.extend (probe_prefix.truncate (h :: probe_header)) \<lparr>px_tag = px_tag h\<rparr> = h"
  by (simp add: probe_prefix.defs)

lemma prefix_vals_more [simp]: "prefix_vals (probe_prefix.truncate h) = prefix_vals h"
  "prefix_vals (probe_prefix.extend (k :: probe_prefix) m) = prefix_vals k"
  by (simp_all add: prefix_vals_def probe_prefix.defs)

text \<open>Packing the two headers.\<close>

definition prefix_bytes :: "'z probe_prefix_scheme \<Rightarrow> bytes" where
  "prefix_bytes h = px_magic h @ px_tunnel h @ px_candidate h @ be_bytes 4 (nat (px_sequence h)) @
     be_bytes 4 (nat (px_total h)) @ be_bytes 8 (nat (px_timestamp_ns h))"

definition prefix_lengths :: "'z probe_prefix_scheme \<Rightarrow> bool" where
  "prefix_lengths h \<longleftrightarrow> length (px_magic h) = 8 \<and> length (px_tunnel h) = 16 \<and> length (px_candidate h) = 4"

lemma pack_prefix:
  assumes "prefix_lengths h"
  shows "struct_pack PROBE_PREFIX (prefix_vals h) = Inr bs \<longleftrightarrow>
    (0 \<le> px_sequence h \<and> px_sequence h < 2 ^ 32) \<and> (0 \<le> px_total h \<and> px_total h < 2 ^ 32) \<and>
    (0 \<le> px_timestamp_ns h \<and> px_timestamp_ns h < 2 ^ 64) \<and> bs = prefix_bytes h"
  using assms by (auto simp: PROBE_PREFIX_def prefix_vals_def prefix_lengths_def prefix_bytes_def)

lemma pack_probe:
  assumes "prefix_lengths h" "length (px_tag h) = 16"
  shows "struct_pack PROBE_HEADER (probe_vals h) = Inr bs \<longleftrightarrow>
    (0 \<le> px_sequence h \<and> px_sequence h < 2 ^ 32) \<and> (0 \<le> px_total h \<and> px_total h < 2 ^ 32) \<and>
    (0 \<le> px_timestamp_ns h \<and> px_timestamp_ns h < 2 ^ 64) \<and> bs = prefix_bytes h @ px_tag h"
  using assms by (auto simp: PROBE_HEADER_def probe_vals_def prefix_vals_def prefix_lengths_def prefix_bytes_def)

lemma probe_packet_eq:
  "probe_packet hmac t k p =
     prefix_bytes (prefix_of_probe t p) @ take 16 (hmac k (prefix_bytes (prefix_of_probe t p)))"
  by (simp add: probe_packet_def prefix_bytes_def Let_def)

lemma prefix_of_probe_lengths:
  "probe_ok p \<Longrightarrow> length t = 16 \<Longrightarrow> prefix_lengths (prefix_of_probe t p)"
  by (auto simp: probe_ok_def prefix_of_probe_def prefix_lengths_def dest: ipv4_length)

lemma probe_ok_range:
  assumes "ipv4_of_text (pb_candidate_ip p) \<noteq> None" "1 \<le> pb_sequence p" "pb_sequence p \<le> pb_total_probes p"
  shows "probe_ok p \<longleftrightarrow> (0 \<le> pb_sequence p \<and> pb_sequence p < 2 ^ 32) \<and>
    (0 \<le> pb_total_probes p \<and> pb_total_probes p < 2 ^ 32) \<and> 0 \<le> pb_timestamp_ns p \<and> pb_timestamp_ns p < 2 ^ 64"
  using assms by (auto simp: probe_ok_def)

lemma encode_probe_iff:
  assumes "hmac_ok hmac" "length t = 16" "32 \<le> length k"
  shows "encode_probe hmac now_ns t k ip sequence n (Some ts) = Inr packet \<longleftrightarrow>
    (let p = \<lparr>pb_candidate_ip = ip, pb_sequence = sequence, pb_total_probes = n, pb_timestamp_ns = ts\<rparr> in
     probe_ok p \<and> packet = probe_packet hmac t k p)"
proof (cases "ipv4_of_text ip = None \<or> \<not> (1 \<le> sequence \<and> sequence \<le> n)")
  case True
  then show ?thesis using assms by (auto simp: encode_probe_def probe_ok_def)
next
  case False
  let ?p = "\<lparr>pb_candidate_ip = ip, pb_sequence = sequence, pb_total_probes = n, pb_timestamp_ns = ts\<rparr>"
  let ?h = "prefix_of_probe t ?p"
  obtain c where c: "ipv4_of_text ip = Some c" "length c = 4" using False ipv4_length by auto
  have range: "probe_ok ?p \<longleftrightarrow> (0 \<le> px_sequence ?h \<and> px_sequence ?h < 2 ^ 32) \<and>
    (0 \<le> px_total ?h \<and> px_total ?h < 2 ^ 32) \<and> 0 \<le> px_timestamp_ns ?h \<and> px_timestamp_ns ?h < 2 ^ 64"
    using probe_ok_range [of ?p] False by (simp add: prefix_of_probe_def)
  have lens: "prefix_lengths ?h" using c assms(2) by (simp add: prefix_of_probe_def prefix_lengths_def)
  have seal: "struct_pack PROBE_HEADER (probe_vals (probe_prefix.extend ?h \<lparr>px_tag = take 16 (hmac k x)\<rparr>)) = Inr packet \<longleftrightarrow>
      probe_ok ?p \<and> packet = prefix_bytes ?h @ take 16 (hmac k x)" for x
    using lens assms(1)
    by (subst pack_probe) (auto simp: range prefix_lengths_def hmac_ok_def probe_prefix.defs prefix_bytes_def)
  have "encode_probe hmac now_ns t k ip sequence n (Some ts) =
      and_then (struct_pack PROBE_PREFIX (prefix_vals ?h)) (\<lambda>prefix.
        struct_pack PROBE_HEADER (probe_vals (probe_prefix.extend ?h \<lparr>px_tag = take 16 (hmac k prefix)\<rparr>)))"
    using False assms c by (auto simp: encode_probe_def prefix_of_probe_def Let_def)
  then show ?thesis
    using seal by (auto simp: and_then_Inr pack_prefix [OF lens] range probe_packet_eq Let_def)
qed

text \<open>The header a packet of the right length holds.\<close>

lemma unpacked_probe:
  assumes "length packet = 60"
  defines "h \<equiv> probe_of_vals (unpack_fields PROBE_HEADER packet)"
  shows "prefix_lengths h" "length (px_tag h) = 16" "packet = prefix_bytes h @ px_tag h"
    "0 \<le> px_sequence h" "px_sequence h < 2 ^ 32" "0 \<le> px_total h" "px_total h < 2 ^ 32"
    "0 \<le> px_timestamp_ns h" "px_timestamp_ns h < 2 ^ 64"
proof -
  have sz: "calcsize PROBE_HEADER = length packet" by (simp add: PROBE_HEADER_def calcsize_def assms(1))
  have "probe_valid h" unfolding h_def by (rule sealed.parse_valid) (simp add: sz)
  then show lens: "prefix_lengths h" "length (px_tag h) = 16"
    by (auto simp: probe_valid_def PROBE_HEADER_def probe_vals_def prefix_vals_def prefix_lengths_def)
  have "struct_pack PROBE_HEADER (probe_vals h) = Inr packet"
    using sealed.pack_parse [of packet] by (simp add: sz h_def)
  then show "packet = prefix_bytes h @ px_tag h" "0 \<le> px_sequence h" "px_sequence h < 2 ^ 32" "0 \<le> px_total h"
    "px_total h < 2 ^ 32" "0 \<le> px_timestamp_ns h" "px_timestamp_ns h < 2 ^ 64"
    by (simp_all add: pack_probe [OF lens])
qed

lemma unpack_probe_packet:
  assumes "probe_ok p" "length t = 16" "hmac_ok hmac"
  shows "probe_of_vals (unpack_fields PROBE_HEADER (probe_packet hmac t k p)) =
      probe_prefix.extend (prefix_of_probe t p) \<lparr>px_tag = take 16 (hmac k (prefix_bytes (prefix_of_probe t p)))\<rparr>"
    "length (probe_packet hmac t k p) = 60"
proof -
  let ?h = "probe_prefix.extend (prefix_of_probe t p) \<lparr>px_tag = take 16 (hmac k (prefix_bytes (prefix_of_probe t p)))\<rparr>"
  have lens: "prefix_lengths ?h" "length (px_tag ?h) = 16"
    using prefix_of_probe_lengths [OF assms(1,2)] assms(3)
    by (simp_all add: prefix_lengths_def hmac_ok_def probe_prefix.defs)
  have packed: "struct_pack PROBE_HEADER (probe_vals ?h) = Inr (probe_packet hmac t k p)"
    using assms(1) unfolding pack_probe [OF lens]
    by (auto simp: probe_packet_eq probe_ok_def prefix_of_probe_def probe_prefix.defs prefix_bytes_def)
  have "probe_valid ?h"
    using lens assms(1)
    by (auto simp: probe_valid_def PROBE_HEADER_def probe_vals_def prefix_vals_def prefix_lengths_def probe_ok_def
        prefix_of_probe_def probe_prefix.defs)
  then show "probe_of_vals (unpack_fields PROBE_HEADER (probe_packet hmac t k p)) = ?h"
    using sealed.parse_pack [OF _ packed, of "[]"] by simp
  show "length (probe_packet hmac t k p) = 60"
    using struct_pack_length [OF packed] by (simp add: PROBE_HEADER_def calcsize_def)
qed

lemma decode_probe_eq:
  assumes "length packet = 60"
  shows "decode_probe hmac now packet t k None =
    (let h = probe_of_vals (unpack_fields PROBE_HEADER packet) in
     if px_magic h \<noteq> PROBE_MAGIC \<or> px_tunnel h \<noteq> t then Inl (ProbeError ''unexpected probe identity'')
     else if px_tag h \<noteq> take 16 (hmac k (prefix_bytes h)) then Inl (ProbeError ''probe authentication failed'')
     else if \<not> (1 \<le> px_sequence h \<and> px_sequence h \<le> px_total h) then Inl (ProbeError ''invalid probe sequence'')
     else if \<bar>now - px_timestamp_ns h\<bar> > 600000000000 then Inl (ProbeError ''probe timestamp is stale'')
     else Inr \<lparr>pb_candidate_ip = text_of_ipv4 (px_candidate h), pb_sequence = px_sequence h,
                pb_total_probes = px_total h, pb_timestamp_ns = px_timestamp_ns h\<rparr>)"
proof -
  let ?h = "probe_of_vals (unpack_fields PROBE_HEADER packet)"
  have "struct_pack PROBE_PREFIX (prefix_vals ?h) = Inr (prefix_bytes ?h)"
    using unpacked_probe [OF assms] by (simp add: pack_prefix)
  moreover have "calcsize PROBE_HEADER = length packet" by (simp add: PROBE_HEADER_def calcsize_def assms)
  ultimately show ?thesis
    by (simp add: decode_probe_def struct_unpack_def MAX_CLOCK_SKEW_SECONDS_def Let_def)
qed

lemma decode_probe_iff:
  assumes "hmac_ok hmac" "length t = 16"
  shows "decode_probe hmac now packet t k None = Inr p \<longleftrightarrow>
    probe_ok p \<and> probe_fresh now p \<and> packet = probe_packet hmac t k p"
proof
  assume dec: "decode_probe hmac now packet t k None = Inr p"
  have len: "length packet = 60"
    using dec by (auto simp: decode_probe_def PROBE_HEADER_def calcsize_def split: if_splits)
  define h where "h = probe_of_vals (unpack_fields PROBE_HEADER packet)"
  note h = unpacked_probe [OF len, folded h_def]
  have m: "px_magic h = PROBE_MAGIC" "px_tunnel h = t" "px_tag h = take 16 (hmac k (prefix_bytes h))"
    "1 \<le> px_sequence h" "px_sequence h \<le> px_total h" "\<bar>now - px_timestamp_ns h\<bar> \<le> 600000000000"
    and p: "p = \<lparr>pb_candidate_ip = text_of_ipv4 (px_candidate h), pb_sequence = px_sequence h,
                pb_total_probes = px_total h, pb_timestamp_ns = px_timestamp_ns h\<rparr>"
    using dec unfolding decode_probe_eq [OF len] h_def [symmetric] Let_def by (auto split: if_splits)
  have "ipv4_of_text (text_of_ipv4 (px_candidate h)) = Some (px_candidate h)"
    using h(1) by (intro ipv4_of_text_of_ipv4) (simp add: prefix_lengths_def)
  then have "prefix_bytes (prefix_of_probe t p) = prefix_bytes h" "probe_ok p"
    using m h by (simp_all add: p prefix_of_probe_def prefix_bytes_def probe_ok_def)
  then show "probe_ok p \<and> probe_fresh now p \<and> packet = probe_packet hmac t k p"
    using h(3) m by (simp add: p probe_fresh_def probe_packet_eq)
next
  assume p: "probe_ok p \<and> probe_fresh now p \<and> packet = probe_packet hmac t k p"
  then have ok: "probe_ok p" and pk: "packet = probe_packet hmac t k p" by simp_all
  note u = unpack_probe_packet [OF ok assms(2,1), of k]
  obtain c where c: "ipv4_of_text (pb_candidate_ip p) = Some c" using ok by (auto simp: probe_ok_def)
  show "decode_probe hmac now packet t k None = Inr p"
    unfolding pk decode_probe_eq [OF u(2)] u(1) using p text_of_ipv4_of_text [OF c] c
    by (auto simp: probe_ok_def probe_fresh_def prefix_of_probe_def probe_prefix.defs prefix_bytes_def Let_def)
qed

lemma decode_probe_raises: "\<exists>m. decode_probe hmac now packet t k None = Inl (ProbeError m) \<or>
    is_ok (decode_probe hmac now packet t k None)"
proof (cases "length packet = 60")
  case True
  then show ?thesis by (auto simp: decode_probe_eq Let_def)
next
  case False
  then show ?thesis by (auto simp: decode_probe_def PROBE_HEADER_def calcsize_def)
qed

lemma probe_packet_inj:
  assumes "hmac_ok hmac" "length t = 16" "probe_ok p" "probe_ok q" "probe_packet hmac t k p = probe_packet hmac t k q"
  shows "p = q"
proof -
  have "decode_probe hmac (pb_timestamp_ns p) (probe_packet hmac t k p) t k None = Inr p"
    using assms by (simp add: decode_probe_iff probe_fresh_def)
  moreover have "decode_probe hmac (pb_timestamp_ns q) (probe_packet hmac t k q) t k None = Inr q"
    using assms by (simp add: decode_probe_iff probe_fresh_def)
  ultimately show ?thesis
    using assms(5) unpack_probe_packet [OF assms(3,2,1), of k] unpack_probe_packet [OF assms(4,2,1), of k]
    by (auto simp: decode_probe_eq Let_def split: if_splits)
qed

end
