(* ===== verification/Scan_Receiver.thy ===== *)
theory Scan_Receiver
  imports Scan_Probe Config_Properties "HOL-Library.List_Lexorder" "HOL-Library.Char_ord"
    "HOL-Library.Product_Lexorder"
begin

text \<open>
  The receiver and the scanner of \<open>scripts/source_scanner.py\<close>: what the receiver records of the datagrams
  it is sent, how it ranks the candidates, how it writes the best one into the configuration, and
  what the scanner sends. The socket errors and the clock readings are arguments; \<open>receiver_inv\<close> says
  what the records mean.
\<close>


section \<open>The receiver\<close>

record candidate_stats =
  cs_sequences :: "int set"
  cs_declared :: int
  cs_age_ms :: "rat list"

record receiver =
  rv_stats :: "(string, candidate_stats) dict"
  rv_seen :: "(string \<times> int \<times> int) set"
  rv_auth_failures :: int
  rv_source_mismatches :: int

definition receiver_start :: receiver where
  "receiver_start = \<lparr>rv_stats = [], rv_seen = {}, rv_auth_failures = 0, rv_source_mismatches = 0\<rparr>"

definition new_stats :: candidate_stats where
  "new_stats = \<lparr>cs_sequences = {}, cs_declared = 0, cs_age_ms = []\<rparr>"

text \<open>
  A datagram with the address it came from and the two readings of the clock: in \<open>decode_probe\<close> and for
  the age.
\<close>

record arrival =
  ar_packet :: bytes
  ar_peer :: address
  ar_now_ns :: int
  ar_later_ns :: int

text \<open>The statistics of a candidate after one more probe.\<close>

definition record_probe :: "int \<Rightarrow> probe \<Rightarrow> candidate_stats \<Rightarrow> candidate_stats" where
  "record_probe later_ns p v =
     v\<lparr>cs_sequences := insert (pb_sequence p) (cs_sequences v),
       cs_declared := max (cs_declared v) (pb_total_probes p),
       cs_age_ms := cs_age_ms v @ [max 0 (of_int (later_ns - pb_timestamp_ns p) / 1000000)]\<rparr>"

definition stats_of :: "receiver \<Rightarrow> string \<Rightarrow> candidate_stats" where
  "stats_of R c = (case dict_get (rv_stats R) c of None \<Rightarrow> new_stats | Some v \<Rightarrow> v)"

text \<open>One turn of the loop of \<open>run_receiver\<close> with a datagram; only a \<open>ProbeError\<close> is caught.\<close>

definition receive_probe ::
  "(bytes \<Rightarrow> bytes \<Rightarrow> bytes) \<Rightarrow> bytes \<Rightarrow> bytes \<Rightarrow> arrival \<Rightarrow> receiver \<Rightarrow> receiver result" where
  "receive_probe hmac tunnel_id secret a R =
     (case decode_probe hmac (ar_now_ns a) (ar_packet a) tunnel_id secret None of
        Inl (ProbeError _) \<Rightarrow> Inr (R\<lparr>rv_auth_failures := rv_auth_failures R + 1\<rparr>)
      | Inl e \<Rightarrow> Inl e
      | Inr p \<Rightarrow>
          let c = pb_candidate_ip p; replay_key = (c, pb_sequence p, pb_timestamp_ns p) in
          if fst (ar_peer a) \<noteq> c then Inr (R\<lparr>rv_source_mismatches := rv_source_mismatches R + 1\<rparr>)
          else if replay_key \<in> rv_seen R then Inr R
          else Inr (R\<lparr>rv_seen := insert replay_key (rv_seen R),
                      rv_stats := dict_put c (record_probe (ar_later_ns a) p (stats_of R c)) (rv_stats R)\<rparr>))"

fun receive_all ::
  "(bytes \<Rightarrow> bytes \<Rightarrow> bytes) \<Rightarrow> bytes \<Rightarrow> bytes \<Rightarrow> arrival list \<Rightarrow> receiver \<Rightarrow> receiver result" where
  "receive_all hmac tunnel_id secret [] R = Inr R"
| "receive_all hmac tunnel_id secret (a # as) R =
     and_then (receive_probe hmac tunnel_id secret a R) (receive_all hmac tunnel_id secret as)"


section \<open>The ranking\<close>

text \<open>The tuples of \<open>_print_receiver_table\<close>, in the order Python compares them.\<close>

datatype ranked =
  Ranked (rk_loss: rat) (rk_negative_received: int) (rk_candidate: string) (rk_declared: int) (rk_average_age: rat)

definition ranked_key :: "ranked \<Rightarrow> rat \<times> int \<times> string \<times> int \<times> rat" where
  "ranked_key r = (rk_loss r, rk_negative_received r, rk_candidate r, rk_declared r, rk_average_age r)"

instantiation ranked :: linorder
begin

definition less_eq_ranked :: "ranked \<Rightarrow> ranked \<Rightarrow> bool" where
  "less_eq_ranked r s \<longleftrightarrow> ranked_key r \<le> ranked_key s"

definition less_ranked :: "ranked \<Rightarrow> ranked \<Rightarrow> bool" where
  "less_ranked r s \<longleftrightarrow> ranked_key r < ranked_key s"

instance
proof
  fix r s t :: ranked
  show "r < s \<longleftrightarrow> r \<le> s \<and> \<not> s \<le> r" by (auto simp: less_ranked_def less_eq_ranked_def)
  show "r \<le> r" by (simp add: less_eq_ranked_def)
  show "r \<le> s \<Longrightarrow> s \<le> t \<Longrightarrow> r \<le> t" unfolding less_eq_ranked_def by (rule order_trans)
  show "r \<le> s \<Longrightarrow> s \<le> r \<Longrightarrow> r = s"
    unfolding less_eq_ranked_def ranked_key_def by (cases r; cases s) (auto dest: antisym)
  show "r \<le> s \<or> s \<le> r" unfolding less_eq_ranked_def by (rule linear)
qed

end

definition rank_candidate :: "string \<times> candidate_stats \<Rightarrow> ranked" where
  "rank_candidate cv =
     (let (candidate, v) = cv;
          received = int (card (cs_sequences v));
          declared = max (cs_declared v) received;
          loss = (if declared \<noteq> 0 then max 0 (of_int (declared - received) * 100 / of_int declared) else 100);
          ages = cs_age_ms v;
          average_age = (if ages \<noteq> [] then sum_list ages / of_nat (length ages) else 0)
      in Ranked loss (- received) candidate declared average_age)"

definition choose_best :: "(string, candidate_stats) dict \<Rightarrow> string option" where
  "choose_best stats =
     (case sort (map rank_candidate stats) of
        [] \<Rightarrow> None
      | r # _ \<Rightarrow>
          let received = - rk_negative_received r in
          if received \<ge> 3 \<and> rk_loss r \<le> 20 \<and> rk_declared r \<ge> 3 then Some (rk_candidate r) else None)"


section \<open>Updating the configuration\<close>

text \<open>
  \<open>_atomic_update_iran_config\<close>: the configuration file and its backup as the documents they hold.
  \<open>fails\<close> says at which step an \<open>OSError\<close> stops it. The new document is written to a temporary file
  that replaces the configuration in one step or is removed.
\<close>

datatype update_step = CopyBackup | MakeTemporary | WriteTemporary | ChangeMode | Replace

record config_files =
  fs_config :: "json result"
  fs_backup :: "json result option"

definition atomic_update_iran_config ::
  "(json \<Rightarrow> string) \<Rightarrow> (update_step \<Rightarrow> string option) \<Rightarrow> string \<Rightarrow> config_files \<Rightarrow> unit result \<times> config_files" where
  "atomic_update_iran_config show_json fails best_ip d =
     (case load_config show_json (fs_config d) of
        Inl e \<Rightarrow> (Inl e, d)
      | Inr (Foreign _) \<Rightarrow> (Inl (ValueError ''receiver config must have role=iran''), d)
      | Inr (Iran _) \<Rightarrow>
          (case fs_config d of
             Inr (JObj data) \<Rightarrow>
               (case ipv4_of_text best_ip of
                  None \<Rightarrow> (Inl (ValueError ''invalid IPv4 address''), d)
                | Some ip \<Rightarrow>
                    let data' = dict_put ''expected_downlink_source'' (JStr (text_of_ipv4 ip)) data;
                        saved = d\<lparr>fs_backup := Some (fs_config d)\<rparr> in
                    (case fails CopyBackup of Some m \<Rightarrow> (Inl (OSError m), d) | None \<Rightarrow>
                    (case fails MakeTemporary of Some m \<Rightarrow> (Inl (OSError m), saved) | None \<Rightarrow>
                    (case fails WriteTemporary of Some m \<Rightarrow> (Inl (OSError m), saved) | None \<Rightarrow>
                    (case fails ChangeMode of Some m \<Rightarrow> (Inl (OSError m), saved) | None \<Rightarrow>
                    (case fails Replace of Some m \<Rightarrow> (Inl (OSError m), saved) | None \<Rightarrow>
                      (Inr (), saved\<lparr>fs_config := Inr (JObj data')\<rparr>)))))))
           | Inl e \<Rightarrow> (Inl e, d)
           | _ \<Rightarrow> (Inl TypeError, d)))"

text \<open>\<open>run_receiver\<close> on the datagrams that arrive before its deadline or its interruption.\<close>

definition run_receiver ::
  "(json \<Rightarrow> string) \<Rightarrow> (bytes \<Rightarrow> bytes \<Rightarrow> bytes) \<Rightarrow> (update_step \<Rightarrow> string option) \<Rightarrow> arrival list \<Rightarrow> bool \<Rightarrow> config_files
     \<Rightarrow> string option result \<times> config_files" where
  "run_receiver show_json hmac fails as update_config d =
     (case load_config show_json (fs_config d) of
        Inl e \<Rightarrow> (Inl e, d)
      | Inr (Foreign _) \<Rightarrow> (Inl (ValueError ''receiver config must have role=iran''), d)
      | Inr (Iran config) \<Rightarrow>
          (case receive_all hmac (cf_tunnel_id config) (cf_shared_secret config) as receiver_start of
             Inl e \<Rightarrow> (Inl e, d)
           | Inr R \<Rightarrow>
               let best_ip = choose_best (rv_stats R) in
               if update_config then
                 (case best_ip of
                    None \<Rightarrow> (Inl (RuntimeError ''no candidate met the authenticated delivery threshold''), d)
                  | Some ip \<Rightarrow>
                      (case atomic_update_iran_config show_json fails ip d of
                         (Inl e, d') \<Rightarrow> (Inl e, d')
                       | (Inr _, d') \<Rightarrow> (Inr best_ip, d')))
               else (Inr best_ip, d)))"


section \<open>The scanner\<close>

text \<open>
  \<open>clock\<close> gives \<open>time.time_ns()\<close> for a candidate and a sequence number, \<open>bind_fails\<close> and \<open>send_fails\<close> the
  message of the \<open>OSError\<close> of the socket. The log holds source address and packet of what was sent.
\<close>

fun send_probes ::
  "(bytes \<Rightarrow> bytes \<Rightarrow> bytes) \<Rightarrow> (string \<Rightarrow> int \<Rightarrow> int) \<Rightarrow> (string \<Rightarrow> int \<Rightarrow> string option) \<Rightarrow> bytes \<Rightarrow> bytes \<Rightarrow> string \<Rightarrow> int
     \<Rightarrow> int list \<Rightarrow> unit result \<times> (string \<times> bytes) list" where
  "send_probes hmac clock send_fails tunnel_id secret candidate n [] = (Inr (), [])"
| "send_probes hmac clock send_fails tunnel_id secret candidate n (s # ss) =
     (case encode_probe hmac (clock candidate s) tunnel_id secret candidate s n None of
        Inl e \<Rightarrow> (Inl e, [])
      | Inr packet \<Rightarrow>
          (case send_fails candidate s of
             Some m \<Rightarrow> (Inl (OSError m), [])
           | None \<Rightarrow>
               (case send_probes hmac clock send_fails tunnel_id secret candidate n ss of
                  (r, sent) \<Rightarrow> (r, (candidate, packet) # sent))))"

fun scan_candidates ::
  "(bytes \<Rightarrow> bytes \<Rightarrow> bytes) \<Rightarrow> (string \<Rightarrow> int \<Rightarrow> int) \<Rightarrow> (string \<Rightarrow> string option) \<Rightarrow> (string \<Rightarrow> int \<Rightarrow> string option)
     \<Rightarrow> bytes \<Rightarrow> bytes \<Rightarrow> int \<Rightarrow> string list \<Rightarrow> (string, string) dict
     \<Rightarrow> (string, string) dict result \<times> (string \<times> bytes) list" where
  "scan_candidates hmac clock bind_fails send_fails tunnel_id secret n [] results = (Inr results, [])"
| "scan_candidates hmac clock bind_fails send_fails tunnel_id secret n (c # cs) results =
     (case bind_fails c of
        Some m \<Rightarrow> scan_candidates hmac clock bind_fails send_fails tunnel_id secret n cs
                    (dict_put c (''not-local: '' @ m) results)
      | None \<Rightarrow>
          (case send_probes hmac clock send_fails tunnel_id secret c n (map int [1..<nat n + 1]) of
             (Inl e, sent) \<Rightarrow> (Inl e, sent)
           | (Inr _, sent) \<Rightarrow>
               (case scan_candidates hmac clock bind_fails send_fails tunnel_id secret n cs
                       (dict_put c (''sent:'' @ str_int n) results) of
                  (r, later) \<Rightarrow> (r, sent @ later))))"

definition run_scanner ::
  "(json \<Rightarrow> string) \<Rightarrow> (bytes \<Rightarrow> bytes \<Rightarrow> bytes) \<Rightarrow> (string \<Rightarrow> int \<Rightarrow> int) \<Rightarrow> (string \<Rightarrow> string option)
     \<Rightarrow> (string \<Rightarrow> int \<Rightarrow> string option) \<Rightarrow> string list \<Rightarrow> json result \<Rightarrow> int \<Rightarrow> int
     \<Rightarrow> (string, string) dict result \<times> (string \<times> bytes) list" where
  "run_scanner show_json hmac clock bind_fails send_fails candidate_list loaded probes_per_ip delay_ms =
     (case load_config show_json loaded of
        Inl e \<Rightarrow> (Inl e, [])
      | Inr (Iran _) \<Rightarrow> (Inl (ValueError ''scanner config must have role=foreign''), [])
      | Inr (Foreign config) \<Rightarrow>
          if \<not> (1 \<le> probes_per_ip \<and> probes_per_ip \<le> 10000)
            then (Inl (ValueError ''probes must be within 1..10000''), [])
          else if \<not> (0 \<le> delay_ms \<and> delay_ms \<le> 60000)
            then (Inl (ValueError ''delay-ms must be within 0..60000''), [])
          else scan_candidates hmac clock bind_fails send_fails (cf_tunnel_id config) (cf_shared_secret config)
                 probes_per_ip candidate_list [])"


section \<open>What the receiver knows\<close>

text \<open>The probe an arrival counts as: it decodes, and it came from the address it names.\<close>

definition genuine_probe :: "(bytes \<Rightarrow> bytes \<Rightarrow> bytes) \<Rightarrow> bytes \<Rightarrow> bytes \<Rightarrow> arrival \<Rightarrow> probe \<Rightarrow> bool" where
  "genuine_probe hmac t k a p \<longleftrightarrow>
     decode_probe hmac (ar_now_ns a) (ar_packet a) t k None = Inr p \<and> fst (ar_peer a) = pb_candidate_ip p"

definition heard :: "(bytes \<Rightarrow> bytes \<Rightarrow> bytes) \<Rightarrow> bytes \<Rightarrow> bytes \<Rightarrow> arrival set \<Rightarrow> string \<Rightarrow> int set" where
  "heard hmac t k A c = {s. \<exists>a \<in> A. \<exists>p. genuine_probe hmac t k a p \<and> pb_candidate_ip p = c \<and> pb_sequence p = s}"

definition receiver_inv :: "(bytes \<Rightarrow> bytes \<Rightarrow> bytes) \<Rightarrow> bytes \<Rightarrow> bytes \<Rightarrow> arrival set \<Rightarrow> receiver \<Rightarrow> bool" where
  "receiver_inv hmac t k A R \<longleftrightarrow>
     dict_ok (rv_stats R) \<and>
     rv_seen R = {(pb_candidate_ip p, pb_sequence p, pb_timestamp_ns p) | p. \<exists>a \<in> A. genuine_probe hmac t k a p} \<and>
     (\<forall>c. cs_sequences (stats_of R c) = heard hmac t k A c) \<and>
     (\<forall>c. dict_has (rv_stats R) c \<longleftrightarrow> heard hmac t k A c \<noteq> {}) \<and>
     (\<forall>c. heard hmac t k A c \<subseteq> {1..cs_declared (stats_of R c)}) \<and>
     (\<forall>c. \<forall>n. (\<forall>a \<in> A. \<forall>p. genuine_probe hmac t k a p \<longrightarrow> pb_total_probes p \<le> n) \<longrightarrow> 0 \<le> n \<longrightarrow>
        cs_declared (stats_of R c) \<le> n)"

lemma genuine_range:
  "hmac_ok hmac \<Longrightarrow> length t = 16 \<Longrightarrow> genuine_probe hmac t k a p \<Longrightarrow> 1 \<le> pb_sequence p \<and> pb_sequence p \<le> pb_total_probes p"
  by (auto simp: genuine_probe_def decode_probe_iff probe_ok_def)

lemma receive_probe_cases:
  obtains (other) m n where "receive_probe hmac t k a R = Inr (R\<lparr>rv_auth_failures := m, rv_source_mismatches := n\<rparr>)"
      "\<And>p. \<not> genuine_probe hmac t k a p"
    | (known) p where "receive_probe hmac t k a R = Inr R" "genuine_probe hmac t k a p"
      "(pb_candidate_ip p, pb_sequence p, pb_timestamp_ns p) \<in> rv_seen R"
    | (fresh) p where "genuine_probe hmac t k a p" "(pb_candidate_ip p, pb_sequence p, pb_timestamp_ns p) \<notin> rv_seen R"
      "receive_probe hmac t k a R = Inr (R\<lparr>rv_seen := insert (pb_candidate_ip p, pb_sequence p, pb_timestamp_ns p) (rv_seen R),
         rv_stats := dict_put (pb_candidate_ip p) (record_probe (ar_later_ns a) p (stats_of R (pb_candidate_ip p))) (rv_stats R)\<rparr>)"
proof (cases "decode_probe hmac (ar_now_ns a) (ar_packet a) t k None")
  case (Inl e)
  then obtain m where "e = ProbeError m" using decode_probe_raises [of hmac "ar_now_ns a" "ar_packet a" t k] by auto
  then show thesis
    using Inl other [where m = "rv_auth_failures R + 1" and n = "rv_source_mismatches R"]
    by (simp add: receive_probe_def genuine_probe_def)
next
  case (Inr p)
  have uniq: "genuine_probe hmac t k a q \<longleftrightarrow> q = p \<and> fst (ar_peer a) = pb_candidate_ip p" for q
    using Inr by (auto simp: genuine_probe_def)
  show thesis
  proof (cases "fst (ar_peer a) = pb_candidate_ip p")
    case False
    then show thesis
      using Inr uniq other [where m = "rv_auth_failures R" and n = "rv_source_mismatches R + 1"] by (simp add: receive_probe_def Let_def)
  next
    case True
    then show thesis
      using Inr uniq known [of p] fresh [of p] by (auto simp: receive_probe_def Let_def)
  qed
qed

lemma heard_insert:
  "heard hmac t k (insert a A) c =
     heard hmac t k A c \<union> {pb_sequence p | p. genuine_probe hmac t k a p \<and> pb_candidate_ip p = c}"
  by (auto simp: heard_def)

lemma genuine_unique: "genuine_probe hmac t k a p \<Longrightarrow> genuine_probe hmac t k a q \<longleftrightarrow> q = p"
  by (auto simp: genuine_probe_def)

lemma stats_of_put: "stats_of (R\<lparr>rv_seen := S, rv_stats := dict_put c v (rv_stats R)\<rparr>) c' = (if c' = c then v else stats_of R c')"
  by (simp add: stats_of_def dict_get_put)

lemma receive_probe_inv:
  assumes inv: "receiver_inv hmac t k A R" and crypto: "hmac_ok hmac" "length t = 16"
  shows "\<exists>R'. receive_probe hmac t k a R = Inr R' \<and> receiver_inv hmac t k (insert a A) R'"
proof (rule receive_probe_cases [of hmac t k a R])
  fix m n
  assume r: "receive_probe hmac t k a R = Inr (R\<lparr>rv_auth_failures := m, rv_source_mismatches := n\<rparr>)"
    and none: "\<And>p. \<not> genuine_probe hmac t k a p"
  then show ?thesis using inv by (simp add: receiver_inv_def heard_insert stats_of_def)
next
  fix p
  assume r: "receive_probe hmac t k a R = Inr R" and p: "genuine_probe hmac t k a p"
    and seen: "(pb_candidate_ip p, pb_sequence p, pb_timestamp_ns p) \<in> rv_seen R"
  obtain q b where q: "b \<in> A" "genuine_probe hmac t k b q" "pb_candidate_ip q = pb_candidate_ip p" "pb_sequence q = pb_sequence p"
    "pb_timestamp_ns q = pb_timestamp_ns p"
    using seen inv by (auto simp: receiver_inv_def)
  then have "pb_sequence p \<in> heard hmac t k A (pb_candidate_ip p)" unfolding heard_def by blast
  then have same: "heard hmac t k (insert a A) c = heard hmac t k A c" for c
    by (auto simp: heard_insert genuine_unique [OF p])
  have "{(pb_candidate_ip p, pb_sequence p, pb_timestamp_ns p) | p. \<exists>a \<in> insert a A. genuine_probe hmac t k a p} = rv_seen R"
    using inv seen by (auto simp: receiver_inv_def genuine_unique [OF p])
  then show ?thesis using r inv by (simp add: receiver_inv_def same)
next
  fix p
  assume p: "genuine_probe hmac t k a p" and new: "(pb_candidate_ip p, pb_sequence p, pb_timestamp_ns p) \<notin> rv_seen R"
  let ?c = "pb_candidate_ip p"
  define R' where "R' = R\<lparr>rv_seen := insert (?c, pb_sequence p, pb_timestamp_ns p) (rv_seen R),
     rv_stats := dict_put ?c (record_probe (ar_later_ns a) p (stats_of R ?c)) (rv_stats R)\<rparr>"
  assume "receive_probe hmac t k a R = Inr (R\<lparr>rv_seen := insert (?c, pb_sequence p, pb_timestamp_ns p) (rv_seen R),
     rv_stats := dict_put ?c (record_probe (ar_later_ns a) p (stats_of R ?c)) (rv_stats R)\<rparr>)"
  then have r: "receive_probe hmac t k a R = Inr R'" by (simp add: R'_def)
  have h: "heard hmac t k (insert a A) c = (if c = ?c then insert (pb_sequence p) (heard hmac t k A c) else heard hmac t k A c)" for c
    by (auto simp: heard_insert genuine_unique [OF p])
  have st: "stats_of R' c = (if c = ?c then record_probe (ar_later_ns a) p (stats_of R ?c) else stats_of R c)" for c
    unfolding R'_def by (rule stats_of_put)
  have fields: "rv_seen R' = insert (?c, pb_sequence p, pb_timestamp_ns p) (rv_seen R)"
    "dict_has (rv_stats R') c \<longleftrightarrow> c = ?c \<or> dict_has (rv_stats R) c" "dict_ok (rv_stats R')" for c
    using inv by (auto simp: R'_def dict_has_put dict_ok_put receiver_inv_def)
  note range = genuine_range [OF crypto p]
  have "receiver_inv hmac t k (insert a A) R'"
    unfolding receiver_inv_def
  proof (intro conjI allI impI)
    show "dict_ok (rv_stats R')" by (rule fields)
    show "rv_seen R' = {(pb_candidate_ip p, pb_sequence p, pb_timestamp_ns p) | p. \<exists>a \<in> insert a A. genuine_probe hmac t k a p}"
      using inv unfolding fields receiver_inv_def by (auto simp: genuine_unique [OF p])
    show "cs_sequences (stats_of R' c) = heard hmac t k (insert a A) c" for c
      using inv by (simp add: receiver_inv_def h st record_probe_def)
    show "dict_has (rv_stats R') c \<longleftrightarrow> heard hmac t k (insert a A) c \<noteq> {}" for c
      using inv by (simp add: receiver_inv_def h fields)
    show "heard hmac t k (insert a A) c \<subseteq> {1..cs_declared (stats_of R' c)}" for c
    proof -
      have "heard hmac t k A c \<subseteq> {1..cs_declared (stats_of R c)}" using inv by (simp add: receiver_inv_def)
      moreover have "heard hmac t k A ?c \<subseteq> {1..cs_declared (stats_of R ?c)}" using inv by (simp add: receiver_inv_def)
      ultimately show ?thesis using range by (auto simp: h st record_probe_def subset_iff le_max_iff_disj)
    qed
    show "cs_declared (stats_of R' c) \<le> n"
      if "\<forall>a \<in> insert a A. \<forall>p. genuine_probe hmac t k a p \<longrightarrow> pb_total_probes p \<le> n" "0 \<le> n" for c n
    proof -
      have "cs_declared (stats_of R c) \<le> n" using inv that by (simp add: receiver_inv_def)
      moreover have "cs_declared (stats_of R ?c) \<le> n" using inv that by (simp add: receiver_inv_def)
      moreover have "pb_total_probes p \<le> n" using that p by blast
      ultimately show ?thesis by (auto simp: st record_probe_def)
    qed
  qed
  then show ?thesis using r by blast
qed

lemma receive_all_inv:
  "receiver_inv hmac t k A R \<Longrightarrow> hmac_ok hmac \<Longrightarrow> length t = 16 \<Longrightarrow>
   \<exists>R'. receive_all hmac t k as R = Inr R' \<and> receiver_inv hmac t k (A \<union> set as) R'"
proof (induction as arbitrary: A R)
  case (Cons a as)
  from receive_probe_inv [OF Cons.prems] obtain R1 where
    "receive_probe hmac t k a R = Inr R1" "receiver_inv hmac t k (insert a A) R1" by blast
  with Cons.IH [OF this(2) Cons.prems(2,3)] show ?case by simp
qed simp

lemma receiver_start_inv: "receiver_inv hmac t k {} receiver_start"
  by (simp add: receiver_inv_def receiver_start_def stats_of_def new_stats_def heard_def)

lemma receive_all_start:
  assumes "hmac_ok hmac" "length t = 16"
  obtains R where "receive_all hmac t k as receiver_start = Inr R" "receiver_inv hmac t k (set as) R"
  using receive_all_inv [OF receiver_start_inv assms, of k as] by auto

end
