(* ===== verification/Scan_Properties.thy ===== *)
theory Scan_Properties
  imports Scan_Receiver
begin

text \<open>
  What the scanner and the receiver achieve together: which source the receiver chooses, said in terms of what
  arrived; the update of the configuration is all or nothing and reloads with the chosen source; and a scan over a
  network that delivers ends with the first address that the scanning host could bind.
\<close>


section \<open>The configuration after an update\<close>

lemma setting_put: "setting (dict_put k v raw) k' fallback = (if k' = k then v else setting raw k' fallback)"
  by (simp add: setting_def dict_simps)

lemma required_put: "k' \<noteq> k \<Longrightarrow> required (dict_put k v raw) k' = required raw k'"
  by (simp add: required_def dict_simps)

lemma replay_state_file_put:
  "k \<noteq> ''replay_state_file'' \<Longrightarrow> replay_state_file show_json (dict_put k v raw) = replay_state_file show_json raw"
  by (simp add: replay_state_file_def setting_put fun_eq_iff)

lemma read_common_put:
  "read_common show_json name (dict_put ''expected_downlink_source'' v raw) = read_common show_json name raw"
  by (simp add: read_common_def setting_put)

text \<open>Loading a configuration whose expected source was replaced by the text of an address.\<close>

definition with_source :: "iran_config \<Rightarrow> string \<Rightarrow> bytes \<Rightarrow> role result" where
  "with_source c s ip =
     (if is_unspecified ip then Inl (ConfigError ''expected_downlink_source cannot be unspecified'')
      else if is_multicast ip then Inl (ConfigError ''expected_downlink_source cannot be multicast'')
      else Inr (Iran (c\<lparr>ir_expected_downlink_source := Some s\<rparr>)))"

lemma load_iran_put:
  assumes s: "ipv4_of_text s = Some ip" and l: "load_iran show_json c raw = Inr i"
  shows "and_then (load_iran show_json c (dict_put ''expected_downlink_source'' (JStr s) raw)) (\<lambda>i. Inr (Iran i)) =
    with_source i s ip"
proof -
  have "s \<noteq> []" using s by (auto simp: ipv4_of_text_def)
  then have o: "optional (JStr s) (\<lambda>v. parse_ipv4 (py_str show_json v) ''expected_downlink_source'' False) =
      (if is_unspecified ip then Inl (ConfigError ''expected_downlink_source cannot be unspecified'')
       else if is_multicast ip then Inl (ConfigError ''expected_downlink_source cannot be multicast'') else Inr (Some s))"
    by (simp add: optional_def parse_ipv4_def address_no_placeholder [OF s] s text_of_ipv4_of_text [OF s])
  show ?thesis
    using l unfolding load_iran_def
    by (auto simp: setting_put required_put replay_state_file_put result_simps common_config.defs o with_source_def)
qed

lemma load_config_put:
  assumes s: "ipv4_of_text s = Some ip" and l: "load_config show_json (Inr (JObj raw)) = Inr (Iran c)"
  shows "load_config show_json (Inr (JObj (dict_put ''expected_downlink_source'' (JStr s) raw))) = with_source c s ip"
proof -
  let ?name = "lower (str_strip (py_str show_json (setting raw ''role'' (JStr ''''))))"
  from l obtain t common where n: "?name = ''iran''" and rc: "read_common show_json ''iran'' raw = Inr (t, common)"
    and cc: "check_common t common = Inr ()" and li: "load_iran show_json common raw = Inr c"
    unfolding load_config_def Let_def by (auto simp: result_simps split: if_splits prod.splits)
  show ?thesis
    using n load_iran_put [OF s li] unfolding load_config_def by (simp add: setting_put read_common_put rc cc)
qed

lemma atomic_update_cases:
  assumes "load_config show_json (fs_config d) = Inr (Iran c)" "atomic_update_iran_config show_json fails s d = (r, d')"
  shows "(\<exists>e. r = Inl e) \<and> fs_config d' = fs_config d \<or>
    r = Inr () \<and> fs_backup d' = Some (fs_config d) \<and>
    (\<exists>ip. ipv4_of_text s = Some ip \<and> load_config show_json (fs_config d') = with_source c s ip)"
proof -
  obtain raw where raw: "fs_config d = Inr (JObj raw)"
    using assms(1) by (cases "fs_config d") (auto simp: load_config_def split: json.splits)
  show ?thesis
  proof (cases "ipv4_of_text s")
    case None
    then show ?thesis using assms by (auto simp: atomic_update_iran_config_def raw)
  next
    case (Some ip)
    show ?thesis
      using assms raw load_config_put [OF Some, of show_json raw c] text_of_ipv4_of_text [OF Some]
      by (cases d) (auto simp: atomic_update_iran_config_def Some Let_def split: option.splits)
  qed
qed


section \<open>What the ranking chooses\<close>

lemma sorted_head: "sort xs = r # rs \<Longrightarrow> r \<in> set xs \<and> (\<forall>y \<in> set xs. r \<le> y)"
proof -
  assume s: "sort xs = r # rs"
  have "set xs = set (r # rs)" using arg_cong [OF s, of set] by simp
  moreover have "sorted (r # rs)" using sorted_sort [of xs] s by simp
  ultimately show ?thesis by auto
qed

lemma choose_best_Some:
  assumes "choose_best stats = Some c"
  obtains v where "(c, v) \<in> set stats" "3 \<le> card (cs_sequences v)" "rk_loss (rank_candidate (c, v)) \<le> 20"
    "\<forall>w \<in> set stats. rank_candidate (c, v) \<le> rank_candidate w"
proof -
  obtain r rs where r: "sort (map rank_candidate stats) = r # rs"
    using assms by (cases "sort (map rank_candidate stats)") (simp_all add: choose_best_def)
  have best: "3 \<le> - rk_negative_received r" "rk_loss r \<le> 20" "rk_candidate r = c"
    using assms unfolding choose_best_def r Let_def by (auto split: if_splits)
  have h: "r \<in> rank_candidate ` set stats" "\<forall>w \<in> set stats. r \<le> rank_candidate w"
    using sorted_head [OF r] by auto
  then obtain c' v where v: "(c', v) \<in> set stats" "r = rank_candidate (c', v)" by auto
  have "c' = c" "3 \<le> card (cs_sequences v)"
    using best by (simp_all add: v(2) rank_candidate_def Let_def)
  then show thesis using that v h best by simp
qed


lemma choose_best_even:
  assumes "stats \<noteq> []" "3 \<le> n" "\<forall>(c, v) \<in> set stats. int (card (cs_sequences v)) = n \<and> cs_declared v = n"
  shows "choose_best stats = Some (Min (fst ` set stats))"
proof -
  obtain r rs where r: "sort (map rank_candidate stats) = r # rs"
    using assms(1) by (cases "sort (map rank_candidate stats)") (auto dest!: arg_cong [of _ _ length])
  note h = sorted_head [OF r]
  have rank: "\<exists>a. rank_candidate w = Ranked 0 (- n) (fst w) n a" if "w \<in> set stats" for w
    using assms(2,3) that by (auto simp: rank_candidate_def Let_def)
  obtain w a where w: "w \<in> set stats" "r = Ranked 0 (- n) (fst w) n a" using h rank by fastforce
  have "fst w \<le> fst w'" if "w' \<in> set stats" for w'
  proof -
    from rank [OF that] obtain a' where "rank_candidate w' = Ranked 0 (- n) (fst w') n a'" ..
    moreover have "r \<le> rank_candidate w'" using h that by simp
    ultimately show ?thesis using w(2) by (auto simp: less_eq_ranked_def ranked_key_def less_eq_prod_def less_prod_def)
  qed
  then have "Min (fst ` set stats) = fst w" using w(1) by (intro Min_eqI) auto
  then show ?thesis using assms(2) unfolding choose_best_def r w(2) Let_def by simp
qed

lemma stats_of_mem: "dict_ok (rv_stats R) \<Longrightarrow> (c, v) \<in> set (rv_stats R) \<Longrightarrow> stats_of R c = v"
  by (simp add: dict_ok_def stats_of_def)


section \<open>What the scanner sends\<close>

definition scan_probe :: "(string \<Rightarrow> int \<Rightarrow> int) \<Rightarrow> int \<Rightarrow> string \<Rightarrow> int \<Rightarrow> probe" where
  "scan_probe clock n c s =
     \<lparr>pb_candidate_ip = c, pb_sequence = s, pb_total_probes = n, pb_timestamp_ns = clock c s\<rparr>"

lemma encode_probe_clock: "encode_probe hmac now t k c s n None = encode_probe hmac now t k c s n (Some now)"
  by (simp add: encode_probe_def)

lemma send_probes_ok:
  assumes "hmac_ok hmac" "length t = 16" "32 \<le> length k"
  shows "send_probes hmac clock send_fails t k c n ss = (Inr u, sent) \<Longrightarrow>
    set sent = {(c, probe_packet hmac t k (scan_probe clock n c s)) | s. s \<in> set ss} \<and>
    (\<forall>s \<in> set ss. probe_ok (scan_probe clock n c s))"
proof (induction ss arbitrary: sent)
  case (Cons s ss)
  then obtain packet later where "encode_probe hmac (clock c s) t k c s n (Some (clock c s)) = Inr packet"
    "send_probes hmac clock send_fails t k c n ss = (Inr u, later)" "sent = (c, packet) # later"
    by (auto simp: encode_probe_clock split: sum.splits option.splits prod.splits)
  then show ?case
    using Cons.IH [of later] by (auto simp: encode_probe_iff [OF assms] scan_probe_def Let_def)
qed auto

lemma scan_candidates_ok:
  assumes "hmac_ok hmac" "length t = 16" "32 \<le> length k"
  shows "scan_candidates hmac clock bind_fails send_fails t k n cs results = (Inr results', sent) \<Longrightarrow>
    set sent = {(c, probe_packet hmac t k (scan_probe clock n c s)) | c s. c \<in> set cs \<and> bind_fails c = None \<and> 1 \<le> s \<and> s \<le> n} \<and>
    (\<forall>c \<in> set cs. bind_fails c = None \<longrightarrow> (\<forall>s. 1 \<le> s \<and> s \<le> n \<longrightarrow> probe_ok (scan_probe clock n c s)))"
proof (induction cs arbitrary: results sent)
  case (Cons c cs)
  show ?case
  proof (cases "bind_fails c")
    case None
    with Cons.prems obtain now later u where s:
      "send_probes hmac clock send_fails t k c n (map int [1..<nat n + 1]) = (Inr u, now)"
      "scan_candidates hmac clock bind_fails send_fails t k n cs (dict_put c (''sent:'' @ str_int n) results) = (Inr results', later)"
      "sent = now @ later"
      by (auto split: sum.splits option.splits prod.splits simp del: upt_Suc)
    have "set (map int [1..<nat n + 1]) = {s. 1 \<le> s \<and> s \<le> n}"
    proof (intro set_eqI iffI)
      fix s assume "s \<in> {s. 1 \<le> s \<and> s \<le> n}"
      then have "nat s \<in> set [1..<nat n + 1]" "s = int (nat s)" by auto
      then show "s \<in> set (map int [1..<nat n + 1])" unfolding set_map by blast
    qed (auto simp del: upt_Suc)
    then show ?thesis
      using send_probes_ok [OF assms s(1)] Cons.IH [OF s(2)] None unfolding s(3) by auto
  next
    case (Some m)
    then show ?thesis using Cons by auto
  qed
qed auto

lemma send_probes_succeeds:
  assumes "hmac_ok hmac" "length t = 16" "32 \<le> length k"
  shows "\<forall>s \<in> set ss. probe_ok (scan_probe clock n c s) \<Longrightarrow>
    \<exists>sent. send_probes hmac clock (\<lambda>_ _. None) t k c n ss = (Inr (), sent)"
proof (induction ss)
  case (Cons s ss)
  then have "encode_probe hmac (clock c s) t k c s n (Some (clock c s)) = Inr (probe_packet hmac t k (scan_probe clock n c s))"
    by (simp add: encode_probe_iff [OF assms] scan_probe_def Let_def)
  then show ?case using Cons by (auto simp: encode_probe_clock)
qed auto

lemma scan_candidates_succeeds:
  assumes "hmac_ok hmac" "length t = 16" "32 \<le> length k"
  shows "\<forall>c \<in> set cs. \<forall>s. 1 \<le> s \<and> s \<le> n \<longrightarrow> probe_ok (scan_probe clock n c s) \<Longrightarrow>
    \<exists>results' sent. scan_candidates hmac clock bind_fails (\<lambda>_ _. None) t k n cs results = (Inr results', sent)"
proof (induction cs arbitrary: results)
  case (Cons c cs)
  then have IH: "\<exists>results' sent. scan_candidates hmac clock bind_fails (\<lambda>_ _. None) t k n cs r = (Inr results', sent)" for r
    by simp
  have "\<forall>s \<in> set (map int [1..<nat n + 1]). probe_ok (scan_probe clock n c s)" using Cons.prems by auto
  from send_probes_succeeds [OF assms this] obtain now
    where "send_probes hmac clock (\<lambda>_ _. None) t k c n (map int [1..<nat n + 1]) = (Inr (), now)" ..
  then show ?case
    using IH [of "dict_put c (''sent:'' @ str_int n) results"] IH [of "dict_put c (''not-local: '' @ the (bind_fails c)) results"]
    by (cases "bind_fails c") auto
qed simp


section \<open>A scan over a faithful network\<close>

lemma receiver_invD:
  assumes "receiver_inv hmac t k A R"
  shows "dict_ok (rv_stats R)" "cs_sequences (stats_of R c) = heard hmac t k A c"
    "dict_has (rv_stats R) c \<longleftrightarrow> heard hmac t k A c \<noteq> {}" "heard hmac t k A c \<subseteq> {1..cs_declared (stats_of R c)}"
    "\<forall>a \<in> A. \<forall>p. genuine_probe hmac t k a p \<longrightarrow> pb_total_probes p \<le> n \<Longrightarrow> 0 \<le> n \<Longrightarrow> cs_declared (stats_of R c) \<le> n"
  using assms unfolding receiver_inv_def by blast+

text \<open>
  \<open>scan_arrives\<close>: every probe of the candidates in \<open>B\<close> arrives at least once and in time, and what arrives besides
  is no probe of the tunnel.
\<close>

definition scan_arrives ::
  "(bytes \<Rightarrow> bytes \<Rightarrow> bytes) \<Rightarrow> bytes \<Rightarrow> bytes \<Rightarrow> (string \<Rightarrow> int \<Rightarrow> int) \<Rightarrow> int \<Rightarrow> (string \<times> bytes) set \<Rightarrow> arrival list \<Rightarrow> bool" where
  "scan_arrives hmac t k clock n sent as \<longleftrightarrow>
     sent \<subseteq> {(fst (ar_peer a), ar_packet a) | a. a \<in> set as} \<and>
     (\<forall>a \<in> set as. (fst (ar_peer a), ar_packet a) \<in> sent \<or> (\<forall>p. \<not> genuine_probe hmac t k a p)) \<and>
     (\<forall>a \<in> set as. \<forall>c s. 1 \<le> s \<and> s \<le> n \<longrightarrow> \<bar>ar_now_ns a - clock c s\<bar> \<le> 600000000000)"

definition scan_log ::
  "(bytes \<Rightarrow> bytes \<Rightarrow> bytes) \<Rightarrow> bytes \<Rightarrow> bytes \<Rightarrow> (string \<Rightarrow> int \<Rightarrow> int) \<Rightarrow> int \<Rightarrow> string set \<Rightarrow> (string \<times> bytes) set" where
  "scan_log hmac t k clock n B =
     {(c, probe_packet hmac t k (scan_probe clock n c s)) | c s. c \<in> B \<and> 1 \<le> s \<and> s \<le> n}"

lemma genuine_scan:
  assumes crypto: "hmac_ok hmac" "length t = 16"
    and ok: "\<And>c s. c \<in> B \<Longrightarrow> 1 \<le> s \<Longrightarrow> s \<le> n \<Longrightarrow> probe_ok (scan_probe clock n c s)"
    and net: "scan_arrives hmac t k clock n (scan_log hmac t k clock n B) as"
  shows "(\<exists>a \<in> set as. genuine_probe hmac t k a p) \<longleftrightarrow> (\<exists>c s. c \<in> B \<and> 1 \<le> s \<and> s \<le> n \<and> p = scan_probe clock n c s)"
proof
  assume "\<exists>a \<in> set as. genuine_probe hmac t k a p"
  then obtain a where a: "a \<in> set as" "genuine_probe hmac t k a p" ..
  then obtain c s where s: "c \<in> B" "1 \<le> s" "s \<le> n" "ar_packet a = probe_packet hmac t k (scan_probe clock n c s)"
    using net unfolding scan_arrives_def scan_log_def by blast
  moreover have "probe_ok p" "ar_packet a = probe_packet hmac t k p"
    using a(2) by (simp_all add: genuine_probe_def decode_probe_iff [OF crypto])
  ultimately have "p = scan_probe clock n c s"
    using probe_packet_inj [OF crypto, of p "scan_probe clock n c s" k] ok by simp
  then show "\<exists>c s. c \<in> B \<and> 1 \<le> s \<and> s \<le> n \<and> p = scan_probe clock n c s" using s by blast
next
  assume "\<exists>c s. c \<in> B \<and> 1 \<le> s \<and> s \<le> n \<and> p = scan_probe clock n c s"
  then obtain c s where s: "c \<in> B" "1 \<le> s" "s \<le> n" "p = scan_probe clock n c s" by blast
  then have "(c, probe_packet hmac t k p) \<in> scan_log hmac t k clock n B" unfolding scan_log_def by blast
  then obtain a where a: "a \<in> set as" "fst (ar_peer a) = c" "ar_packet a = probe_packet hmac t k p"
    using net unfolding scan_arrives_def by auto
  have "probe_ok p" using s ok by simp
  moreover have "probe_fresh (ar_now_ns a) p"
    using net a(1) s(2,3) by (simp add: scan_arrives_def probe_fresh_def s(4) scan_probe_def)
  ultimately have "genuine_probe hmac t k a p"
    using a s(4) by (simp add: genuine_probe_def decode_probe_iff [OF crypto] scan_probe_def)
  then show "\<exists>a \<in> set as. genuine_probe hmac t k a p" using a(1) by blast
qed

lemma heard_scan:
  assumes "hmac_ok hmac" "length t = 16" "\<And>c s. c \<in> B \<Longrightarrow> 1 \<le> s \<Longrightarrow> s \<le> n \<Longrightarrow> probe_ok (scan_probe clock n c s)"
    "scan_arrives hmac t k clock n (scan_log hmac t k clock n B) as"
  shows "heard hmac t k (set as) c = (if c \<in> B then {1..n} else {})"
    and "\<forall>a \<in> set as. \<forall>p. genuine_probe hmac t k a p \<longrightarrow> pb_total_probes p \<le> n"
proof -
  note genuine_probe = genuine_scan [OF assms]
  have "s \<in> heard hmac t k (set as) c \<longleftrightarrow> c \<in> B \<and> 1 \<le> s \<and> s \<le> n" for s
  proof
    assume "s \<in> heard hmac t k (set as) c"
    then obtain a p where p: "a \<in> set as" "genuine_probe hmac t k a p" "pb_candidate_ip p = c" "pb_sequence p = s"
      by (auto simp: heard_def)
    then obtain c' s' where "c' \<in> B" "1 \<le> s'" "s' \<le> n" "p = scan_probe clock n c' s'" using genuine_probe [of p] by blast
    then show "c \<in> B \<and> 1 \<le> s \<and> s \<le> n" using p(3,4) by (auto simp: scan_probe_def)
  next
    assume "c \<in> B \<and> 1 \<le> s \<and> s \<le> n"
    then obtain a where "a \<in> set as" "genuine_probe hmac t k a (scan_probe clock n c s)"
      using genuine_probe [of "scan_probe clock n c s"] by blast
    then show "s \<in> heard hmac t k (set as) c" by (force simp: heard_def scan_probe_def)
  qed
  then show "heard hmac t k (set as) c = (if c \<in> B then {1..n} else {})" by (auto simp: set_eq_iff)
  show "\<forall>a \<in> set as. \<forall>p. genuine_probe hmac t k a p \<longrightarrow> pb_total_probes p \<le> n"
  proof (intro ballI allI impI)
    fix a p assume "a \<in> set as" "genuine_probe hmac t k a p"
    then obtain c' s' where "p = scan_probe clock n c' s'" using genuine_probe [of p] by blast
    then show "pb_total_probes p \<le> n" by (simp add: scan_probe_def)
  qed
qed

text \<open>The receiver hears exactly the candidates of \<open>B\<close>, without loss, and chooses the first of them.\<close>

lemma scan_chosen:
  assumes "hmac_ok hmac" "length t = 16" "\<And>c s. c \<in> B \<Longrightarrow> 1 \<le> s \<Longrightarrow> s \<le> n \<Longrightarrow> probe_ok (scan_probe clock n c s)"
    "scan_arrives hmac t k clock n (scan_log hmac t k clock n B) as"
    and enough: "3 \<le> n" "B \<noteq> {}"
  obtains R where "receive_all hmac t k as receiver_start = Inr R" "choose_best (rv_stats R) = Some (Min B)"
proof -
  note heard = heard_scan [OF assms(1-4)]
  obtain R where R: "receive_all hmac t k as receiver_start = Inr R" "receiver_inv hmac t k (set as) R"
    by (rule receive_all_start [OF assms(1,2)])
  have "heard hmac t k (set as) c \<noteq> {} \<longleftrightarrow> c \<in> B" for c using heard(1) [of c] enough(1) by simp
  then have "dict_has (rv_stats R) c \<longleftrightarrow> c \<in> B" for c by (simp add: receiver_invD(3) [OF R(2)])
  then have keys: "fst ` set (rv_stats R) = B" by (auto simp: dict_has_def)
  have "int (card (cs_sequences v)) = n \<and> cs_declared v = n" if cv: "(c, v) \<in> set (rv_stats R)" for c v
  proof -
    have "c \<in> B" using cv keys by force
    then have h: "heard hmac t k (set as) c = {1..n}" using heard(1) by simp
    have v: "stats_of R c = v" by (rule stats_of_mem [OF receiver_invD(1) [OF R(2)] cv])
    have "cs_sequences v = {1..n}" "{1..n} \<subseteq> {1..cs_declared v}"
      using receiver_invD(2,4) [OF R(2), of c] unfolding h v by simp_all
    moreover have "cs_declared v \<le> n"
      using receiver_invD(5) [OF R(2) heard(2), of c] enough(1) unfolding v by simp
    ultimately show ?thesis using enough(1) by simp
  qed
  moreover have "rv_stats R \<noteq> []" using keys enough by auto
  ultimately have "choose_best (rv_stats R) = Some (Min (fst ` set (rv_stats R)))"
    using choose_best_even [of "rv_stats R" n] enough(1) by blast
  then show thesis using that R(1) by (simp only: keys)
qed


section \<open>A scan\<close>

text \<open>
  A small scan for the witnesses: the foreign side of \<open>demo_document\<close> probes three addresses, of which it
  can bind two, with three probes each, and every probe arrives.
\<close>

definition demo_hmac :: "bytes \<Rightarrow> bytes \<Rightarrow> bytes" where
  "demo_hmac k m = take 32 (drop 36 m @ k @ replicate 32 0)"

definition demo_foreign_document :: "(string \<times> json) list" where
  "demo_foreign_document =
     [(''role'', JStr ''foreign''), (''tunnel_id'', JStr ''000102030405060708090a0b0c0d0e0f''),
      (''shared_secret'', JStr ''AAECAwQFBgcICQoLDA0ODxAREhMUFRYXGBkaGxwdHh8=''),
      (''uplink_listen'', JStr ''0.0.0.0:70''), (''inner_bridge_listen'', JStr ''127.0.0.1:51''),
      (''inner_peer'', JStr ''127.0.0.1:52''), (''iran_downlink'', JStr ''192.0.2.1:71'')]"

definition demo_bind_fails :: "string \<Rightarrow> string option" where
  "demo_bind_fails c = (if c = ''198.51.100.7'' then Some ''busy'' else None)"

definition demo_candidates :: "string list" where
  "demo_candidates = [''198.51.100.9'', ''198.51.100.7'', ''198.51.100.8'']"

definition demo_scan :: "(string, string) dict result \<times> (string \<times> bytes) list" where
  "demo_scan = run_scanner (\<lambda>_. []) demo_hmac (\<lambda>_ s. 1000 + s) demo_bind_fails (\<lambda>_ _. None)
     demo_candidates (Inr (JObj demo_foreign_document)) 3 20"

definition demo_arrival :: "string \<times> bytes \<Rightarrow> arrival" where
  "demo_arrival cp = \<lparr>ar_packet = snd cp, ar_peer = (fst cp, 50000), ar_now_ns = 2000, ar_later_ns = 3000\<rparr>"

definition scan_demo_arrivals :: "arrival list" where
  "scan_demo_arrivals = map demo_arrival (snd demo_scan)"

definition demo_files :: config_files where
  "demo_files = \<lparr>fs_config = Inr (JObj demo_document), fs_backup = None\<rparr>"

definition scan_tunnel :: bytes where "scan_tunnel = map word_of_nat [0..<16]"

definition scan_secret :: bytes where "scan_secret = map word_of_nat [0..<32]"

lemma demo_hmac_ok: "hmac_ok demo_hmac"
  by (auto simp: hmac_ok_def demo_hmac_def min_def)

lemma demo_iran:
  obtains c where "load_config (\<lambda>_. []) (fs_config demo_files) = Inr (Iran c)" "cf_tunnel_id c = scan_tunnel"
    "cf_shared_secret c = scan_secret"
proof -
  have "(case load_config (\<lambda>_. []) (fs_config demo_files) of
      Inr (Iran c) \<Rightarrow> cf_tunnel_id c = scan_tunnel \<and> cf_shared_secret c = scan_secret | _ \<Rightarrow> False)"
    by code_simp
  then show thesis using that by (auto split: sum.splits role.splits)
qed

lemma demo_foreign:
  obtains c where "load_config (\<lambda>_. []) (Inr (JObj demo_foreign_document)) = Inr (Foreign c)" "cf_tunnel_id c = scan_tunnel"
    "cf_shared_secret c = scan_secret"
proof -
  have "(case load_config (\<lambda>_. []) (Inr (JObj demo_foreign_document)) of
      Inr (Foreign c) \<Rightarrow> cf_tunnel_id c = scan_tunnel \<and> cf_shared_secret c = scan_secret | _ \<Rightarrow> False)"
    by code_simp
  then show thesis using that by (auto split: sum.splits role.splits)
qed

lemma demo_probe_ok:
  assumes "c \<in> set demo_candidates" "1 \<le> s" "s \<le> 3"
  shows "probe_ok (scan_probe (\<lambda>_ s. 1000 + s) 3 c s)"
proof -
  have "list_all (\<lambda>c. ipv4_of_text c \<noteq> None) demo_candidates" by code_simp
  then have "ipv4_of_text c \<noteq> None" using assms(1) unfolding list_all_iff by blast
  then show ?thesis using assms(2,3) by (simp add: probe_ok_def scan_probe_def)
qed

lemma demo_best: "Min {c \<in> set demo_candidates. demo_bind_fails c = None} = ''198.51.100.8''"
proof -
  have "{c \<in> set demo_candidates. demo_bind_fails c = None} = set (filter (\<lambda>c. demo_bind_fails c = None) demo_candidates)"
    by (simp only: set_filter)
  moreover have "Min (set (filter (\<lambda>c. demo_bind_fails c = None) demo_candidates)) = ''198.51.100.8''" by code_simp
  ultimately show ?thesis by (rule arg_cong [THEN trans])
qed

lemma demo_scan_ok:
  obtains results sent where "demo_scan = (Inr results, sent)"
    "set sent = scan_log demo_hmac scan_tunnel scan_secret (\<lambda>_ s. 1000 + s) 3 {c \<in> set demo_candidates. demo_bind_fails c = None}"
proof -
  have len: "length scan_tunnel = 16" "32 \<le> length scan_secret" by (simp_all add: scan_tunnel_def scan_secret_def)
  obtain cf where cf: "load_config (\<lambda>_. []) (Inr (JObj demo_foreign_document)) = Inr (Foreign cf)" "cf_tunnel_id cf = scan_tunnel"
    "cf_shared_secret cf = scan_secret"
    by (rule demo_foreign)
  have "demo_scan = scan_candidates demo_hmac (\<lambda>_ s. 1000 + s) demo_bind_fails (\<lambda>_ _. None) scan_tunnel scan_secret 3 demo_candidates []"
    by (simp add: demo_scan_def run_scanner_def cf)
  moreover obtain results sent where r: "scan_candidates demo_hmac (\<lambda>_ s. 1000 + s) demo_bind_fails (\<lambda>_ _. None)
      scan_tunnel scan_secret 3 demo_candidates [] = (Inr results, sent)"
    using scan_candidates_succeeds [OF demo_hmac_ok len, of demo_candidates 3 "\<lambda>_ s. 1000 + s" demo_bind_fails "[]"]
      demo_probe_ok by blast
  ultimately have "demo_scan = (Inr results, sent)" by (rule trans)
  moreover from scan_candidates_ok [OF demo_hmac_ok len r] have
    "set sent = scan_log demo_hmac scan_tunnel scan_secret (\<lambda>_ s. 1000 + s) 3 {c \<in> set demo_candidates. demo_bind_fails c = None}"
    unfolding scan_log_def by auto
  ultimately show thesis by (rule that)
qed

lemma demo_network: "scan_arrives demo_hmac scan_tunnel scan_secret (\<lambda>_ s. 1000 + s) 3 (set (snd demo_scan)) scan_demo_arrivals"
proof (rule demo_scan_ok)
  fix results sent
  assume scan: "demo_scan = (Inr results, sent)"
    "set sent = scan_log demo_hmac scan_tunnel scan_secret (\<lambda>_ s. 1000 + s) 3 {c \<in> set demo_candidates. demo_bind_fails c = None}"
  have arrived: "fst (ar_peer (demo_arrival x)) = fst x" "ar_packet (demo_arrival x) = snd x" "ar_now_ns (demo_arrival x) = 2000" for x
    by (simp_all add: demo_arrival_def)
  have "set scan_demo_arrivals = demo_arrival ` set sent" by (simp add: scan_demo_arrivals_def scan(1))
  then show ?thesis
    by (auto simp: scan_arrives_def scan(1) arrived abs_le_iff intro!: exI [of _ "demo_arrival _"])
qed


lemma demo_chosen:
  obtains R where "receive_all demo_hmac scan_tunnel scan_secret scan_demo_arrivals receiver_start = Inr R"
    "choose_best (rv_stats R) = Some ''198.51.100.8''"
proof (rule demo_scan_ok)
  let ?B = "{c \<in> set demo_candidates. demo_bind_fails c = None}"
  fix results sent
  assume scan: "demo_scan = (Inr results, sent)" "set sent = scan_log demo_hmac scan_tunnel scan_secret (\<lambda>_ s. 1000 + s) 3 ?B"
  have net: "scan_arrives demo_hmac scan_tunnel scan_secret (\<lambda>_ s. 1000 + s) 3
      (scan_log demo_hmac scan_tunnel scan_secret (\<lambda>_ s. 1000 + s) 3 ?B) scan_demo_arrivals"
    using demo_network unfolding scan(1) snd_conv scan(2) .
  have len: "length scan_tunnel = 16" by (simp add: scan_tunnel_def)
  have "''198.51.100.9'' \<in> ?B" by (simp add: demo_candidates_def demo_bind_fails_def)
  then have nonempty: "?B \<noteq> {}" by blast
  have ok: "probe_ok (scan_probe (\<lambda>_ s. 1000 + s) 3 c s)" if "c \<in> ?B" "1 \<le> s" "s \<le> 3" for c s
    using demo_probe_ok that by blast
  show thesis
  proof (rule scan_chosen [OF demo_hmac_ok len ok net _ nonempty])
    show "(3 :: int) \<le> 3" by simp
  qed (simp_all add: that demo_best)
qed


section \<open>How many probes a source announced\<close>












section \<open>Properties\<close>



text \<open>
  C33. Updating the configuration is all or nothing: when the receiver ends with an error, at whatever
  step, the configuration file is the one it found; when it returns, the old file is the backup, the source
  was heard with at least three probes, and the new file loads as the old configuration with that
  source as the expected one, unless the source is the unspecified or a multicast address: then the file
  written is one that \<open>load_config\<close> refuses for just that reason.
\<close>

theorem receiver_updates_config:
  assumes "hmac_ok hmac" "load_config show_json (fs_config d) = Inr (Iran c)"
    and "run_receiver show_json hmac fails as True d = (r, d')"
  shows "case r of
      Inl e \<Rightarrow> fs_config d' = fs_config d
    | Inr best \<Rightarrow> \<exists>s ip. best = Some s \<and> ipv4_of_text s = Some ip \<and> fs_backup d' = Some (fs_config d) \<and>
        3 \<le> card (heard hmac (cf_tunnel_id c) (cf_shared_secret c) (set as) s) \<and>
        load_config show_json (fs_config d') =
          (if is_unspecified ip then Inl (ConfigError ''expected_downlink_source cannot be unspecified'')
           else if is_multicast ip then Inl (ConfigError ''expected_downlink_source cannot be multicast'')
           else Inr (Iran (c\<lparr>ir_expected_downlink_source := Some s\<rparr>)))"
proof -
  let ?t = "cf_tunnel_id c" and ?k = "cf_shared_secret c"
  have t: "length ?t = 16" using load_config_ok [OF assms(2)] by (simp add: common_ok_def)
  obtain R where R: "receive_all hmac ?t ?k as receiver_start = Inr R" "receiver_inv hmac ?t ?k (set as) R"
    by (rule receive_all_start [OF assms(1) t])
  show ?thesis
  proof (cases "choose_best (rv_stats R)")
    case None
    then show ?thesis using assms(3) by (auto simp: run_receiver_def assms(2) R)
  next
    case (Some s)
    obtain v where "(s, v) \<in> set (rv_stats R)" "3 \<le> card (cs_sequences v)"
      by (rule choose_best_Some [OF Some])
    then have h: "3 \<le> card (heard hmac ?t ?k (set as) s)"
      using R(2) stats_of_mem [of R s v] by (auto simp: receiver_inv_def)
    obtain u d2 where u: "atomic_update_iran_config show_json fails s d = (u, d2)" by (cases "atomic_update_iran_config show_json fails s d")
    from assms(3) have "d' = d2" "r = (case u of Inl e \<Rightarrow> Inl e | Inr _ \<Rightarrow> Inr (Some s))"
      by (auto simp: run_receiver_def assms(2) R Some u split: sum.splits)
    then show ?thesis using atomic_update_cases [OF assms(2) u] h unfolding with_source_def [symmetric] by auto
  qed
qed

theorem receiver_updates_config_witness:
  "\<exists>c d'. load_config (\<lambda>_. []) (fs_config demo_files) = Inr (Iran c) \<and>
     run_receiver (\<lambda>_. []) demo_hmac (\<lambda>_. None) scan_demo_arrivals True demo_files = (Inr (Some ''198.51.100.8''), d') \<and>
     fs_backup d' = Some (fs_config demo_files) \<and>
     load_config (\<lambda>_. []) (fs_config d') = Inr (Iran (c\<lparr>ir_expected_downlink_source := Some ''198.51.100.8''\<rparr>))"
proof -
  obtain c where c: "load_config (\<lambda>_. []) (fs_config demo_files) = Inr (Iran c)" "cf_tunnel_id c = scan_tunnel"
    "cf_shared_secret c = scan_secret"
    by (rule demo_iran)
  obtain R where R: "receive_all demo_hmac scan_tunnel scan_secret scan_demo_arrivals receiver_start = Inr R"
    "choose_best (rv_stats R) = Some ''198.51.100.8''"
    by (rule demo_chosen)
  have "fst (atomic_update_iran_config (\<lambda>_. []) (\<lambda>_. None) ''198.51.100.8'' demo_files) = Inr ()" by code_simp
  then obtain d' where d': "run_receiver (\<lambda>_. []) demo_hmac (\<lambda>_. None) scan_demo_arrivals True demo_files = (Inr (Some ''198.51.100.8''), d')"
    by (cases "atomic_update_iran_config (\<lambda>_. []) (\<lambda>_. None) ''198.51.100.8'' demo_files") (auto simp: run_receiver_def c R)
  have "case ipv4_of_text ''198.51.100.8'' of None \<Rightarrow> False | Some ip \<Rightarrow> \<not> is_unspecified ip \<and> \<not> is_multicast ip"
    by code_simp
  then show ?thesis using receiver_updates_config [OF demo_hmac_ok c(1) d'] c(1) d' by (auto split: option.splits)
qed

text \<open>
  C34. A scan ends with a working source: the foreign side runs the scanner over its candidates, the network
  delivers every probe sent at least once, in any order and with any repetitions, within the allowed
  clock skew, and may add datagrams that are no probes of the tunnel. Then, of three probes or more for
  each candidate, the receiver chooses the first address, in the order of texts, among the candidates
  the host could bind.
\<close>

theorem scan_finds_source:
  assumes crypto: "hmac_ok hmac"
    and iran: "load_config show_json (fs_config d) = Inr (Iran ci)"
    and foreign: "load_config show_json loaded = Inr (Foreign cf)"
    and pair: "cf_tunnel_id cf = cf_tunnel_id ci" "cf_shared_secret cf = cf_shared_secret ci"
    and scan: "run_scanner show_json hmac clock bind_fails send_fails cands loaded n delay = (Inr results, sent)"
    and enough: "3 \<le> n" "c0 \<in> set cands" "bind_fails c0 = None"
    and net: "scan_arrives hmac (cf_tunnel_id ci) (cf_shared_secret ci) clock n (set sent) as"
  shows "run_receiver show_json hmac fails as False d =
    (Inr (Some (Min {c \<in> set cands. bind_fails c = None})), d)"
proof -
  let ?t = "cf_tunnel_id ci" and ?k = "cf_shared_secret ci" and ?B = "{c \<in> set cands. bind_fails c = None}"
  have tk: "length ?t = 16" "32 \<le> length ?k" using load_config_ok [OF iran] by (simp_all add: common_ok_def)
  have log: "set sent = scan_log hmac ?t ?k clock n ?B"
    and ok: "\<And>c s. c \<in> ?B \<Longrightarrow> 1 \<le> s \<Longrightarrow> s \<le> n \<Longrightarrow> probe_ok (scan_probe clock n c s)"
    using scan scan_candidates_ok [OF crypto tk, of clock bind_fails send_fails n cands "[]" results sent]
    by (auto simp: run_scanner_def foreign pair scan_log_def split: if_splits)
  have "?B \<noteq> {}" using enough by auto
  then obtain R where "receive_all hmac ?t ?k as receiver_start = Inr R" "choose_best (rv_stats R) = Some (Min ?B)"
    using scan_chosen [OF crypto tk(1) ok net [unfolded log] enough(1)] by blast
  then show ?thesis by (simp add: run_receiver_def iran)
qed

theorem scan_finds_source_witness:
  "run_receiver (\<lambda>_. []) demo_hmac (\<lambda>_. None) scan_demo_arrivals False demo_files =
     (Inr (Some ''198.51.100.8''), demo_files)"
proof -
  obtain ci where ci: "load_config (\<lambda>_. []) (fs_config demo_files) = Inr (Iran ci)" "cf_tunnel_id ci = scan_tunnel"
    "cf_shared_secret ci = scan_secret"
    by (rule demo_iran)
  obtain cf where cf: "load_config (\<lambda>_. []) (Inr (JObj demo_foreign_document)) = Inr (Foreign cf)" "cf_tunnel_id cf = scan_tunnel"
    "cf_shared_secret cf = scan_secret"
    by (rule demo_foreign)
  obtain results sent where scan: "demo_scan = (Inr results, sent)" by (rule demo_scan_ok)
  have "run_receiver (\<lambda>_. []) demo_hmac (\<lambda>_. None) scan_demo_arrivals False demo_files =
      (Inr (Some (Min {c \<in> set demo_candidates. demo_bind_fails c = None})), demo_files)"
  proof (rule scan_finds_source [OF demo_hmac_ok ci(1) cf(1) _ _ scan [unfolded demo_scan_def]])
    show "scan_arrives demo_hmac (cf_tunnel_id ci) (cf_shared_secret ci) (\<lambda>_ s. 1000 + s) 3 (set sent) scan_demo_arrivals"
      using demo_network by (simp add: ci scan)
    show "''198.51.100.9'' \<in> set demo_candidates" "demo_bind_fails ''198.51.100.9'' = None"
      by (simp_all add: demo_candidates_def demo_bind_fails_def)
  qed (simp_all add: ci cf)
  then show ?thesis by (simp only: demo_best)
qed

end
