(* ===== verification/Lab_Link.thy ===== *)
theory Lab_Link
  imports Config "HOL-Library.List_Lexorder" "HOL-Library.Product_Lexorder" "HOL-Library.Multiset"
begin

text \<open>
  The link emulator of \<open>scripts/lab_environment.py\<close> (\<open>LinkProfile\<close>, \<open>UdpLinkEmulator\<close>): which packets it drops, repeats
  and delays, and its queue of due packets. The priority queue is an interface (\<open>min_queue\<close>) that the list
  standing for \<open>heapq\<close> fulfils. Delays are exact rationals, a turn of a thread is one step.
\<close>


section \<open>Priority queues\<close>

text \<open>
  What the emulator needs of \<open>heapq\<close>: a queue with a smallest element. The laws speak of the multiset
  of its elements; \<open>pops\<close> is what taking the smallest again and again gives.
\<close>

locale min_queue =
  fixes push :: "'a :: linorder \<Rightarrow> 'q \<Rightarrow> 'q"
    and first :: "'q \<Rightarrow> 'a option"
    and pop :: "'q \<Rightarrow> 'q"
    and items :: "'q \<Rightarrow> 'a multiset"
    and invar :: "'q \<Rightarrow> bool"
  assumes push_items: "invar q \<Longrightarrow> items (push x q) = add_mset x (items q)"
    and first_items: "invar q \<Longrightarrow> first q = (if items q = {#} then None else Some (Min_mset (items q)))"
    and pop_items: "invar q \<Longrightarrow> items q \<noteq> {#} \<Longrightarrow> items (pop q) = items q - {#Min_mset (items q)#}"
    and push_invar: "invar q \<Longrightarrow> invar (push x q)"
    and pop_invar: "invar q \<Longrightarrow> items q \<noteq> {#} \<Longrightarrow> invar (pop q)"
begin

lemma first_mem: "invar q \<Longrightarrow> first q = Some x \<Longrightarrow> x \<in># items q"
  by (auto simp: first_items split: if_splits)

lemma first_least: "invar q \<Longrightarrow> first q = Some x \<Longrightarrow> y \<in># items q \<Longrightarrow> x \<le> y"
  by (auto simp: first_items split: if_splits)

lemma first_pop: "invar q \<Longrightarrow> first q = Some x \<Longrightarrow> items q = add_mset x (items (pop q))"
  by (auto simp: first_items pop_items split: if_splits)

lemma pop_invar': "invar q \<Longrightarrow> first q = Some x \<Longrightarrow> invar (pop q)"
  by (auto simp: first_items pop_invar split: if_splits)

fun pops :: "nat \<Rightarrow> 'q \<Rightarrow> 'a list" where
  "pops 0 q = []"
| "pops (Suc n) q = (case first q of None \<Rightarrow> [] | Some x \<Rightarrow> x # pops n (pop q))"

text \<open>As many pops as there are elements give all of them, smallest first.\<close>

lemma pops_sorted: "invar q \<Longrightarrow> pops (size (items q)) q = sorted_list_of_multiset (items q)"
proof (induction "size (items q)" arbitrary: q)
  case 0
  then show ?case by simp
next
  case (Suc n)
  then have "first q \<noteq> None" by (auto simp: first_items)
  then obtain x where x: "first q = Some x" by blast
  note q = first_pop [OF Suc.prems x]
  have "pops (size (items q)) q = x # sorted_list_of_multiset (items (pop q))"
    using Suc x q pop_invar' [OF Suc.prems x] by simp
  also have "\<dots> = insort x (sorted_list_of_multiset (items (pop q)))"
    using first_least [OF Suc.prems x] q by (intro insort_is_Cons [symmetric]) auto
  also have "\<dots> = sorted_list_of_multiset (items q)" by (simp add: q)
  finally show ?case .
qed

end

text \<open>A heap as the sorted list of its elements: \<open>queue[0]\<close> is the head.\<close>

definition heappush :: "'a :: linorder \<Rightarrow> 'a list \<Rightarrow> 'a list" where
  "heappush x q = insort x q"

definition heap_first :: "'a list \<Rightarrow> 'a option" where
  "heap_first q = (case q of [] \<Rightarrow> None | x # _ \<Rightarrow> Some x)"

definition heappop :: "'a list \<Rightarrow> 'a list" where
  "heappop q = tl q"

lemma heap_simps [simp]: "heap_first [] = None" "heap_first (x # q) = Some x" "heappop (x # q) = q"
  by (simp_all add: heap_first_def heappop_def)

lemma sorted_Min_mset: "sorted (x # xs) \<Longrightarrow> Min_mset (mset (x # xs)) = x"
  by (auto intro: Min_eqI)

interpretation heap: min_queue heappush heap_first heappop mset sorted
proof
  fix q :: "'a list" and x
  assume s: "sorted q"
  show "mset (heappush x q) = add_mset x (mset q)" by (simp add: heappush_def)
  show "heap_first q = (if mset q = {#} then None else Some (Min_mset (mset q)))"
  proof (cases q)
    case (Cons y ys)
    then show ?thesis using s sorted_Min_mset [of y ys] by (simp add: heap_first_def)
  qed (simp add: heap_first_def)
  show "sorted (heappush x q)" using s by (simp add: heappush_def sorted_insort)
  show "mset (heappop q) = mset q - {#Min_mset (mset q)#}" if "mset q \<noteq> {#}"
  proof (cases q)
    case (Cons y ys)
    then show ?thesis using s sorted_Min_mset [of y ys] by (simp add: heappop_def)
  qed (use that in simp)
  show "sorted (heappop q)" if "mset q \<noteq> {#}"
    using s that by (cases q) (auto simp: heappop_def)
qed


section \<open>The profile of a link\<close>

record link_profile =
  lp_delay_ms :: rat
  lp_jitter_ms :: rat
  lp_drop_every :: int
  lp_duplicate_every :: int
  lp_reorder_every :: int
  lp_drop_indices :: "int list"

definition clean_profile :: link_profile where
  "clean_profile = \<lparr>lp_delay_ms = 0, lp_jitter_ms = 0, lp_drop_every = 0, lp_duplicate_every = 0,
     lp_reorder_every = 0, lp_drop_indices = []\<rparr>"

fun validate_every :: "(string \<times> int) list \<Rightarrow> unit result" where
  "validate_every [] = Inr ()"
| "validate_every ((name, value) # rest) =
     (if value < 0 \<or> value = 1 then Inl (ValueError (name @ '' must be zero or at least two''))
      else validate_every rest)"

definition validate :: "link_profile \<Rightarrow> unit result" where
  "validate p =
     (if lp_delay_ms p < 0 \<or> lp_jitter_ms p < 0 then Inl (ValueError ''delay and jitter cannot be negative'')
      else
        and_then (validate_every [(''drop_every'', lp_drop_every p), (''duplicate_every'', lp_duplicate_every p),
          (''reorder_every'', lp_reorder_every p)]) (\<lambda>_.
        if list_ex (\<lambda>index. index \<le> 0) (lp_drop_indices p)
          then Inl (ValueError ''drop_indices must contain positive packet indexes'')
        else Inr ()))"

text \<open>The decisions about the packet of an index.\<close>

definition drops :: "link_profile \<Rightarrow> int \<Rightarrow> bool" where
  "drops p index \<longleftrightarrow> index \<in> set (lp_drop_indices p) \<or> lp_drop_every p \<noteq> 0 \<and> index mod lp_drop_every p = 0"

definition reorders :: "link_profile \<Rightarrow> int \<Rightarrow> bool" where
  "reorders p index \<longleftrightarrow> lp_reorder_every p \<noteq> 0 \<and> index mod lp_reorder_every p = 1"

definition duplicates :: "link_profile \<Rightarrow> int \<Rightarrow> bool" where
  "duplicates p index \<longleftrightarrow> lp_duplicate_every p \<noteq> 0 \<and> index mod lp_duplicate_every p = 0"

definition delay_of :: "link_profile \<Rightarrow> int \<Rightarrow> rat" where
  "delay_of p index =
     (let jitter = (if lp_jitter_ms p \<noteq> 0 then (if index mod 2 \<noteq> 0 then lp_jitter_ms p else - lp_jitter_ms p) else 0);
          delay_ms = max 0 (lp_delay_ms p + jitter)
      in if reorders p index then delay_ms + max (max 2 (lp_jitter_ms p * 2)) (lp_delay_ms p) else delay_ms)"


section \<open>The emulator\<close>

record link_stats =
  ls_received :: int
  ls_forwarded :: int
  ls_dropped :: int
  ls_duplicated :: int
  ls_reordered :: int

record link =
  lk_profile :: link_profile
  lk_enabled :: bool
  lk_stopped :: bool
  lk_receiving :: bool
  lk_sending :: bool
  lk_queue :: "(rat \<times> int \<times> bytes) list"
  lk_queue_order :: int
  lk_packet_index :: int
  lk_stats :: link_stats

definition UdpLinkEmulator_init :: "link_profile \<Rightarrow> link result" where
  "UdpLinkEmulator_init p =
     and_then (validate p) (\<lambda>_.
     Inr \<lparr>lk_profile = p, lk_enabled = True, lk_stopped = False, lk_receiving = True, lk_sending = True,
         lk_queue = [],
          lk_queue_order = 0, lk_packet_index = 0,
          lk_stats = \<lparr>ls_received = 0, ls_forwarded = 0, ls_dropped = 0, ls_duplicated = 0, ls_reordered = 0\<rparr>\<rparr>)"

definition set_enabled :: "bool \<Rightarrow> link \<Rightarrow> link" where
  "set_enabled b l = l\<lparr>lk_enabled := b\<rparr>"

definition link_enqueue :: "bytes \<Rightarrow> rat \<Rightarrow> link \<Rightarrow> link" where
  "link_enqueue payload due l =
     (let order = lk_queue_order l + 1 in
      l\<lparr>lk_queue_order := order, lk_queue := heappush (due, order, payload) (lk_queue l)\<rparr>)"

text \<open>One turn of \<open>_receive_loop\<close> with a datagram; \<open>now\<close> is \<open>time.monotonic()\<close>.\<close>

definition receive_datagram :: "bytes \<Rightarrow> rat \<Rightarrow> link \<Rightarrow> link" where
  "receive_datagram payload now l =
     (let index = lk_packet_index l + 1; p = lk_profile l; s = lk_stats l;
          s = s\<lparr>ls_received := ls_received s + 1\<rparr>; l = l\<lparr>lk_packet_index := index, lk_stats := s\<rparr> in
      if \<not> lk_enabled l \<or> drops p index then l\<lparr>lk_stats := s\<lparr>ls_dropped := ls_dropped s + 1\<rparr>\<rparr>
      else
        let s = (if reorders p index then s\<lparr>ls_reordered := ls_reordered s + 1\<rparr> else s);
            due = now + delay_of p index / 1000;
            l = link_enqueue payload due (l\<lparr>lk_stats := s\<rparr>)
        in if duplicates p index
           then link_enqueue payload (due + 1 / 1000) (l\<lparr>lk_stats := s\<lparr>ls_duplicated := ls_duplicated s + 1\<rparr>\<rparr>)
           else l)"

text \<open>
  One turn of \<open>_send_loop\<close> at a time, with the message of the \<open>OSError\<close> that \<open>sendto\<close> raises, if it does;
  then the thread ends. The result has the payloads that were sent.
\<close>

definition send_turn :: "rat \<Rightarrow> string option \<Rightarrow> link \<Rightarrow> link \<times> bytes list" where
  "send_turn now fault l =
     (case heap_first (lk_queue l) of
        None \<Rightarrow> (l, [])
      | Some (due, order, payload) \<Rightarrow>
          if due - now > 0 then (l, [])
          else
            let l = l\<lparr>lk_queue := heappop (lk_queue l)\<rparr>; s = lk_stats l in
            case fault of
              None \<Rightarrow> (l\<lparr>lk_stats := s\<lparr>ls_forwarded := ls_forwarded s + 1\<rparr>\<rparr>, [payload])
            | Some _ \<Rightarrow> (l\<lparr>lk_sending := False\<rparr>, []))"

text \<open>
  What happens to an emulator: its two threads take turns, the lab switches and stops it. \<open>RecvFails\<close> is an
  \<open>OSError\<close> of \<open>recvfrom\<close>, which ends the receiving thread alone.
\<close>

datatype link_event =
  Datagram bytes rat | RecvFails | SendTurn rat "string option" | SetEnabled bool | StopLink

fun link_step :: "link_event \<Rightarrow> link \<Rightarrow> link \<times> bytes list" where
  "link_step (Datagram payload now) l =
     (if lk_stopped l \<or> \<not> lk_receiving l then (l, []) else (receive_datagram payload now l, []))"
| "link_step RecvFails l = (l\<lparr>lk_receiving := False\<rparr>, [])"
| "link_step (SendTurn now fault) l =
     (if lk_stopped l \<or> \<not> lk_sending l then (l, []) else send_turn now fault l)"
| "link_step (SetEnabled b) l = (set_enabled b l, [])"
| "link_step StopLink l = (l\<lparr>lk_stopped := True\<rparr>, [])"

fun link_run :: "link_event list \<Rightarrow> link \<Rightarrow> link \<times> bytes list" where
  "link_run [] l = (l, [])"
| "link_run (e # es) l =
     (case link_step e l of (l', out) \<Rightarrow> (case link_run es l' of (l'', later) \<Rightarrow> (l'', out @ later)))"


section \<open>Nothing appears and nothing disappears\<close>

text \<open>
  What the profile makes of a run: the packets that it lets pass, with the time each copy is due, in the
  order they are queued. \<open>offers\<close> reads only the profile and the events; \<open>stopped\<close> says that nothing is received any more.
\<close>

fun offers :: "link_profile \<Rightarrow> bool \<Rightarrow> bool \<Rightarrow> int \<Rightarrow> link_event list \<Rightarrow> (rat \<times> bytes) list" where
  "offers p enabled stopped n [] = []"
| "offers p enabled stopped n (Datagram payload now # es) =
     (if stopped then offers p enabled stopped n es
      else
        (if enabled \<and> \<not> drops p (n + 1)
         then (let due = now + delay_of p (n + 1) / 1000 in
               (due, payload) # (if duplicates p (n + 1) then [(due + 1 / 1000, payload)] else []))
         else []) @ offers p enabled stopped (n + 1) es)"
| "offers p enabled stopped n (RecvFails # es) = offers p enabled True n es"
| "offers p enabled stopped n (SendTurn now fault # es) = offers p enabled stopped n es"
| "offers p enabled stopped n (SetEnabled b # es) = offers p b stopped n es"
| "offers p enabled stopped n (StopLink # es) = offers p enabled True n es"

definition queued :: "link \<Rightarrow> bytes list" where
  "queued l = map (snd \<circ> snd) (lk_queue l)"


text \<open>No entry of the queue has a larger number than \<open>n\<close>.\<close>

definition numbered :: "int \<Rightarrow> (rat \<times> int \<times> bytes) list \<Rightarrow> bool" where
  "numbered n q \<longleftrightarrow> (\<forall>e \<in> set q. fst (snd e) \<le> n)"

lemma numbered_simps [simp]: "numbered n []" "numbered n (e # q) \<longleftrightarrow> fst (snd e) \<le> n \<and> numbered n q"
  by (simp_all add: numbered_def)

lemma numbered_push [simp]: "numbered n (heappush e q) \<longleftrightarrow> fst (snd e) \<le> n \<and> numbered n q"
  by (auto simp: numbered_def heappush_def set_insort_key)

lemma numbered_mono: "numbered n q \<Longrightarrow> n \<le> m \<Longrightarrow> numbered m q"
  by (auto simp: numbered_def)

text \<open>The counters agree with each other and with the queue, and a packet is queued under a new number.\<close>

definition link_inv :: "link \<Rightarrow> bool" where
  "link_inv l \<longleftrightarrow> sorted (lk_queue l) \<and> numbered (lk_queue_order l) (lk_queue l) \<and>
     (let s = lk_stats l in
      ls_received s = lk_packet_index l \<and> 0 \<le> ls_dropped s \<and> ls_dropped s \<le> ls_received s \<and>
      0 \<le> ls_forwarded s \<and> 0 \<le> ls_duplicated s \<and> ls_duplicated s \<le> ls_received s - ls_dropped s \<and>
      lk_queue_order l = ls_received s - ls_dropped s + ls_duplicated s \<and>
      int (length (lk_queue l)) + ls_forwarded s + (if lk_sending l then 0 else 1) = lk_queue_order l)"

lemma link_inv_init: "UdpLinkEmulator_init p = Inr l \<Longrightarrow> link_inv l"
  by (auto simp: UdpLinkEmulator_init_def result_simps link_inv_def)

lemma set_heappush [simp]: "set (heappush x q) = insert x (set q)" "length (heappush x q) = Suc (length q)"
  by (simp_all add: heappush_def set_insort_key)

lemma receive_datagram_cases:
  obtains (dropped) s where "\<not> lk_enabled l \<or> drops (lk_profile l) (lk_packet_index l + 1)"
      "receive_datagram payload now l = l\<lparr>lk_packet_index := lk_packet_index l + 1, lk_stats := s\<rparr>"
      "s = (lk_stats l)\<lparr>ls_received := ls_received (lk_stats l) + 1, ls_dropped := ls_dropped (lk_stats l) + 1\<rparr>"
    | (passed) s due where "lk_enabled l" "\<not> drops (lk_profile l) (lk_packet_index l + 1)"
      "due = now + delay_of (lk_profile l) (lk_packet_index l + 1) / 1000"
      "\<not> duplicates (lk_profile l) (lk_packet_index l + 1)"
      "receive_datagram payload now l =
         link_enqueue payload due (l\<lparr>lk_packet_index := lk_packet_index l + 1, lk_stats := s\<rparr>)"
      "ls_received s = ls_received (lk_stats l) + 1" "ls_dropped s = ls_dropped (lk_stats l)"
      "ls_forwarded s = ls_forwarded (lk_stats l)" "ls_duplicated s = ls_duplicated (lk_stats l)"
    | (twice) s due where "lk_enabled l" "\<not> drops (lk_profile l) (lk_packet_index l + 1)"
      "due = now + delay_of (lk_profile l) (lk_packet_index l + 1) / 1000"
      "duplicates (lk_profile l) (lk_packet_index l + 1)"
      "receive_datagram payload now l = link_enqueue payload (due + 1 / 1000)
         (link_enqueue payload due (l\<lparr>lk_packet_index := lk_packet_index l + 1, lk_stats := s\<rparr>))"
      "ls_received s = ls_received (lk_stats l) + 1" "ls_dropped s = ls_dropped (lk_stats l)"
      "ls_forwarded s = ls_forwarded (lk_stats l)" "ls_duplicated s = ls_duplicated (lk_stats l) + 1"
proof -
  let ?p = "lk_profile l" and ?n = "lk_packet_index l + 1" and ?s = "(lk_stats l)\<lparr>ls_received := ls_received (lk_stats l) + 1\<rparr>"
  let ?t = "if reorders ?p ?n then ?s\<lparr>ls_reordered := ls_reordered ?s + 1\<rparr> else ?s"
  show thesis
  proof (cases "\<not> lk_enabled l \<or> drops ?p ?n")
    case True
    show thesis by (rule dropped [OF True _ refl]) (use True in \<open>simp add: receive_datagram_def Let_def\<close>)
  next
    case False
    show thesis
    proof (cases "duplicates ?p ?n")
      case True
      show thesis
        by (rule twice [where s = "?t\<lparr>ls_duplicated := ls_duplicated ?t + 1\<rparr>", OF _ _ refl True])
          (use False True in \<open>auto simp: receive_datagram_def link_enqueue_def Let_def\<close>)
    next
      case no: False
      show thesis
        by (rule passed [where s = ?t, OF _ _ refl no])
          (use False no in \<open>auto simp: receive_datagram_def link_enqueue_def Let_def\<close>)
    qed
  qed
qed

lemma link_enqueue_fields [simp]:
  "lk_profile (link_enqueue payload due l) = lk_profile l" "lk_enabled (link_enqueue payload due l) = lk_enabled l"
  "lk_stopped (link_enqueue payload due l) = lk_stopped l" "lk_receiving (link_enqueue payload due l) = lk_receiving l" "lk_sending (link_enqueue payload due l) = lk_sending l"
  "lk_packet_index (link_enqueue payload due l) = lk_packet_index l" "lk_stats (link_enqueue payload due l) = lk_stats l"
  "lk_queue_order (link_enqueue payload due l) = lk_queue_order l + 1"
  "lk_queue (link_enqueue payload due l) = heappush (due, lk_queue_order l + 1, payload) (lk_queue l)"
  by (simp_all add: link_enqueue_def Let_def)

lemma receive_datagram_inv: "link_inv l \<Longrightarrow> link_inv (receive_datagram payload now l)"
  by (rule receive_datagram_cases [of l payload now])
    (auto simp: link_inv_def Let_def heap.push_invar elim: numbered_mono split: if_splits)

lemma send_turn_cases:
  obtains (idle) "send_turn now fault l = (l, [])"
    | (sent) due n payload where "heap_first (lk_queue l) = Some (due, n, payload)" "due \<le> now" "fault = None"
      "send_turn now fault l = (l\<lparr>lk_queue := heappop (lk_queue l),
         lk_stats := (lk_stats l)\<lparr>ls_forwarded := ls_forwarded (lk_stats l) + 1\<rparr>\<rparr>, [payload])"
    | (failed) due n payload where "heap_first (lk_queue l) = Some (due, n, payload)" "fault \<noteq> None"
      "send_turn now fault l = (l\<lparr>lk_queue := heappop (lk_queue l), lk_sending := False\<rparr>, [])"
proof (cases "heap_first (lk_queue l)")
  case None
  then show thesis by (intro idle) (simp add: send_turn_def)
next
  case (Some e)
  obtain due n payload where e: "e = (due, n, payload)" by (cases e)
  show thesis
  proof (cases "due \<le> now")
    case True
    then show thesis using sent [OF Some [unfolded e]] failed [OF Some [unfolded e]]
      by (cases fault) (simp_all add: send_turn_def Some e Let_def)
  qed (use Some e in \<open>intro idle, simp add: send_turn_def\<close>)
qed

lemma heap_firstE:
  assumes "heap_first q = Some x"
  obtains q' where "q = x # q'" "heappop q = q'"
  using assms by (cases q) (auto simp: heap_first_def heappop_def)

lemma send_turn_inv: "link_inv l \<Longrightarrow> lk_sending l \<Longrightarrow> link_inv (fst (send_turn now fault l))"
proof (rule send_turn_cases [of now fault l])
  assume inv: "link_inv l" and s: "lk_sending l"
  {
    fix due n payload
    assume "heap_first (lk_queue l) = Some (due, n, payload)"
    then obtain q where q: "lk_queue l = (due, n, payload) # q" "heappop (lk_queue l) = q" by (rule heap_firstE)
    {
      assume "send_turn now fault l = (l\<lparr>lk_queue := heappop (lk_queue l),
         lk_stats := (lk_stats l)\<lparr>ls_forwarded := ls_forwarded (lk_stats l) + 1\<rparr>\<rparr>, [payload])"
      then show ?thesis using inv s q by (auto simp: link_inv_def Let_def)
    next
      assume "send_turn now fault l = (l\<lparr>lk_queue := heappop (lk_queue l), lk_sending := False\<rparr>, [])"
      then show ?thesis using inv s q by (auto simp: link_inv_def Let_def)
    }
  }
qed simp

lemma link_step_inv: "link_inv l \<Longrightarrow> link_inv (fst (link_step e l))"
proof (cases e)
  case (Datagram payload now)
  then show "link_inv l \<Longrightarrow> ?thesis" using receive_datagram_inv by simp
next
  case (SendTurn now fault)
  then show "link_inv l \<Longrightarrow> ?thesis" using send_turn_inv by simp
qed (simp_all add: link_inv_def set_enabled_def)


text \<open>The state that \<open>offers\<close> follows, and the offers of one event.\<close>

definition offers_from :: "link \<Rightarrow> link_event list \<Rightarrow> (rat \<times> bytes) list" where
  "offers_from l es = offers (lk_profile l) (lk_enabled l) (lk_stopped l \<or> \<not> lk_receiving l) (lk_packet_index l) es"

lemma offers_from_Nil [simp]: "offers_from l [] = []"
  by (simp add: offers_from_def)

lemma send_turn_fields:
  "lk_profile (fst (send_turn now fault l)) = lk_profile l" "lk_enabled (fst (send_turn now fault l)) = lk_enabled l"
  "lk_stopped (fst (send_turn now fault l)) = lk_stopped l" "lk_receiving (fst (send_turn now fault l)) = lk_receiving l" "lk_packet_index (fst (send_turn now fault l)) = lk_packet_index l"
  by (rule send_turn_cases [of now fault l]; simp)+

lemma receive_datagram_fields:
  "lk_profile (receive_datagram payload now l) = lk_profile l" "lk_enabled (receive_datagram payload now l) = lk_enabled l"
  "lk_stopped (receive_datagram payload now l) = lk_stopped l" "lk_receiving (receive_datagram payload now l) = lk_receiving l" "lk_sending (receive_datagram payload now l) = lk_sending l"
  "lk_packet_index (receive_datagram payload now l) = lk_packet_index l + 1"
  by (rule receive_datagram_cases [of l payload now]; simp)+

lemma offers_from_Cons: "offers_from l (e # es) = offers_from l [e] @ offers_from (fst (link_step e l)) es"
  by (cases e) (auto simp: offers_from_def set_enabled_def send_turn_fields receive_datagram_fields Let_def)

lemma mset_heappush [simp]: "mset (heappush e q) = add_mset e (mset q)"
  by (simp add: heappush_def)

text \<open>One event: what is offered and what was queued is what is sent, queued and taken by a fault.\<close>

definition taken :: "link \<Rightarrow> link \<Rightarrow> nat" where
  "taken l l' = (if lk_sending l \<and> \<not> lk_sending l' then 1 else 0)"

lemma link_step_offers:
  assumes "link_inv l" "link_step e l = (l', out)"
  shows "\<exists>lost. mset (queued l) + mset (map snd (offers_from l [e])) = mset out + mset (queued l') + lost \<and>
    size lost = taken l l' \<and> (lk_sending l' \<longrightarrow> lk_sending l)"
proof (cases e)
  case (Datagram payload now)
  show ?thesis
  proof (cases "lk_stopped l \<or> \<not> lk_receiving l")
    case False
    then have r: "l' = receive_datagram payload now l" "out = []" using assms(2) Datagram by simp_all
    have "mset (queued l) + mset (map snd (offers_from l [e])) = mset out + mset (queued l') \<and>
        lk_sending l' = lk_sending l"
      by (rule receive_datagram_cases [of l payload now])
        (use False Datagram in \<open>simp_all add: r offers_from_def queued_def Let_def\<close>)
    then show ?thesis by (simp add: taken_def)
  qed (use assms Datagram in \<open>auto simp: offers_from_def taken_def\<close>)
next
  case (SendTurn now fault)
  have q: "sorted (lk_queue l)" using assms(1) by (simp add: link_inv_def)
  show ?thesis
  proof (cases "lk_stopped l \<or> \<not> lk_sending l")
    case False
    then have r: "send_turn now fault l = (l', out)" and s: "lk_sending l" using assms(2) SendTurn by auto
    have pop: "mset (queued l) = add_mset payload (mset (map (snd \<circ> snd) (heappop (lk_queue l))))"
      if "heap_first (lk_queue l) = Some (due, n, payload)" for due n payload
      by (rule heap_firstE [OF that]) (simp add: queued_def)
    show ?thesis
    proof (rule send_turn_cases [of now fault l])
      fix due n payload
      assume h: "heap_first (lk_queue l) = Some (due, n, payload)"
        and "send_turn now fault l = (l\<lparr>lk_queue := heappop (lk_queue l), lk_sending := False\<rparr>, [])"
      then have "l' = l\<lparr>lk_queue := heappop (lk_queue l), lk_sending := False\<rparr>" "out = []" using r by simp_all
      then show ?thesis
        using pop [OF h] s by (intro exI [of _ "{#payload#}"]) (simp add: SendTurn offers_from_def queued_def taken_def)
    qed (use r s pop in \<open>auto simp: SendTurn offers_from_def queued_def taken_def\<close>)
  qed (use assms SendTurn in \<open>auto simp: offers_from_def taken_def\<close>)
qed (use assms(2) in \<open>auto simp: offers_from_def queued_def set_enabled_def taken_def\<close>)

lemma link_run_offers:
  "link_inv l \<Longrightarrow> link_run es l = (l', out) \<Longrightarrow>
   link_inv l' \<and> (lk_sending l' \<longrightarrow> lk_sending l) \<and>
   (\<exists>lost. mset (queued l) + mset (map snd (offers_from l es)) = mset out + mset (queued l') + lost \<and>
      size lost = taken l l')"
proof (induction es arbitrary: l out)
  case Nil
  then show ?case by (simp add: taken_def)
next
  case (Cons e es)
  obtain l1 o1 o2 where run: "link_step e l = (l1, o1)" "link_run es l1 = (l', o2)" "out = o1 @ o2"
    using Cons.prems(2) by (auto split: prod.splits)
  have inv: "link_inv l1" using link_step_inv [OF Cons.prems(1), of e] run(1) by simp
  obtain m where m: "mset (queued l) + mset (map snd (offers_from l [e])) = mset o1 + mset (queued l1) + m"
    "size m = taken l l1" "lk_sending l1 \<longrightarrow> lk_sending l"
    using link_step_offers [OF Cons.prems(1) run(1)] by blast
  obtain k where k: "mset (queued l1) + mset (map snd (offers_from l1 es)) = mset o2 + mset (queued l') + k"
    "size k = taken l1 l'" "link_inv l'" "lk_sending l' \<longrightarrow> lk_sending l1"
    using Cons.IH [OF inv run(2)] by blast
  have "mset (queued l) + mset (map snd (offers_from l (e # es))) = mset out + mset (queued l') + (m + k)"
  proof -
    have "mset (queued l) + mset (map snd (offers_from l (e # es))) =
        (mset (queued l) + mset (map snd (offers_from l [e]))) + mset (map snd (offers_from l1 es))"
      by (subst offers_from_Cons) (simp add: run)
    also have "\<dots> = mset o1 + (mset (queued l1) + mset (map snd (offers_from l1 es))) + m" unfolding m(1) by (simp add: add.assoc add.left_commute add.commute)
    also have "\<dots> = mset out + mset (queued l') + (m + k)" unfolding k(1) run mset_append by (simp add: add.assoc add.left_commute add.commute)
    finally show ?thesis .
  qed
  moreover have "size (m + k) = taken l l'" using m(2,3) k(2,4) unfolding taken_def
    by (cases "lk_sending l"; cases "lk_sending l1"; cases "lk_sending l'") simp_all
  ultimately have "\<exists>lost. mset (queued l) + mset (map snd (offers_from l (e # es))) = mset out + mset (queued l') + lost \<and>
      size lost = taken l l'" by (intro exI [of _ "m + k"] conjI)
  then show ?case using k(3,4) m(3) by simp
qed


section \<open>Order\<close>

text \<open>
  A profile without jitter, reordering and duplicates keeps the order: it delays every packet by the same
  time, so that the sorted queue grows at its end.
\<close>

definition in_order :: "link_profile \<Rightarrow> bool" where
  "in_order p \<longleftrightarrow> lp_jitter_ms p = 0 \<and> lp_reorder_every p = 0 \<and> lp_duplicate_every p = 0"

fun arrivals_from :: "rat \<Rightarrow> link_event list \<Rightarrow> bool" where
  "arrivals_from t [] = True"
| "arrivals_from t (Datagram payload now # es) \<longleftrightarrow> t \<le> now \<and> arrivals_from now es"
| "arrivals_from t (e # es) \<longleftrightarrow> arrivals_from t es"

fun faultless :: "link_event \<Rightarrow> bool" where
  "faultless (SendTurn now (Some m)) = False"
| "faultless _ = True"

definition fifo_inv :: "rat \<Rightarrow> link \<Rightarrow> bool" where
  "fifo_inv t l \<longleftrightarrow> link_inv l \<and> lk_sending l \<and> in_order (lk_profile l) \<and>
     (\<forall>e \<in> set (lk_queue l). fst e \<le> t + max 0 (lp_delay_ms (lk_profile l)) / 1000)"

lemma delay_in_order: "in_order p \<Longrightarrow> delay_of p n = max 0 (lp_delay_ms p)"
  by (simp add: delay_of_def in_order_def reorders_def)

lemma insort_last: "\<forall>y \<in> set q. y \<le> x \<Longrightarrow> sorted q \<Longrightarrow> insort x q = q @ [x] \<or> x \<in> set q"
proof (induction q)
  case (Cons y q)
  then show ?case by (cases "x \<le> y") (auto dest: antisym)
qed simp

lemma heappush_last:
  assumes "sorted q" "\<forall>e \<in> set q. fst e \<le> due \<and> fst (snd e) < n"
  shows "heappush (due, n, payload) q = q @ [(due, n, payload)]"
proof -
  have "\<forall>e \<in> set q. e \<le> (due, n, payload)" "(due, n, payload) \<notin> set q"
    using assms(2) by (fastforce simp: less_eq_prod_def less_prod_def)+
  then show ?thesis using insort_last [of q "(due, n, payload)"] assms(1) by (auto simp: heappush_def)
qed

lemma fifo_step:
  assumes inv: "fifo_inv t l" and step: "link_step e l = (l', out)" and es: "arrivals_from t (e # es)" "faultless e"
  shows "\<exists>t'. fifo_inv t' l' \<and> arrivals_from t' es \<and> queued l @ map snd (offers_from l [e]) = out @ queued l'"
proof -
  have q: "link_inv l" "sorted (lk_queue l)" and s: "lk_sending l" and p: "in_order (lk_profile l)"
    using inv by (simp_all add: fifo_inv_def) (simp add: link_inv_def)
  have l': "link_inv l'" using link_step_inv [OF q(1), of e] step by simp
  show ?thesis
  proof (cases e)
    case (Datagram payload now)
    then have now: "t \<le> now" "arrivals_from now es" using es by simp_all
    have dues: "\<forall>e \<in> set (lk_queue l). fst e \<le> now + max 0 (lp_delay_ms (lk_profile l)) / 1000"
      using inv now(1) by (auto simp: fifo_inv_def intro: order_trans)
    have "fifo_inv now l' \<and> queued l @ map snd (offers_from l [e]) = out @ queued l'"
    proof (cases "lk_stopped l \<or> \<not> lk_receiving l")
      case True
      then show ?thesis using step Datagram s p q dues by (auto simp: fifo_inv_def offers_from_def)
    next
      case False
      then have r: "l' = receive_datagram payload now l" "out = []" using step Datagram by simp_all
      have dup: "\<not> duplicates (lk_profile l) n" for n using p by (simp add: duplicates_def in_order_def)
      have push: "heappush (now + max 0 (lp_delay_ms (lk_profile l)) / 1000, lk_queue_order l + 1, payload) (lk_queue l) =
          lk_queue l @ [(now + max 0 (lp_delay_ms (lk_profile l)) / 1000, lk_queue_order l + 1, payload)]"
        using q dues by (intro heappush_last) (auto simp: link_inv_def numbered_def)
      show ?thesis
        by (rule receive_datagram_cases [of l payload now])
          (use l' s p dup dues False Datagram push in
            \<open>auto simp: r fifo_inv_def offers_from_def queued_def delay_in_order Let_def\<close>)
    qed
    then show ?thesis using now(2) by blast
  next
    case (SendTurn now fault)
    have "fifo_inv t l' \<and> queued l @ map snd (offers_from l [e]) = out @ queued l'"
    proof (cases "lk_stopped l")
      case True
      then show ?thesis using step SendTurn inv by (simp add: offers_from_def)
    next
      case False
      then have r: "send_turn now fault l = (l', out)" using step SendTurn s by simp
      have f: "fault = None" using es(2) SendTurn by (cases fault) simp_all
      show ?thesis
      proof (rule send_turn_cases [of now fault l])
        assume "send_turn now fault l = (l, [])"
        then show ?thesis using r inv SendTurn by (simp add: offers_from_def)
      next
        fix due n payload
        assume h: "heap_first (lk_queue l) = Some (due, n, payload)" and "send_turn now fault l = (l\<lparr>lk_queue := heappop (lk_queue l),
           lk_stats := (lk_stats l)\<lparr>ls_forwarded := ls_forwarded (lk_stats l) + 1\<rparr>\<rparr>, [payload])"
        then have "l' = l\<lparr>lk_queue := heappop (lk_queue l),
           lk_stats := (lk_stats l)\<lparr>ls_forwarded := ls_forwarded (lk_stats l) + 1\<rparr>\<rparr>" "out = [payload]"
          using r by simp_all
        moreover obtain q' where "lk_queue l = (due, n, payload) # q'" "heappop (lk_queue l) = q'" by (rule heap_firstE [OF h])
        ultimately show ?thesis
          using inv l' by (simp add: fifo_inv_def SendTurn offers_from_def queued_def)
      qed (simp add: f)
    qed
    then show ?thesis using es SendTurn by auto
  next
    case (SetEnabled b)
    then have "l' = l\<lparr>lk_enabled := b\<rparr>" "out = []" using step by (simp_all add: set_enabled_def)
    then have "fifo_inv t l' \<and> queued l @ map snd (offers_from l [e]) = out @ queued l'"
      using inv l' SetEnabled by (simp add: fifo_inv_def offers_from_def queued_def)
    then show ?thesis using es(1) SetEnabled by auto
  next
    case RecvFails
    then have "l' = l\<lparr>lk_receiving := False\<rparr>" "out = []" using step by simp_all
    then have "fifo_inv t l' \<and> queued l @ map snd (offers_from l [e]) = out @ queued l'"
      using inv l' RecvFails by (simp add: fifo_inv_def offers_from_def queued_def)
    then show ?thesis using es(1) RecvFails by auto
  next
    case StopLink
    then have "l' = l\<lparr>lk_stopped := True\<rparr>" "out = []" using step by simp_all
    then have "fifo_inv t l' \<and> queued l @ map snd (offers_from l [e]) = out @ queued l'"
      using inv l' StopLink by (simp add: fifo_inv_def offers_from_def queued_def)
    then show ?thesis using es(1) StopLink by auto
  qed
qed

lemma fifo_run:
  "fifo_inv t l \<Longrightarrow> link_run es l = (l', out) \<Longrightarrow> arrivals_from t es \<Longrightarrow> list_all faultless es \<Longrightarrow>
   queued l @ map snd (offers_from l es) = out @ queued l'"
proof (induction es arbitrary: t l out)
  case (Cons e es)
  obtain l1 o1 o2 where run: "link_step e l = (l1, o1)" "link_run es l1 = (l', o2)" "out = o1 @ o2"
    using Cons.prems(2) by (auto split: prod.splits)
  obtain t' where t': "fifo_inv t' l1" "arrivals_from t' es" "queued l @ map snd (offers_from l [e]) = o1 @ queued l1"
    using fifo_step [OF Cons.prems(1) run(1) Cons.prems(3)] Cons.prems(4) by auto
  have "queued l1 @ map snd (offers_from l1 es) = o2 @ queued l'"
    using Cons.IH [OF t'(1) run(2) t'(2)] Cons.prems(4) by simp
  moreover have "map snd (offers_from l (e # es)) = map snd (offers_from l [e]) @ map snd (offers_from l1 es)"
    by (subst offers_from_Cons) (simp add: run)
  ultimately show ?case using t'(3) run(3) by (metis append.assoc)
qed simp


section \<open>Draining\<close>

text \<open>Enough turns after everything is due empty the queue, in the order of \<open>pops\<close>.\<close>

lemma drain:
  "sorted (lk_queue l) \<Longrightarrow> lk_sending l \<Longrightarrow> \<not> lk_stopped l \<Longrightarrow> \<forall>e \<in> set (lk_queue l). fst e \<le> t \<Longrightarrow>
   \<exists>l'. link_run (replicate n (SendTurn t None)) l = (l', map (snd \<circ> snd) (heap.pops n (lk_queue l))) \<and>
     lk_queue l' = drop n (lk_queue l)"
proof (induction n arbitrary: l)
  case (Suc n)
  show ?case
  proof (cases "lk_queue l")
    case Nil
    have "link_run (replicate m (SendTurn t None)) l = (l, [])" for m
      by (induction m) (use Nil in \<open>simp_all add: send_turn_def\<close>)
    from this [of "Suc n"] show ?thesis by (simp add: Nil del: replicate_Suc link_run.simps)
  next
    case (Cons e q)
    obtain due k payload where e: "e = (due, k, payload)" by (cases e)
    let ?l = "l\<lparr>lk_queue := q, lk_stats := (lk_stats l)\<lparr>ls_forwarded := ls_forwarded (lk_stats l) + 1\<rparr>\<rparr>"
    have "link_step (SendTurn t None) l = (?l, [payload])"
      using Suc.prems Cons e by (simp add: send_turn_def Let_def)
    moreover obtain l' where "link_run (replicate n (SendTurn t None)) ?l = (l', map (snd \<circ> snd) (heap.pops n q))"
      "lk_queue l' = drop n q"
      using Suc.IH [of ?l] Suc.prems Cons by auto
    ultimately show ?thesis using Cons e by (intro exI [of _ l']) simp
  qed
qed simp


lemma pops_sorted_list: "sorted q \<Longrightarrow> heap.pops (length q) q = (q :: (rat \<times> int \<times> bytes) list)"
  using heap.pops_sorted [of q] by (simp add: sorted_sort_id)

lemma drain_all:
  assumes "link_inv l" "lk_sending l" "\<not> lk_stopped l" "\<forall>e \<in> set (lk_queue l). fst e \<le> t"
  shows "\<exists>l'. link_run (replicate (length (lk_queue l)) (SendTurn t None)) l = (l', queued l) \<and> queued l' = []"
proof -
  have q: "sorted (lk_queue l)" using assms(1) by (simp add: link_inv_def)
  from drain [OF q assms(2-4), of "length (lk_queue l)"] show ?thesis
    by (auto simp: pops_sorted_list [OF q] queued_def)
qed


section \<open>Properties\<close>

lemma link_step_forwarded:
  "link_step e l = (l', out) \<Longrightarrow> ls_forwarded (lk_stats l') = ls_forwarded (lk_stats l) + int (length out)"
proof (cases e)
  case (Datagram payload now)
  moreover have "ls_forwarded (lk_stats (receive_datagram payload now l)) = ls_forwarded (lk_stats l)"
    by (rule receive_datagram_cases [of l payload now]) simp_all
  ultimately show "link_step e l = (l', out) \<Longrightarrow> ?thesis" by (auto split: if_splits)
next
  case (SendTurn now fault)
  moreover have "ls_forwarded (lk_stats (fst (send_turn now fault l))) =
      ls_forwarded (lk_stats l) + int (length (snd (send_turn now fault l)))"
    by (rule send_turn_cases [of now fault l]) simp_all
  ultimately show "link_step e l = (l', out) \<Longrightarrow> ?thesis" by (auto split: if_splits)
qed (auto simp: set_enabled_def)

lemma link_run_forwarded:
  "link_run es l = (l', out) \<Longrightarrow> ls_forwarded (lk_stats l') = ls_forwarded (lk_stats l) + int (length out)"
proof (induction es arbitrary: l out)
  case (Cons e es)
  then obtain l1 o1 o2 where "link_step e l = (l1, o1)" "link_run es l1 = (l', o2)" "out = o1 @ o2"
    by (auto split: prod.splits)
  then show ?case using Cons.IH [of l1 o2] link_step_forwarded [of e l l1 o1] by simp
qed simp

lemma link_init_fields:
  assumes "UdpLinkEmulator_init p = Inr l"
  shows "lk_profile l = p" "lk_sending l" "lk_queue l = []" "queued l = []" "ls_forwarded (lk_stats l) = 0" "link_inv l"
    "offers_from l es = offers p True False 0 es"
  using assms link_inv_init [OF assms]
  by (auto simp: UdpLinkEmulator_init_def result_simps queued_def offers_from_def)

text \<open>
  C35. The emulator neither invents nor loses packets: after any sequence of datagrams, turns of the send loop,
  failing sends, a failing receive, outages and a stop, the packets it sent, those it still holds and at most one that a
  failing send took are, as a multiset, the copies that the profile grants. The counters agree: what was
  received and not dropped, with the duplicates, is what was sent, is queued or was lost.
\<close>

theorem link_conserves_packets:
  assumes "UdpLinkEmulator_init p = Inr l0" "link_run es l0 = (l, out)"
  shows "\<exists>lost. mset (map snd (offers p True False 0 es)) = mset out + mset (queued l) + lost \<and>
    size lost = (if lk_sending l then 0 else 1) \<and> ls_forwarded (lk_stats l) = int (length out) \<and>
    ls_received (lk_stats l) - ls_dropped (lk_stats l) + ls_duplicated (lk_stats l) =
      int (length out) + int (length (queued l)) + int (size lost)"
proof -
  note init = link_init_fields [OF assms(1)]
  obtain lost where lost: "mset (map snd (offers p True False 0 es)) = mset out + mset (queued l) + lost"
    "size lost = taken l0 l" "link_inv l"
    using link_run_offers [OF init(6) assms(2)] init(4,7) by auto
  have "size lost = (if lk_sending l then 0 else 1)" using lost(2) init(2) by (simp add: taken_def)
  moreover have "ls_forwarded (lk_stats l) = int (length out)" using link_run_forwarded [OF assms(2)] init(5) by simp
  ultimately show ?thesis using lost(1,3)
    by (intro exI [of _ lost]) (auto simp: link_inv_def Let_def queued_def split: if_splits)
qed

text \<open>
  A profile without jitter, reordering and duplicates is a queue: whatever it drops or delays, the
  packets that pass leave in the order in which they came, and the next ones are waiting behind them.
\<close>

theorem plain_link_keeps_order:
  assumes "UdpLinkEmulator_init p = Inr l0" "in_order p" "arrivals_from t es" "list_all faultless es"
    and "link_run es l0 = (l, out)"
  shows "map snd (offers p True False 0 es) = out @ queued l"
proof -
  note init = link_init_fields [OF assms(1)]
  have "fifo_inv t l0" using init assms(2) by (simp add: fifo_inv_def)
  then show ?thesis using fifo_run [OF _ assms(5,3,4)] init(4,7) by simp
qed

definition demo_profile :: link_profile where
  "demo_profile = clean_profile\<lparr>lp_delay_ms := 15, lp_drop_every := 3\<rparr>"

definition demo_events :: "link_event list" where
  "demo_events = [Datagram [1] 0, Datagram [2] 0, SendTurn (1 / 100) None, Datagram [3] (1 / 10), Datagram [4] (1 / 5),
     SendTurn (1 / 5) None, SendTurn (1 / 5) None, SendTurn (1 / 5) None]"

lemma demo_link: "is_ok (UdpLinkEmulator_init demo_profile)"
  by code_simp

theorem link_conserves_packets_witness:
  "\<exists>l0 l out lost. UdpLinkEmulator_init demo_profile = Inr l0 \<and> link_run demo_events l0 = (l, out) \<and>
     mset (map snd (offers demo_profile True False 0 demo_events)) = mset out + mset (queued l) + lost"
proof (rule is_okE [OF demo_link])
  fix l0 assume l0: "UdpLinkEmulator_init demo_profile = Inr l0"
  obtain l out where "link_run demo_events l0 = (l, out)" by (cases "link_run demo_events l0")
  then show ?thesis using link_conserves_packets [OF l0] l0 by blast
qed

theorem plain_link_keeps_order_witness:
  "\<exists>l0 l. UdpLinkEmulator_init demo_profile = Inr l0 \<and> link_run demo_events l0 = (l, [[1], [2]]) \<and> queued l = [[4]]"
proof (rule is_okE [OF demo_link])
  fix l0 assume l0: "UdpLinkEmulator_init demo_profile = Inr l0"
  obtain l out where run: "link_run demo_events l0 = (l, out)" by (cases "link_run demo_events l0")
  have "in_order demo_profile" "arrivals_from 0 demo_events" "list_all faultless demo_events"
    by (simp_all add: in_order_def demo_profile_def clean_profile_def demo_events_def)
  then have "map snd (offers demo_profile True False 0 demo_events) = out @ queued l"
    using plain_link_keeps_order [OF l0 _ _ _ run] by blast
  moreover have "map snd (offers demo_profile True False 0 demo_events) = [[1], [2], [4]]" by code_simp
  moreover have "(case UdpLinkEmulator_init demo_profile of Inr l \<Rightarrow> length (snd (link_run demo_events l)) = 2 | Inl _ \<Rightarrow> False)"
    by code_simp
  then have "length out = 2" by (simp add: l0 run)
  ultimately have "out = [[1], [2]] \<and> queued l = [[4]]"
    by (simp add: append_eq_conv_conj [of out, symmetric] eq_commute [of "[[1], [2], [4]]"] append_eq_Cons_conv)
      (auto simp: append_eq_Cons_conv)
  then show ?thesis using l0 run by blast
qed

end
