(* ===== verification/Lab.thy ===== *)
theory Lab
  imports Lab_Link Agent_Properties Agent_Start
begin

text \<open>
  The lab of \<open>scripts/lab_environment.py\<close> around the links: the backend, the configurations of its agents, the
  bursts with their report, the scenarios, and a message on its way through the uplink.
\<close>


section \<open>The backend\<close>

record backend =
  be_response_size :: int
  be_alive :: bool
  be_requests :: int

definition ExpandingBackend_init :: "int \<Rightarrow> backend" where
  "ExpandingBackend_init response_size = \<lparr>be_response_size = response_size, be_alive = True, be_requests = 0\<rparr>"

text \<open>One turn of \<open>ExpandingBackend._loop\<close> with a datagram; an \<open>OSError\<close> of \<open>sendto\<close> ends the thread.\<close>

definition backend_turn :: "bytes \<Rightarrow> string option \<Rightarrow> backend \<Rightarrow> backend \<times> bytes option" where
  "backend_turn payload fault b =
     (if \<not> be_alive b then (b, None)
      else
        let b = b\<lparr>be_requests := be_requests b + 1\<rparr>;
            response = take 8 payload @ replicate (nat (max 0 (be_response_size b - 8))) 0x52 in
        case fault of None \<Rightarrow> (b, Some response) | Some _ \<Rightarrow> (b\<lparr>be_alive := False\<rparr>, None))"


section \<open>The agents of the lab\<close>

text \<open>
  \<open>AsymmetricLab.__init__\<close>: the configurations of the two agents and the links between them. The ports that
  the operating system hands out and the folder are arguments.
\<close>

record lab_ports =
  po_inner :: int
  po_bridge :: int
  po_uplink_agent :: int
  po_downlink_agent :: int
  po_uplink_relay :: int
  po_downlink_relay :: int
  po_backend :: int

definition lab_common :: "string \<Rightarrow> string \<Rightarrow> common_config" where
  "lab_common role metrics_file =
     \<lparr>cf_role = role, cf_tunnel_id = replicate 16 0x91,
      cf_shared_secret = ascii ''lab-secret'' @ replicate (32 - length ''lab-secret'') 0x21,
      cf_health_listen = (''127.0.0.1'', 0), cf_metrics_file = metrics_file, cf_keepalive_seconds = 60,
      cf_health_timeout_seconds = 120, cf_recv_buffer_bytes = 4 * 1024 * 1024, cf_fragment_payload_bytes = 1200,
      cf_fec_enabled = True, cf_reliable = True, cf_retransmit_timeout_seconds = 1 / 2, cf_max_retries = 8,
      cf_max_pending_messages = 2048, cf_reassembly_timeout_seconds = 30,
      cf_replay_checkpoint_interval_seconds = 3602879701896397 / 2 ^ 56, cf_replay_checkpoint_batch_frames = 128\<rparr>"

definition lab_iran_config :: "lab_ports \<Rightarrow> string \<Rightarrow> iran_config" where
  "lab_iran_config po folder = common_config.extend (lab_common ''iran'' (folder @ ''/iran-metrics.json''))
     \<lparr>ir_inner_listen = (''127.0.0.1'', po_inner po), ir_uplink_bind = (''127.0.0.1'', 0),
      ir_foreign_uplink = (''127.0.0.1'', po_uplink_relay po), ir_downlink_listen = (''127.0.0.1'', po_downlink_agent po),
      ir_expected_downlink_source = Some ''127.0.0.2'', ir_expected_inner_peer = None, ir_replay_state_file = None\<rparr>"

definition lab_foreign_config :: "lab_ports \<Rightarrow> string \<Rightarrow> foreign_config" where
  "lab_foreign_config po folder = common_config.extend (lab_common ''foreign'' (folder @ ''/foreign-metrics.json''))
     \<lparr>fo_uplink_listen = (''127.0.0.1'', po_uplink_agent po), fo_inner_bridge_listen = (''127.0.0.1'', po_bridge po),
      fo_inner_peer = (''127.0.0.1'', po_backend po), fo_iran_downlink = (''127.0.0.2'', po_downlink_relay po),
      fo_downlink_mode = ''udp'', fo_downlink_source = Some ''127.0.0.1'', fo_downlink_source_port = 0,
      fo_replay_state_file = None\<rparr>"

definition ports_ok :: "lab_ports \<Rightarrow> bool" where
  "ports_ok po \<longleftrightarrow> list_all (\<lambda>port. 0 < port \<and> port \<le> 65535) [po_inner po, po_bridge po, po_uplink_agent po,
     po_downlink_agent po, po_uplink_relay po, po_downlink_relay po, po_backend po]"


text \<open>With ports from the operating system both configurations are as good as loaded ones, so the agents start.\<close>

lemma loopback_ok: "unicast_text ''127.0.0.1''" "unicast_text ''127.0.0.2''"
proof -
  have "list_all (\<lambda>s. case ipv4_of_text s of None \<Rightarrow> False
      | Some ip \<Rightarrow> s = text_of_ipv4 ip \<and> \<not> is_unspecified ip \<and> \<not> is_multicast ip) [''127.0.0.1'', ''127.0.0.2'']"
    by code_simp
  then show "unicast_text ''127.0.0.1''" "unicast_text ''127.0.0.2''"
    by (auto simp: unicast_text_def split: option.splits)
qed

lemma unicast_remote_ok: "unicast_text host \<Longrightarrow> 0 < port \<Longrightarrow> port \<le> 65535 \<Longrightarrow> remote_ok (host, port)"
  using address_no_placeholder [of host _ "[]"]
  by (auto simp: unicast_text_def remote_ok_def port_ok_def reject_placeholder_Inr ipv4_of_text_def)

lemma lab_configs_ok:
  assumes "ports_ok po"
  shows "config_ok (Iran (lab_iran_config po folder))" "config_ok (Foreign (lab_foreign_config po folder))"
proof -
  note ports = assms [unfolded ports_ok_def list_all_iff]
  have common: "common_ok (lab_common role metrics_file)" for role metrics_file
    by (simp add: common_ok_def lab_common_def port_ok_def ascii_def)
  have iran: "common_ok (lab_iran_config po folder)"
    using common [of "''iran''" "folder @ ''/iran-metrics.json''"]
    by (simp add: common_ok_def lab_iran_config_def common_config.defs)
  have foreign: "common_ok (lab_foreign_config po folder)"
    using common [of "''foreign''" "folder @ ''/foreign-metrics.json''"]
    by (simp add: common_ok_def lab_foreign_config_def common_config.defs)
  show "config_ok (Iran (lab_iran_config po folder))"
    using ports iran loopback_ok unicast_remote_ok
    by (simp add: lab_iran_config_def port_ok_def common_config.defs lab_common_def)
  show "config_ok (Foreign (lab_foreign_config po folder))"
    using ports foreign loopback_ok unicast_remote_ok
    by (simp add: lab_foreign_config_def port_ok_def common_config.defs lab_common_def)
qed

lemma lab_agents_start:
  assumes "ports_ok po" "length token = 8" "\<And>host. is_ok (resolve host)"
  shows "is_ok (agent_init X (Iran (lab_iran_config po folder)) ck resolve None token sequence message_id)"
    "is_ok (agent_init X (Foreign (lab_foreign_config po folder)) ck resolve None token sequence message_id)"
  using agent_init_total [OF lab_configs_ok(1) [OF assms(1)] _ assms(2,3)]
    agent_init_total [OF lab_configs_ok(2) [OF assms(1)] _ assms(2,3)]
  by (simp_all add: replay_file_readable_def)


section \<open>A burst\<close>

text \<open>
  \<open>run_burst\<close>: the requests it sends, and what the receiving thread makes of the datagrams that come back.
  \<open>round_to\<close> is \<open>round(x, 2)\<close> on a float; the counters of the agents in the report are those of their
  metrics.
\<close>

definition burst_request :: "int \<Rightarrow> int \<Rightarrow> bytes result" where
  "burst_request request_size sequence =
     and_then (struct_pack [FUInt 8] [VInt sequence]) (\<lambda>bs. Inr (bs @ replicate (nat (request_size - 8)) 0x51))"

record lab =
  lb_started :: bool
  lb_next_request_id :: int

record burst =
  br_count :: int
  br_sent_at :: "(int, rat) dict"
  br_received :: "int set"
  br_latencies :: "rat list"

definition burst_start :: "int \<Rightarrow> int \<Rightarrow> lab \<Rightarrow> (burst \<times> int list \<times> lab) result" where
  "burst_start number request_size L =
     (if \<not> lb_started L then Inl (RuntimeError ''lab is not started'')
      else if request_size < 8 then Inl (ValueError ''request_size must be at least 8 bytes'')
      else
        let first = lb_next_request_id L in
        Inr (\<lparr>br_count = number, br_sent_at = [], br_received = {}, br_latencies = []\<rparr>,
             map (\<lambda>i. first + int i) [0..<nat number], L\<lparr>lb_next_request_id := first + number\<rparr>))"

definition burst_send :: "int \<Rightarrow> rat \<Rightarrow> int \<Rightarrow> burst \<Rightarrow> (bytes \<times> burst) result" where
  "burst_send request_size now sequence b =
     and_then (burst_request request_size sequence) (\<lambda>payload.
     Inr (payload, b\<lparr>br_sent_at := dict_put sequence now (br_sent_at b)\<rparr>))"

definition burst_receive :: "bytes \<Rightarrow> rat \<Rightarrow> burst \<Rightarrow> burst" where
  "burst_receive payload now b =
     (if br_count b \<le> int (card (br_received b)) \<or> length payload < 8 then b
      else
        let sequence = as_int (unpack_fields [FUInt 8] (take 8 payload) ! 0) in
        case dict_get (br_sent_at b) sequence of
          None \<Rightarrow> b
        | Some t \<Rightarrow>
            if sequence \<in> br_received b then b
            else b\<lparr>br_received := insert sequence (br_received b), br_latencies := br_latencies b @ [(now - t) * 1000]\<rparr>)"

text \<open>The sending and the receiving thread, as they happen to interleave.\<close>

datatype burst_event = Request int rat | Response bytes rat

fun burst_step :: "int \<Rightarrow> burst_event \<Rightarrow> burst \<Rightarrow> burst result" where
  "burst_step request_size (Request sequence now) b =
     and_then (burst_send request_size now sequence b) (\<lambda>(payload, b'). Inr b')"
| "burst_step request_size (Response payload now) b = Inr (burst_receive payload now b)"

fun burst_run :: "int \<Rightarrow> burst_event list \<Rightarrow> burst \<Rightarrow> burst result" where
  "burst_run request_size [] b = Inr b"
| "burst_run request_size (e # es) b = and_then (burst_step request_size e b) (burst_run request_size es)"

record burst_report =
  rp_sent :: int
  rp_received :: int
  rp_loss_percent :: rat
  rp_latency_min :: "rat option"
  rp_latency_avg :: "rat option"
  rp_latency_max :: "rat option"

definition burst_summary :: "(rat \<Rightarrow> rat) \<Rightarrow> burst \<Rightarrow> burst_report" where
  "burst_summary round_to b =
     (let number = br_count b; received = int (card (br_received b)); latencies = br_latencies b in
      \<lparr>rp_sent = number, rp_received = received,
       rp_loss_percent = (if number \<noteq> 0 then round_to (of_int ((number - received) * 100) / of_int number) else 0),
       rp_latency_min = (if latencies \<noteq> [] then Some (round_to (Min (set latencies))) else None),
       rp_latency_avg = (if latencies \<noteq> [] then Some (round_to (sum_list latencies / of_nat (length latencies))) else None),
       rp_latency_max = (if latencies \<noteq> [] then Some (round_to (Max (set latencies))) else None)\<rparr>)"


section \<open>The scenarios\<close>

text \<open>\<open>run_profile\<close>: the links of each scenario and its bursts, with the downlink switched off in the first of an outage.\<close>

record burst_spec =
  bs_count :: int
  bs_request_size :: int
  bs_timeout_seconds :: rat
  bs_downlink_enabled :: bool

record scenario =
  sc_uplink :: link_profile
  sc_downlink :: link_profile
  sc_response_size :: int
  sc_bursts :: "burst_spec list"

definition delayed :: "rat \<Rightarrow> link_profile" where
  "delayed ms = clean_profile\<lparr>lp_delay_ms := ms\<rparr>"

definition one_burst :: "int \<Rightarrow> burst_spec" where
  "one_burst number = \<lparr>bs_count = number, bs_request_size = 64, bs_timeout_seconds = 8, bs_downlink_enabled = True\<rparr>"

definition run_profile :: "string \<Rightarrow> scenario result" where
  "run_profile name =
     (if name = ''clean'' then Inr \<lparr>sc_uplink = delayed 5, sc_downlink = delayed 10, sc_response_size = 1024,
        sc_bursts = [one_burst 100]\<rparr>
      else if name = ''impaired'' then Inr
        \<lparr>sc_uplink = (delayed 15)\<lparr>lp_jitter_ms := 5, lp_drop_every := 10, lp_reorder_every := 7\<rparr>,
         sc_downlink = (delayed 25)\<lparr>lp_jitter_ms := 10, lp_drop_every := 20, lp_duplicate_every := 13, lp_reorder_every := 9\<rparr>,
         sc_response_size = 1024, sc_bursts = [one_burst 200]\<rparr>
      else if name = ''outage'' then Inr \<lparr>sc_uplink = delayed 5, sc_downlink = delayed 10, sc_response_size = 1024,
        sc_bursts = [\<lparr>bs_count = 10, bs_request_size = 64, bs_timeout_seconds = 1 / 2, bs_downlink_enabled = False\<rparr>,
          \<lparr>bs_count = 30, bs_request_size = 64, bs_timeout_seconds = 3, bs_downlink_enabled = True\<rparr>]\<rparr>
      else if name = ''stress'' then Inr \<lparr>sc_uplink = clean_profile, sc_downlink = clean_profile,
        sc_response_size = 1200, sc_bursts = [one_burst 1000]\<rparr>
      else if name = ''fec'' then Inr \<lparr>sc_uplink = clean_profile\<lparr>lp_drop_indices := [3]\<rparr>, sc_downlink = clean_profile,
        sc_response_size = 5000,
        sc_bursts = [\<lparr>bs_count = 1, bs_request_size = 5000, bs_timeout_seconds = 3, bs_downlink_enabled = True\<rparr>]\<rparr>
      else if name = ''boundary'' then Inr \<lparr>sc_uplink = clean_profile, sc_downlink = clean_profile,
        sc_response_size = 60000,
        sc_bursts = [\<lparr>bs_count = 5, bs_request_size = 60000, bs_timeout_seconds = 5, bs_downlink_enabled = True\<rparr>,
          \<lparr>bs_count = 1, bs_request_size = 60001, bs_timeout_seconds = 1 / 2, bs_downlink_enabled = True\<rparr>]\<rparr>
      else Inl (ValueError (''unknown profile: '' @ name)))"

definition profile_names :: "string list" where
  "profile_names = [''clean'', ''impaired'', ''outage'', ''stress'', ''fec'', ''boundary'']"

lemma scenarios_valid:
  assumes "run_profile name = Inr s"
  shows "name \<in> set profile_names" "validate (sc_uplink s) = Inr ()" "validate (sc_downlink s) = Inr ()"
proof -
  show name: "name \<in> set profile_names"
  proof (rule ccontr)
    assume "name \<notin> set profile_names"
    then have "run_profile name = Inl (ValueError (''unknown profile: '' @ name))"
      by (simp add: run_profile_def profile_names_def)
    then show False using assms by simp
  qed
  have "list_all (\<lambda>name. case run_profile name of Inl _ \<Rightarrow> False
      | Inr s \<Rightarrow> validate (sc_uplink s) = Inr () \<and> validate (sc_downlink s) = Inr ()) profile_names"
    by code_simp
  then show "validate (sc_uplink s) = Inr ()" "validate (sc_downlink s) = Inr ()"
    using name assms unfolding list_all_iff by fastforce+
qed


section \<open>The answers of the backend\<close>

lemma unpack_sequence:
  assumes "struct_pack [FUInt 8] [VInt s] = Inr bs"
  shows "as_int (unpack_fields [FUInt 8] (take 8 (bs @ rest)) ! 0) = s" "length bs = 8"
proof -
  show len: "length bs = 8" using struct_pack_length [OF assms] by (simp add: calcsize_def)
  have "list_all2 fits [FUInt 8] [VInt s]" using assms by (auto split: if_splits)
  from unpack_struct_pack [OF this assms, of "[]"] show "as_int (unpack_fields [FUInt 8] (take 8 (bs @ rest)) ! 0) = s"
    using len by simp
qed

text \<open>A response has the sequence number of its request.\<close>

lemma backend_answers:
  assumes "burst_request rs s = Inr request" "backend_turn request None b = (b', Some response)"
  shows "8 \<le> length response" "as_int (unpack_fields [FUInt 8] (take 8 response) ! 0) = s"
proof -
  obtain bs where bs: "struct_pack [FUInt 8] [VInt s] = Inr bs" "request = bs @ replicate (nat (rs - 8)) 0x51"
    using assms(1) by (auto simp: burst_request_def result_simps)
  note u = unpack_sequence [OF bs(1)]
  obtain r where r: "response = bs @ r" using assms(2) u(2) by (auto simp: backend_turn_def Let_def bs(2) split: if_splits)
  show "8 \<le> length response" "as_int (unpack_fields [FUInt 8] (take 8 response) ! 0) = s" using u r by simp_all
qed

text \<open>The report counts requests that were answered, each once.\<close>

definition burst_inv :: "burst \<Rightarrow> bool" where
  "burst_inv b \<longleftrightarrow> finite (br_received b) \<and> br_received b \<subseteq> dom (dict_get (br_sent_at b)) \<and>
     length (br_latencies b) = card (br_received b) \<and> (0 \<le> br_count b \<longrightarrow> int (card (br_received b)) \<le> br_count b)"

lemma burst_receive_inv: "burst_inv b \<Longrightarrow> burst_inv (burst_receive payload now b)"
  by (auto simp: burst_inv_def burst_receive_def Let_def split: option.splits)

lemma burst_step_inv: "burst_inv b \<Longrightarrow> burst_step rs e b = Inr b' \<Longrightarrow> burst_inv b' \<and> br_count b' = br_count b"
proof (cases e)
  case (Request s t)
  then show "burst_inv b \<Longrightarrow> burst_step rs e b = Inr b' \<Longrightarrow> ?thesis"
    by (auto simp: burst_send_def result_simps burst_inv_def dict_simps subset_iff)
next
  case (Response payload t)
  then show "burst_inv b \<Longrightarrow> burst_step rs e b = Inr b' \<Longrightarrow> ?thesis"
    using burst_receive_inv by (auto simp: burst_receive_def Let_def split: option.splits)
qed

lemma burst_run_inv: "burst_inv b \<Longrightarrow> burst_run rs es b = Inr b' \<Longrightarrow> burst_inv b' \<and> br_count b' = br_count b"
  using burst_step_inv by (induction es arbitrary: b) (fastforce simp: result_simps)+



section \<open>A message through the uplink\<close>

text \<open>The payloads that arrive at a link, and the runs in which nobody switches or stops it and receiving does not fail.\<close>

fun datagrams :: "link_event list \<Rightarrow> bytes list" where
  "datagrams [] = []"
| "datagrams (Datagram payload now # es) = payload # datagrams es"
| "datagrams (e # es) = datagrams es"

fun steady :: "link_event \<Rightarrow> bool" where
  "steady (SetEnabled b) = False"
| "steady StopLink = False"
| "steady RecvFails = False"
| "steady e = True"

lemma steady_offers:
  "list_all steady es \<Longrightarrow>
   set (map snd (offers p True False n es)) = {datagrams es ! i | i. i < length (datagrams es) \<and> \<not> drops p (n + 1 + int i)}"
proof (induction es arbitrary: n)
  case (Cons e es)
  show ?case
  proof (cases e)
    case (Datagram payload now)
    let ?ds = "datagrams es"
    have split: "{(payload # ?ds) ! i | i. i < Suc (length ?ds) \<and> \<not> drops p (n + 1 + int i)} =
        (if drops p (n + 1) then {} else {payload}) \<union> {?ds ! i | i. i < length ?ds \<and> \<not> drops p (n + 1 + 1 + int i)}"
    proof (intro set_eqI iffI)
      fix x assume "x \<in> {(payload # ?ds) ! i | i. i < Suc (length ?ds) \<and> \<not> drops p (n + 1 + int i)}"
      then obtain i where i: "x = (payload # ?ds) ! i" "i < Suc (length ?ds)" "\<not> drops p (n + 1 + int i)" by blast
      then show "x \<in> (if drops p (n + 1) then {} else {payload}) \<union> {?ds ! i | i. i < length ?ds \<and> \<not> drops p (n + 1 + 1 + int i)}"
        by (cases i) (auto simp: add.assoc)
    next
      fix x assume "x \<in> (if drops p (n + 1) then {} else {payload}) \<union> {?ds ! i | i. i < length ?ds \<and> \<not> drops p (n + 1 + 1 + int i)}"
      then consider "x = payload" "\<not> drops p (n + 1)" | i where "x = ?ds ! i" "i < length ?ds" "\<not> drops p (n + 1 + 1 + int i)"
        by (auto split: if_splits)
      then show "x \<in> {(payload # ?ds) ! i | i. i < Suc (length ?ds) \<and> \<not> drops p (n + 1 + int i)}"
      proof cases
        case 1
        then show ?thesis by (intro CollectI exI [of _ 0]) simp
      next
        case (2 i)
        then show ?thesis by (intro CollectI exI [of _ "Suc i"]) (simp add: add.assoc)
      qed
    qed
    show ?thesis
      using Cons.IH [of "n + 1"] Cons.prems Datagram split
      by (cases "drops p (n + 1)"; cases "duplicates p (n + 1)") (simp_all add: Let_def)
  qed (use Cons in simp_all)
qed simp

text \<open>How many of the first packets a profile drops.\<close>

definition losses :: "link_profile \<Rightarrow> nat \<Rightarrow> nat" where
  "losses p n = length (filter (drops p) (map int [1..<n + 1]))"

lemma losses_card: "losses p n = card {i. i < n \<and> drops p (1 + int i)}"
proof -
  have "losses p n = card {i. i < n \<and> drops p (int ([1..<n + 1] ! i))}"
    unfolding losses_def length_filter_conv_card by (intro arg_cong [where f = card]) (auto simp del: upt_Suc)
  also have "{i. i < n \<and> drops p (int ([1..<n + 1] ! i))} = {i. i < n \<and> drops p (1 + int i)}"
    by (auto simp del: upt_Suc)
  finally show ?thesis .
qed

lemma link_passes:
  assumes "UdpLinkEmulator_init p = Inr l0" "link_run es l0 = (l, out)" "lk_sending l" "queued l = []" "list_all steady es"
    and "distinct (datagrams es)"
  shows "set out \<subseteq> set (datagrams es)" "length (datagrams es) \<le> card (set (datagrams es) \<inter> set out) + losses p (length (datagrams es))"
proof -
  note init = link_init_fields [OF assms(1)]
  let ?ps = "datagrams es"
  have "mset (map snd (offers p True False 0 es)) = mset out"
    using link_run_offers [OF init(6) assms(2)] init assms(3,4) by (auto simp: taken_def)
  then have "set out = set (map snd (offers p True False 0 es))" by (metis set_mset_mset)
  then have out: "set out = {?ps ! i | i. i < length ?ps \<and> \<not> drops p (1 + int i)}"
    unfolding steady_offers [OF assms(5)] by simp
  then show "set out \<subseteq> set ?ps" by auto
  have "set ?ps \<inter> set out = (!) ?ps ` ({..<length ?ps} - {i. i < length ?ps \<and> drops p (1 + int i)})"
    unfolding out by auto
  moreover have "inj_on ((!) ?ps) ({..<length ?ps} - {i. i < length ?ps \<and> drops p (1 + int i)})"
    using assms(6) by (intro inj_on_nth) auto
  ultimately have "card (set ?ps \<inter> set out) = card ({..<length ?ps} - {i. i < length ?ps \<and> drops p (1 + int i)})"
    by (simp add: card_image)
  also have "\<dots> = length ?ps - losses p (length ?ps)"
    unfolding losses_card by (subst card_Diff_subset) auto
  finally show "length ?ps \<le> card (set ?ps \<inter> set out) + losses p (length ?ps)" by simp
qed


text \<open>The packets of a message are different, since each seals another frame.\<close>

lemma distinct_message_packets:
  assumes X: "aead_ok X" and S: "is_data_kind kind" "can_send ck A"
    and fs: "fragment_message p s fec = Inr fs"
  shows "distinct (message_packets X ck kind fs A)" "length (message_packets X ck kind fs A) = length fs"
proof -
  let ?c = "ag_codec A"
  let ?F = "data_frames ?c (wall_ms ck) kind (ag_message_id A + 1) (ag_sequence A) fs"
  have len: "length (data_frames c t k m q xs) = length xs" for c t k m q xs
    by (induction xs arbitrary: q) simp_all
  have nth: "i < length xs \<Longrightarrow> fr_sequence (data_frames c t k m q xs ! i) = q + 1 + int i" for c t k m q i and xs :: "fragment_spec list"
    by (induction xs arbitrary: q i) (auto simp: nth_Cons split: nat.splits)
  have "distinct ?F" by (auto simp: distinct_conv_nth len dest: arg_cong [of _ _ fr_sequence] simp: nth)
  moreover have "inj_on (seal X (cd_key ?c)) (set ?F)"
  proof (rule inj_onI)
    fix f g assume fg: "f \<in> set ?F" "g \<in> set ?F" "seal X (cd_key ?c) f = seal X (cd_key ?c) g"
    have "0 \<le> cd_max_clock_skew_ms ?c" using S(2) by (simp add: can_send_def codec_ok_def)
    moreover have "fr_tunnel_id h = cd_tunnel_id ?c" "fr_timestamp_ms h = wall_ms ck" if "h \<in> set ?F" for h
      using that by (auto simp: set_data_frames)
    ultimately have "decode X ?c (seal X (cd_key ?c) h) (wall_ms ck) = Inr h" if "h \<in> set ?F" for h
      using message_frames_ok [OF fs S that] that opens_seal [OF X] by (simp add: decode_iff fresh_def)
    then show "f = g" using fg by (metis sum.inject(2))
  qed
  ultimately show "distinct (message_packets X ck kind fs A)" by (simp add: message_packets_def distinct_map)
  show "length (message_packets X ck kind fs A) = length fs" by (simp add: message_packets_def len)
qed

text \<open>
  C36. Forward error correction does its work across the lab's uplink: the Iran agent's packets of a message go
  through an emulator with any valid profile, jitter, reordering and duplicates included, that drops at
  most one of them, and none when the message has no parity fragment. When the emulator has sent
  everything it held, the foreign agent hands to its inner peer exactly the message, once, without a
  retransmission. The conditions on the agents are those of delivery over an arbitrary network.
\<close>

theorem lab_uplink_recovers_loss:
  assumes "aead_ok X" "can_send cks S"
    and "fragment_message p (cf_fragment_payload_bytes cfg) (cf_fec_enabled cfg) = Inr fs"
    and "build_data_packets X cks cfg DATA_UP p S = (Inr (mid, packets), S')"
    and "agent_ok A" "ag_inner_peer A = Some inner" "ag_faults A = []"
      "cd_key (ag_codec A) = cd_key (ag_codec S)" "cd_tunnel_id (ag_codec A) = cd_tunnel_id (ag_codec S)"
      "0 \<le> ag_sequence A" "ag_sequence A + int (length ds) < 2 ^ 64"
    and "\<forall>q. ag_sequence S < q \<and> q \<le> ag_sequence S + 256 \<longrightarrow>
        \<not> replay_blocked (ag_replay A) (cd_session_id (ag_codec S), q)" "256 \<le> replay_size (ag_replay A)"
    and "dict_get (ra_assemblies (ag_reassembler A)) (cd_session_id (ag_codec S), mid) = None"
      "dict_get (ra_completed (ag_reassembler A)) (cd_session_id (ag_codec S), mid) = None"
    and "int (card (insert (cd_session_id (ag_codec S), mid) (fst ` set (ra_assemblies (ag_reassembler A)) \<union>
        fst ` set (ra_completed (ag_reassembler A))))) \<le> ra_max_messages (ag_reassembler A)"
    and "t1 - t0 \<le> ra_timeout_seconds (ag_reassembler A)" "t1 - t0 \<le> ra_completed_ttl_seconds (ag_reassembler A)"
    and link: "UdpLinkEmulator_init lp = Inr l0" "link_run es l0 = (l, out)" "lk_sending l" "queued l = []"
      "list_all steady es" "datagrams es = packets"
    and spare: "losses lp (length packets) \<le>
      (if has_parity (nat (cf_fragment_payload_bytes cfg)) p (cf_fec_enabled cfg) then 1 else 0)"
    and arrive: "map (\<lambda>(ck, packet, a). packet) ds = out"
    and clocks: "\<forall>(ck, packet, a) \<in> set ds. t0 \<le> ck_mono ck \<and> ck_mono ck \<le> t1 \<and>
      0 \<le> wall_ms ck \<and> wall_ms ck < 2 ^ 64 \<and> \<bar>wall_ms ck - wall_ms cks\<bar> \<le> cd_max_clock_skew_ms (ag_codec A)"
  shows "\<exists>B new. serve (\<lambda>ck. foreign_uplink X ck fcfg) ds A = (Inr (), B) \<and> ag_sent B = ag_sent A @ new \<and>
    to_inner new = [(InnerSock, p, inner)]"
proof -
  have data: "is_data_kind DATA_UP" by (simp add: is_data_kind_def)
  have sent: "mid = ag_message_id S + 1" "packets = message_packets X cks DATA_UP fs S"
    using assms(4) build_data_packets_ok [OF assms(3) data assms(2), of X] by simp_all
  note packets = distinct_message_packets [OF assms(1) data assms(2,3), folded sent(2)]
  have pass: "set out \<subseteq> set packets" "length packets \<le> card (set packets \<inter> set out) + losses lp (length packets)"
    using link_passes [OF link(1-5)] packets(1) link(6) by simp_all
  have out: "(fst \<circ> snd) ` set ds = set out"
    unfolding arrive [symmetric] set_map by (intro image_cong) auto
  have "length packets = fragment_count (nat (cf_fragment_payload_bytes cfg)) p +
      (if has_parity (nat (cf_fragment_payload_bytes cfg)) p (cf_fec_enabled cfg) then 1 else 0)"
    using packets(2) assms(3) by (simp add: fragment_message_iff)
  then have enough: "fragment_count (nat (cf_fragment_payload_bytes cfg)) p \<le> card (set packets \<inter> (fst \<circ> snd) ` set ds)"
    using pass(2) spare unfolding out by linarith
  have "packet \<in> set packets" if "(ck, packet, a) \<in> set ds" for ck packet a
    using that out pass(1) by force
  then have "\<forall>(ck, packet, a) \<in> set ds. t0 \<le> ck_mono ck \<and> ck_mono ck \<le> t1 \<and>
      0 \<le> wall_ms ck \<and> wall_ms ck < 2 ^ 64 \<and> \<bar>wall_ms ck - wall_ms cks\<bar> \<le> cd_max_clock_skew_ms (ag_codec A) \<and>
      (packet \<in> set packets \<or> (\<forall>f. decode X (ag_codec A) packet (wall_ms ck) \<noteq> Inr f))"
    using clocks by fastforce
  then show ?thesis
    using foreign_receiver.delivers_message [OF assms(1,2) data assms(3,5-13) refl _ _ _ assms(17,18)]
      assms(14-16) enough
    by (simp add: foreign_admits_def flip: sent)
qed


text \<open>A message of two fragments, of which the first is lost on the way.\<close>

definition lossy_profile :: link_profile where
  "lossy_profile = clean_profile\<lparr>lp_drop_indices := [1]\<rparr>"

definition lossy_message :: bytes where "lossy_message = replicate 300 7"

lemma lossy_fragments:
  "fragment_message lossy_message 256 True =
     Inr [data_spec 256 lossy_message 0, data_spec 256 lossy_message 1, parity_spec 256 lossy_message]"
  "fragment_count 256 lossy_message = 2" "has_parity 256 lossy_message True"
proof -
  show n: "fragment_count 256 lossy_message = 2" by (simp add: fragment_count_def lossy_message_def)
  then show "has_parity 256 lossy_message True" by (simp add: has_parity_def)
  then show "fragment_message lossy_message 256 True =
     Inr [data_spec 256 lossy_message 0, data_spec 256 lossy_message 1, parity_spec 256 lossy_message]"
    using n by (simp add: fragment_message_iff upt_rec lossy_message_def)
qed

lemma lossy_decisions: "drops lossy_profile n \<longleftrightarrow> n = 1" "\<not> reorders lossy_profile n" "\<not> duplicates lossy_profile n" "delay_of lossy_profile n = 0"
  by (simp_all add: lossy_profile_def clean_profile_def drops_def reorders_def duplicates_def delay_of_def)

lemma lossy_run:
  assumes "UdpLinkEmulator_init lossy_profile = Inr l0"
  shows "\<exists>l. link_run [Datagram a 0, Datagram b 0, Datagram c 0, SendTurn 1 None, SendTurn 1 None] l0 = (l, [b, c]) \<and>
    lk_sending l \<and> queued l = []"
proof -
  have l0: "lk_profile l0 = lossy_profile" "lk_enabled l0" "\<not> lk_stopped l0" "lk_receiving l0" "lk_sending l0" "lk_queue l0 = []" "lk_queue_order l0 = 0"
    "lk_packet_index l0 = 0"
    using assms by (auto simp: UdpLinkEmulator_init_def result_simps)
  show ?thesis
    by (simp add: l0 lossy_decisions receive_datagram_def link_enqueue_def send_turn_def Let_def queued_def heappush_def less_eq_prod_def)
qed

theorem lab_uplink_recovers_loss_witness:
  "\<exists>b c B new. serve (\<lambda>ck. foreign_uplink demo_crypto ck (demo_foreign_config True))
      [(demo_clock 102, b, (''x'', 9)), (demo_clock 103, c, (''x'', 9))] demo_foreign = (Inr (), B) \<and>
    ag_sent B = ag_sent demo_foreign @ new \<and> to_inner new = [(InnerSock, lossy_message, (''127.0.0.1'', 5))]"
proof -
  have cfg: "nat (cf_fragment_payload_bytes (demo_iran_config True)) = 256" "cf_fragment_payload_bytes (demo_iran_config True) = 256"
    "cf_fec_enabled (demo_iran_config True)"
    by (simp_all add: demo_defs common_config.defs)
  let ?fs = "[data_spec 256 lossy_message 0, data_spec 256 lossy_message 1, parity_spec 256 lossy_message]"
  have fs: "fragment_message lossy_message (cf_fragment_payload_bytes (demo_iran_config True)) (cf_fec_enabled (demo_iran_config True)) = Inr ?fs"
    using lossy_fragments(1) cfg by simp
  have data: "is_data_kind DATA_UP" by (simp add: is_data_kind_def)
  let ?packets = "message_packets demo_crypto (demo_clock 100) DATA_UP ?fs demo_iran"
  have build: "build_data_packets demo_crypto (demo_clock 100) (demo_iran_config True) DATA_UP lossy_message demo_iran =
      (Inr (8, ?packets), snd (build_data_packets demo_crypto (demo_clock 100) (demo_iran_config True) DATA_UP lossy_message demo_iran))"
    using build_data_packets_ok [OF fs data demo_can_send(1), of demo_crypto] by simp (simp add: demo_defs)
  obtain a b c where abc: "?packets = [a, b, c]"
    using distinct_message_packets(2) [OF demo_aead_ok data demo_can_send(1) fs] by (auto simp: length_Suc_conv)
  obtain l0 where l0: "UdpLinkEmulator_init lossy_profile = Inr l0"
    by (simp add: UdpLinkEmulator_init_def validate_def lossy_profile_def clean_profile_def)
  obtain l where l: "link_run [Datagram a 0, Datagram b 0, Datagram c 0, SendTurn 1 None, SendTurn 1 None] l0 = (l, [b, c])"
    "lk_sending l" "queued l = []"
    using lossy_run [OF l0] by blast
  let ?ds = "[(demo_clock 102, b, (''x'', 9)), (demo_clock 103, c, (''x'', 9))] :: (clock \<times> bytes \<times> address) list"
  have spare: "losses lossy_profile (length [a, b, c]) \<le>
      (if has_parity (nat (cf_fragment_payload_bytes (demo_iran_config True))) lossy_message (cf_fec_enabled (demo_iran_config True)) then 1 else 0)"
    using lossy_fragments(3) cfg
    by (simp add: losses_def drops_def lossy_profile_def clean_profile_def upt_rec)
  have clocks: "\<forall>(ck, packet, a) \<in> set ?ds. 101 \<le> ck_mono ck \<and> ck_mono ck \<le> 103 \<and>
      0 \<le> wall_ms ck \<and> wall_ms ck < 2 ^ 64 \<and>
      \<bar>wall_ms ck - wall_ms (demo_clock 100)\<bar> \<le> cd_max_clock_skew_ms (ag_codec demo_foreign)"
    by (simp add: demo_wall truncate_rat_def) (simp add: demo_defs demo_codec_def)
  show ?thesis
    using lab_uplink_recovers_loss [OF demo_aead_ok demo_can_send(1) fs build [unfolded abc] demo_agents_ok(2), of "(''127.0.0.1'', 5)"
        ?ds 103 101 lossy_profile l0 "[Datagram a 0, Datagram b 0, Datagram c 0, SendTurn 1 None, SendTurn 1 None]" l "[b, c]"
        "demo_foreign_config True"] demo_fresh l0 l spare clocks
    by (intro exI [of _ b] exI [of _ c]) (simp add: demo_foreign_def demo_iran_def demo_agent_def replay_size_def demo_window_def)
qed

end
