(* ===== verification/Lab_Run.thy ===== *)
theory Lab_Run
  imports Lab Agent_Process
begin

text \<open>
  The lab of \<open>scripts/lab_environment.py\<close> as a whole: the constructor with its backend, links and agents, \<open>start\<close> and
  \<open>stop\<close>, the end of a burst with the wait for the senders and the counters of the report, and a scenario from start to stop.
  Shown: the lab starts on free ports, everything it opened is closed after a scenario, the wait ends, the report
  names no counter that is missing and counts no more answers than requests.
\<close>


section \<open>The lab as a whole\<close>

record asymmetric_lab =
  al_backend :: backend
  al_uplink :: link
  al_downlink :: link
  al_iran :: process
  al_foreign :: process
  al_client_closed :: bool
  al_bursts :: lab

text \<open>
  The constructor, with the ports the operating system gave: it opens the backend, the links, the agents and the client.
  \<open>drawn_iran\<close> and \<open>drawn_foreign\<close> are what the constructors of the agents draw: a token and two numbers.
\<close>

type_synonym drawn = "bytes \<times> int \<times> int"

definition AsymmetricLab_init ::
  "crypto \<Rightarrow> clock \<Rightarrow> (string \<Rightarrow> string result) \<Rightarrow> bind_call \<Rightarrow> lab_ports \<Rightarrow> string \<Rightarrow> link_profile \<Rightarrow> link_profile \<Rightarrow> int \<Rightarrow>
     drawn \<Rightarrow> drawn \<Rightarrow> asymmetric_lab result" where
  "AsymmetricLab_init X ck resolve bind po folder uplink_profile downlink_profile response_size drawn_iran drawn_foreign =
     (case (drawn_iran, drawn_foreign) of ((token_i, sequence_i, message_i), (token_f, sequence_f, message_f)) \<Rightarrow>
     and_then (UdpLinkEmulator_init uplink_profile) (\<lambda>uplink.
     and_then (UdpLinkEmulator_init downlink_profile) (\<lambda>downlink.
     and_then (IranAgent_open X ck resolve bind (lab_iran_config po folder) None token_i sequence_i message_i) (\<lambda>iran.
     and_then (ForeignAgent_open X ck resolve bind (lab_foreign_config po folder) None token_f sequence_f message_f) (\<lambda>foreign.
     Inr \<lparr>al_backend = ExpandingBackend_init response_size, al_uplink = uplink, al_downlink = downlink,
          al_iran = iran, al_foreign = foreign, al_client_closed = False,
          al_bursts = \<lparr>lb_started = False, lb_next_request_id = 0\<rparr>\<rparr>)))))"

definition lab_start :: "(address \<Rightarrow> unit result) \<Rightarrow> lab_ports \<Rightarrow> string \<Rightarrow> asymmetric_lab \<Rightarrow> asymmetric_lab result" where
  "lab_start listen po folder L =
     and_then (ForeignAgent_start listen (lab_foreign_config po folder) (al_foreign L)) (\<lambda>foreign.
     and_then (IranAgent_start listen (lab_iran_config po folder) (al_iran L)) (\<lambda>iran.
     Inr (L\<lparr>al_foreign := foreign, al_iran := iran, al_bursts := (al_bursts L)\<lparr>lb_started := True\<rparr>\<rparr>)))"

text \<open>\<open>stop\<close>: the client, the agents, whose threads take the turns \<open>joining_i\<close> and \<open>joining_f\<close> meanwhile, the links and the backend.\<close>

definition lab_stop ::
  "crypto \<Rightarrow> clock \<Rightarrow> role \<Rightarrow> role \<Rightarrow> event list \<Rightarrow> event list \<Rightarrow> asymmetric_lab \<Rightarrow> asymmetric_lab" where
  "lab_stop X ck iran foreign joining_i joining_f L =
     L\<lparr>al_client_closed := True,
       al_iran := agent_stop X iran joining_i [] ck None (al_iran L),
       al_foreign := agent_stop X foreign joining_f [] ck None (al_foreign L),
       al_uplink := fst (link_step StopLink (al_uplink L)),
       al_downlink := fst (link_step StopLink (al_downlink L)),
       al_backend := (al_backend L)\<lparr>be_alive := False\<rparr>\<rparr>"

lemma lab_starts:
  assumes "ports_ok po" "validate up = Inr ()" "validate down = Inr ()" "length token_i = 8" "length token_f = 8"
    and "\<And>host. is_ok (resolve host)" "\<And>opened a. is_ok (bind opened a)" "\<And>a. is_ok (listen a)"
  shows "is_ok (and_then (AsymmetricLab_init X ck resolve bind po folder up down response_size (token_i, si, mi) (token_f, sf, mf))
     (lab_start listen po folder))"
proof -
  let ?i = "lab_iran_config po folder" and ?f = "lab_foreign_config po folder"
  have buffers: "fits_c_int (recv_buffer (Iran ?i))" "fits_c_int (recv_buffer (Foreign ?f))"
    by (simp_all add: fits_c_int_def lab_iran_config_def lab_foreign_config_def lab_common_def common_config.defs)
  obtain A where A: "agent_init X (Iran ?i) ck resolve None token_i si mi = Inr A"
    using lab_agents_start(1) [OF assms(1,4), of resolve] assms(6) by (blast elim: is_okE)
  obtain B where B: "agent_init X (Foreign ?f) ck resolve None token_f sf mf = Inr B"
    using lab_agents_start(2) [OF assms(1,5), of resolve] assms(6) by (blast elim: is_okE)
  have iran: "is_ok (IranAgent_open X ck resolve bind ?i None token_i si mi)"
    using agent_open_total [where bind = bind, OF A buffers(1) assms(7)] by simp
  have foreign: "is_ok (ForeignAgent_open X ck resolve bind ?f None token_f sf mf)"
    using agent_open_total [where bind = bind, OF B buffers(2) assms(7)] by simp
  have starts: "is_ok (IranAgent_start listen ?i P)" "is_ok (ForeignAgent_start listen ?f P)" for P
    using agent_start_total [of listen "Iran ?i" P] agent_start_total [of listen "Foreign ?f" P] assms(8) by simp_all
  have "is_ok (lab_start listen po folder L)" for L
    unfolding lab_start_def by (intro is_ok_and_then starts is_ok_simps)
  moreover have "is_ok (AsymmetricLab_init X ck resolve bind po folder up down response_size (token_i, si, mi) (token_f, sf, mf))"
    unfolding AsymmetricLab_init_def prod.case
    by (intro is_ok_and_then iran foreign is_ok_simps) (simp_all add: UdpLinkEmulator_init_def assms(2,3))
  ultimately show ?thesis by (intro is_ok_and_then)
qed

section \<open>The end of a burst\<close>

text \<open>
  The wait for the senders to drain: what \<open>time.monotonic()\<close> and the two senders show each time around, until the deadline or
  until nothing is queued or in flight. The result is None as long as it goes on.
\<close>

definition pending :: "sender \<Rightarrow> bool" where
  "pending s \<longleftrightarrow> ss_queued_messages (sender_snapshot s) \<noteq> 0 \<or> ss_inflight_messages (sender_snapshot s) \<noteq> 0"

fun drain :: "rat \<Rightarrow> (rat \<times> sender \<times> sender) list \<Rightarrow> (rat \<times> sender \<times> sender) option" where
  "drain deadline [] = None"
| "drain deadline ((now, iran, foreign) # rs) =
     (if \<not> now < deadline \<or> \<not> (pending iran \<or> pending foreign) then Some (now, iran, foreign) else drain deadline rs)"

lemma drain_ends: "now \<ge> deadline \<Longrightarrow> (now, i, f) \<in> set rs \<Longrightarrow> drain deadline rs \<noteq> None"
  by (induction rs) auto

lemma drained_or_late:
  "drain deadline rs = Some (now, iran, foreign) \<Longrightarrow> now < deadline \<Longrightarrow> \<not> pending iran \<and> \<not> pending foreign"
  by (induction deadline rs rule: drain.induct) (auto split: if_splits)

text \<open>The counters of the agents in the report: which agent's, under which name; a counter that is missing is a \<open>KeyError\<close>.\<close>

definition metric_value :: "metrics \<Rightarrow> string \<Rightarrow> json result" where
  "metric_value M k = (case dict_get (Metrics_snapshot M) k of None \<Rightarrow> Inl KeyError | Some v \<Rightarrow> Inr v)"

fun metric_values :: "(string \<times> metrics \<times> string) list \<Rightarrow> (string \<times> json) list result" where
  "metric_values [] = Inr []"
| "metric_values ((name, M, k) # rest) =
     and_then (metric_value M k) (\<lambda>v. and_then (metric_values rest) (\<lambda>vs. Inr ((name, v) # vs)))"

definition agent_drops :: "metrics \<Rightarrow> metrics \<Rightarrow> (string \<times> json) list result" where
  "agent_drops iran foreign = metric_values
     [(''iran_auth'', iran, ''auth_failures''), (''iran_replay'', iran, ''replay_drops''),
      (''iran_source'', iran, ''source_mismatch_drops''), (''foreign_auth'', foreign, ''auth_failures''),
      (''foreign_replay'', foreign, ''replay_drops''),
      (''foreign_inner_source'', foreign, ''inner_source_mismatch_drops'')]"

definition reliability_report :: "metrics \<Rightarrow> metrics \<Rightarrow> (string \<times> json) list result" where
  "reliability_report iran foreign = metric_values
     [(''iran_retransmitted_frames'', iran, ''retransmitted_frames''),
      (''foreign_retransmitted_frames'', foreign, ''retransmitted_frames''),
      (''iran_fec_recoveries'', iran, ''fec_recoveries''), (''foreign_fec_recoveries'', foreign, ''fec_recoveries''),
      (''iran_acked_messages'', iran, ''acked_messages''), (''foreign_acked_messages'', foreign, ''acked_messages''),
      (''iran_retry_exhausted'', iran, ''retry_exhausted''), (''foreign_retry_exhausted'', foreign, ''retry_exhausted'')]"

definition framed_byte_ratio :: "metrics \<Rightarrow> rat result" where
  "framed_byte_ratio iran =
     and_then (metric_value iran ''uplink_tx_bytes'') (\<lambda>up.
     and_then (metric_value iran ''downlink_rx_bytes'') (\<lambda>down.
     case (down, up) of
       (JInt d, JInt u) \<Rightarrow> Inr (if u \<noteq> 0 then round3 (of_int d / of_int u) else 0)
     | _ \<Rightarrow> Inl TypeError))"

lemma metric_values_total:
  "list_all (\<lambda>(name, M, k). metrics_ok M \<and> k \<in> set zero_counters) rs \<Longrightarrow> is_ok (metric_values rs)"
proof (induction rs rule: metric_values.induct)
  case (2 name M k rest)
  then obtain i where "dict_get (mt_data M) k = Some (JInt i)" by (auto simp: metrics_ok_def)
  then show ?case using 2 by (auto simp: metric_value_def Metrics_snapshot_def intro: is_ok_and_then)
qed simp

text \<open>The report of a burst finds every counter it names.\<close>

lemma report_total:
  assumes "metrics_ok iran" "metrics_ok foreign"
  shows "is_ok (agent_drops iran foreign)" "is_ok (reliability_report iran foreign)" "is_ok (framed_byte_ratio iran)"
proof -
  show "is_ok (agent_drops iran foreign)" "is_ok (reliability_report iran foreign)"
    unfolding agent_drops_def reliability_report_def
    by (rule metric_values_total, simp add: assms zero_counters_def)+
  have "''uplink_tx_bytes'' \<in> set zero_counters" "''downlink_rx_bytes'' \<in> set zero_counters"
    by (simp_all add: zero_counters_def)
  then obtain u d where "dict_get (mt_data iran) ''uplink_tx_bytes'' = Some (JInt u)"
    "dict_get (mt_data iran) ''downlink_rx_bytes'' = Some (JInt d)"
    using assms(1) unfolding metrics_ok_def by blast
  then show "is_ok (framed_byte_ratio iran)"
    by (simp add: framed_byte_ratio_def metric_value_def Metrics_snapshot_def)
qed


section \<open>A scenario from start to stop\<close>

text \<open>
  The bursts of a scenario one after the other, each with what happens during it, and the whole of \<open>run_profile\<close>: the
  lab stops whatever the bursts did.
\<close>

fun run_bursts ::
  "(rat \<Rightarrow> rat) \<Rightarrow> (burst_spec \<times> burst_event list) list \<Rightarrow> lab \<Rightarrow> (burst_report list \<times> lab) result" where
  "run_bursts round_to [] L = Inr ([], L)"
| "run_bursts round_to ((spec, es) # rest) L =
     and_then (burst_start (bs_count spec) (bs_request_size spec) L) (\<lambda>(b, sequences, L1).
     and_then (burst_run (bs_request_size spec) es b) (\<lambda>b1.
     and_then (run_bursts round_to rest L1) (\<lambda>(reports, L2). Inr (burst_summary round_to b1 # reports, L2))))"

definition run_scenario ::
  "crypto \<Rightarrow> clock \<Rightarrow> (address \<Rightarrow> unit result) \<Rightarrow> (rat \<Rightarrow> rat) \<Rightarrow> lab_ports \<Rightarrow> string \<Rightarrow> scenario \<Rightarrow> burst_event list list \<Rightarrow>
     event list \<Rightarrow> event list \<Rightarrow> asymmetric_lab \<Rightarrow> (burst_report list result \<times> asymmetric_lab) result" where
  "run_scenario X ck listen round_to po folder s events joining_i joining_f L =
     and_then (lab_start listen po folder L) (\<lambda>L1.
     let stop = lab_stop X ck (Iran (lab_iran_config po folder)) (Foreign (lab_foreign_config po folder)) joining_i joining_f in
     case run_bursts round_to (zip (sc_bursts s) events) (al_bursts L1) of
       Inl e \<Rightarrow> Inr (Inl e, stop L1)
     | Inr (reports, bursts) \<Rightarrow> Inr (Inr reports, stop (L1\<lparr>al_bursts := bursts\<rparr>)))"

text \<open>No report counts more answers than requests.\<close>

lemma run_bursts_bounded:
  assumes "run_bursts round_to rest L = Inr (reports, L2)" "list_all (\<lambda>(spec, es). 0 \<le> bs_count spec) rest"
  shows "list_all (\<lambda>r. 0 \<le> rp_received r \<and> rp_received r \<le> rp_sent r) reports"
  using assms
proof (induction rest arbitrary: L reports)
  case (Cons x rest)
  obtain spec es where x: "x = (spec, es)" by fastforce
  obtain b sequences L1 b1 reports1 where start: "burst_start (bs_count spec) (bs_request_size spec) L = Inr (b, sequences, L1)"
    and run: "burst_run (bs_request_size spec) es b = Inr b1" and later: "run_bursts round_to rest L1 = Inr (reports1, L2)"
    and reports: "reports = burst_summary round_to b1 # reports1"
    using Cons.prems(1) by (auto simp: x result_simps)
  have "burst_inv b" "br_count b = bs_count spec"
    using start by (auto simp: burst_start_def burst_inv_def Let_def split: if_splits)
  then have "int (card (br_received b1)) \<le> br_count b1"
    using burst_run_inv [OF _ run] Cons.prems(2) by (auto simp: burst_inv_def x)
  then show ?case using Cons.IH [OF later] Cons.prems(2) by (simp add: reports x burst_summary_def Let_def)
qed simp

text \<open>After a scenario everything the lab opened is closed, whatever its bursts did.\<close>

lemma scenario_stops:
  assumes "run_scenario X ck listen round_to po folder s events joining_i joining_f L = Inr (r, L')"
    and "pr_threads (al_iran L) = []" "pr_threads (al_foreign L) = []"
    and "\<And>l. l \<in> set (loops_of (Iran (lab_iran_config po folder))) \<Longrightarrow> 2 \<le> turns_of l joining_i"
    and "\<And>l. l \<in> set (loops_of (Foreign (lab_foreign_config po folder))) \<Longrightarrow> 2 \<le> turns_of l joining_f"
  shows "al_client_closed L' \<and> lk_stopped (al_uplink L') \<and> lk_stopped (al_downlink L') \<and> \<not> be_alive (al_backend L') \<and>
    list_all (\<lambda>(l, th). \<exists>x. th = Ended x) (pr_threads (al_iran L') @ pr_threads (al_foreign L')) \<and>
    list_all so_closed (pr_sockets (al_iran L') @ pr_sockets (al_foreign L'))"
proof -
  obtain L1 L2 where start: "lab_start listen po folder L = Inr L1" and
    L2: "L2 = L1 \<or> (\<exists>bursts. L2 = L1\<lparr>al_bursts := bursts\<rparr>)"
    "L' = lab_stop X ck (Iran (lab_iran_config po folder)) (Foreign (lab_foreign_config po folder)) joining_i joining_f L2"
  proof -
    obtain L1 where L1: "lab_start listen po folder L = Inr L1"
      using assms(1) by (auto simp: run_scenario_def result_simps)
    show thesis
    proof (cases "run_bursts round_to (zip (sc_bursts s) events) (al_bursts L1)")
      case (Inl e)
      then show thesis using assms(1) L1 by (intro that [OF L1, of L1]) (auto simp: run_scenario_def Let_def)
    next
      case (Inr x)
      then show thesis using assms(1) L1
        by (intro that [OF L1, of "L1\<lparr>al_bursts := snd x\<rparr>"]) (auto simp: run_scenario_def Let_def split: prod.splits)
    qed
  qed
  have "map fst (pr_threads (al_iran L1)) = loops_of (Iran (lab_iran_config po folder))"
    "map fst (pr_threads (al_foreign L1)) = loops_of (Foreign (lab_foreign_config po folder))"
    using start assms(2,3)
    by (auto simp: lab_start_def result_simps IranAgent_start_def ForeignAgent_start_def start_common_def spawn_def)
  then have threads: "map fst (pr_threads (al_iran L2)) = loops_of (Iran (lab_iran_config po folder))"
    "map fst (pr_threads (al_foreign L2)) = loops_of (Foreign (lab_foreign_config po folder))"
    using L2(1) by auto
  show ?thesis
    using agent_stop_ends [OF threads(1) assms(4), of X "[]" ck None] agent_stop_ends [OF threads(2) assms(5), of X "[]" ck None]
    by (simp add: L2(2) lab_stop_def Let_def del: loops_of.simps)
qed

end
