(* ===== verification/Cli.thy ===== *)
theory Cli
  imports Scan_Receiver Scan_Targets Raw_Udp Agent_Process
begin

text \<open>
  The command line of \<open>h3ntun/cli.py\<close> and of \<open>scripts/source_scanner.py\<close>: each command as a function of what it
  meets outside the program (the parsed document, sockets, the status endpoint, random bytes, clocks), and \<open>main\<close>
  with the exceptions it turns into an exit code. Argument parsing and printing are left out.
\<close>


section \<open>Exit codes\<close>

text \<open>How the process ends: with a code, or with the traceback of an exception that nothing caught.\<close>

datatype exit = ExitCode int | Traceback exn

definition cli_caught :: "exn \<Rightarrow> bool" where
  "cli_caught e \<longleftrightarrow>
     (case e of RuntimeError _ \<Rightarrow> True | OSError _ \<Rightarrow> True | KeyError \<Rightarrow> True | _ \<Rightarrow> is_value_error e)"

definition scanner_caught :: "exn \<Rightarrow> bool" where
  "scanner_caught e \<longleftrightarrow> (case e of RuntimeError _ \<Rightarrow> True | OSError _ \<Rightarrow> True | _ \<Rightarrow> is_value_error e)"

definition exit_of :: "(exn \<Rightarrow> bool) \<Rightarrow> int result \<Rightarrow> exit" where
  "exit_of caught r = (case r of Inr code \<Rightarrow> ExitCode code | Inl e \<Rightarrow> if caught e then ExitCode 1 else Traceback e)"


section \<open>Running and checking\<close>

text \<open>
  \<open>build\<close> constructs the agent of a configuration with its sockets, \<open>start\<close> starts it; the wait for a signal
  always ends with \<open>stop\<close>, which raises nothing.
\<close>

definition run_agent ::
  "(json \<Rightarrow> string) \<Rightarrow> (role \<Rightarrow> process result) \<Rightarrow> (role \<Rightarrow> process \<Rightarrow> process result) \<Rightarrow> json result \<Rightarrow> int result" where
  "run_agent show_json build start loaded =
     and_then (load_config show_json loaded) (\<lambda>config.
     and_then (build config) (\<lambda>agent.
     and_then (start config agent) (\<lambda>_. Inr 0)))"

definition check :: "(json \<Rightarrow> string) \<Rightarrow> json result \<Rightarrow> int result" where
  "check show_json loaded = and_then (load_config show_json loaded) (\<lambda>config. Inr 0)"


section \<open>The doctor\<close>

text \<open>
  \<open>resolve\<close> is \<open>socket.gethostbyname\<close>; \<open>connect\<close> binds a socket to the first address, connects it to the second and
  returns the address it then has.
\<close>

record doctor_report =
  dr_role :: string
  dr_remote_host :: string
  dr_remote_resolved :: string
  dr_selected_local_source :: string

fun doctor_endpoints :: "role \<Rightarrow> address \<times> address" where
  "doctor_endpoints (Iran c) = (ir_foreign_uplink c, ir_uplink_bind c)"
| "doctor_endpoints (Foreign c) =
     (fo_iran_downlink c,
      (case fo_downlink_source c of None \<Rightarrow> ''0.0.0.0'' | Some s \<Rightarrow> if s = [] then ''0.0.0.0'' else s,
       fo_downlink_source_port c))"

fun role_name :: "role \<Rightarrow> string" where
  "role_name (Iran c) = cf_role c"
| "role_name (Foreign c) = cf_role c"

definition doctor ::
  "(json \<Rightarrow> string) \<Rightarrow> (string \<Rightarrow> string result) \<Rightarrow> (address \<Rightarrow> address \<Rightarrow> string result) \<Rightarrow> json result
     \<Rightarrow> doctor_report result" where
  "doctor show_json resolve connect loaded =
     and_then (load_config show_json loaded) (\<lambda>config.
     let (remote, bind) = doctor_endpoints config in
     and_then (resolve (fst remote)) (\<lambda>resolved.
     and_then (connect bind (resolved, snd remote)) (\<lambda>chosen_source.
     Inr \<lparr>dr_role = role_name config, dr_remote_host = fst remote, dr_remote_resolved = resolved,
          dr_selected_local_source = chosen_source\<rparr>)))"


section \<open>Credentials\<close>

text \<open>\<open>generate-secret\<close>: the arguments are the bytes that \<open>secrets\<close> draws.\<close>

definition generate_secret :: "bytes \<Rightarrow> bytes \<Rightarrow> (string \<times> string) list" where
  "generate_secret token key = [(''tunnel_id'', hex_of token), (''shared_secret'', b64encode key)]"


section \<open>Status and verification\<close>

text \<open>
  How reading the status endpoint fails: in the network, in the JSON text, with a \<open>ValueError\<close> (bytes that are no
  text, or a URL of no known type), or because the answer is no HTTP: \<open>http.client.HTTPException\<close>, which is
  neither an \<open>OSError\<close> nor caught by \<open>main\<close>.
\<close>

datatype fetch_error = NetworkError string | NoJson string | NoText string | NoHttp string

definition get_status :: "(string \<Rightarrow> fetch_error + json) \<Rightarrow> string \<Rightarrow> json result" where
  "get_status fetch url =
     (case fetch url of
        Inr data \<Rightarrow> Inr data
      | Inl (NetworkError m) \<Rightarrow> Inl (RuntimeError (''cannot read status endpoint: '' @ m))
      | Inl (NoJson m) \<Rightarrow> Inl (RuntimeError (''cannot read status endpoint: '' @ m))
      | Inl (NoText m) \<Rightarrow> Inl (ValueError m)
      | Inl (NoHttp m) \<Rightarrow> Inl (HTTPException m))"

text \<open>\<open>data.get(key)\<close> on what the endpoint returned.\<close>

fun status_get :: "json \<Rightarrow> string \<Rightarrow> json \<Rightarrow> json result" where
  "status_get (JObj d) key fallback = Inr (setting d key fallback)"
| "status_get _ key fallback = Inl AttributeError"

definition read_status :: "(string \<Rightarrow> fetch_error + json) \<Rightarrow> string \<Rightarrow> int result" where
  "read_status fetch url =
     and_then (get_status fetch url) (\<lambda>data.
     and_then (status_get data ''healthy'' JNull) (\<lambda>healthy. Inr (if truthy healthy then 0 else 2)))"

definition status_count :: "json \<Rightarrow> string \<Rightarrow> int result" where
  "status_count data key = and_then (status_get data key (JInt 0)) py_int"

fun traffic_key :: "role \<Rightarrow> string" where
  "traffic_key (Iran c) = ''downlink_rx_packets''"
| "traffic_key (Foreign c) = ''uplink_rx_packets''"

fun expected_source :: "role \<Rightarrow> string option" where
  "expected_source (Iran c) = (case ir_expected_downlink_source c of None \<Rightarrow> None | Some s \<Rightarrow> if s = [] then None else Some s)"
| "expected_source (Foreign c) = None"

fun health_listen :: "role \<Rightarrow> address" where
  "health_listen (Iran c) = cf_health_listen c"
| "health_listen (Foreign c) = cf_health_listen c"

definition verify_checks :: "role \<Rightarrow> json \<Rightarrow> (string \<times> bool) list result" where
  "verify_checks config data =
     and_then (status_get data ''role'' JNull) (\<lambda>role.
     and_then (status_get data ''healthy'' JNull) (\<lambda>healthy.
     and_then (status_count data (traffic_key config)) (\<lambda>traffic.
     and_then (status_count data ''encrypted_frames_rx'') (\<lambda>encrypted.
     and_then (status_count data ''auth_failures'') (\<lambda>auth.
     and_then (status_count data ''source_mismatch_drops'') (\<lambda>mismatch.
     and_then (status_count data ''inner_source_mismatch_drops'') (\<lambda>inner_mismatch.
     and_then (status_count data ''queue_drops'') (\<lambda>queue.
     and_then (status_count data ''retry_exhausted'') (\<lambda>retry.
     let checks =
       [(''role_matches'', role = JStr (role_name config)), (''healthy'', truthy healthy),
        (''authenticated_traffic_seen'', traffic > 0), (''encrypted_frames_seen'', encrypted > 0),
        (''no_auth_failures'', auth = 0), (''no_source_mismatches'', mismatch = 0),
        (''no_inner_source_mismatches'', inner_mismatch = 0), (''no_queue_drops'', queue = 0),
        (''no_retry_exhaustion'', retry = 0)] in
     case expected_source config of
       None \<Rightarrow> Inr checks
     | Some s \<Rightarrow>
         and_then (status_get data ''last_downlink_source'' JNull) (\<lambda>source.
         Inr (checks @ [(''expected_source_seen'', source = JStr s)])))))))))))"

definition verify :: "(json \<Rightarrow> string) \<Rightarrow> (string \<Rightarrow> fetch_error + json) \<Rightarrow> json result \<Rightarrow> int result" where
  "verify show_json fetch loaded =
     and_then (load_config show_json loaded) (\<lambda>config.
     let (host, port) = health_listen config;
         status_host = (if host \<in> {''0.0.0.0'', ''::''} then ''127.0.0.1'' else host) in
     and_then (get_status fetch (''http://'' @ status_host @ '':'' @ str_int port @ ''/status'')) (\<lambda>data.
     and_then (verify_checks config data) (\<lambda>checks.
     Inr (if list_all snd checks then 0 else 2))))"


section \<open>The packet self-test, the echo peer and the link probe\<close>

definition packet_selftest :: "int \<Rightarrow> string \<Rightarrow> string \<Rightarrow> (bool \<times> int) result" where
  "packet_selftest random_id source destination =
     and_then (build_ipv4_udp_packet random_id source 40000 destination 40001 (ascii ''selftest'') (Some 1)) (\<lambda>packet.
     Inr (length packet = 20 + 8 + 8, int (length packet)))"

definition split_endpoint :: "string \<Rightarrow> address result" where
  "split_endpoint value =
     (if CHR '':'' \<notin> set value then Inl (ValueError ''not enough values to unpack'')
      else
        let (host, raw_port) = rsplit_last CHR '':'' value in
        and_then (int_of_text 10 raw_port) (\<lambda>port. Inr (host, port)))"

text \<open>
  The echo peer until it is interrupted: \<open>bind\<close> is the outcome of binding the socket, an arrival is a payload with
  its source and the message of the \<open>OSError\<close> of the answering \<open>sendto\<close>.
\<close>

fun echo_loop :: "(bytes \<times> address \<times> string option) list \<Rightarrow> int result \<times> (bytes \<times> address) list" where
  "echo_loop [] = (Inr 0, [])"
| "echo_loop ((payload, peer, fault) # arrivals) =
     (case fault of
        Some m \<Rightarrow> (Inl (OSError m), [])
      | None \<Rightarrow> (case echo_loop arrivals of (r, sent) \<Rightarrow> (r, (payload, peer) # sent)))"

definition echo_server ::
  "(address \<Rightarrow> unit result) \<Rightarrow> string \<Rightarrow> (bytes \<times> address \<times> string option) list \<Rightarrow> int result \<times> (bytes \<times> address) list" where
  "echo_server bind listen arrivals =
     (case and_then (split_endpoint listen) bind of
        Inl e \<Rightarrow> (Inl e, [])
      | Inr _ \<Rightarrow> echo_loop arrivals)"

text \<open>
  The link probe. The socket is the queue of the datagrams that arrived and were not read; \<open>arrives s\<close> are those that
  come in while the probe of sequence \<open>s\<close> waits. \<open>rtt\<close> is the measured time, already rounded.
\<close>

record sample =
  sm_sequence :: int
  sm_ok :: bool
  sm_rtt_ms :: "rat option"

definition probe_payload :: "(int \<Rightarrow> int) \<Rightarrow> int \<Rightarrow> bytes" where
  "probe_payload clock_ns s = ascii (''h3ntun-probe:'' @ str_int s @ '':'' @ str_int (clock_ns s))"

definition probe_turn ::
  "(int \<Rightarrow> int) \<Rightarrow> (int \<Rightarrow> rat) \<Rightarrow> (int \<Rightarrow> bytes list) \<Rightarrow> int \<Rightarrow> bytes list \<Rightarrow> sample \<times> bytes list" where
  "probe_turn clock_ns rtt arrives s waiting =
     (case waiting @ arrives s of
        [] \<Rightarrow> (\<lparr>sm_sequence = s, sm_ok = False, sm_rtt_ms = None\<rparr>, [])
      | received # rest \<Rightarrow>
          (\<lparr>sm_sequence = s, sm_ok = (received = probe_payload clock_ns s), sm_rtt_ms = Some (rtt s)\<rparr>, rest))"

fun probe_loop ::
  "(int \<Rightarrow> int) \<Rightarrow> (int \<Rightarrow> rat) \<Rightarrow> (int \<Rightarrow> string option) \<Rightarrow> (int \<Rightarrow> bytes list) \<Rightarrow> int list \<Rightarrow> bytes list
     \<Rightarrow> sample list result" where
  "probe_loop clock_ns rtt send_fails arrives [] waiting = Inr []"
| "probe_loop clock_ns rtt send_fails arrives (s # ss) waiting =
     (case send_fails s of
        Some m \<Rightarrow> Inl (OSError m)
      | None \<Rightarrow>
          (case probe_turn clock_ns rtt arrives s waiting of
             (sample, rest) \<Rightarrow>
               and_then (probe_loop clock_ns rtt send_fails arrives ss rest) (\<lambda>samples. Inr (sample # samples))))"

record probe_report =
  pl_ok :: bool
  pl_sent :: int
  pl_received :: int
  pl_loss_percent :: rat
  pl_samples :: "sample list"

definition probe_link ::
  "(rat \<Rightarrow> rat) \<Rightarrow> (int \<Rightarrow> int) \<Rightarrow> (int \<Rightarrow> rat) \<Rightarrow> (int \<Rightarrow> string option) \<Rightarrow> (int \<Rightarrow> bytes list) \<Rightarrow> string \<Rightarrow> int \<Rightarrow> rat
     \<Rightarrow> probe_report result" where
  "probe_link round_to clock_ns rtt send_fails arrives target n timeout =
     (if n \<le> 0 \<or> timeout \<le> 0 then Inl (ValueError ''count and timeout must be positive'')
      else
        and_then (split_endpoint target) (\<lambda>destination.
        and_then (probe_loop clock_ns rtt send_fails arrives (map int [1..<nat n + 1]) []) (\<lambda>samples.
        let received = int (length (filter sm_ok samples)) in
        Inr \<lparr>pl_ok = (received = n), pl_sent = n, pl_received = received,
             pl_loss_percent = round_to (of_int ((n - received) * 100) / of_int n), pl_samples = samples\<rparr>)))"


section \<open>Main\<close>

datatype command =
    CmdRun | CmdCheck | CmdDoctor | CmdGenerateSecret | CmdStatus string | CmdVerify
  | CmdPacketSelftest string string | CmdEcho string | CmdProbe string int rat

text \<open>What the commands meet outside the program.\<close>

record world =
  wd_show_json :: "json \<Rightarrow> string"
  wd_loaded :: "json result"
  wd_build :: "role \<Rightarrow> process result"
  wd_start :: "role \<Rightarrow> process \<Rightarrow> process result"
  wd_resolve :: "string \<Rightarrow> string result"
  wd_connect :: "address \<Rightarrow> address \<Rightarrow> string result"
  wd_fetch :: "string \<Rightarrow> fetch_error + json"
  wd_bind :: "address \<Rightarrow> unit result"
  wd_echo_arrivals :: "(bytes \<times> address \<times> string option) list"
  wd_round :: "rat \<Rightarrow> rat"
  wd_clock_ns :: "int \<Rightarrow> int"
  wd_rtt :: "int \<Rightarrow> rat"
  wd_send_fails :: "int \<Rightarrow> string option"
  wd_arrives :: "int \<Rightarrow> bytes list"
  wd_random_id :: int

fun dispatch :: "world \<Rightarrow> command \<Rightarrow> int result" where
  "dispatch w CmdRun = run_agent (wd_show_json w) (wd_build w) (wd_start w) (wd_loaded w)"
| "dispatch w CmdCheck = check (wd_show_json w) (wd_loaded w)"
| "dispatch w CmdDoctor =
     and_then (doctor (wd_show_json w) (wd_resolve w) (wd_connect w) (wd_loaded w)) (\<lambda>_. Inr 0)"
| "dispatch w CmdGenerateSecret = Inr 0"
| "dispatch w (CmdStatus url) = read_status (wd_fetch w) url"
| "dispatch w CmdVerify = verify (wd_show_json w) (wd_fetch w) (wd_loaded w)"
| "dispatch w (CmdPacketSelftest source destination) =
     and_then (packet_selftest (wd_random_id w) source destination) (\<lambda>_. Inr 0)"
| "dispatch w (CmdEcho listen) = fst (echo_server (wd_bind w) listen (wd_echo_arrivals w))"
| "dispatch w (CmdProbe target n timeout) =
     and_then (probe_link (wd_round w) (wd_clock_ns w) (wd_rtt w) (wd_send_fails w) (wd_arrives w) target n timeout)
       (\<lambda>result. Inr (if pl_ok result then 0 else 2))"

definition main :: "world \<Rightarrow> command \<Rightarrow> exit" where
  "main w c = exit_of cli_caught (dispatch w c)"



section \<open>The main function of the scanner\<close>

datatype scan_command =
    ScanReceiver string bool
  | ScanScanner string "string result option" "string option" "string option" "string option" "int option" int int

record scan_world =
  sw_show_json :: "json \<Rightarrow> string"
  sw_hmac :: "bytes \<Rightarrow> bytes \<Rightarrow> bytes"
  sw_files :: config_files
  sw_update_fails :: "update_step \<Rightarrow> string option"
  sw_arrivals :: "arrival list"
  sw_sample :: "nat \<Rightarrow> nat \<Rightarrow> nat list"
  sw_clock :: "string \<Rightarrow> int \<Rightarrow> int"
  sw_bind_fails :: "string \<Rightarrow> string option"
  sw_send_fails :: "string \<Rightarrow> int \<Rightarrow> string option"

definition rsplit_colon :: "string \<Rightarrow> (string \<times> string) result" where
  "rsplit_colon s =
     (if CHR '':'' \<notin> set s then Inl (ValueError ''not enough values to unpack'') else Inr (rsplit_last CHR '':'' s))"

fun scan_dispatch :: "scan_world \<Rightarrow> scan_command \<Rightarrow> int result" where
  "scan_dispatch w (ScanReceiver listen update) =
     and_then (rsplit_colon listen) (\<lambda>(host, port).
     and_then (int_of_text 10 port) (\<lambda>_.
     and_then (fst (run_receiver (sw_show_json w) (sw_hmac w) (sw_update_fails w) (sw_arrivals w) update (sw_files w)))
       (\<lambda>_. Inr 0)))"
| "scan_dispatch w (ScanScanner target candidates_file cidr ip_range pool sample_limit probes delay) =
     and_then (rsplit_colon target) (\<lambda>(host, port).
     and_then (parse_ip_targets (sw_sample w) candidates_file cidr ip_range pool sample_limit) (\<lambda>candidates.
     and_then (int_of_text 10 port) (\<lambda>_.
     and_then (fst (run_scanner (sw_show_json w) (sw_hmac w) (sw_clock w) (sw_bind_fails w) (sw_send_fails w)
         candidates (fs_config (sw_files w)) probes delay)) (\<lambda>_. Inr 0))))"

definition scan_main :: "scan_world \<Rightarrow> scan_command \<Rightarrow> exit" where
  "scan_main w c = exit_of scanner_caught (scan_dispatch w c)"

end
