(* ===== verification/Cli_Properties.thy ===== *)
theory Cli_Properties
  imports Cli Scan_Properties Process_Properties
begin

text \<open>
  What the tools do: which exceptions end a command with a traceback, that generated credentials load, what
  \<open>verify\<close> concludes from the status of an agent, and what late replies do to the link probe.
\<close>

section \<open>What escapes\<close>

text \<open>
  Checking a document ends with a code, 0 exactly when it loads, or with the traceback of a \<open>TypeError\<close> or an
  \<open>OverflowError\<close>, which a numeric setting that is no number, or not a finite one, causes.
\<close>

lemma exit_of_check:
  "exit_of cli_caught (check show_json (Inr (JObj raw))) =
     (case load_config show_json (Inr (JObj raw)) of Inr config \<Rightarrow> ExitCode 0
      | Inl e \<Rightarrow> if cli_caught e then ExitCode 1 else Traceback e)"
  by (simp add: exit_of_def check_def and_then_def split: sum.splits)

lemma check_exits:
  "case exit_of cli_caught (check show_json (Inr (JObj raw))) of
     ExitCode code \<Rightarrow> code = (if is_ok (load_config show_json (Inr (JObj raw))) then 0 else 1)
   | Traceback e \<Rightarrow> (\<exists>k \<in> set numeric_settings. \<exists>v. map_of raw k = Some v \<and>
       (e = TypeError \<and> no_number v \<or> e = OverflowError \<and> infinite_number v))"
  using load_config_raises [of raw show_json]
  by (auto simp: exit_of_check raises_only_def load_error_def cli_caught_def is_ok_def split: sum.splits exn.splits if_splits)

lemma null_setting_escapes: "exit_of cli_caught (check (\<lambda>_. []) (Inr (JObj demo_null_document))) = Traceback TypeError"
  by (simp add: exit_of_check demo_null_document_raises cli_caught_def is_value_error_def)

definition demo_missing_document :: "(string \<times> json) list" where
  "demo_missing_document =
     [(''role'', JStr ''iran''), (''tunnel_id'', JStr ''000102030405060708090a0b0c0d0e0f''),
      (''shared_secret'', JStr ''AAECAwQFBgcICQoLDA0ODxAREhMUFRYXGBkaGxwdHh8=''), (''inner_listen'', JStr ''127.0.0.1:50''),
      (''downlink_listen'', JStr ''0.0.0.0:71'')]"

lemma demo_missing_raises: "load_config (\<lambda>_. []) (Inr (JObj demo_missing_document)) = Inl KeyError"
  by code_simp

text \<open>
  A configuration without a required setting: the program reports it, the receiver of the scanner ends with a
  traceback.
\<close>

lemma missing_setting_escapes:
  assumes "fs_config (sw_files w) = Inr (JObj demo_missing_document)" "sw_show_json w = (\<lambda>_. [])"
  shows "exit_of cli_caught (check (\<lambda>_. []) (fs_config (sw_files w))) = ExitCode 1"
    "scan_main w (ScanReceiver ''0.0.0.0:7001'' b) = Traceback KeyError"
proof -
  show "exit_of cli_caught (check (\<lambda>_. []) (fs_config (sw_files w))) = ExitCode 1"
    by (simp add: assms exit_of_check demo_missing_raises cli_caught_def)
  have "(case rsplit_colon ''0.0.0.0:7001'' of Inr (h, p) \<Rightarrow> is_ok (int_of_text 10 p) | Inl _ \<Rightarrow> False)" by code_simp
  then obtain h p n where "rsplit_colon ''0.0.0.0:7001'' = Inr (h, p)" "int_of_text 10 p = Inr n"
    by (auto elim: is_okE split: sum.splits)
  then show "scan_main w (ScanReceiver ''0.0.0.0:7001'' b) = Traceback KeyError"
    by (simp add: scan_main_def run_receiver_def assms demo_missing_raises exit_of_def scanner_caught_def is_value_error_def)
qed


text \<open>
  \<open>run\<close> as a whole: loading, opening and starting. It ends with a traceback on a document that \<open>check\<close> accepts, one
  whose receive buffer is too large.
\<close>

lemma run_agent_launch:
  "run_agent show_json (\<lambda>role. agent_open X role ck resolve bind rf token sequence message_id) (agent_start listen) loaded =
     and_then (load_config show_json loaded) (\<lambda>role.
     and_then (launch X role ck resolve bind listen rf token sequence message_id) (\<lambda>_. Inr 0))"
  by (auto simp: run_agent_def launch_def and_then_def fun_eq_iff split: sum.splits)

lemma large_buffer_traceback:
  "exit_of cli_caught (check (\<lambda>_. []) (Inr (JObj demo_large_buffer))) = ExitCode 0"
  "exit_of cli_caught (run_agent (\<lambda>_. [])
     (\<lambda>role. agent_open demo_crypto role (demo_clock 1) Inr (\<lambda>_ _. Inr ()) None (replicate 8 0) 5 6)
     (agent_start (\<lambda>_. Inr ())) (Inr (JObj demo_large_buffer))) = Traceback TypeError"
proof -
  obtain role where role: "load_config (\<lambda>_. []) (Inr (JObj demo_large_buffer)) = Inr role" "recv_buffer role = 2 ^ 31"
    using demo_large_buffer_loads by (auto split: sum.splits)
  obtain A where A: "agent_init demo_crypto role (demo_clock 1) Inr None (replicate 8 0) 5 6 = Inr A"
    using demo_role_init [OF role(1)] .
  have "launch demo_crypto role (demo_clock 1) Inr (\<lambda>_ _. Inr ()) (\<lambda>_. Inr ()) None (replicate 8 0) 5 6 = Inl TypeError"
    using large_buffer_refused [OF A, of "\<lambda>_ _. Inr ()"] role(2) by simp
  then show "exit_of cli_caught (run_agent (\<lambda>_. [])
     (\<lambda>role. agent_open demo_crypto role (demo_clock 1) Inr (\<lambda>_ _. Inr ()) None (replicate 8 0) 5 6)
     (agent_start (\<lambda>_. Inr ())) (Inr (JObj demo_large_buffer))) = Traceback TypeError"
    unfolding run_agent_launch by (simp add: role(1) exit_of_def cli_caught_def is_value_error_def)
  show "exit_of cli_caught (check (\<lambda>_. []) (Inr (JObj demo_large_buffer))) = ExitCode 0"
    by (simp add: check_def role(1) exit_of_def)
qed


text \<open>
  C37. How a bad configuration ends a command. Checking a document exits with 0 exactly when it loads and with 1
  when the error is one that \<open>main\<close> reports; a traceback is left only for a \<open>TypeError\<close> or an \<open>OverflowError\<close> that
  a numeric setting caused by being no number, or one that is infinite or too large for a double. That happens, with a setting that is
  null; and the scanner leaves a traceback for a missing setting that \<open>check\<close> reports.
\<close>

theorem bad_configuration_exits:
  "(case exit_of cli_caught (check show_json (Inr (JObj raw))) of
      ExitCode code \<Rightarrow> code = (if is_ok (load_config show_json (Inr (JObj raw))) then 0 else 1)
    | Traceback e \<Rightarrow> (\<exists>k \<in> set numeric_settings. \<exists>v. map_of raw k = Some v \<and>
        (e = TypeError \<and> no_number v \<or> e = OverflowError \<and> infinite_number v))) \<and>
   exit_of cli_caught (check (\<lambda>_. []) (Inr (JObj demo_null_document))) = Traceback TypeError \<and>
   exit_of cli_caught (check (\<lambda>_. []) (Inr (JObj demo_missing_document))) = ExitCode 1 \<and>
   scan_main (w\<lparr>sw_show_json := (\<lambda>_. []), sw_files := \<lparr>fs_config = Inr (JObj demo_missing_document), fs_backup = None\<rparr>\<rparr>)
     (ScanReceiver ''0.0.0.0:7001'' b) = Traceback KeyError"
  using check_exits null_setting_escapes
    missing_setting_escapes(1) [of "w\<lparr>sw_show_json := (\<lambda>_. []), sw_files := \<lparr>fs_config = Inr (JObj demo_missing_document), fs_backup = None\<rparr>\<rparr>"]
    missing_setting_escapes(2) [of "w\<lparr>sw_show_json := (\<lambda>_. []), sw_files := \<lparr>fs_config = Inr (JObj demo_missing_document), fs_backup = None\<rparr>\<rparr>" b]
  by simp


section \<open>Credentials\<close>

lemma hex_chars: "c \<in> set (hex_of bs) \<Longrightarrow> c \<notin> set (''_-.'' @ str_whitespace)"
proof -
  assume "c \<in> set (hex_of bs)"
  then obtain x :: byte where "c = digit_char (unat x div 16) \<or> c = digit_char (unat x mod 16)" by (auto simp: hex_of_def)
  moreover have "unat x div 16 < 16" "unat x mod 16 < 16" using unat_byte_less [of x] by (simp_all add: less_mult_imp_div_less)
  ultimately obtain d where d: "d < 16" "c = digit_char d" by blast
  have "list_all (\<lambda>d. digit_char d \<notin> set (''_-.'' @ str_whitespace)) [0..<16]" by code_simp
  then show ?thesis using d unfolding list_all_iff by simp
qed

lemma length_hex: "length (hex_of bs) = 2 * length bs"
  by (induction bs) (simp_all add: hex_of_def)

lemma b64_chars: "c \<in> set (b64encode bs) \<Longrightarrow> c \<notin> set (''_-.'' @ str_whitespace)"
proof -
  assume "c \<in> set (b64encode bs)"
  then have "c = CHR ''='' \<or> (\<exists>v < 64. c = b64_char v)"
    using sextets_of_less [of bs] by (auto simp: b64encode_eq padding_def list_all_iff split: if_splits)
  moreover have "CHR ''='' \<notin> set (''_-.'' @ str_whitespace)" by code_simp
  ultimately show ?thesis using b64_char_plain by auto
qed

lemma length_b64: "length bs \<le> length (b64encode bs)"
  by (induction bs rule: b64encode.induct) simp_all



section \<open>What the verification reads\<close>

definition counter :: "metrics \<Rightarrow> string \<Rightarrow> int" where
  "counter M k = (case dict_get (mt_data M) k of Some (JInt i) \<Rightarrow> i | _ \<Rightarrow> 0)"

definition failure_counters :: "string list" where
  "failure_counters = [''auth_failures'', ''source_mismatch_drops'', ''inner_source_mismatch_drops'', ''queue_drops'', ''retry_exhausted'']"

lemma status_count_metrics:
  assumes "metrics_ok M" "k \<in> set zero_counters" "k \<noteq> ''healthy''"
  shows "status_count (JObj (dict_put ''healthy'' v (mt_data M))) k = Inr (counter M k)"
  using assms by (auto simp: metrics_ok_def status_count_def setting_def counter_def dict_simps)

lemma verify_checks_metrics:
  assumes M: "metrics_ok M" and role: "dict_get (mt_data M) ''role'' = Some (JStr (role_name config))"
  shows "\<exists>checks. verify_checks config (JObj (dict_put ''healthy'' (JBool h) (mt_data M))) = Inr checks \<and>
    (list_all snd checks \<longleftrightarrow> h \<and> 0 < counter M (traffic_key config) \<and> 0 < counter M ''encrypted_frames_rx'' \<and>
       (\<forall>k \<in> set failure_counters. counter M k = 0) \<and>
       (\<forall>s. expected_source config = Some s \<longrightarrow> dict_get (mt_data M) ''last_downlink_source'' = Some (JStr s)))"
proof -
  have keys: "list_all (\<lambda>k. k \<in> set zero_counters \<and> k \<noteq> ''healthy'')
      ([''downlink_rx_packets'', ''uplink_rx_packets'', ''encrypted_frames_rx''] @ failure_counters)"
    by code_simp
  have traffic: "traffic_key config \<in> {''downlink_rx_packets'', ''uplink_rx_packets''}" by (cases config) simp_all
  have "status_count (JObj (dict_put ''healthy'' (JBool h) (mt_data M))) k = Inr (counter M k)"
    if "k \<in> set (traffic_key config # ''encrypted_frames_rx'' # failure_counters)" for k
    using status_count_metrics [OF M] keys traffic that unfolding list_all_iff by fastforce
  then have counts: "status_count (JObj (dict_put ''healthy'' (JBool h) (mt_data M))) (traffic_key config) = Inr (counter M (traffic_key config))"
    "status_count (JObj (dict_put ''healthy'' (JBool h) (mt_data M))) ''encrypted_frames_rx'' = Inr (counter M ''encrypted_frames_rx'')"
    "\<And>k. k \<in> set failure_counters \<Longrightarrow> status_count (JObj (dict_put ''healthy'' (JBool h) (mt_data M))) k = Inr (counter M k)"
    by simp_all
  have gets: "status_get (JObj (dict_put ''healthy'' (JBool h) (mt_data M))) ''role'' JNull = Inr (JStr (role_name config))"
    "status_get (JObj (dict_put ''healthy'' (JBool h) (mt_data M))) ''healthy'' JNull = Inr (JBool h)"
    "status_get (JObj (dict_put ''healthy'' (JBool h) (mt_data M))) ''last_downlink_source'' JNull =
       Inr (lookup_or_none (mt_data M) ''last_downlink_source'')"
    using role by (simp_all add: setting_def lookup_or_none_def dict_simps)
  have source: "lookup_or_none (mt_data M) ''last_downlink_source'' = JStr s \<longleftrightarrow>
      dict_get (mt_data M) ''last_downlink_source'' = Some (JStr s)" for s
    by (auto simp: lookup_or_none_def split: option.splits)
  have "status_count (JObj (dict_put ''healthy'' (JBool h) (mt_data M))) ''auth_failures'' = Inr (counter M ''auth_failures'')"
    "status_count (JObj (dict_put ''healthy'' (JBool h) (mt_data M))) ''source_mismatch_drops'' = Inr (counter M ''source_mismatch_drops'')"
    "status_count (JObj (dict_put ''healthy'' (JBool h) (mt_data M))) ''inner_source_mismatch_drops'' = Inr (counter M ''inner_source_mismatch_drops'')"
    "status_count (JObj (dict_put ''healthy'' (JBool h) (mt_data M))) ''queue_drops'' = Inr (counter M ''queue_drops'')"
    "status_count (JObj (dict_put ''healthy'' (JBool h) (mt_data M))) ''retry_exhausted'' = Inr (counter M ''retry_exhausted'')"
    by (rule counts(3), simp add: failure_counters_def)+
  note failures = this
  have all: "(\<forall>k \<in> set failure_counters. counter M k = 0) \<longleftrightarrow> counter M ''auth_failures'' = 0 \<and>
      counter M ''source_mismatch_drops'' = 0 \<and> counter M ''inner_source_mismatch_drops'' = 0 \<and>
      counter M ''queue_drops'' = 0 \<and> counter M ''retry_exhausted'' = 0"
    by (simp add: failure_counters_def)
  show ?thesis
  proof (cases "expected_source config")
    case None
    then show ?thesis unfolding verify_checks_def gets counts(1,2) failures and_then_simps Let_def all by simp
  next
    case (Some s)
    show ?thesis
      unfolding verify_checks_def gets counts(1,2) failures and_then_simps Let_def all Some option.case
      by (intro exI conjI, rule refl) (simp add: source)
  qed
qed

text \<open>
  C38. Verification of a running agent: against the status that the agent's own health server gives, \<open>verify\<close> raises
  nothing and ends with code 0 exactly when the agent is healthy, authenticated traffic and frames came
  in, no failure was counted, and the last downlink source is the expected one; otherwise with 2.
\<close>

theorem verify_judges_agent:
  assumes "load_config show_json loaded = Inr config" "metrics_ok M"
    and "dict_get (mt_data M) ''role'' = Some (JStr (role_name config))"
    and "is_healthy now (Metrics_snapshot M) timeout = Inr healthy"
    and "do_GET now timeout ''/status'' M = Inr (200, data)" "\<And>url. fetch url = Inr data"
  shows "verify show_json fetch loaded = Inr
    (if healthy \<and> 0 < counter M (traffic_key config) \<and> 0 < counter M ''encrypted_frames_rx'' \<and>
        (\<forall>k \<in> set failure_counters. counter M k = 0) \<and>
        (\<forall>s. expected_source config = Some s \<longrightarrow> dict_get (mt_data M) ''last_downlink_source'' = Some (JStr s))
     then 0 else 2)"
proof -
  have "data = JObj (dict_put ''healthy'' (JBool healthy) (mt_data M))"
    using assms(4,5) by (simp add: do_GET_def Metrics_snapshot_def)
  moreover obtain host port where "health_listen config = (host, port)" by (cases "health_listen config")
  ultimately show ?thesis
    using verify_checks_metrics [OF assms(2,3), of healthy] assms(6)
    by (auto simp: verify_def assms(1) get_status_def)
qed

definition demo_metrics :: metrics where
  "demo_metrics = snd (Metrics_set 95 [(''last_pong_at'', JFloat (Fin 90)), (''last_downlink_source'', JStr ''198.51.100.8''),
     (''downlink_rx_packets'', JInt 3), (''encrypted_frames_rx'', JInt 3)] (Metrics_init ''iran'' ''m'' 1))"

theorem verify_judges_agent_witness:
  "verify (\<lambda>_. []) (\<lambda>_. Inr (JObj (dict_put ''healthy'' (JBool True) (mt_data demo_metrics)))) (Inr (JObj demo_document)) = Inr 0"
proof -
  have "(case load_config (\<lambda>_. []) (Inr (JObj demo_document)) of Inl _ \<Rightarrow> False
      | Inr c \<Rightarrow> role_name c = ''iran'' \<and> expected_source c = Some ''198.51.100.8'' \<and> traffic_key c = ''downlink_rx_packets'')"
    by code_simp
  then obtain c where c: "load_config (\<lambda>_. []) (Inr (JObj demo_document)) = Inr c" "role_name c = ''iran''"
    "expected_source c = Some ''198.51.100.8''" "traffic_key c = ''downlink_rx_packets''"
    by (auto split: sum.splits)
  have "settable [(''last_pong_at'', JFloat (Fin 90)), (''last_downlink_source'', JStr ''198.51.100.8''),
     (''downlink_rx_packets'', JInt 3), (''encrypted_frames_rx'', JInt 3)]"
  proof -
    have "''last_pong_at'' \<notin> set zero_counters" "''last_downlink_source'' \<notin> set zero_counters" by code_simp+
    then show ?thesis by (simp add: settable_def)
  qed
  then have ok: "metrics_ok demo_metrics"
    using Metrics_set_counts [of _ 95] metrics_ok_init [of "''iran''" "''m''" 1] unfolding demo_metrics_def counts_def by (metis snd_conv)
  have role: "dict_get (mt_data demo_metrics) ''role'' = Some (JStr ''iran'')" by code_simp
  have healthy: "is_healthy 100 (Metrics_snapshot demo_metrics) 20 = Inr True" by code_simp
  then have page: "do_GET 100 20 ''/status'' demo_metrics = Inr (200, JObj (dict_put ''healthy'' (JBool True) (mt_data demo_metrics)))"
    by (simp add: do_GET_def Metrics_snapshot_def)
  have "0 < counter demo_metrics ''downlink_rx_packets'' \<and> 0 < counter demo_metrics ''encrypted_frames_rx'' \<and>
      list_all (\<lambda>k. counter demo_metrics k = 0) failure_counters \<and>
      dict_get (mt_data demo_metrics) ''last_downlink_source'' = Some (JStr ''198.51.100.8'')"
    by code_simp
  then show ?thesis
    using verify_judges_agent [OF c(1) ok, of 100 20 True] role healthy page c(2-4) by (simp add: list_all_iff)
qed

section \<open>The properties of the tools\<close>

text \<open>
  C39. The credentials that \<open>generate-secret\<close> prints are read back by the configuration loader, whatever bytes were
  drawn; in particular none of them is taken for a placeholder.
\<close>

theorem generated_credentials_load:
  assumes "length token = 16" "length key = 32"
    and "generate_secret token key = [(''tunnel_id'', t), (''shared_secret'', k)]"
  shows "decode_tunnel_id (JStr t) = Inr token \<and> decode_secret (JStr k) = Inr key"
proof -
  have tk: "t = hex_of token" "k = b64encode key" using assms(3) by (simp_all add: generate_secret_def)
  have "reject_placeholder t ''tunnel_id'' = Inr ()"
    using hex_chars assms(1) unfolding tk by (intro reject_placeholder_plain) (simp_all add: length_hex)
  moreover have "reject_placeholder k ''shared_secret'' = Inr ()"
    using b64_chars length_b64 [of key] assms(2) unfolding tk by (intro reject_placeholder_plain) simp_all
  ultimately show ?thesis using assms(1,2) by (simp add: tk fromhex_hex_of b64decode_encode)
qed

theorem generated_credentials_load_witness:
  "decode_tunnel_id (JStr (hex_of (replicate 16 0xAB))) = Inr (replicate 16 0xAB) \<and>
   decode_secret (JStr (b64encode (replicate 32 7))) = Inr (replicate 32 7)"
  using generated_credentials_load [of "replicate 16 0xAB" "replicate 32 7"] by (simp add: generate_secret_def)



section \<open>Late replies\<close>

lemma ascii_inj: "ascii s = ascii t \<longleftrightarrow> s = t"
proof -
  have "inj (of_char :: char \<Rightarrow> byte)"
  proof (rule injI)
    fix c d :: char
    assume "(of_char c :: byte) = of_char d"
    then have "unat (of_char c :: byte) = unat (of_char d :: byte)" by simp
    moreover have "unat (of_char e :: byte) = of_char e" for e
    proof -
      have "unat (of_nat (of_char e) :: byte) = of_char e"
        using nat_of_char_less_256 [of e] by (simp only: unsigned_of_nat) (simp add: take_bit_nat_eq_self)
      then show ?thesis by (simp only: of_nat_of_char)
    qed
    ultimately have "(of_char c :: nat) = of_char d" by simp
    then show "c = d" by simp
  qed
  then show ?thesis by (simp add: ascii_def inj_map_eq_map)
qed

lemma digits_inj: "digits 10 m = digits 10 n \<Longrightarrow> m = n"
proof -
  have "parse_nat 10 (digits 10 k) = Some k" for k by (rule parse_nat_digits) simp_all
  then show "digits 10 m = digits 10 n \<Longrightarrow> m = n" by (metis option.inject)
qed

lemma probe_payload_inj:
  assumes "0 < s" "0 < s'" "probe_payload clock_ns s = probe_payload clock_ns s'"
  shows "s = s'"
proof -
  have colon: "CHR '':'' \<notin> set (digits 10 n)" for n
  proof -
    have "CHR '':'' \<notin> set decimal" by code_simp
    then show ?thesis using digits_chars by blast
  qed
  have "digits 10 (nat s) @ '':'' @ str_int (clock_ns s) = digits 10 (nat s') @ '':'' @ str_int (clock_ns s')"
    using assms by (simp add: probe_payload_def ascii_inj str_int_def)
  then have "takeWhile (\<lambda>c. c \<noteq> CHR '':'') (digits 10 (nat s) @ '':'' @ str_int (clock_ns s)) =
      takeWhile (\<lambda>c. c \<noteq> CHR '':'') (digits 10 (nat s') @ '':'' @ str_int (clock_ns s'))" by (rule arg_cong)
  then have "digits 10 (nat s) = digits 10 (nat s')" using colon by (subst (asm) (1 2) takeWhile_append2) auto
  then show ?thesis using digits_inj assms(1,2) by fastforce
qed

text \<open>Without late replies a probe counts exactly when its reply arrives.\<close>

lemma probe_in_time:
  assumes "\<And>s. send_fails s = None" "\<And>s. arrives s \<in> {[], [probe_payload clock_ns s]}"
  shows "\<exists>samples. probe_loop clock_ns rtt send_fails arrives ss [] = Inr samples \<and>
    map sm_ok samples = map (\<lambda>s. arrives s \<noteq> []) ss"
proof (induction ss)
  case (Cons s ss)
  then obtain samples where "probe_loop clock_ns rtt send_fails arrives ss [] = Inr samples"
    "map sm_ok samples = map (\<lambda>s. arrives s \<noteq> []) ss" by blast
  then show ?case using assms(1) [of s] assms(2) [of s] by (auto simp: probe_turn_def)
qed simp

text \<open>With one reply waiting, every further turn reads the reply to the probe before.\<close>

lemma probe_shifted:
  assumes "\<And>s. send_fails s = None" "\<And>s. a \<le> s \<Longrightarrow> arrives (int s) = [probe_payload clock_ns (int s)]"
  shows "2 \<le> a \<Longrightarrow> \<exists>samples. probe_loop clock_ns rtt send_fails arrives (map int [a..<b]) [probe_payload clock_ns (int a - 1)] = Inr samples \<and>
    filter sm_ok samples = []"
  using assms(2)
proof (induction "b - a" arbitrary: a)
  case (Suc k)
  then have ab: "[a..<b] = a # [Suc a..<b]" by (simp add: upt_conv_Cons)
  have "probe_payload clock_ns (int a - 1) \<noteq> probe_payload clock_ns (int a)"
    using probe_payload_inj [of "int a - 1" "int a" clock_ns] Suc.prems(1) by auto
  moreover have "k = b - Suc a" using Suc.hyps(2) by simp
  from Suc.hyps(1) [OF this] Suc.prems obtain samples
    where "probe_loop clock_ns rtt send_fails arrives (map int [Suc a..<b]) [probe_payload clock_ns (int a)] = Inr samples"
    "filter sm_ok samples = []" by auto
  ultimately show ?case using assms(1) Suc.prems(2) [of a] by (simp add: ab probe_turn_def del: upt_Suc)
qed simp

text \<open>
  C40. One late reply spoils a whole measurement: when the reply to the first probe arrives during the turn of
  the second, and every other reply arrives in its own turn, \<open>probe\<close> reports that nothing was received and
  the full loss, since from then on each turn reads the reply to the probe before.
\<close>

theorem late_reply_spoils_probes:
  assumes "2 \<le> n" "0 < timeout" "split_endpoint target = Inr destination" "\<And>s. send_fails s = None"
    and "arrives 1 = []" "arrives 2 = [probe_payload clock_ns 1, probe_payload clock_ns 2]"
      "\<And>s. 3 \<le> s \<Longrightarrow> arrives s = [probe_payload clock_ns s]"
  shows "\<exists>report. probe_link round_to clock_ns rtt send_fails arrives target n timeout = Inr report \<and>
    pl_received report = 0 \<and> pl_loss_percent report = round_to 100 \<and> \<not> pl_ok report"
proof -
  have list: "map int [1..<nat n + 1] = 1 # 2 # map int [3..<nat n + 1]"
  proof -
    have "[1..<nat n + 1] = 1 # [Suc 1..<nat n + 1]" "[Suc 1..<nat n + 1] = Suc 1 # [Suc (Suc 1)..<nat n + 1]"
      using assms(1) by (intro upt_conv_Cons, simp)+
    then have "[1..<nat n + 1] = 1 # 2 # [3..<nat n + 1]" by (simp only: numeral_2_eq_2 numeral_3_eq_3 One_nat_def)
    then show ?thesis by (simp del: upt_Suc)
  qed
  have "arrives (int s) = [probe_payload clock_ns (int s)]" if "3 \<le> s" for s using assms(7) [of "int s"] that by simp
  then obtain samples where rest: "probe_loop clock_ns rtt send_fails arrives (map int [3..<nat n + 1]) [probe_payload clock_ns 2] = Inr samples"
    "filter sm_ok samples = []"
    using probe_shifted [of send_fails 3 arrives clock_ns rtt "nat n + 1"] assms(4) by auto
  have "probe_payload clock_ns 1 \<noteq> probe_payload clock_ns 2" using probe_payload_inj [of 1 2 clock_ns] by auto
  then have "\<exists>samples. probe_loop clock_ns rtt send_fails arrives (map int [1..<nat n + 1]) [] = Inr samples \<and> filter sm_ok samples = []"
    using rest assms(4,5,6) unfolding list by (simp add: probe_turn_def)
  then show ?thesis using assms(1-3) by (auto simp: probe_link_def Let_def simp del: upt_Suc)
qed

definition demo_replies :: "int \<Rightarrow> bytes list" where
  "demo_replies s = (if s = 1 then [] else if s = 2 then [probe_payload (\<lambda>s. 1000 * s) 1, probe_payload (\<lambda>s. 1000 * s) 2]
     else [probe_payload (\<lambda>s. 1000 * s) s])"

theorem late_reply_spoils_probes_witness:
  "\<exists>report. probe_link (\<lambda>x. x) (\<lambda>s. 1000 * s) (\<lambda>_. 1) (\<lambda>_. None) demo_replies ''127.0.0.1:5000'' 5 3 = Inr report \<and>
    pl_received report = 0 \<and> pl_loss_percent report = 100"
proof -
  have "is_ok (split_endpoint ''127.0.0.1:5000'')" by code_simp
  then obtain d where "split_endpoint ''127.0.0.1:5000'' = Inr d" by (rule is_okE)
  then show ?thesis
    using late_reply_spoils_probes [of 5 3 "''127.0.0.1:5000''" d "\<lambda>_. None" demo_replies "\<lambda>s. 1000 * s" "\<lambda>x. x" "\<lambda>_. 1"]
    by (simp add: demo_replies_def) blast
qed

end
