(* ===== verification/Spec2Isabelle.thy ===== *)
theory Spec2Isabelle
  imports Frame_Codec Persistent_Replay Reassembly Reliable_Sender Agent_Properties Raw_Udp Process_Properties
    Scan_Targets Scan_Properties Lab_Run Cli_Properties
begin

text \<open>
  A verification development of h3ntun, an asymmetric UDP tunnel in Python: the Iran agent sends to the
  foreign agent over one path (the uplink) and receives over another (the downlink). Applications talk to
  an agent over a local socket; what they send travels as fragments in authenticated frames, is acknowledged,
  sent again when the acknowledgement does not come, and delivered once.

  \<^bold>\<open>How the program hangs together.\<close> A datagram from an application enters \<open>inner_loop\<close> of an agent
  (\<open>h3ntun/agent.py\<close>), is cut by \<open>fragment_message\<close> (\<open>h3ntun/reliability.py\<close>), sealed by \<open>FrameCodec.encode\<close>
  (\<open>h3ntun/protocol.py\<close>) and handed to the \<open>ReliableSender\<close>, whose pump sends it. A datagram from the tunnel
  enters \<open>downlink_loop\<close> or \<open>uplink_loop\<close>, is opened by \<open>FrameCodec.decode\<close>, checked against the
  \<open>PersistentReplayWindow\<close>, and put together by the \<open>Reassembler\<close>, or taken by the sender as an
  acknowledgement. \<open>h3ntun/config.py\<close> builds the configuration that all of this relies on, \<open>h3ntun/metrics.py\<close> and
  \<open>h3ntun/health.py\<close> count and report, \<open>h3ntun/cli.py\<close> is the command line, \<open>h3ntun/raw_udp.py\<close> builds packets offline,
  \<open>scripts/source_scanner.py\<close> finds a source address for the downlink and \<open>scripts/lab_environment.py\<close> runs two
  agents over emulated links.

  \<^bold>\<open>Foundations.\<close>
  \<open>Prelude\<close>: Python's exceptions as the datatype \<open>exn\<close>, fallible code as \<open>exn + 'a\<close> (\<open>Inl\<close> is a raise),
  dictionaries in insertion order, the collections of simplification rules.
  \<open>Py_Struct\<close>: the \<open>struct\<close> module with network byte order, and the interface \<open>packed_record\<close> of a header that is packed
  and unpacked. \<open>Py_Json\<close>: JSON values with the conversions \<open>int\<close> and \<open>str\<close>. \<open>Py_Net\<close>: texts of IPv4 addresses.
  \<open>Py_Text\<close>: \<open>strip\<close>, \<open>lower\<close>, \<open>float\<close>, hexadecimal and base64 text. \<open>Effects\<close>: state passing for the agents.

  \<^bold>\<open>The tunnel.\<close>
  \<open>Frame_Codec\<close>: \<open>FrameCodec\<close>; which packets decode, and to what, and the nonces they are sealed under (C1 to C4).
  \<open>Replay_Window\<close>: \<open>ReplayWindow\<close>, refined to a window that remembers every frame (C5 to C7).
  \<open>Persistent_Replay\<close>: \<open>PersistentReplayWindow\<close> as a step relation of receivers, writer, failing writes and shutdown,
  with crashes at every point (C8 to C11).
  \<open>Fragmentation\<close>, \<open>Reassembly\<close>: \<open>fragment_message\<close> and \<open>Reassembler\<close>, parity included (C12 to C14).
  \<open>Reliable_Sender\<close>: \<open>ReliableSender\<close>, its window, its retransmissions, and the time by
  which every message has left it, from a potential that no call increases (C15 to C17).
  \<open>Metrics\<close>: the counters and the health verdict. \<open>Config\<close>: the records of the configuration.
  \<open>Agent\<close>: the handlers of both agents; \<open>Agent_Invariant\<close>: the invariant that each keeps; \<open>Agent_Rounds\<close>: one
  round of each thread as a step relation, with reachability; \<open>Agent_Behaviour\<close>, \<open>Agent_Delivery\<close>: the interface
  \<open>tunnel_receiver\<close> of a receive loop, fulfilled by both roles, and delivery from one agent to the other;
  \<open>Agent_Properties\<close>: what follows (C18 to C21).

  \<^bold>\<open>Around the tunnel.\<close>
  \<open>Raw_Udp\<close>: the checksum of RFC 1071 and the packet builder (C22, C23).
  \<open>Config_Loader\<close>, \<open>Config_Properties\<close>: \<open>load_config\<close> from the parsed document on, what it accepts and what it raises (C24).
  \<open>Agent_Start\<close>: a loaded configuration gives an agent that can send. \<open>Agent_Process\<close>, \<open>Process_Properties\<close>: the
  agent as a process, with the sockets its constructor opens, the threads of \<open>start\<close>, each loop as turns of
  its thread around the handlers, and \<open>stop\<close>; the turns of the threads refine the rounds of the agent, and end
  after \<open>stop\<close> (C25 to C30).
  \<open>Scan_Probe\<close>, \<open>Scan_Targets\<close>, \<open>Scan_Receiver\<close>, \<open>Scan_Properties\<close>: the probes, the candidate lists, the receiver with its
  ranking, said again in terms of what arrived, and its update of the configuration, the scanner, and a scan from end to end (C31 to C34).
  \<open>Lab_Link\<close>: the link emulator with the interface \<open>min_queue\<close> of \<open>heapq\<close> (C35). \<open>Lab\<close>: backend, bursts,
  scenarios, and a message that crosses the emulated uplink to the other agent (C36); \<open>Lab_Run\<close>: the lab
  with both agents from its constructor to \<open>stop\<close>.
  \<open>Cli\<close>, \<open>Cli_Properties\<close>: the commands with their exit codes (C37 to C40).

  \<^bold>\<open>Correspondence.\<close> A class is a record whose fields carry a prefix (\<open>rs_\<close>, \<open>ra_\<close>, \<open>ag_\<close>, ...); a method is a
  definition with the method's name, or \<open>Class_method\<close> where names clash, that takes and returns the
  state; every raise and early return is a branch. Loops over data are recursive functions; the endless loops of
  threads are single rounds, composed by step relations or event lists, or turns that test the stop event. Loops that the code leaves to a
  condition (the carry loop of the checksum, the trimming of tables) are total functions with a measure, so no
  fuel is used anywhere.

  \<^bold>\<open>Idealisations.\<close> Floats are exact rationals where the code computes times, delays, the congestion window
  and percentages; configuration values are the exact doubles. Each handler reads the clock
  once and runs to its end before another starts on the same object, as the locks of the code make it. Text has characters of
  8 bits, so that encoding it for a file does not fail on a lone surrogate. The AEAD, digests and HMAC are parameters with named hypotheses (\<open>aead_ok\<close>: what is sealed opens to the same;
  \<open>digest_ok\<close>, \<open>hmac_ok\<close>: the length of a digest), with a concrete instance in every witness. \<open>random.sample\<close>,
  \<open>socket\<close> calls, the JSON text layer, files and random bytes are arguments; a file that the code replaces by renaming is a value
  that changes in one step. \<open>base64\<close> is that of Python 3.11.

  A socket is what was bound and set on it; what \<open>bind\<close>, \<open>recvfrom\<close> and \<open>sendto\<close> do is chosen by the environment in
  every turn, and threads take turns in any order. \<open>setsockopt\<close> and the limits of lock timeouts are those of
  CPython 3.11.

  \<^bold>\<open>Not modelled.\<close> The parsing of arguments, printed tables and log lines; time spent waiting (a wait ends or it does
  not; two seconds of \<open>join\<close> are as many turns as it takes); the HTTP server and the signal handlers; the search for free
  ports; tests, the sandbox script, shell scripts and packaging. These either do no more than call the standard library
  or have no result that another part reads.
\<close>

end
